(* ===== verification/Prelude.thy ===== *)
theory Prelude
  imports
    Main
    "HOL-Library.Word"
    "HOL-Library.Sublist"
    "HOL-Library.AList"
    "HOL-Library.Char_ord"
    "HOL-Library.List_Lexorder"
begin

text \<open>
  Shared vocabulary of the development: the collections of rewrite rules that the component
  theories fill (\<open>world_simps\<close> for the effectful primitives, \<open>fs_simps\<close> for the file system,
  \<open>db_simps\<close> for the tables, \<open>path_simps\<close> for lexical paths), the names of the model's basic
  types, and generic facts on lists, bytes and sums that several components use.
\<close>

named_theorems world_simps
named_theorems fs_simps
named_theorems db_simps
named_theorems path_simps

section \<open>Types\<close>

text \<open>
  A Go string is a sequence of bytes and HOL's \<open>char\<close> is exactly a byte, so Go strings are
  HOL strings.  Go's \<open>int64\<close> is a 64-bit word read in two's complement by \<open>sint\<close>.
\<close>

type_synonym int64 = "64 word"

abbreviation byte_of :: "char \<Rightarrow> nat" where
  "byte_of c \<equiv> of_char c"

abbreviation HasPrefix :: "string \<Rightarrow> string \<Rightarrow> bool" where
  "HasPrefix s p \<equiv> prefix p s"

abbreviation Contains :: "string \<Rightarrow> string \<Rightarrow> bool" where
  "Contains s t \<equiv> sublist t s"

section \<open>Bytes\<close>

lemma byte_of_less [simp]: "byte_of c < 256"
  using nat_of_char_less_256 .

lemma char_of_byte_of [simp]: "char_of (byte_of c) = c"
  by simp

lemma byte_of_char_of [simp]: "n < 256 \<Longrightarrow> byte_of (char_of n) = n"
  by (simp add: of_char_of)

lemma byte_of_inject [simp]: "byte_of c = byte_of d \<longleftrightarrow> c = d"
  by (metis char_of_byte_of)

section \<open>Lists\<close>

lemma takeWhile_append_stop: "\<forall>x\<in>set xs. P x \<Longrightarrow> \<not> P y \<Longrightarrow> takeWhile P (xs @ y # ys) = xs"
  by (induction xs) auto

lemma dropWhile_append_stop: "\<forall>x\<in>set xs. P x \<Longrightarrow> \<not> P y \<Longrightarrow> dropWhile P (xs @ y # ys) = y # ys"
  by (induction xs) auto

lemma last_segment_unique:
  assumes "xs @ c # ys = xs' @ c # ys'" and "c \<notin> set ys" and "c \<notin> set ys'"
  shows "xs = xs' \<and> ys = ys'"
proof -
  have "rev ys @ c # rev xs = rev ys' @ c # rev xs'"
    using arg_cong [OF assms(1), of rev] by simp
  then have "takeWhile (\<lambda>x. x \<noteq> c) (rev ys @ c # rev xs)
           = takeWhile (\<lambda>x. x \<noteq> c) (rev ys' @ c # rev xs')" by simp
  moreover have "\<forall>x\<in>set (rev ys). x \<noteq> c" "\<forall>x\<in>set (rev ys'). x \<noteq> c"
    using assms(2,3) by auto
  ultimately have "rev ys = rev ys'"
    by (simp add: takeWhile_append_stop)
  then show ?thesis using assms(1) by simp
qed

lemma first_segment_unique:
  assumes "xs @ c # ys = xs' @ c # ys'" and "c \<notin> set xs" and "c \<notin> set xs'"
  shows "xs = xs' \<and> ys = ys'"
proof -
  have "\<forall>x\<in>set xs. x \<noteq> c" "\<forall>x\<in>set xs'. x \<noteq> c" using assms(2,3) by auto
  then have "takeWhile (\<lambda>x. x \<noteq> c) (xs @ c # ys) = xs"
    and "takeWhile (\<lambda>x. x \<noteq> c) (xs' @ c # ys') = xs'"
    by (simp_all add: takeWhile_append_stop)
  with assms(1) have "xs = xs'" by simp
  then show ?thesis using assms(1) by simp
qed

end
