(* ===== verification/GoStrings.thy ===== *)
theory GoStrings
  imports Prelude
begin

text \<open>
  The parts of Go's standard library on strings that s3bender uses, on byte strings:
  \<open>strings.Split\<close>, \<open>Join\<close>, \<open>Cut\<close>, \<open>TrimPrefix\<close>, \<open>TrimRight\<close>, \<open>TrimSpace\<close>, \<open>EqualFold\<close> (against
  an ASCII word), the UTF-8 decoder behind \<open>utf8.RuneCountInString\<close> and \<open>strings.IndexFunc\<close>, and
  \<open>strconv.FormatInt\<close>, \<open>ParseInt\<close> (base 10, 64 bits) and \<open>FormatBool\<close>.  The lemmas show that the
  printers and parsers are inverse to each other.
\<close>

section \<open>Splitting and joining\<close>

fun split_on :: "char \<Rightarrow> string \<Rightarrow> string list" where
  "split_on c [] = [[]]"
| "split_on c (x # xs) =
     (if x = c then [] # split_on c xs
      else (case split_on c xs of [] \<Rightarrow> [[x]] | y # ys \<Rightarrow> (x # y) # ys))"

fun join_with :: "string \<Rightarrow> string list \<Rightarrow> string" where
  "join_with sep [] = []"
| "join_with sep [x] = x"
| "join_with sep (x # y # xs) = x @ sep @ join_with sep (y # xs)"

lemma split_on_not_Nil [simp]: "split_on c s \<noteq> []"
  by (cases s) (auto split: list.split)

lemma join_with_Cons: "xs \<noteq> [] \<Longrightarrow> join_with sep (x # xs) = x @ sep @ join_with sep xs"
  by (cases xs) auto

lemma join_split [simp]: "join_with [c] (split_on c s) = s"
proof (induction s)
  case (Cons x xs)
  show ?case
  proof (cases "split_on c xs")
    case (Cons y ys)
    with Cons.IH show ?thesis by (cases ys) (auto simp: Cons join_with_Cons)
  qed (simp add: Cons)
qed simp

lemma split_on_no_sep: "c \<notin> set s \<Longrightarrow> split_on c s = [s]"
  by (induction s) auto

lemma split_on_append_sep: "c \<notin> set s \<Longrightarrow> split_on c (s @ c # t) = s # split_on c t"
  by (induction s) auto

lemma split_join:
  "xs \<noteq> [] \<Longrightarrow> \<forall>x\<in>set xs. c \<notin> set x \<Longrightarrow> split_on c (join_with [c] xs) = xs"
proof (induction xs)
  case (Cons x xs)
  show ?case
  proof (cases "xs = []")
    case True
    with Cons.prems show ?thesis by (simp add: split_on_no_sep)
  next
    case False
    with Cons show ?thesis by (simp add: join_with_Cons split_on_append_sep)
  qed
qed simp

lemma split_on_sep_free: "x \<in> set (split_on c s) \<Longrightarrow> c \<notin> set x"
proof (induction s arbitrary: x)
  case (Cons y ys)
  then show ?case by (auto split: if_splits list.splits)
qed auto

lemma split_on_set: "x \<in> set (split_on c s) \<Longrightarrow> set x \<subseteq> set s"
proof (induction s arbitrary: x)
  case (Cons y ys)
  then show ?case by (fastforce split: if_splits list.splits)
qed auto

lemma split_on_append:
  "split_on c (s @ c # t) = split_on c s @ split_on c t"
proof (induction s)
  case (Cons x xs)
  then show ?case by (auto split: list.splits)
qed simp

text \<open>\<open>strings.Cut\<close>, \<open>strings.TrimPrefix\<close> and \<open>strings.TrimRight\<close> with a one-character cutset.\<close>

definition cut_at :: "char \<Rightarrow> string \<Rightarrow> string \<times> string \<times> bool" where
  "cut_at c s =
     (if c \<in> set s then (takeWhile (\<lambda>x. x \<noteq> c) s, tl (dropWhile (\<lambda>x. x \<noteq> c) s), True)
      else (s, [], False))"

definition TrimPrefix :: "string \<Rightarrow> string \<Rightarrow> string" where
  "TrimPrefix s p = (if HasPrefix s p then drop (length p) s else s)"

definition TrimRightChar :: "string \<Rightarrow> char \<Rightarrow> string" where
  "TrimRightChar s c = rev (dropWhile (\<lambda>x. x = c) (rev s))"

lemma cut_at_append: "c \<notin> set a \<Longrightarrow> cut_at c (a @ c # b) = (a, b, True)"
proof -
  assume "c \<notin> set a"
  then have "\<forall>x\<in>set a. x \<noteq> c" by auto
  then show ?thesis
    by (simp add: cut_at_def takeWhile_append_stop dropWhile_append_stop)
qed

lemma cut_at_none: "c \<notin> set a \<Longrightarrow> cut_at c a = (a, [], False)"
  by (simp add: cut_at_def)

lemma TrimPrefix_append [simp]: "TrimPrefix (p @ s) p = s"
  by (simp add: TrimPrefix_def)

section \<open>Runes\<close>

text \<open>
  \<open>utf8.DecodeRuneInString\<close>: the code point and the width of the first rune; an encoding error
  is the replacement rune U+FFFD (65533) with width 1.
\<close>

definition is_cont :: "char \<Rightarrow> bool" where
  "is_cont c \<longleftrightarrow> 128 \<le> byte_of c \<and> byte_of c < 192"

definition byte_in :: "char \<Rightarrow> nat \<Rightarrow> nat \<Rightarrow> bool" where
  "byte_in c lo hi \<longleftrightarrow> lo \<le> byte_of c \<and> byte_of c \<le> hi"

definition rune_error :: nat where "rune_error = 65533"

fun decode2 :: "char \<Rightarrow> string \<Rightarrow> nat \<times> nat" where
  "decode2 c0 (c1 # _) =
     (if is_cont c1 then ((byte_of c0 - 192) * 64 + (byte_of c1 - 128), 2) else (rune_error, 1))"
| "decode2 c0 _ = (rune_error, 1)"

fun decode3 :: "char \<Rightarrow> string \<Rightarrow> nat \<times> nat" where
  "decode3 c0 (c1 # c2 # _) =
     (if byte_in c1 (if byte_of c0 = 224 then 160 else 128) (if byte_of c0 = 237 then 159 else 191)
         \<and> is_cont c2
      then ((byte_of c0 - 224) * 4096 + (byte_of c1 - 128) * 64 + (byte_of c2 - 128), 3)
      else (rune_error, 1))"
| "decode3 c0 _ = (rune_error, 1)"

fun decode4 :: "char \<Rightarrow> string \<Rightarrow> nat \<times> nat" where
  "decode4 c0 (c1 # c2 # c3 # _) =
     (if byte_in c1 (if byte_of c0 = 240 then 144 else 128) (if byte_of c0 = 244 then 143 else 191)
         \<and> is_cont c2 \<and> is_cont c3
      then ((byte_of c0 - 240) * 262144 + (byte_of c1 - 128) * 4096
            + (byte_of c2 - 128) * 64 + (byte_of c3 - 128), 4)
      else (rune_error, 1))"
| "decode4 c0 _ = (rune_error, 1)"

definition decode_rune :: "string \<Rightarrow> nat \<times> nat" where
  "decode_rune s = (case s of [] \<Rightarrow> (rune_error, 0) | c0 # cs \<Rightarrow>
      if byte_of c0 < 128 then (byte_of c0, 1)
      else if byte_of c0 < 194 then (rune_error, 1)
      else if byte_of c0 < 224 then decode2 c0 cs
      else if byte_of c0 < 240 then decode3 c0 cs
      else if byte_of c0 < 245 then decode4 c0 cs
      else (rune_error, 1))"

lemma decode_multi_width:
  "0 < snd (decode2 c cs)" "0 < snd (decode3 c cs)" "0 < snd (decode4 c cs)"
    apply (cases "(c, cs)" rule: decode2.cases; simp)
   apply (cases "(c, cs)" rule: decode3.cases; simp)
  apply (cases "(c, cs)" rule: decode4.cases; simp)
  done

lemma decode_multi_high:
  "128 \<le> byte_of c0 \<Longrightarrow> c \<in> set (take (snd (decode2 c0 cs)) (c0 # cs)) \<Longrightarrow> 128 \<le> byte_of c"
  "128 \<le> byte_of c0 \<Longrightarrow> c \<in> set (take (snd (decode3 c0 cs)) (c0 # cs)) \<Longrightarrow> 128 \<le> byte_of c"
  "128 \<le> byte_of c0 \<Longrightarrow> c \<in> set (take (snd (decode4 c0 cs)) (c0 # cs)) \<Longrightarrow> 128 \<le> byte_of c"
    apply (cases "(c0, cs)" rule: decode2.cases; auto simp: is_cont_def split: if_splits)
   apply (cases "(c0, cs)" rule: decode3.cases; auto simp: is_cont_def byte_in_def split: if_splits)
  apply (cases "(c0, cs)" rule: decode4.cases; auto simp: is_cont_def byte_in_def split: if_splits)
  done

lemma decode_rune_width: "s \<noteq> [] \<Longrightarrow> 0 < snd (decode_rune s)"
  by (cases s) (simp_all add: decode_rune_def decode_multi_width)

lemma decode_rune_shrinks: "s \<noteq> [] \<Longrightarrow> length s - snd (decode_rune s) < length s"
  by (simp add: decode_rune_width diff_less)

lemma decode_rune_ascii: "byte_of c < 128 \<Longrightarrow> decode_rune (c # cs) = (byte_of c, 1)"
  by (simp add: decode_rune_def)

function runes :: "string \<Rightarrow> nat list" where
  "runes s = (if s = [] then [] else fst (decode_rune s) # runes (drop (snd (decode_rune s)) s))"
  by pat_completeness auto
termination
  by (relation "measure length") (auto simp: decode_rune_shrinks)

declare runes.simps [simp del]

lemma runes_Nil [simp]: "runes [] = []"
  by (simp add: runes.simps)

lemma runes_ascii [simp]: "byte_of c < 128 \<Longrightarrow> runes (c # cs) = byte_of c # runes cs"
  by (subst runes.simps) (simp add: decode_rune_ascii)

definition RuneCountInString :: "string \<Rightarrow> nat" where
  "RuneCountInString s = length (runes s)"

text \<open>\<open>unicode.IsControl\<close>: category Cc.\<close>

definition IsControl :: "nat \<Rightarrow> bool" where
  "IsControl r \<longleftrightarrow> r < 32 \<or> (127 \<le> r \<and> r < 160)"

text \<open>
  An ASCII control byte is always decoded as a rune of its own, whatever surrounds it: the bytes
  after the first of a multi-byte rune are at least 128.
\<close>

lemma decode_rune_take:
  assumes "c \<in> set (take (snd (decode_rune s)) s)" and "byte_of c < 128"
  shows "fst (decode_rune s) = byte_of c"
proof (cases s)
  case (Cons c0 cs)
  show ?thesis
  proof (cases "byte_of c0 < 128")
    case True
    with assms Cons show ?thesis by (simp add: decode_rune_def)
  next
    case False
    have "128 \<le> byte_of c"
      using assms(1) False decode_multi_high [of c0 c cs]
      by (auto simp: Cons decode_rune_def split: if_splits)
    with assms(2) show ?thesis by simp
  qed
qed (use assms in simp)

lemma ascii_byte_in_runes: "c \<in> set s \<Longrightarrow> byte_of c < 128 \<Longrightarrow> byte_of c \<in> set (runes s)"
proof (induction s rule: runes.induct)
  case (1 s)
  then have ne: "s \<noteq> []" by auto
  let ?w = "snd (decode_rune s)"
  have "c \<in> set (take ?w s) \<or> c \<in> set (drop ?w s)"
    by (metis "1.prems"(1) UnE append_take_drop_id set_append)
  then show ?case
  proof
    assume "c \<in> set (take ?w s)"
    then have "fst (decode_rune s) = byte_of c"
      using decode_rune_take "1.prems"(2) by blast
    then show ?thesis by (subst runes.simps) (simp add: ne)
  next
    assume "c \<in> set (drop ?w s)"
    then have "byte_of c \<in> set (runes (drop ?w s))"
      using 1 ne by blast
    then show ?thesis by (subst runes.simps) (simp add: ne)
  qed
qed

section \<open>Trimming white space\<close>

text \<open>
  The UTF-8 encodings of the code points \<open>unicode.IsSpace\<close> accepts.  A rune is one of them exactly
  when the string starts (ends) with its encoding, so \<open>strings.TrimSpace\<close> drops these encodings
  from both ends as long as there is one.
\<close>

definition space_runes :: "string list" where
  "space_runes =
     [[CHR 0x09], [CHR 0x0A], [CHR 0x0B], [CHR 0x0C], [CHR 0x0D], [CHR 0x20],
      [CHR 0xC2, CHR 0x85], [CHR 0xC2, CHR 0xA0], [CHR 0xE1, CHR 0x9A, CHR 0x80],
      [CHR 0xE2, CHR 0x80, CHR 0x80], [CHR 0xE2, CHR 0x80, CHR 0x81], [CHR 0xE2, CHR 0x80, CHR 0x82],
      [CHR 0xE2, CHR 0x80, CHR 0x83], [CHR 0xE2, CHR 0x80, CHR 0x84], [CHR 0xE2, CHR 0x80, CHR 0x85],
      [CHR 0xE2, CHR 0x80, CHR 0x86], [CHR 0xE2, CHR 0x80, CHR 0x87], [CHR 0xE2, CHR 0x80, CHR 0x88],
      [CHR 0xE2, CHR 0x80, CHR 0x89], [CHR 0xE2, CHR 0x80, CHR 0x8A], [CHR 0xE2, CHR 0x80, CHR 0xA8],
      [CHR 0xE2, CHR 0x80, CHR 0xA9], [CHR 0xE2, CHR 0x80, CHR 0xAF], [CHR 0xE2, CHR 0x81, CHR 0x9F],
      [CHR 0xE3, CHR 0x80, CHR 0x80]]"

lemma find_space_rune: "find P space_runes = Some e \<Longrightarrow> e \<in> set space_runes \<and> P e \<and> e \<noteq> []"
proof -
  assume "find P space_runes = Some e"
  then have "e \<in> set space_runes" and "P e" by (auto simp: find_Some_iff)
  moreover have "[] \<notin> set space_runes" by (simp add: space_runes_def)
  ultimately show ?thesis by metis
qed

function trim_left :: "string \<Rightarrow> string" where
  "trim_left s = (case find (\<lambda>e. prefix e s) space_runes of
     None \<Rightarrow> s | Some e \<Rightarrow> trim_left (drop (length e) s))"
  by pat_completeness auto
termination
  by (relation "measure length")
    (auto dest!: find_space_rune simp: prefix_def intro!: diff_less)

function trim_right :: "string \<Rightarrow> string" where
  "trim_right s = (case find (\<lambda>e. suffix e s) space_runes of
     None \<Rightarrow> s | Some e \<Rightarrow> trim_right (take (length s - length e) s))"
  by pat_completeness auto
termination
  by (relation "measure length")
    (auto dest!: find_space_rune simp: suffix_def)

declare trim_left.simps [simp del] trim_right.simps [simp del]

definition TrimSpace :: "string \<Rightarrow> string" where
  "TrimSpace s = trim_right (trim_left s)"

text \<open>
  A \<^emph>\<open>solid\<close> byte is an ASCII byte that is not white space: no encoding of a space contains one, so
  trimming never drops it.
\<close>

definition solid :: "char \<Rightarrow> bool" where
  "solid c \<longleftrightarrow> byte_of c < 128 \<and> byte_of c \<notin> {9, 10, 11, 12, 13, 32}"

lemma space_runes_not_solid: "e \<in> set space_runes \<Longrightarrow> c \<in> set e \<Longrightarrow> \<not> solid c"
  unfolding space_runes_def solid_def by auto

lemma trim_left_solid: "c \<in> set s \<Longrightarrow> solid c \<Longrightarrow> c \<in> set (trim_left s)"
proof (induction s rule: trim_left.induct)
  case (1 s)
  show ?case
  proof (cases "find (\<lambda>e. prefix e s) space_runes")
    case None
    with 1 show ?thesis by (subst trim_left.simps) simp
  next
    case (Some e)
    with find_space_rune obtain t where e: "e \<in> set space_runes" "s = e @ t"
      by (metis (no_types, lifting) prefix_def)
    then have "c \<in> set (drop (length e) s)"
      using 1(2,3) space_runes_not_solid by auto
    with 1 Some show ?thesis by (subst trim_left.simps) simp
  qed
qed

lemma trim_right_solid: "c \<in> set s \<Longrightarrow> solid c \<Longrightarrow> c \<in> set (trim_right s)"
proof (induction s rule: trim_right.induct)
  case (1 s)
  show ?case
  proof (cases "find (\<lambda>e. suffix e s) space_runes")
    case None
    with 1 show ?thesis by (subst trim_right.simps) simp
  next
    case (Some e)
    with find_space_rune obtain t where e: "e \<in> set space_runes" "s = t @ e"
      by (metis (no_types, lifting) suffix_def)
    then have "c \<in> set (take (length s - length e) s)"
      using 1(2,3) space_runes_not_solid by auto
    with 1 Some show ?thesis by (subst trim_right.simps) simp
  qed
qed

lemma TrimSpace_not_blank: "c \<in> set s \<Longrightarrow> solid c \<Longrightarrow> TrimSpace s \<noteq> []"
  unfolding TrimSpace_def by (metis trim_left_solid trim_right_solid empty_iff empty_set)

lemma trim_left_id: "s \<noteq> [] \<Longrightarrow> solid (hd s) \<Longrightarrow> trim_left s = s"
proof -
  assume s: "s \<noteq> []" "solid (hd s)"
  have "find (\<lambda>e. prefix e s) space_runes = None"
  proof (rule ccontr)
    assume "find (\<lambda>e. prefix e s) space_runes \<noteq> None"
    then obtain e where "find (\<lambda>e. prefix e s) space_runes = Some e" by blast
    then have "e \<in> set space_runes" "prefix e s" "e \<noteq> []" by (auto dest: find_space_rune)
    then have "hd s \<in> set e" by (cases e) (auto simp: prefix_def)
    then show False using s(2) \<open>e \<in> set space_runes\<close> space_runes_not_solid by blast
  qed
  then show ?thesis by (subst trim_left.simps) simp
qed

lemma trim_right_id: "s \<noteq> [] \<Longrightarrow> solid (last s) \<Longrightarrow> trim_right s = s"
proof -
  assume s: "s \<noteq> []" "solid (last s)"
  have "find (\<lambda>e. suffix e s) space_runes = None"
  proof (rule ccontr)
    assume "find (\<lambda>e. suffix e s) space_runes \<noteq> None"
    then obtain e where "find (\<lambda>e. suffix e s) space_runes = Some e" by blast
    then have e: "e \<in> set space_runes" "suffix e s" "e \<noteq> []" by (auto dest: find_space_rune)
    then have "last s \<in> set e" by (auto simp: suffix_def)
    then show False using s(2) e(1) space_runes_not_solid by blast
  qed
  then show ?thesis by (subst trim_right.simps) simp
qed

lemma TrimSpace_id:
  "s \<noteq> [] \<Longrightarrow> solid (hd s) \<Longrightarrow> solid (last s) \<Longrightarrow> TrimSpace s = s"
  by (simp add: TrimSpace_def trim_left_id trim_right_id)

lemma TrimSpace_Nil [simp]: "TrimSpace [] = []"
  by (simp add: TrimSpace_def trim_left.simps trim_right.simps space_runes_def)

lemma trim_left_suffix: "suffix (trim_left s) s"
proof (induction s rule: trim_left.induct)
  case (1 s)
  show ?case
  proof (cases "find (\<lambda>e. prefix e s) space_runes")
    case (Some e)
    with 1 have "suffix (trim_left (drop (length e) s)) (drop (length e) s)" by blast
    with Some show ?thesis
      by (subst trim_left.simps) (simp, meson suffix_drop suffix_order.trans)
  qed (subst trim_left.simps, simp)
qed

lemma trim_right_prefix: "prefix (trim_right s) s"
proof (induction s rule: trim_right.induct)
  case (1 s)
  show ?case
  proof (cases "find (\<lambda>e. suffix e s) space_runes")
    case (Some e)
    with 1 have "prefix (trim_right (take (length s - length e) s)) (take (length s - length e) s)"
      by blast
    with Some show ?thesis
      by (subst trim_right.simps) (simp, meson take_is_prefix prefix_order.trans)
  qed (subst trim_right.simps, simp)
qed

lemma set_TrimSpace: "set (TrimSpace s) \<subseteq> set s"
  unfolding TrimSpace_def
  by (meson set_mono_prefix set_mono_suffix subset_trans trim_left_suffix trim_right_prefix)

section \<open>Case folding\<close>

text \<open>\<open>strings.EqualFold\<close> against a word whose letters fold to ASCII letters only.\<close>

definition ascii_lower :: "char \<Rightarrow> char" where
  "ascii_lower c = (if 65 \<le> byte_of c \<and> byte_of c \<le> 90 then char_of (byte_of c + 32) else c)"

definition EqualFold :: "string \<Rightarrow> string \<Rightarrow> bool" where
  "EqualFold s t \<longleftrightarrow> map ascii_lower s = map ascii_lower t"

lemma EqualFold_refl [simp]: "EqualFold s s"
  by (simp add: EqualFold_def)

end
