(* ===== verification/Paths.thy ===== *)
theory Paths
  imports GoStrings
begin

text \<open>
  \<open>path/filepath\<close> on Unix: \<open>Clean\<close>, \<open>Join\<close> and \<open>Dir\<close> on slash-separated byte strings, and the
  component lists they denote.  The central facts: a path joined below an absolute root cleans to
  the root's components followed by the components of the suffix, as long as no component is
  \<open>''..''\<close>; this is what the traversal check of the storage layer rests on.
\<close>

definition slash :: char where "slash = CHR ''/''"

definition dotdot :: string where "dotdot = ''..''"

definition clean_step :: "bool \<Rightarrow> string \<Rightarrow> string list \<Rightarrow> string list" where
  "clean_step rooted c out =
     (if c = [] \<or> c = ''.'' then out
      else if c = dotdot then
        (if out \<noteq> [] \<and> last out \<noteq> dotdot then butlast out
         else if rooted then out else out @ [dotdot])
      else out @ [c])"

definition Clean :: "string \<Rightarrow> string" where
  "Clean p =
     (if p = [] then ''.''
      else let rooted = (hd p = slash); out = fold (clean_step rooted) (split_on slash p) []
           in if rooted then slash # join_with [slash] out
              else if out = [] then ''.'' else join_with [slash] out)"

definition Join :: "string list \<Rightarrow> string" where
  "Join elems =
     (case dropWhile (\<lambda>e. e = []) elems of [] \<Rightarrow> [] | es \<Rightarrow> Clean (join_with [slash] es))"

definition Dir_of :: "string \<Rightarrow> string" where
  "Dir_of p = Clean (rev (dropWhile (\<lambda>c. c \<noteq> slash) (rev p)))"

text \<open>The components a path names, and the absolute path of a list of components.\<close>

definition path_comps :: "string \<Rightarrow> string list" where
  "path_comps p = filter (\<lambda>c. c \<noteq> []) (split_on slash p)"

definition abs_path :: "string list \<Rightarrow> string" where
  "abs_path cs = slash # join_with [slash] cs"

definition proper_comp :: "string \<Rightarrow> bool" where
  "proper_comp c \<longleftrightarrow> c \<noteq> [] \<and> c \<noteq> ''.'' \<and> c \<noteq> dotdot \<and> slash \<notin> set c"

definition proper :: "string list \<Rightarrow> bool" where
  "proper cs \<longleftrightarrow> (\<forall>c\<in>set cs. proper_comp c)"

text \<open>The components of an object key that survive cleaning, for keys without \<open>''..''\<close>.\<close>

definition key_comps :: "string \<Rightarrow> string list" where
  "key_comps k = filter (\<lambda>c. c \<noteq> [] \<and> c \<noteq> ''.'') (split_on slash k)"

lemma proper_simps [simp]:
  "proper []" "proper (c # cs) \<longleftrightarrow> proper_comp c \<and> proper cs"
  "proper (as @ bs) \<longleftrightarrow> proper as \<and> proper bs"
  by (auto simp: proper_def)

lemma proper_comp_nonempty [simp]: "proper_comp c \<Longrightarrow> c \<noteq> []"
  by (auto simp: proper_comp_def)

lemma split_on_sublist: "x \<in> set (split_on c s) \<Longrightarrow> sublist x s"
proof (induction s arbitrary: x)
  case (Cons y ys)
  have hd_prefix: "prefix (hd (split_on c zs)) zs" for zs
    by (induction zs) (auto split: list.splits)
  from Cons show ?case
  proof (cases "y = c")
    case False
    obtain z zs where z: "split_on c ys = z # zs" by (metis list.exhaust split_on_not_Nil)
    then have "prefix z ys" using hd_prefix [of ys] by simp
    then have "sublist (y # z) (y # ys)"
      by (simp add: prefix_imp_sublist)
    moreover have "sublist w (y # ys)" if "w \<in> set zs" for w
      using Cons.IH [of w] that z by (simp add: sublist_Cons_right)
    ultimately show ?thesis using Cons.prems False z by auto
  qed (auto simp: sublist_Cons_right)
qed auto

lemma fold_clean_proper:
  "\<forall>c\<in>set cs. c \<noteq> dotdot \<Longrightarrow>
     fold (clean_step r) cs out = out @ filter (\<lambda>c. c \<noteq> [] \<and> c \<noteq> ''.'') cs"
  by (induction cs arbitrary: out) (auto simp: clean_step_def)

lemma filter_proper [simp]: "proper cs \<Longrightarrow> filter (\<lambda>c. c \<noteq> [] \<and> c \<noteq> ''.'') cs = cs"
  by (induction cs) (auto simp: proper_comp_def)

lemma proper_no_slash: "proper cs \<Longrightarrow> \<forall>c\<in>set cs. slash \<notin> set c"
  by (auto simp: proper_def proper_comp_def)

lemma split_abs_path: "proper cs \<Longrightarrow> cs \<noteq> [] \<Longrightarrow> split_on slash (abs_path cs) = [] # cs"
  by (simp add: abs_path_def split_join proper_no_slash)

lemma split_abs_path_append:
  "proper cs \<Longrightarrow> cs \<noteq> [] \<Longrightarrow> split_on slash (abs_path cs @ slash # s) = [] # cs @ split_on slash s"
  by (metis append_Cons split_abs_path split_on_append)

lemma path_comps_abs [simp]: "proper cs \<Longrightarrow> path_comps (abs_path cs) = cs"
proof (cases "cs = []")
  case True
  then show ?thesis by (simp add: path_comps_def abs_path_def)
next
  case False
  assume cs: "proper cs"
  then have "filter (\<lambda>c. c \<noteq> []) cs = cs"
    by (intro filter_True) (auto simp: proper_def)
  with cs False show ?thesis by (simp add: path_comps_def split_abs_path)
qed

lemma abs_path_inject: "proper as \<Longrightarrow> proper bs \<Longrightarrow> abs_path as = abs_path bs \<longleftrightarrow> as = bs"
  by (metis path_comps_abs)

lemma abs_path_not_Nil [simp]: "abs_path cs \<noteq> []"
  by (simp add: abs_path_def)

lemma hd_abs_path [simp]: "hd (abs_path cs) = slash"
  by (simp add: abs_path_def)

lemma join_clean_below:
  assumes "proper cs" and "cs \<noteq> []" and "dotdot \<notin> set (split_on slash k)"
  shows "Clean (abs_path cs @ slash # k) = abs_path (cs @ key_comps k)"
proof -
  have "\<forall>c\<in>set ([] # cs @ split_on slash k). c \<noteq> dotdot"
    using assms by (auto simp: proper_def proper_comp_def dotdot_def)
  then have "fold (clean_step True) ([] # cs @ split_on slash k) [] = cs @ key_comps k"
    using assms(1) by (subst fold_clean_proper) (auto simp: key_comps_def)
  then have "fold (clean_step True) (split_on slash (abs_path cs @ slash # k)) [] = cs @ key_comps k"
    using split_abs_path_append [OF assms(1,2), of k] by (simp only:)
  then show ?thesis
    by (simp add: Clean_def Let_def) (simp add: abs_path_def)
qed

lemma abs_path_append:
  "cs \<noteq> [] \<Longrightarrow> ds \<noteq> [] \<Longrightarrow> abs_path (cs @ ds) = abs_path cs @ slash # join_with [slash] ds"
proof (induction cs)
  case (Cons a cs)
  then show ?case by (cases "cs = []") (auto simp: abs_path_def join_with_Cons)
qed simp

lemma Join_below:
  assumes "proper cs" and "cs \<noteq> []" and "dotdot \<notin> set (split_on slash k)"
  shows "Join [abs_path cs, k] = abs_path (cs @ key_comps k)"
  using join_clean_below [OF assms] by (simp add: Join_def)

lemma key_comps_single [simp]: "proper_comp c \<Longrightarrow> key_comps c = [c]"
  by (simp add: key_comps_def proper_comp_def split_on_no_sep)

lemma dotdot_single: "proper_comp c \<Longrightarrow> dotdot \<notin> set (split_on slash c)"
  by (auto simp: proper_comp_def split_on_no_sep)

text \<open>The root directory itself has no components; joining one name below it.\<close>

lemma Join_root: "proper_comp c \<Longrightarrow> Join [abs_path [], c] = abs_path [c]"
proof -
  assume c: "proper_comp c"
  then have "split_on slash (slash # slash # c) = [[], [], c]"
    by (simp add: split_on_no_sep proper_comp_def)
  with c show ?thesis
    by (simp add: Join_def Clean_def abs_path_def clean_step_def proper_comp_def)
qed

lemma Join_name [path_simps]:
  "proper cs \<Longrightarrow> proper_comp c \<Longrightarrow> Join [abs_path cs, c] = abs_path (cs @ [c])"
  by (cases "cs = []") (simp_all add: Join_root Join_below dotdot_single)

lemma proper_key_comps: "dotdot \<notin> set (split_on slash k) \<Longrightarrow> proper (key_comps k)"
  by (auto simp: proper_def proper_comp_def key_comps_def dest: split_on_sep_free)

lemma no_dotdot_comp: "\<not> Contains k dotdot \<Longrightarrow> dotdot \<notin> set (split_on slash k)"
  using split_on_sublist by blast

lemma Join_three [path_simps]:
  assumes "proper cs" and "proper_comp b" and "dotdot \<notin> set (split_on slash k)"
  shows "Join [abs_path cs, b, k] = abs_path (cs @ b # key_comps k)"
proof (cases "cs = []")
  case False
  have "abs_path cs @ slash # b = abs_path (cs @ [b])"
    using False by (simp add: abs_path_append)
  then have eq: "abs_path cs @ slash # b @ slash # k = abs_path (cs @ [b]) @ slash # k"
    by (metis append_Cons append_assoc)
  have "Join [abs_path cs, b, k] = Clean (abs_path cs @ slash # b @ slash # k)"
    by (simp add: Join_def)
  also have "\<dots> = Clean (abs_path (cs @ [b]) @ slash # k)"
    by (simp only: eq)
  finally show ?thesis
    using join_clean_below [of "cs @ [b]" k] assms by simp
next
  case True
  have "split_on slash (slash # slash # b @ slash # k) = [] # [] # b # split_on slash k"
    using assms(2) by (simp add: split_on_append_sep proper_comp_def)
  moreover have "\<forall>c\<in>set ([] # [] # b # split_on slash k). c \<noteq> dotdot"
    using assms by (auto simp: proper_comp_def dotdot_def)
  then have "fold (clean_step True) ([] # [] # b # split_on slash k) [] = b # key_comps k"
    using assms(2) by (subst fold_clean_proper) (auto simp: key_comps_def proper_comp_def)
  ultimately show ?thesis
    using True by (simp add: Join_def Clean_def Let_def abs_path_def)
qed

lemma Dir_of_abs [path_simps]:
  assumes "proper cs" and "proper_comp c"
  shows "Dir_of (abs_path (cs @ [c])) = abs_path cs"
proof -
  have split: "abs_path (cs @ [c]) = (if cs = [] then [slash] else abs_path cs @ [slash]) @ c"
    by (cases "cs = []") (simp_all add: abs_path_append, simp add: abs_path_def)
  have "slash \<notin> set (rev c)" using assms(2) by (simp add: proper_comp_def)
  then have "dropWhile (\<lambda>x. x \<noteq> slash) (rev (abs_path (cs @ [c])))
      = rev (if cs = [] then [slash] else abs_path cs @ [slash])"
    unfolding split by (simp add: dropWhile_append3) (metis dropWhile_append2 dropWhile_eq_Nil_conv dropWhile.simps(2) dropWhile_append_stop)
  then have "Dir_of (abs_path (cs @ [c])) = Clean (if cs = [] then [slash] else abs_path cs @ [slash])"
    by (simp add: Dir_of_def)
  also have "\<dots> = abs_path cs"
    using join_clean_below [OF assms(1), of "[]"]
    by (auto simp: Clean_def abs_path_def clean_step_def key_comps_def dotdot_def)
  finally show ?thesis .
qed

text \<open>Strictly below a directory: what the final prefix check of the code tests on the text.\<close>

lemma abs_path_prefix_iff:
  assumes "proper cs" and "cs \<noteq> []" and "proper ds"
  shows "HasPrefix (abs_path (cs @ ds)) (abs_path cs @ [slash]) \<longleftrightarrow> ds \<noteq> []"
proof (cases "ds = []")
  case True
  then show ?thesis by (auto simp: prefix_def)
next
  case False
  then show ?thesis using assms(2) by (simp add: abs_path_append prefix_def)
qed

end
