(* ===== verification/ApiErrors.thy ===== *)
theory ApiErrors
  imports GoStrings
begin

text \<open>
  \<open>errors.go\<close>: the wire error with its status, code and message, and its constructors.  Every
  fallible operation of the model returns \<open>go_error + 'a\<close>; \<open>go_error\<close> has a case for each source of
  errors the handlers tell apart (an \<open>APIError\<close>, an errno of the operating system, a database
  failure, any other error).
\<close>

record APIError =
  Status :: nat
  Code :: string
  Message :: string

datatype errno = ENOENT | ENOTDIR | EISDIR | ENOTEMPTY | EEXIST | EBUSY | EIO

datatype go_error = ApiErr APIError | OsErr errno | DbErr | PlainErr string

type_synonym 'a go_result = "go_error + 'a"

definition StatusOK :: nat where "StatusOK = 200"
definition StatusCreated :: nat where "StatusCreated = 201"
definition StatusNoContent :: nat where "StatusNoContent = 204"
definition StatusBadRequest :: nat where "StatusBadRequest = 400"
definition StatusUnauthorized :: nat where "StatusUnauthorized = 401"
definition StatusForbidden :: nat where "StatusForbidden = 403"
definition StatusNotFound :: nat where "StatusNotFound = 404"
definition StatusMethodNotAllowed :: nat where "StatusMethodNotAllowed = 405"
definition StatusConflict :: nat where "StatusConflict = 409"
definition StatusRequestEntityTooLarge :: nat where "StatusRequestEntityTooLarge = 413"
definition StatusInternalServerError :: nat where "StatusInternalServerError = 500"

lemmas status_defs =
  StatusOK_def StatusCreated_def StatusNoContent_def StatusBadRequest_def StatusUnauthorized_def
  StatusForbidden_def StatusNotFound_def StatusMethodNotAllowed_def StatusConflict_def
  StatusRequestEntityTooLarge_def StatusInternalServerError_def

definition badRequest :: "string \<Rightarrow> string \<Rightarrow> go_error" where
  "badRequest code msg = ApiErr \<lparr>Status = StatusBadRequest, Code = code, Message = msg\<rparr>"

definition notFound :: "string \<Rightarrow> string \<Rightarrow> go_error" where
  "notFound code msg = ApiErr \<lparr>Status = StatusNotFound, Code = code, Message = msg\<rparr>"

definition conflict :: "string \<Rightarrow> string \<Rightarrow> go_error" where
  "conflict code msg = ApiErr \<lparr>Status = StatusConflict, Code = code, Message = msg\<rparr>"

definition noSuchBucket :: "string \<Rightarrow> go_error" where
  "noSuchBucket name = notFound ''NoSuchBucket'' (''Bucket '' @ [CHR 0x27] @ name @ [CHR 0x27] @ '' does not exist'')"

definition noSuchKey :: "string \<Rightarrow> string \<Rightarrow> go_error" where
  "noSuchKey bucket key =
     notFound ''NoSuchKey'' (''Object '' @ [CHR 0x27] @ key @ [CHR 0x27] @ '' does not exist in bucket ''
       @ [CHR 0x27] @ bucket @ [CHR 0x27])"

definition bucketAlreadyExists :: "string \<Rightarrow> go_error" where
  "bucketAlreadyExists name =
     conflict ''BucketAlreadyExists'' (''Bucket '' @ [CHR 0x27] @ name @ [CHR 0x27] @ '' already exists'')"

text \<open>\<open>errors.As(err, &apiErr)\<close>.\<close>

fun as_APIError :: "go_error \<Rightarrow> APIError option" where
  "as_APIError (ApiErr e) = Some e"
| "as_APIError _ = None"

lemmas api_error_defs = badRequest_def notFound_def conflict_def noSuchBucket_def noSuchKey_def
  bucketAlreadyExists_def

end
