(* ===== verification/FileSystem.thy ===== *)
theory FileSystem
  imports Paths ApiErrors
begin

text \<open>
  The file system the storage layer runs on: a finite table from absolute paths (lists of
  components) to files, with their bytes and modification time, and directories.  The operations
  are the \<open>os\<close> calls of the program with the errnos Linux returns; there are no symbolic links.
  The invariant \<open>fs_wf\<close> (unique paths, every parent is a directory) is preserved by all of them,
  and each has a lemma that gives every node afterwards.
\<close>

type_synonym fpath = "string list"

datatype fnode = File (fdata: string) (fmtime: int) | Directory

type_synonym fsys = "(fpath \<times> fnode) list"

definition fs_node :: "fsys \<Rightarrow> fpath \<Rightarrow> fnode option" where
  "fs_node f p = (if p = [] then Some Directory else map_of f p)"

fun is_File :: "fnode option \<Rightarrow> bool" where
  "is_File (Some (File d t)) = True"
| "is_File _ = False"

definition file_above :: "fsys \<Rightarrow> fpath \<Rightarrow> bool" where
  "file_above f p \<longleftrightarrow> list_ex (\<lambda>q. is_File (fs_node f q)) (prefixes p)"

section \<open>System calls\<close>

definition fs_stat :: "fsys \<Rightarrow> fpath \<Rightarrow> errno + fnode" where
  "fs_stat f p =
     (case fs_node f p of
        Some n \<Rightarrow> Inr n
      | None \<Rightarrow> Inl (if file_above f p then ENOTDIR else ENOENT))"

definition fs_mkdir_all :: "fsys \<Rightarrow> fpath \<Rightarrow> errno + fsys" where
  "fs_mkdir_all f p =
     (if file_above f p then Inl ENOTDIR
      else Inr (fold (\<lambda>q g. if fs_node g q = None then AList.update q Directory g else g)
                  (prefixes p) f))"

definition fs_children :: "fsys \<Rightarrow> fpath \<Rightarrow> fpath list" where
  "fs_children f p = filter (\<lambda>q. q \<noteq> [] \<and> butlast q = p) (map fst f)"

definition fs_remove :: "fsys \<Rightarrow> fpath \<Rightarrow> errno + fsys" where
  "fs_remove f p =
     (case fs_stat f p of
        Inl e \<Rightarrow> Inl e
      | Inr (File d t) \<Rightarrow> Inr (AList.delete p f)
      | Inr Directory \<Rightarrow>
          if p = [] then Inl EBUSY
          else if fs_children f p \<noteq> [] then Inl ENOTEMPTY
          else Inr (AList.delete p f))"

definition parent_err :: "fsys \<Rightarrow> fpath \<Rightarrow> errno option" where
  "parent_err f p =
     (if p = [] then Some EISDIR
      else case fs_stat f (butlast p) of
        Inl e \<Rightarrow> Some e
      | Inr (File d t) \<Rightarrow> Some ENOTDIR
      | Inr Directory \<Rightarrow> None)"

text \<open>\<open>O_CREATE|O_EXCL\<close>: a new empty file.\<close>

definition fs_create_excl :: "fsys \<Rightarrow> fpath \<Rightarrow> int \<Rightarrow> errno + fsys" where
  "fs_create_excl f p now =
     (case parent_err f p of
        Some e \<Rightarrow> Inl e
      | None \<Rightarrow> if fs_node f p \<noteq> None then Inl EEXIST else Inr (AList.update p (File [] now) f))"

text \<open>\<open>O_CREATE|O_TRUNC\<close> and a write of all bytes, as \<open>os.WriteFile\<close> does.\<close>

definition fs_write :: "fsys \<Rightarrow> fpath \<Rightarrow> string \<Rightarrow> int \<Rightarrow> errno + fsys" where
  "fs_write f p d now =
     (case parent_err f p of
        Some e \<Rightarrow> Inl e
      | None \<Rightarrow> if fs_node f p = Some Directory then Inl EISDIR
                else Inr (AList.update p (File d now) f))"

definition fs_rename :: "fsys \<Rightarrow> fpath \<Rightarrow> fpath \<Rightarrow> errno + fsys" where
  "fs_rename f p q =
     (case fs_stat f p of
        Inl e \<Rightarrow> Inl e
      | Inr Directory \<Rightarrow> Inl EISDIR
      | Inr (File d t) \<Rightarrow>
          (case parent_err f q of
             Some e \<Rightarrow> Inl e
           | None \<Rightarrow> if fs_node f q = Some Directory then Inl EEXIST
                     else Inr (AList.update q (File d t) (AList.delete p f))))"

definition fs_read :: "fsys \<Rightarrow> fpath \<Rightarrow> errno + string" where
  "fs_read f p =
     (case fs_stat f p of
        Inl e \<Rightarrow> Inl e | Inr Directory \<Rightarrow> Inl EISDIR | Inr (File d t) \<Rightarrow> Inr d)"

text \<open>
  \<open>filepath.WalkDir\<close> below a directory: the files in the lexical order of their component lists,
  which is the order of a walk that reads each directory sorted by name.
\<close>

definition fs_files_below :: "fsys \<Rightarrow> fpath \<Rightarrow> fpath list" where
  "fs_files_below f d =
     sort (filter (\<lambda>p. prefix d p \<and> is_File (fs_node f p)) (map fst f))"

section \<open>The invariant\<close>

definition fs_wf :: "fsys \<Rightarrow> bool" where
  "fs_wf f \<longleftrightarrow> distinct (map fst f) \<and> [] \<notin> fst ` set f \<and>
     (\<forall>p\<in>fst ` set f. fs_node f (butlast p) = Some Directory)"

lemma fs_node_Nil [simp]: "fs_node f [] = Some Directory"
  by (simp add: fs_node_def)

lemma fs_wfD:
  assumes "fs_wf f"
  shows "distinct (map fst f)" and "[] \<notin> fst ` set f"
    and "fs_node f p = Some n \<Longrightarrow> p \<noteq> [] \<Longrightarrow> fs_node f (butlast p) = Some Directory"
  using assms by (auto simp: fs_wf_def fs_node_def dest!: map_of_SomeD)

lemma fs_node_update [fs_simps]:
  "p \<noteq> [] \<Longrightarrow> fs_node (AList.update p n f) q = (if q = p then Some n else fs_node f q)"
  by (simp add: fs_node_def update_conv')

lemma fs_node_delete [fs_simps]:
  "p \<noteq> [] \<Longrightarrow> fs_node (AList.delete p f) q = (if q = p then None else fs_node f q)"
  by (simp add: fs_node_def delete_conv')

text \<open>In a well-formed system the ancestors of a node are directories.\<close>

lemma fs_node_ancestor:
  "fs_wf f \<Longrightarrow> fs_node f p = Some n \<Longrightarrow> strict_prefix q p \<Longrightarrow> fs_node f q = Some Directory"
proof (induction p arbitrary: n rule: rev_induct)
  case (snoc x xs)
  have parent: "fs_node f xs = Some Directory"
    using fs_wfD(3) [OF snoc.prems(1,2)] by simp
  show ?case
  proof (cases "q = xs")
    case False
    with snoc.prems(3) have "strict_prefix q xs"
      by (auto simp: prefix_snoc strict_prefix_def)
    then show ?thesis using snoc.IH snoc.prems(1) parent by blast
  qed (simp add: parent)
qed simp

lemma file_above_iff:
  "fs_wf f \<Longrightarrow> file_above f p \<longleftrightarrow> (\<exists>q. prefix q p \<and> is_File (fs_node f q))"
  by (auto simp: file_above_def list_ex_iff)

lemma is_File_iff: "is_File n \<longleftrightarrow> (\<exists>d t. n = Some (File d t))"
  by (cases n rule: is_File.cases) auto

lemma fs_wf_update:
  assumes "fs_wf f" and "p \<noteq> []" and "fs_node f (butlast p) = Some Directory"
    and "n \<noteq> Directory \<Longrightarrow> fs_node f p \<noteq> Some Directory"
  shows "fs_wf (AList.update p n f)"
proof -
  have node: "fs_node (AList.update p n f) q = (if q = p then Some n else fs_node f q)" for q
    using assms(2) by (rule fs_node_update)
  have dir: "fs_node (AList.update p n f) q = Some Directory" if "fs_node f q = Some Directory" for q
    using that assms(4) node by (cases "q = p") auto
  have keys: "fst ` set (AList.update p n f) = insert p (fst ` set f)"
    using dom_update [of p n f] by simp
  show ?thesis
    unfolding fs_wf_def keys
    using assms(1,2) dir assms(3) fs_wfD(1,2) [OF assms(1)]
    by (metis (no_types, lifting) distinct_update fs_wf_def insert_iff)
qed

lemma fs_wf_delete:
  assumes "fs_wf f" and "p \<noteq> []" and "fs_children f p = []"
  shows "fs_wf (AList.delete p f)"
proof -
  have sub: "fst ` set (AList.delete p f) \<subseteq> fst ` set f" by (rule dom_delete_subset)
  have "fs_node (AList.delete p f) (butlast q) = Some Directory"
    if "q \<in> fst ` set (AList.delete p f)" for q
  proof -
    have "q \<in> fst ` set f" using that sub by blast
    moreover from this have "q \<noteq> []" using fs_wfD(2) [OF assms(1)] by metis
    ultimately have "butlast q \<noteq> p" using assms(3) by (auto simp: fs_children_def filter_empty_conv)
    moreover have "fs_node f (butlast q) = Some Directory"
      using assms(1) \<open>q \<in> fst ` set f\<close> by (auto simp: fs_wf_def)
    ultimately show ?thesis using assms(2) by (simp add: fs_simps)
  qed
  with sub assms(1) show ?thesis
    by (auto simp: fs_wf_def distinct_delete)
qed

lemma file_no_children:
  assumes "fs_wf f" and "fs_node f p = Some (File d t)"
  shows "fs_children f p = []"
proof (rule ccontr)
  assume "fs_children f p \<noteq> []"
  then obtain q where "q \<in> fst ` set f" "butlast q = p"
    by (auto simp: fs_children_def filter_empty_conv)
  then have "fs_node f p = Some Directory" using assms(1) by (auto simp: fs_wf_def)
  with assms(2) show False by simp
qed

section \<open>What each call does\<close>

lemma fs_stat_Inr [simp]: "fs_stat f p = Inr n \<longleftrightarrow> fs_node f p = Some n"
  by (auto simp: fs_stat_def split: option.splits)

lemma fs_stat_node [simp]: "fs_node f p = Some n \<Longrightarrow> fs_stat f p = Inr n"
  by simp

lemma fs_stat_Inl: "fs_stat f p = Inl e \<longleftrightarrow>
    fs_node f p = None \<and> e = (if file_above f p then ENOTDIR else ENOENT)"
  by (auto simp: fs_stat_def split: option.splits)

lemma parent_err_None:
  "parent_err f p = None \<longleftrightarrow> p \<noteq> [] \<and> fs_node f (butlast p) = Some Directory"
  by (auto simp: parent_err_def split: sum.splits fnode.splits)

lemma parent_err_SomeD:
  "parent_err f p = Some e \<Longrightarrow> p = [] \<or> fs_node f (butlast p) \<noteq> Some Directory"
  using parent_err_None [of f p] by auto

lemma mkdir_fold_node:
  "fs_node (fold (\<lambda>q g. if fs_node g q = None then AList.update q Directory g else g) qs f) r
     = (if r \<in> set qs \<and> fs_node f r = None then Some Directory else fs_node f r)"
proof (induction qs arbitrary: f)
  case (Cons q qs)
  show ?case
  proof (cases "q = []")
    case False
    then show ?thesis by (simp add: Cons fs_node_update)
  qed (simp add: Cons)
qed simp

lemma mkdir_fold_wf:
  "fs_wf f \<Longrightarrow> \<forall>q. prefix q p \<longrightarrow> \<not> is_File (fs_node f q) \<Longrightarrow>
     fs_wf (fold (\<lambda>q g. if fs_node g q = None then AList.update q Directory g else g) (prefixes p) f)"
proof (induction p rule: rev_induct)
  case (snoc x xs)
  let ?g = "fold (\<lambda>q g. if fs_node g q = None then AList.update q Directory g else g) (prefixes xs) f"
  have g: "fs_wf ?g" using snoc by auto
  have "fs_node f xs \<noteq> None \<Longrightarrow> fs_node f xs = Some Directory"
    using snoc.prems(2) by (metis fnode.exhaust is_File.simps(1) not_None_eq prefixI)
  then have "fs_node ?g xs = Some Directory"
    by (auto simp: mkdir_fold_node)
  then show ?case
    using g fs_wf_update [OF g, of "xs @ [x]" Directory] by (simp add: prefixes_snoc)
qed simp

lemma fs_mkdir_all_wf: "fs_wf f \<Longrightarrow> fs_mkdir_all f p = Inr g \<Longrightarrow> fs_wf g"
  using mkdir_fold_wf [of f p] by (auto simp: fs_mkdir_all_def file_above_iff split: if_splits)

lemma fs_mkdir_all_node:
  assumes "fs_mkdir_all f p = Inr g"
  shows "fs_node g q = (if prefix q p then Some Directory else fs_node f q)"
proof -
  have "\<not> is_File (fs_node f q)" if "prefix q p"
    using assms that by (auto simp: fs_mkdir_all_def file_above_def list_ex_iff split: if_splits)
  moreover have "fs_node f q \<noteq> None \<Longrightarrow> \<not> is_File (fs_node f q) \<Longrightarrow> fs_node f q = Some Directory"
    by (metis fnode.exhaust is_File.simps(1) not_None_eq)
  moreover have "fs_node g q = (if prefix q p \<and> fs_node f q = None then Some Directory else fs_node f q)"
    using assms by (auto simp: fs_mkdir_all_def mkdir_fold_node split: if_splits)
  ultimately show ?thesis by auto
qed

lemma fs_mkdir_all_ok: "\<not> file_above f p \<Longrightarrow> \<exists>g. fs_mkdir_all f p = Inr g"
  by (simp add: fs_mkdir_all_def)

lemma fs_mkdir_all_err: "fs_mkdir_all f p = Inl e \<longleftrightarrow> file_above f p \<and> e = ENOTDIR"
  by (auto simp: fs_mkdir_all_def)

lemma fs_remove_Inr:
  "fs_remove f p = Inr g \<longleftrightarrow>
     p \<noteq> [] \<and> fs_node f p \<noteq> None \<and> (fs_node f p = Some Directory \<longrightarrow> fs_children f p = []) \<and>
     g = AList.delete p f"
  by (cases "fs_node f p")
    (auto simp: fs_remove_def fs_stat_def split: fnode.splits)

lemma fs_remove_wf: "fs_wf f \<Longrightarrow> fs_remove f p = Inr g \<Longrightarrow> fs_wf g"
  by (metis (full_types) fnode.exhaust file_no_children fs_remove_Inr fs_wf_delete not_None_eq)

lemma fs_remove_node:
  "fs_remove f p = Inr g \<Longrightarrow> fs_node g q = (if q = p then None else fs_node f q)"
  by (auto simp: fs_remove_Inr fs_simps)

lemma fs_remove_file: "p \<noteq> [] \<Longrightarrow> fs_node f p = Some (File d t) \<Longrightarrow> fs_remove f p = Inr (AList.delete p f)"
  by (simp add: fs_remove_Inr)

lemma fs_remove_missing: "fs_node f p = None \<Longrightarrow> \<not> file_above f p \<Longrightarrow> fs_remove f p = Inl ENOENT"
  by (simp add: fs_remove_def fs_stat_def)

lemma fs_create_excl_Inr:
  "fs_create_excl f p now = Inr g \<longleftrightarrow>
     p \<noteq> [] \<and> fs_node f (butlast p) = Some Directory \<and> fs_node f p = None \<and>
     g = AList.update p (File [] now) f"
  by (auto simp: fs_create_excl_def parent_err_None dest: parent_err_SomeD split: option.splits if_splits)

lemma fs_create_excl_wf: "fs_wf f \<Longrightarrow> fs_create_excl f p now = Inr g \<Longrightarrow> fs_wf g"
  by (auto simp: fs_create_excl_Inr intro: fs_wf_update)

lemma fs_write_Inr:
  "fs_write f p d now = Inr g \<longleftrightarrow>
     p \<noteq> [] \<and> fs_node f (butlast p) = Some Directory \<and> fs_node f p \<noteq> Some Directory \<and>
     g = AList.update p (File d now) f"
  by (auto simp: fs_write_def parent_err_None dest: parent_err_SomeD split: option.splits if_splits)

lemma fs_write_wf: "fs_wf f \<Longrightarrow> fs_write f p d now = Inr g \<Longrightarrow> fs_wf g"
  by (auto simp: fs_write_Inr intro: fs_wf_update)

lemma fs_write_node:
  "fs_write f p d now = Inr g \<Longrightarrow> fs_node g q = (if q = p then Some (File d now) else fs_node f q)"
  by (auto simp: fs_write_Inr fs_simps)

lemma fs_rename_Inr:
  "fs_rename f p q = Inr g \<longleftrightarrow>
     (\<exists>d t. fs_node f p = Some (File d t) \<and> q \<noteq> [] \<and> fs_node f (butlast q) = Some Directory \<and>
        fs_node f q \<noteq> Some Directory \<and> g = AList.update q (File d t) (AList.delete p f))"
proof (cases "fs_node f p")
  case (Some n)
  then show ?thesis
    by (cases n) (auto simp: fs_rename_def fs_stat_def parent_err_None dest: parent_err_SomeD split: option.splits if_splits)
qed (simp add: fs_rename_def fs_stat_def)

lemma fs_node_File_nonempty: "fs_node f p = Some (File d t) \<Longrightarrow> p \<noteq> []"
  by auto

lemma fs_rename_wf:
  assumes "fs_wf f" and "fs_rename f p q = Inr g"
  shows "fs_wf g"
proof -
  from assms(2) obtain d t where h: "fs_node f p = Some (File d t)" "q \<noteq> []"
      "fs_node f (butlast q) = Some Directory" "fs_node f q \<noteq> Some Directory"
      "g = AList.update q (File d t) (AList.delete p f)"
    by (auto simp: fs_rename_Inr)
  have p: "p \<noteq> []" using h(1) by auto
  have "fs_wf (AList.delete p f)"
    using fs_wf_delete [OF assms(1) p] file_no_children [OF assms(1) h(1)] by simp
  then show ?thesis
    unfolding h(5) using h p by (intro fs_wf_update) (auto simp: fs_simps)
qed

lemma fs_rename_node:
  assumes "fs_rename f p q = Inr g" and "p \<noteq> q"
  shows "fs_node g r = (if r = q then fs_node f p else if r = p then None else fs_node f r)"
  using assms fs_node_File_nonempty [of f p] by (auto simp: fs_rename_Inr fs_simps)

lemma fs_read_Inr: "fs_read f p = Inr d \<longleftrightarrow> (\<exists>t. fs_node f p = Some (File d t))"
  by (auto simp: fs_read_def fs_stat_def split: option.splits fnode.splits)

lemma fs_files_below_set:
  "p \<in> set (fs_files_below f d) \<longleftrightarrow> prefix d p \<and> is_File (fs_node f p)"
proof -
  have "p \<in> fst ` set f" if "is_File (fs_node f p)"
    using that by (auto simp: is_File_iff fs_node_def split: if_splits dest!: map_of_SomeD) force
  then show ?thesis by (auto simp: fs_files_below_def)
qed

lemma distinct_fs_files_below: "fs_wf f \<Longrightarrow> distinct (fs_files_below f d)"
  by (simp add: fs_files_below_def fs_wfD(1))

lemma fs_keys_node: "p \<noteq> [] \<Longrightarrow> p \<in> fst ` set f \<longleftrightarrow> fs_node f p \<noteq> None"
  using map_of_eq_None_iff [of f p] by (auto simp: fs_node_def)

lemma fs_children_set:
  "p \<in> set (fs_children f d) \<longleftrightarrow> p \<noteq> [] \<and> butlast p = d \<and> fs_node f p \<noteq> None"
  using fs_keys_node [of p f] by (auto simp: fs_children_def)

end
