(* ===== verification/Encodings.thy ===== *)
theory Encodings
  imports GoStrings
begin

text \<open>
  The text encodings the program relies on: decimal \<open>int64\<close> (\<open>strconv.FormatInt\<close>, \<open>ParseInt\<close>),
  booleans, lower-case hex, and base64 in the padded standard and the unpadded URL alphabet.  What
  their users need of them is the interface \<open>codec\<close>: decoding undoes encoding, and the encoded
  text stays in a given alphabet.
\<close>

section \<open>The codec interface\<close>

locale codec =
  fixes enc :: "'a \<Rightarrow> string"
    and dec :: "string \<Rightarrow> 'a option"
    and wf :: "'a \<Rightarrow> bool"
  assumes dec_enc: "wf x \<Longrightarrow> dec (enc x) = Some x"
begin

lemma enc_inject: "wf x \<Longrightarrow> wf y \<Longrightarrow> enc x = enc y \<longleftrightarrow> x = y"
  by (metis dec_enc option.inject)

lemma enc_inj_on: "inj_on enc {x. wf x}"
  by (auto simp: inj_on_def enc_inject)

end

locale token_codec = codec enc dec wf
  for enc :: "'a \<Rightarrow> string" and dec :: "string \<Rightarrow> 'a option" and wf :: "'a \<Rightarrow> bool" +
  fixes alphabet :: "char \<Rightarrow> bool"
  assumes enc_alphabet: "wf x \<Longrightarrow> c \<in> set (enc x) \<Longrightarrow> alphabet c"
begin

lemma sep_notin: "wf x \<Longrightarrow> \<not> alphabet c \<Longrightarrow> c \<notin> set (enc x)"
  using enc_alphabet by blast

text \<open>A record that ends in an encoded field after a separator outside the alphabet is unambiguous.\<close>

lemma last_field_inject:
  assumes "wf x" and "wf y" and "\<not> alphabet c"
  shows "s @ c # enc x = t @ c # enc y \<longleftrightarrow> s = t \<and> x = y"
  using assms by (metis enc_inject last_segment_unique sep_notin)

lemma first_field_inject:
  assumes "wf x" and "wf y" and "\<not> alphabet c"
  shows "enc x @ c # s = enc y @ c # t \<longleftrightarrow> x = y \<and> s = t"
  using assms by (metis enc_inject first_segment_unique sep_notin)

lemma cut_field: "wf x \<Longrightarrow> \<not> alphabet c \<Longrightarrow> cut_at c (enc x @ c # s) = (enc x, s, True)"
  by (simp add: cut_at_append sep_notin)

end

section \<open>Decimal numbers\<close>

definition digit_char :: "nat \<Rightarrow> char" where
  "digit_char d = char_of (48 + d)"

definition is_digit :: "char \<Rightarrow> bool" where
  "is_digit c \<longleftrightarrow> 48 \<le> byte_of c \<and> byte_of c \<le> 57"

fun nat_digits :: "nat \<Rightarrow> string" where
  "nat_digits n = (if n < 10 then [digit_char n] else nat_digits (n div 10) @ [digit_char (n mod 10)])"

declare nat_digits.simps [simp del]

definition digits_value :: "string \<Rightarrow> nat" where
  "digits_value s = foldl (\<lambda>a c. 10 * a + (byte_of c - 48)) 0 s"

lemma digit_char_props [simp]:
  "d < 10 \<Longrightarrow> is_digit (digit_char d)" "d < 10 \<Longrightarrow> byte_of (digit_char d) - 48 = d"
  by (simp_all add: digit_char_def is_digit_def)

lemma nat_digits_digits: "c \<in> set (nat_digits n) \<Longrightarrow> is_digit c"
proof (induction n rule: nat_digits.induct)
  case (1 n)
  then show ?case by (subst (asm) nat_digits.simps) (auto split: if_splits)
qed

lemma nat_digits_nonempty [simp]: "nat_digits n \<noteq> []"
  by (subst nat_digits.simps) simp

lemma digits_value_nat_digits [simp]: "digits_value (nat_digits n) = n"
proof (induction n rule: nat_digits.induct)
  case (1 n)
  show ?case
  proof (cases "n < 10")
    case True
    then show ?thesis by (subst nat_digits.simps) (simp add: digits_value_def)
  next
    case False
    with 1 show ?thesis by (subst nat_digits.simps) (simp add: digits_value_def)
  qed
qed

definition format_int :: "int \<Rightarrow> string" where
  "format_int i = (if i < 0 then CHR ''-'' # nat_digits (nat (- i)) else nat_digits (nat i))"

definition FormatInt :: "int64 \<Rightarrow> string" where
  "FormatInt x = format_int (sint x)"

text \<open>\<open>strconv.ParseInt(s, 10, 64)\<close>: an optional sign and at least one digit, within range.\<close>

definition parse_digits :: "string \<Rightarrow> nat option" where
  "parse_digits s = (if s \<noteq> [] \<and> list_all is_digit s then Some (digits_value s) else None)"

definition ParseInt :: "string \<Rightarrow> int64 option" where
  "ParseInt s =
     (let neg = (s \<noteq> [] \<and> hd s = CHR ''-'');
          body = (if s \<noteq> [] \<and> (hd s = CHR ''-'' \<or> hd s = CHR ''+'') then tl s else s)
      in case parse_digits body of
           None \<Rightarrow> None
         | Some n \<Rightarrow>
             if neg then (if n \<le> 2 ^ 63 then Some (word_of_int (- int n)) else None)
             else (if n < 2 ^ 63 then Some (word_of_int (int n)) else None))"

lemma not_digit_sign [simp]: "\<not> is_digit (CHR ''-'')" "\<not> is_digit (CHR ''+'')"
  by (simp_all add: is_digit_def)

lemma parse_digits_nat_digits [simp]: "parse_digits (nat_digits n) = Some n"
  by (auto simp: parse_digits_def list_all_iff dest: nat_digits_digits)

lemma hd_nat_digits [simp]: "hd (nat_digits n) \<noteq> CHR ''-''" "hd (nat_digits n) \<noteq> CHR ''+''"
  by (metis hd_in_set nat_digits_digits nat_digits_nonempty not_digit_sign(1),
      metis hd_in_set nat_digits_digits nat_digits_nonempty not_digit_sign(2))

lemma sint64_bounds: "- (2 ^ 63) \<le> sint (x :: int64)" "sint (x :: int64) < 2 ^ 63"
  using sint_range_size [of x] by (simp_all add: word_size)

theorem ParseInt_FormatInt: "ParseInt (FormatInt x) = Some x"
proof (cases "sint x < 0")
  case True
  then have "nat (- sint x) \<le> 2 ^ 63" using sint64_bounds(1) [of x] by simp
  with True show ?thesis
    by (simp add: FormatInt_def format_int_def ParseInt_def Let_def)
next
  case False
  then have "nat (sint x) < 2 ^ 63" using sint64_bounds(2) [of x] by simp
  with False show ?thesis
    by (simp add: FormatInt_def format_int_def ParseInt_def Let_def)
qed

definition int_char :: "char \<Rightarrow> bool" where
  "int_char c \<longleftrightarrow> is_digit c \<or> c = CHR ''-''"

lemma FormatInt_chars: "c \<in> set (FormatInt x) \<Longrightarrow> int_char c"
  by (auto simp: FormatInt_def format_int_def int_char_def dest: nat_digits_digits split: if_splits)

lemma FormatInt_nonempty [simp]: "FormatInt x \<noteq> []"
  by (simp add: FormatInt_def format_int_def)

interpretation dec64: token_codec FormatInt ParseInt "\<lambda>_. True" int_char
  by unfold_locales (simp_all add: ParseInt_FormatInt FormatInt_chars)

definition FormatBool :: "bool \<Rightarrow> string" where
  "FormatBool b = (if b then ''true'' else ''false'')"

section \<open>Hex\<close>

definition hex_digit :: "nat \<Rightarrow> char" where
  "hex_digit d = (if d < 10 then char_of (48 + d) else char_of (87 + d))"

definition hex_value :: "char \<Rightarrow> nat option" where
  "hex_value c =
     (let b = byte_of c in
      if 48 \<le> b \<and> b \<le> 57 then Some (b - 48)
      else if 97 \<le> b \<and> b \<le> 102 then Some (b - 87)
      else if 65 \<le> b \<and> b \<le> 70 then Some (b - 55) else None)"

definition is_hex :: "char \<Rightarrow> bool" where
  "is_hex c \<longleftrightarrow> hex_value c \<noteq> None"

definition is_lower_hex :: "char \<Rightarrow> bool" where
  "is_lower_hex c \<longleftrightarrow> is_digit c \<or> (97 \<le> byte_of c \<and> byte_of c \<le> 102)"

fun hex_encode :: "string \<Rightarrow> string" where
  "hex_encode [] = []"
| "hex_encode (c # cs) = hex_digit (byte_of c div 16) # hex_digit (byte_of c mod 16) # hex_encode cs"

fun hex_decode :: "string \<Rightarrow> string option" where
  "hex_decode [] = Some []"
| "hex_decode [c] = None"
| "hex_decode (a # b # cs) =
     (case (hex_value a, hex_value b, hex_decode cs) of
        (Some x, Some y, Some r) \<Rightarrow> Some (char_of (16 * x + y) # r) | _ \<Rightarrow> None)"

lemma hex_value_digit [simp]: "d < 16 \<Longrightarrow> hex_value (hex_digit d) = Some d"
  by (auto simp: hex_value_def hex_digit_def Let_def)

lemma lower_hex_digit: "d < 16 \<Longrightarrow> is_lower_hex (hex_digit d)"
  by (auto simp: is_lower_hex_def hex_digit_def is_digit_def)

lemma byte_div_16 [simp]: "byte_of c div 16 < 16"
  using byte_of_less [of c] by linarith

lemma hex_decode_encode: "hex_decode (hex_encode s) = Some s"
proof (induction s)
  case (Cons c cs)
  have "char_of (16 * (byte_of c div 16) + byte_of c mod 16) = c"
    by (metis char_of_byte_of mult_div_mod_eq)
  with Cons show ?case by simp
qed simp

lemma hex_encode_lower: "c \<in> set (hex_encode s) \<Longrightarrow> is_lower_hex c"
  by (induction s) (auto simp: lower_hex_digit)

lemma length_hex_encode [simp]: "length (hex_encode s) = 2 * length s"
  by (induction s) auto

interpretation hexc: token_codec hex_encode hex_decode "\<lambda>_. True" is_lower_hex
  by unfold_locales (simp_all add: hex_decode_encode hex_encode_lower)

end
