(* ===== verification/DbTime.thy ===== *)
theory DbTime
  imports Encodings
begin

text \<open>
  The timestamps of \<open>store.go\<close>: \<open>formatDBTime\<close> and \<open>parseDBTime\<close> on instants in nanoseconds since 1970,
  with what they use of the package \<open>time\<close>: the proleptic Gregorian calendar, and layouts as lists of
  chunks that are printed and parsed one after the other.  What a column keeps of an instant follows:
  everything down to 100 ns, for the years a layout has room for.
\<close>

section \<open>The calendar\<close>

text \<open>Days from 1 January of year 1 to 1 January of a year.\<close>

definition before_year :: "int \<Rightarrow> int" where
  "before_year y = 365 * (y - 1) + (y - 1) div 4 - (y - 1) div 100 + (y - 1) div 400"

definition leap_day :: "int \<Rightarrow> int" where
  "leap_day y = (if y mod 4 = 0 \<and> (y mod 100 \<noteq> 0 \<or> y mod 400 = 0) then 1 else 0)"

text \<open>The year of a day: 400 years have 146097 days, which leaves two candidates.\<close>

definition year_of :: "int \<Rightarrow> int" where
  "year_of d = (let p = 400 * d div 146097 in if before_year (p + 2) \<le> d then p + 2 else p + 1)"

text \<open>The first day of a month in its year, and the month of a day, with \<open>l\<close> leap days.\<close>

definition month_start :: "int \<Rightarrow> int \<Rightarrow> int" where
  "month_start l m =
     (if m \<le> 1 then 0 else if m = 2 then 31 else if m = 3 then 59 + l else if m = 4 then 90 + l
      else if m = 5 then 120 + l else if m = 6 then 151 + l else if m = 7 then 181 + l else if m = 8 then 212 + l
      else if m = 9 then 243 + l else if m = 10 then 273 + l else if m = 11 then 304 + l else if m = 12 then 334 + l
      else 365 + l)"

definition month_of :: "int \<Rightarrow> int \<Rightarrow> int" where
  "month_of l yd =
     (if yd < 31 then 1 else if yd < 59 + l then 2 else if yd < 90 + l then 3 else if yd < 120 + l then 4
      else if yd < 151 + l then 5 else if yd < 181 + l then 6 else if yd < 212 + l then 7 else if yd < 243 + l then 8
      else if yd < 273 + l then 9 else if yd < 304 + l then 10 else if yd < 334 + l then 11 else 12)"

definition days_in :: "int \<Rightarrow> int \<Rightarrow> int" where
  "days_in y m = month_start (leap_day y) (m + 1) - month_start (leap_day y) m"

lemma leap_day_range: "leap_day y = 0 \<or> leap_day y = 1"
  by (simp add: leap_day_def)

lemma div_succ:
  fixes p n :: int
  assumes "0 < n"
  shows "(p + 1) div n = p div n + (if (p + 1) mod n = 0 then 1 else 0)"
proof (cases "p mod n + 1 = n")
  case True
  then have "p + 1 = n * (p div n + 1)" by (metis add.assoc distrib_left mult.right_neutral mult_div_mod_eq)
  then show ?thesis using assms by simp
next
  case False
  then have r: "p mod n + 1 < n" using pos_mod_bound [OF assms, of p] by linarith
  have e: "p + 1 = n * (p div n) + (p mod n + 1)" by simp
  have z: "0 \<le> p mod n" using assms by simp
  have "(p + 1) div n = p div n" using e r z by (intro int_div_pos_eq [where r = "p mod n + 1"]) auto
  moreover have "(p + 1) mod n = p mod n + 1" using e r z by (intro int_mod_pos_eq [where q = "p div n"]) auto
  ultimately show ?thesis using z by simp
qed

lemma year_step:
  fixes a b c x :: int
  shows "365 * x + (a + (if A then 1 else 0)) - (b + (if B then 1 else 0)) + (c + (if C then 1 else 0)) =
    365 * (x - 1) + a - b + c + 365 + (if A then 1 else 0) - (if B then 1 else 0) + (if C then 1 else 0)"
  by simp

lemma leap_step:
  fixes x :: int
  shows "(B \<longrightarrow> A) \<Longrightarrow> (C \<longrightarrow> B) \<Longrightarrow>
    x + (if A then 1 else 0) - (if B then 1 else 0) + (if C then 1 else 0) = x + (if A \<and> (\<not> B \<or> C) then 1 else 0)"
  by (cases A; cases B; cases C) simp_all

lemma before_year_succ: "before_year (y + 1) = before_year y + 365 + leap_day y"
proof -
  have d: "y div 4 = (y - 1) div 4 + (if y mod 4 = 0 then 1 else 0)"
    "y div 100 = (y - 1) div 100 + (if y mod 100 = 0 then 1 else 0)"
    "y div 400 = (y - 1) div 400 + (if y mod 400 = 0 then 1 else 0)"
    using div_succ [of 4 "y - 1"] div_succ [of 100 "y - 1"] div_succ [of 400 "y - 1"]
    by (simp_all only: diff_add_cancel zero_less_numeral simp_thms)
  have m: "y mod 100 = 0 \<longrightarrow> y mod 4 = 0" "y mod 400 = 0 \<longrightarrow> y mod 100 = 0"
    using mod_mod_cancel [of 4 100 y] mod_mod_cancel [of 100 400 y] by auto
  have "before_year (y + 1) = 365 * y + y div 4 - y div 100 + y div 400" by (simp only: before_year_def add_diff_cancel_right')
  then have e: "before_year (y + 1) = before_year y + 365 + (if y mod 4 = 0 then 1 else 0)
      - (if y mod 100 = 0 then 1 else 0) + (if y mod 400 = 0 then 1 else 0)"
    by (simp only: d year_step before_year_def [of y])
  show ?thesis unfolding e leap_day_def by (rule leap_step [OF m])
qed

lemma before_year_exact:
  "400 * before_year y = 146097 * (y - 1) - 100 * ((y - 1) mod 4) + 4 * ((y - 1) mod 100) - (y - 1) mod 400"
proof -
  let ?p = "y - 1"
  have "4 * (?p div 4) = ?p - ?p mod 4" "100 * (?p div 100) = ?p - ?p mod 100" "400 * (?p div 400) = ?p - ?p mod 400"
    by (simp_all only: minus_mod_eq_mult_div)
  then show ?thesis unfolding before_year_def by (simp only: ring_distribs)
qed

lemma before_year_low: "146097 * (y - 1) - 700 < 400 * before_year y"
proof -
  have "(y - 1) mod 4 < 4" "0 \<le> (y - 1) mod 100" "(y - 1) mod 400 < 400" by simp_all
  then show ?thesis unfolding before_year_exact by linarith
qed

lemma before_year_high: "400 * before_year y \<le> 146097 * (y - 1) + 396"
proof -
  have "0 \<le> (y - 1) mod 4" "(y - 1) mod 100 < 100" "0 \<le> (y - 1) mod 400" by simp_all
  then show ?thesis unfolding before_year_exact by linarith
qed

lemma year_of_bounds: "before_year (year_of d) \<le> d" "d < before_year (year_of d + 1)"
proof -
  define p where "p = 400 * d div 146097"
  have p: "146097 * p \<le> 400 * d" "400 * d < 146097 * p + 146097"
    using minus_mod_eq_mult_div [of "400 * d" 146097] pos_mod_bound [of 146097 "400 * d"] pos_mod_sign [of 146097 "400 * d"]
    by (simp_all only: p_def)
  have lo: "before_year (p + 1) \<le> d"
    using before_year_high [of "p + 1"] p(1) by simp
  have hi: "d < before_year (p + 3)"
    using before_year_low [of "p + 3"] p(2) by simp
  show "before_year (year_of d) \<le> d" using lo by (simp add: year_of_def Let_def flip: p_def)
  show "d < before_year (year_of d + 1)" using hi by (auto simp: year_of_def Let_def add.commute simp flip: p_def)
qed

lemma before_year_mono: "y \<le> z \<Longrightarrow> before_year y \<le> before_year z"
  by (induction z rule: int_ge_induct) (simp_all add: before_year_succ leap_day_def)

lemma year_of_unique:
  assumes "before_year y \<le> d" "d < before_year (y + 1)"
  shows "year_of d = y"
  using year_of_bounds [of d] before_year_mono [of "y + 1" "year_of d"] before_year_mono [of "year_of d + 1" y] assms
  by linarith

lemma month_of_bounds:
  assumes "0 \<le> yd" "yd < 365 + l" "l = 0 \<or> l = 1"
  shows "1 \<le> month_of l yd" "month_of l yd \<le> 12" "month_start l (month_of l yd) \<le> yd"
    "yd < month_start l (month_of l yd + 1)"
  using assms by (auto simp: month_of_def month_start_def)

section \<open>Layouts\<close>

text \<open>What a layout of the package \<open>time\<close> is cut into (\<open>nextStdChunk\<close>).\<close>

datatype chunk = StdYear | StdMonth | StdMonthName | StdWeekDay | StdDay | StdHour | StdMinute | StdSecond | StdFrac nat
  | StdNumZone | StdIsoZone | Lit char

definition date_chunks :: "chunk list" where
  "date_chunks = [StdYear, Lit CHR ''-'', StdMonth, Lit CHR ''-'', StdDay]"

definition clock_chunks :: "nat \<Rightarrow> chunk list" where
  "clock_chunks n = [StdHour, Lit CHR '':'', StdMinute, Lit CHR '':'', StdSecond, StdFrac n]"

definition dbTimeLayout :: "chunk list" where
  "dbTimeLayout = date_chunks @ Lit CHR '' '' # clock_chunks 7 @ [StdNumZone]"

definition RFC3339Nano :: "chunk list" where
  "RFC3339Nano = date_chunks @ Lit CHR ''T'' # clock_chunks 9 @ [StdIsoZone]"

definition no_zone_layout :: "chunk list" where
  "no_zone_layout = date_chunks @ Lit CHR '' '' # clock_chunks 7"

text \<open>A broken-down time in UTC; \<open>fOffset\<close> is the zone read from the text, in seconds.\<close>

record fields =
  fYear :: int
  fMonth :: int
  fDay :: int
  fHour :: int
  fMinute :: int
  fSecond :: int
  fNanos :: int
  fOffset :: int

definition fields_of :: "int \<Rightarrow> fields" where
  "fields_of t = (
     let s = t div 1000000000; d = s div 86400 + 719162; y = year_of d; l = leap_day y; yd = d - before_year y;
         m = month_of l yd; sd = s mod 86400
     in \<lparr>fYear = y, fMonth = m, fDay = yd - month_start l m + 1, fHour = sd div 3600, fMinute = sd div 60 mod 60,
         fSecond = sd mod 60, fNanos = t mod 1000000000, fOffset = 0\<rparr>)"

definition instant_of :: "fields \<Rightarrow> int" where
  "instant_of f = (
     let d = before_year (fYear f) + month_start (leap_day (fYear f)) (fMonth f) + fDay f - 1 - 719162
     in (d * 86400 + fHour f * 3600 + fMinute f * 60 + fSecond f - fOffset f) * 1000000000 + fNanos f)"

text \<open>The short names, and the day of the week counted from Monday, which 1 January of year 1 was.\<close>

definition shortMonthNames :: "string list" where
  "shortMonthNames = [''Jan'', ''Feb'', ''Mar'', ''Apr'', ''May'', ''Jun'', ''Jul'', ''Aug'', ''Sep'', ''Oct'', ''Nov'', ''Dec'']"

definition shortDayNames :: "string list" where
  "shortDayNames = [''Mon'', ''Tue'', ''Wed'', ''Thu'', ''Fri'', ''Sat'', ''Sun'']"

definition weekday :: "fields \<Rightarrow> nat" where
  "weekday f = nat ((before_year (fYear f) + month_start (leap_day (fYear f)) (fMonth f) + fDay f - 1) mod 7)"

section \<open>Printing\<close>

definition pad_digits :: "nat \<Rightarrow> nat \<Rightarrow> string" where
  "pad_digits w n = replicate (w - length (nat_digits n)) CHR ''0'' @ nat_digits n"

definition format_frac :: "nat \<Rightarrow> int \<Rightarrow> string" where
  "format_frac n ns = (
     let ds = TrimRightChar (take n (pad_digits 9 (nat ns))) CHR ''0'' in if ds = [] then [] else CHR ''.'' # ds)"

primrec print_chunk :: "chunk \<Rightarrow> fields \<Rightarrow> string" where
  "print_chunk StdYear f = (if fYear f < 0 then CHR ''-'' # pad_digits 4 (nat (- fYear f)) else pad_digits 4 (nat (fYear f)))"
| "print_chunk StdMonth f = pad_digits 2 (nat (fMonth f))"
| "print_chunk StdMonthName f = shortMonthNames ! nat (fMonth f - 1)"
| "print_chunk StdWeekDay f = shortDayNames ! weekday f"
| "print_chunk StdDay f = pad_digits 2 (nat (fDay f))"
| "print_chunk StdHour f = pad_digits 2 (nat (fHour f))"
| "print_chunk StdMinute f = pad_digits 2 (nat (fMinute f))"
| "print_chunk StdSecond f = pad_digits 2 (nat (fSecond f))"
| "print_chunk (StdFrac n) f = format_frac n (fNanos f)"
| "print_chunk StdNumZone f = ''+00:00''"
| "print_chunk StdIsoZone f = ''Z''"
| "print_chunk (Lit c) f = [c]"

definition Format :: "chunk list \<Rightarrow> int \<Rightarrow> string" where
  "Format layout t = concat (map (\<lambda>c. print_chunk c (fields_of t)) layout)"

definition formatDBTime :: "int \<Rightarrow> string" where
  "formatDBTime t = Format dbTimeLayout t"

section \<open>Parsing\<close>

text \<open>Exactly \<open>n\<close> digits.\<close>

definition fixed_digits :: "nat \<Rightarrow> string \<Rightarrow> (int \<times> string) option" where
  "fixed_digits n s = (if n \<le> length s \<and> list_all is_digit (take n s) then Some (int (digits_value (take n s)), drop n s) else None)"

text \<open>\<open>getnum\<close> without \<open>fixed\<close>: one digit or two.\<close>

definition short_digits :: "string \<Rightarrow> (int \<times> string) option" where
  "short_digits s = (case fixed_digits 2 s of Some r \<Rightarrow> Some r | None \<Rightarrow> fixed_digits 1 s)"

definition ranged :: "int \<Rightarrow> int \<Rightarrow> (int \<times> string) option \<Rightarrow> (int \<times> string) option" where
  "ranged lo hi r = (case r of Some (v, s) \<Rightarrow> if lo \<le> v \<and> v \<le> hi then Some (v, s) else None | None \<Rightarrow> None)"

text \<open>A fraction is a point or a comma and at least one digit; nine digits count, and it may be missing.\<close>

definition parse_frac :: "string \<Rightarrow> int \<times> string" where
  "parse_frac s = (case s of
     c # d # r \<Rightarrow>
       if (c = CHR ''.'' \<or> c = CHR '','') \<and> is_digit d
       then let ds = take 9 (takeWhile is_digit (d # r))
            in (int (digits_value ds) * 10 ^ (9 - length ds), dropWhile is_digit (d # r))
       else (0, s)
   | _ \<Rightarrow> (0, s))"

definition parse_zone :: "string \<Rightarrow> (int \<times> string) option" where
  "parse_zone s = (case s of
     [] \<Rightarrow> None
   | sign # r \<Rightarrow> (case ranged 0 24 (fixed_digits 2 r) of
       Some (hr, c # r') \<Rightarrow>
         (if c \<noteq> CHR '':'' then None
          else case ranged 0 60 (fixed_digits 2 r') of
            Some (mm, r'') \<Rightarrow>
              (if sign = CHR ''+'' then Some ((hr * 60 + mm) * 60, r'')
               else if sign = CHR ''-'' then Some (- ((hr * 60 + mm) * 60), r'') else None)
          | None \<Rightarrow> None)
     | _ \<Rightarrow> None))"

text \<open>A blank of the layout stands for any blanks, or for the end of the text.\<close>

definition skip_char :: "char \<Rightarrow> string \<Rightarrow> string option" where
  "skip_char c s =
     (if c = CHR '' '' then if s \<noteq> [] \<and> hd s \<noteq> c then None else Some (dropWhile (\<lambda>x. x = c) s)
      else case s of [] \<Rightarrow> None | x # r \<Rightarrow> if x = c then Some r else None)"

text \<open>\<open>lookup\<close>: the first name of a table that the text begins with, whatever the case of its letters.\<close>

primrec lookup_name :: "string list \<Rightarrow> string \<Rightarrow> (int \<times> string) option" where
  "lookup_name [] s = None"
| "lookup_name (n # ns) s =
     (if length n \<le> length s \<and> EqualFold (take (length n) s) n then Some (0, drop (length n) s)
      else map_option (\<lambda>(i, r). (i + 1, r)) (lookup_name ns s))"

definition setf :: "(int \<Rightarrow> fields) \<Rightarrow> (int \<times> string) option \<Rightarrow> (fields \<times> string) option" where
  "setf upd = map_option (\<lambda>(v, s). (upd v, s))"

primrec parse_chunk :: "chunk \<Rightarrow> fields \<Rightarrow> string \<Rightarrow> (fields \<times> string) option" where
  "parse_chunk StdYear f s = setf (\<lambda>v. f\<lparr>fYear := v\<rparr>) (fixed_digits 4 s)"
| "parse_chunk StdMonth f s = setf (\<lambda>v. f\<lparr>fMonth := v\<rparr>) (ranged 1 12 (fixed_digits 2 s))"
| "parse_chunk StdMonthName f s = setf (\<lambda>v. f\<lparr>fMonth := v + 1\<rparr>) (lookup_name shortMonthNames s)"
| "parse_chunk StdWeekDay f s = setf (\<lambda>v. f) (lookup_name shortDayNames s)"
| "parse_chunk StdDay f s = setf (\<lambda>v. f\<lparr>fDay := v\<rparr>) (fixed_digits 2 s)"
| "parse_chunk StdHour f s = setf (\<lambda>v. f\<lparr>fHour := v\<rparr>) (ranged 0 23 (short_digits s))"
| "parse_chunk StdMinute f s = setf (\<lambda>v. f\<lparr>fMinute := v\<rparr>) (ranged 0 59 (fixed_digits 2 s))"
| "parse_chunk StdSecond f s = setf (\<lambda>v. f\<lparr>fSecond := v\<rparr>) (ranged 0 59 (fixed_digits 2 s))"
| "parse_chunk (StdFrac n) f s = setf (\<lambda>v. f\<lparr>fNanos := v\<rparr>) (Some (parse_frac s))"
| "parse_chunk StdNumZone f s = setf (\<lambda>v. f\<lparr>fOffset := v\<rparr>) (parse_zone s)"
| "parse_chunk StdIsoZone f s =
     setf (\<lambda>v. f\<lparr>fOffset := v\<rparr>) (if s \<noteq> [] \<and> hd s = CHR ''Z'' then Some (0, tl s) else parse_zone s)"
| "parse_chunk (Lit c) f s = map_option (\<lambda>r. (f, r)) (skip_char c s)"

primrec parse_chunks :: "chunk list \<Rightarrow> fields \<Rightarrow> string \<Rightarrow> fields option" where
  "parse_chunks [] f s = (if s = [] then Some f else None)"
| "parse_chunks (c # cs) f s = (case parse_chunk c f s of Some (f', s') \<Rightarrow> parse_chunks cs f' s' | None \<Rightarrow> None)"

definition no_fields :: fields where
  "no_fields = \<lparr>fYear = 0, fMonth = 1, fDay = 1, fHour = 0, fMinute = 0, fSecond = 0, fNanos = 0, fOffset = 0\<rparr>"

definition Parse :: "chunk list \<Rightarrow> string \<Rightarrow> int option" where
  "Parse layout s = (case parse_chunks layout no_fields s of
     Some f \<Rightarrow> if 1 \<le> fDay f \<and> fDay f \<le> days_in (fYear f) (fMonth f) then Some (instant_of f) else None
   | None \<Rightarrow> None)"

text \<open>The zero \<open>time.Time\<close>, 1 January of year 1.\<close>

definition zero_time :: int where
  "zero_time = - 62135596800000000000"

definition parseDBTime :: "string \<Rightarrow> int" where
  "parseDBTime s = (case List.find (\<lambda>r. r \<noteq> None) (map (\<lambda>l. Parse l s) [dbTimeLayout, RFC3339Nano, no_zone_layout]) of
     Some (Some t) \<Rightarrow> t | _ \<Rightarrow> zero_time)"

section \<open>Reading back what was written\<close>

lemma length_nat_digits: "0 < w \<Longrightarrow> n < 10 ^ w \<Longrightarrow> length (nat_digits n) \<le> w"
proof (induction n arbitrary: w rule: nat_digits.induct)
  case (1 n)
  then show ?case by (cases w; cases "w = 1") (auto simp: nat_digits.simps [of n])
qed

lemma pad_digits_digits: "list_all is_digit (pad_digits w n)"
  by (auto simp: pad_digits_def list_all_iff nat_digits_digits) (simp add: is_digit_def)

lemma length_pad_digits: "0 < w \<Longrightarrow> n < 10 ^ w \<Longrightarrow> length (pad_digits w n) = w"
  using length_nat_digits by (simp add: pad_digits_def)

lemma digits_value_zeros: "digits_value (replicate k CHR ''0'' @ s) = digits_value s"
  by (induction k) (simp_all add: digits_value_def)

lemma digits_value_pad [simp]: "digits_value (pad_digits w n) = n"
  by (simp add: pad_digits_def digits_value_zeros)

lemma fixed_digits_pad:
  assumes "0 < w" "n < 10 ^ w"
  shows "fixed_digits w (pad_digits w n @ s) = Some (int n, s)"
  using length_pad_digits [OF assms] pad_digits_digits [of w n] by (simp add: fixed_digits_def)

lemma foldl_digits: "foldl (\<lambda>a c. 10 * a + (byte_of c - 48)) a s = a * 10 ^ length s + digits_value s"
proof (induction s arbitrary: a)
  case Nil
  then show ?case by (simp add: digits_value_def)
next
  case (Cons c s)
  have "digits_value (c # s) = (byte_of c - 48) * 10 ^ length s + digits_value s"
    unfolding digits_value_def [of "c # s"] by (simp add: Cons)
  then show ?case unfolding foldl.simps Cons by (simp add: algebra_simps)
qed

lemma digits_value_append: "digits_value (a @ b) = digits_value a * 10 ^ length b + digits_value b"
  unfolding digits_value_def [of "a @ b"] foldl_append digits_value_def [symmetric] by (rule foldl_digits)

lemma digits_value_less: "list_all is_digit s \<Longrightarrow> digits_value s < 10 ^ length s"
proof (induction s rule: rev_induct)
  case Nil
  then show ?case by (simp add: digits_value_def)
next
  case (snoc c s)
  then have "digits_value s + 1 \<le> 10 ^ length s" "byte_of c - 48 < 10" by (auto simp: is_digit_def)
  then show ?case by (simp add: digits_value_append) (simp add: digits_value_def)
qed

lemma digits_value_take:
  assumes "list_all is_digit s" "length s = n + k"
  shows "digits_value (take n s) = digits_value s div 10 ^ k"
proof -
  have "digits_value s = digits_value (take n s) * 10 ^ k + digits_value (drop n s)"
    using digits_value_append [of "take n s" "drop n s"] assms(2) by simp
  moreover have "digits_value (drop n s) < 10 ^ k"
    using digits_value_less [of "drop n s"] assms by (simp add: list_all_iff) (metis in_set_dropD)
  ultimately show ?thesis by simp
qed

lemma TrimRightChar_zeros: "\<exists>k. s = TrimRightChar s c @ replicate k c"
proof (induction s rule: rev_induct)
  case Nil
  then show ?case by (simp add: TrimRightChar_def)
next
  case (snoc x s)
  then obtain k where k: "s = TrimRightChar s c @ replicate k c" by blast
  show ?case
  proof (cases "x = c")
    case True
    then have "TrimRightChar (s @ [x]) c = TrimRightChar s c" by (simp add: TrimRightChar_def)
    then show ?thesis using k True by (intro exI [of _ "Suc k"]) (simp flip: replicate_append_same)
  next
    case False
    then show ?thesis by (intro exI [of _ 0]) (simp add: TrimRightChar_def)
  qed
qed

definition ends_fraction :: "string \<Rightarrow> bool" where
  "ends_fraction s \<longleftrightarrow> s = [] \<or> \<not> is_digit (hd s) \<and> hd s \<noteq> CHR ''.'' \<and> hd s \<noteq> CHR '',''"

lemma parse_frac_point:
  assumes "ds \<noteq> []" "list_all is_digit ds" "length ds \<le> 9" "ends_fraction s"
  shows "parse_frac (CHR ''.'' # ds @ s) = (int (digits_value ds) * 10 ^ (9 - length ds), s)"
proof -
  have "takeWhile is_digit (ds @ s) = ds" "dropWhile is_digit (ds @ s) = s"
    using assms by (cases s; auto simp: ends_fraction_def list_all_iff takeWhile_append dropWhile_append)+
  moreover obtain d r where "ds = d # r" using assms(1) by (cases ds) auto
  ultimately show ?thesis using assms unfolding parse_frac_def by (simp add: Let_def)
qed

lemma parse_frac_none: "ends_fraction s \<Longrightarrow> parse_frac s = (0, s)"
  by (auto simp: parse_frac_def ends_fraction_def split: list.splits)

lemma parse_format_frac:
  assumes "0 \<le> ns" "ns < 1000000000" "ends_fraction s" "n \<le> 9"
  shows "parse_frac (format_frac n ns @ s) = (ns div 10 ^ (9 - n) * 10 ^ (9 - n), s)"
proof -
  define p where "p = pad_digits 9 (nat ns)"
  define ds where "ds = TrimRightChar (take n p) CHR ''0''"
  have p: "length p = 9" "list_all is_digit p" "digits_value p = nat ns"
    using length_pad_digits [of 9 "nat ns"] pad_digits_digits assms by (simp_all add: p_def)
  obtain k where k: "take n p = ds @ replicate k CHR ''0''" using TrimRightChar_zeros ds_def by blast
  have len: "length ds + k = n" using arg_cong [OF k, of length] p(1) assms(4) by simp
  have dig: "list_all is_digit ds" using p(2) k by (metis append_take_drop_id list_all_append)
  have "digits_value (take n p) = nat ns div 10 ^ (9 - n)"
    using digits_value_take [OF p(2), of n "9 - n"] p(1) assms(4) by (simp add: p(3))
  then have "digits_value ds * 10 ^ k = nat ns div 10 ^ (9 - n)"
    unfolding k digits_value_append using digits_value_zeros [of k "[]"] by (simp add: digits_value_def)
  then have "int (digits_value ds) * 10 ^ k = ns div 10 ^ (9 - n)" using assms(1)
    by (metis int_nat_eq of_nat_mult of_nat_numeral of_nat_power zdiv_int)
  moreover have "9 - length ds = k + (9 - n)" using len assms(4) by simp
  ultimately have v: "int (digits_value ds) * 10 ^ (9 - length ds) = ns div 10 ^ (9 - n) * 10 ^ (9 - n)"
    by (simp add: power_add)
  show ?thesis
  proof (cases "ds = []")
    case True
    then show ?thesis using v assms(3) by (simp add: format_frac_def parse_frac_none digits_value_def Let_def flip: ds_def p_def)
  next
    case False
    then show ?thesis using parse_frac_point [OF False dig _ assms(3)] v len assms(4)
      by (simp add: format_frac_def Let_def flip: ds_def p_def)
  qed
qed

text \<open>The fields of an instant are in their ranges, and determine it.\<close>

lemma clock_range:
  fixes s :: int
  assumes "0 \<le> s" "s < 86400"
  shows "0 \<le> s div 3600" "s div 3600 \<le> 23" "0 \<le> s div 60 mod 60" "s div 60 mod 60 \<le> 59" "0 \<le> s mod 60" "s mod 60 \<le> 59"
  using assms zdiv_mono1 [of s 86399 3600] pos_mod_bound [of 60 "s div 60"] pos_mod_bound [of 60 s]
  by (simp_all add: pos_imp_zdiv_nonneg_iff del: pos_mod_bound)

lemma clock_value: "s div 3600 * 3600 + s div 60 mod 60 * 60 + s mod 60 = s" for s :: int
proof -
  have "s div 3600 = s div 60 div 60" using zdiv_zmult2_eq [of 60 s 60] by simp
  moreover have "s div 60 div 60 * 60 + s div 60 mod 60 = s div 60" "s div 60 * 60 + s mod 60 = s" by simp_all
  ultimately show ?thesis by linarith
qed

text \<open>Day \<open>d\<close> counted from 1 January of year 1, and its date.\<close>

definition day_of :: "int \<Rightarrow> int" where
  "day_of t = t div 1000000000 div 86400 + 719162"

definition year_day :: "int \<Rightarrow> int" where
  "year_day d = d - before_year (year_of d)"

abbreviation month_of_day :: "int \<Rightarrow> int" where
  "month_of_day d \<equiv> month_of (leap_day (year_of d)) (year_day d)"

lemma fields_of_sel:
  "fYear (fields_of t) = year_of (day_of t)"
  "fMonth (fields_of t) = month_of_day (day_of t)"
  "fDay (fields_of t) = year_day (day_of t) - month_start (leap_day (year_of (day_of t))) (month_of_day (day_of t)) + 1"
  "fHour (fields_of t) = t div 1000000000 mod 86400 div 3600"
  "fMinute (fields_of t) = t div 1000000000 mod 86400 div 60 mod 60"
  "fSecond (fields_of t) = t div 1000000000 mod 86400 mod 60"
  "fNanos (fields_of t) = t mod 1000000000"
  "fOffset (fields_of t) = 0"
  by (simp_all only: fields_of_def day_of_def year_day_def Let_def fields.select_convs)

lemma year_day_range: "0 \<le> year_day d" "year_day d < 365 + leap_day (year_of d)"
  using year_of_bounds [of d] before_year_succ [of "year_of d"] by (simp_all add: year_day_def)

lemmas month_of_day_bounds = month_of_bounds [OF year_day_range leap_day_range]

lemma fields_of_date:
  "1 \<le> fMonth (fields_of t)" "fMonth (fields_of t) \<le> 12"
  "1 \<le> fDay (fields_of t)" "fDay (fields_of t) \<le> days_in (fYear (fields_of t)) (fMonth (fields_of t))"
  unfolding fields_of_sel days_in_def using month_of_day_bounds [of "day_of t"] by simp_all

lemma fields_of_clock:
  "0 \<le> fHour (fields_of t)" "fHour (fields_of t) \<le> 23" "0 \<le> fMinute (fields_of t)" "fMinute (fields_of t) \<le> 59"
  "0 \<le> fSecond (fields_of t)" "fSecond (fields_of t) \<le> 59" "0 \<le> fNanos (fields_of t)" "fNanos (fields_of t) < 1000000000"
  unfolding fields_of_sel by (rule clock_range pos_mod_sign pos_mod_bound zero_less_numeral)+

lemma days_in_max: "days_in y m \<le> 31"
  using leap_day_range [of y] by (auto simp: days_in_def month_start_def)

lemma instant_of_fields: "instant_of (fields_of t) = t"
proof -
  let ?s = "t div 1000000000"
  have "instant_of (fields_of t) = ((day_of t - 719162) * 86400 +
      (?s mod 86400 div 3600 * 3600 + ?s mod 86400 div 60 mod 60 * 60 + ?s mod 86400 mod 60)) * 1000000000 + t mod 1000000000"
    by (simp only: instant_of_def fields_of_sel Let_def year_day_def) (simp add: algebra_simps)
  also have "\<dots> = ((day_of t - 719162) * 86400 + ?s mod 86400) * 1000000000 + t mod 1000000000"
    by (simp only: clock_value)
  also have "(day_of t - 719162) * 86400 + ?s mod 86400 = ?s" by (simp add: day_of_def)
  finally show ?thesis by simp
qed



text \<open>What the parser reads from one printed chunk.\<close>

lemma fixed_two: "0 \<le> v \<Longrightarrow> v \<le> 99 \<Longrightarrow> fixed_digits 2 (pad_digits 2 (nat v) @ s) = Some (v, s)"
  using fixed_digits_pad [of 2 "nat v" s] by simp

lemma short_two: "0 \<le> v \<Longrightarrow> v \<le> 99 \<Longrightarrow> short_digits (pad_digits 2 (nat v) @ s) = Some (v, s)"
  by (simp add: short_digits_def fixed_two)

lemma fixed_year: "0 \<le> v \<Longrightarrow> v \<le> 9999 \<Longrightarrow> fixed_digits 4 (pad_digits 4 (nat v) @ s) = Some (v, s)"
  using fixed_digits_pad [of 4 "nat v" s] by simp

lemma skip_Lit [simp]: "c \<noteq> CHR '' '' \<Longrightarrow> skip_char c (c # s) = Some s"
  by (simp add: skip_char_def)

lemma not_digit_chars [simp]: "\<not> is_digit CHR '' ''" "\<not> is_digit CHR ''-''"
  by (simp_all add: is_digit_def)

lemma skip_blank: "s \<noteq> [] \<Longrightarrow> is_digit (hd s) \<Longrightarrow> skip_char CHR '' '' (CHR '' '' # s) = Some s"
  by (cases s) (auto simp: skip_char_def)

lemma pad_digits_start: "pad_digits w n @ s \<noteq> []" "is_digit (hd (pad_digits w n @ s))"
proof -
  have "pad_digits w n \<noteq> []" by (simp add: pad_digits_def)
  then show "pad_digits w n @ s \<noteq> []" "is_digit (hd (pad_digits w n @ s))"
    using pad_digits_digits [of w n] by (cases "pad_digits w n"; simp)+
qed

lemmas skip_blank_pad = skip_blank [OF pad_digits_start]

lemma zone_utc: "parse_zone ''+00:00'' = Some (0, [])"
  by code_simp

lemma zone_ends_fraction: "ends_fraction ''+00:00''"
  by code_simp

lemma ends_fraction_Nil: "ends_fraction []"
  by (simp add: ends_fraction_def)

lemmas parse_printed_simps = date_chunks_def clock_chunks_def setf_def ranged_def fixed_two short_two fixed_year
  skip_blank_pad parse_format_frac [OF _ _ zone_ends_fraction] parse_format_frac [OF _ _ ends_fraction_Nil, simplified] zone_utc no_fields_def

lemma parse_printed:
  assumes "0 \<le> fYear (fields_of t)" "fYear (fields_of t) \<le> 9999"
  shows
    "parse_chunks dbTimeLayout no_fields (Format dbTimeLayout t) = Some (fields_of t\<lparr>fNanos := fNanos (fields_of t) div 100 * 100\<rparr>)"
    "parse_chunks dbTimeLayout no_fields (Format RFC3339Nano t) = None"
    "parse_chunks dbTimeLayout no_fields (Format no_zone_layout t) = None"
    "parse_chunks RFC3339Nano no_fields (Format RFC3339Nano t) = Some (fields_of t)"
    "parse_chunks RFC3339Nano no_fields (Format no_zone_layout t) = None"
    "parse_chunks no_zone_layout no_fields (Format no_zone_layout t) = Some (fields_of t\<lparr>fNanos := fNanos (fields_of t) div 100 * 100\<rparr>)"
proof -
  note r = fields_of_date [of t] fields_of_clock [of t] days_in_max [of "fYear (fields_of t)" "fMonth (fields_of t)"] assms
  have o: "fOffset (fields_of t) = 0" by (simp add: fields_of_sel)
  have z: "ends_fraction ''Z''" by code_simp
  note s = Format_def parse_printed_simps o parse_format_frac [OF _ _ z]
  show "parse_chunks dbTimeLayout no_fields (Format dbTimeLayout t) = Some (fields_of t\<lparr>fNanos := fNanos (fields_of t) div 100 * 100\<rparr>)"
    using r by (simp add: s dbTimeLayout_def)
  show "parse_chunks dbTimeLayout no_fields (Format RFC3339Nano t) = None"
    using r by (simp add: s dbTimeLayout_def RFC3339Nano_def skip_char_def)
  show "parse_chunks dbTimeLayout no_fields (Format no_zone_layout t) = None"
    using r by (simp add: s dbTimeLayout_def no_zone_layout_def parse_zone_def)
  show "parse_chunks RFC3339Nano no_fields (Format RFC3339Nano t) = Some (fields_of t)"
    using r by (simp add: s RFC3339Nano_def)
  show "parse_chunks RFC3339Nano no_fields (Format no_zone_layout t) = None"
    using r by (simp add: s no_zone_layout_def RFC3339Nano_def skip_char_def)
  show "parse_chunks no_zone_layout no_fields (Format no_zone_layout t) = Some (fields_of t\<lparr>fNanos := fNanos (fields_of t) div 100 * 100\<rparr>)"
    using r by (simp add: s no_zone_layout_def)
qed

text \<open>A year that is not four digits cannot be read back.\<close>

lemma year_unreadable:
  assumes "fYear f < 0 \<or> 9999 < fYear f"
  shows "parse_chunks (date_chunks @ l) g (print_chunk StdYear f @ s) = None"
proof (cases "fYear f < 0")
  case True
  then show ?thesis by (simp add: date_chunks_def fixed_digits_def setf_def)
next
  case False
  let ?p = "pad_digits 4 (nat (fYear f))"
  have "10 ^ 4 \<le> nat (fYear f)" using assms False by simp
  moreover have "nat (fYear f) < 10 ^ length ?p" using digits_value_less [OF pad_digits_digits, of 4 "nat (fYear f)"] by simp
  ultimately have len: "4 < length ?p"
    using power_increasing_iff [of 10 4 "length ?p"] power_strict_increasing_iff [of "10::nat" 4 "length ?p"] by linarith
  obtain d r where "drop 4 ?p = d # r" using len by (cases "drop 4 ?p") auto
  moreover have "d \<in> set ?p" using calculation by (metis in_set_dropD list.set_intros(1))
  then have "is_digit d" using pad_digits_digits [of 4 "nat (fYear f)"] by (simp add: list_all_iff)
  ultimately show ?thesis using False len
    by (auto simp: date_chunks_def fixed_digits_def setf_def skip_char_def)
qed

lemma layouts_start:
  "\<exists>l. dbTimeLayout = date_chunks @ l" "\<exists>l. RFC3339Nano = date_chunks @ l" "\<exists>l. no_zone_layout = date_chunks @ l"
  by (auto simp: dbTimeLayout_def RFC3339Nano_def no_zone_layout_def)

lemma format_year_first: "\<exists>s. formatDBTime t = print_chunk StdYear (fields_of t) @ s"
  by (simp add: formatDBTime_def Format_def dbTimeLayout_def date_chunks_def del: print_chunk.simps)

lemma unreadable:
  assumes "fYear (fields_of t) < 0 \<or> 9999 < fYear (fields_of t)"
  shows "parseDBTime (formatDBTime t) = zero_time"
proof -
  obtain s where "formatDBTime t = print_chunk StdYear (fields_of t) @ s" using format_year_first by blast
  then have "Parse (date_chunks @ l) (formatDBTime t) = None" for l
    by (simp only: Parse_def year_unreadable [OF assms] option.case)
  then have "Parse dbTimeLayout (formatDBTime t) = None" "Parse RFC3339Nano (formatDBTime t) = None"
    "Parse no_zone_layout (formatDBTime t) = None" using layouts_start by metis+
  then show ?thesis by (simp add: parseDBTime_def)
qed

lemma instant_of_rounded:
  "instant_of (fields_of t\<lparr>fNanos := fNanos (fields_of t) div 100 * 100\<rparr>) = t div 100 * 100"
proof -
  let ?f = "fields_of t"
  have "instant_of (?f\<lparr>fNanos := n\<rparr>) = instant_of ?f - fNanos ?f + n" for n by (simp add: instant_of_def Let_def)
  then have "instant_of (?f\<lparr>fNanos := fNanos ?f div 100 * 100\<rparr>) = t - t mod 1000000000 + t mod 1000000000 div 100 * 100"
    by (simp only: instant_of_fields fields_of_sel)
  also have "\<dots> = t - t mod 1000000000 mod 100" by (simp add: minus_mod_eq_div_mult [symmetric])
  also have "t mod 1000000000 mod 100 = t mod 100" by (rule mod_mod_cancel) simp
  also have "t - t mod 100 = t div 100 * 100" by (rule minus_mod_eq_div_mult)
  finally show ?thesis .
qed

lemma readable:
  assumes "0 \<le> fYear (fields_of t)" "fYear (fields_of t) \<le> 9999"
  shows "parseDBTime (Format dbTimeLayout t) = t div 100 * 100" "parseDBTime (Format RFC3339Nano t) = t"
    "parseDBTime (Format no_zone_layout t) = t div 100 * 100"
  using fields_of_date [of t]
  by (simp_all add: parseDBTime_def Parse_def parse_printed [OF assms] instant_of_rounded instant_of_fields)

text \<open>The years of four digits are an interval of instants.\<close>

lemma year_ge_iff: "y \<le> year_of d \<longleftrightarrow> before_year y \<le> d"
  using year_of_bounds [of d] before_year_mono [of y "year_of d"] before_year_mono [of "year_of d + 1" y] by linarith

definition four_digit_years :: "int \<Rightarrow> bool" where
  "four_digit_years t \<longleftrightarrow> - 62167219200000000000 \<le> t \<and> t < 253402300800000000000"

lemma le_div_iff_mult:
  fixes a b c :: int
  assumes "0 < c"
  shows "a \<le> b div c \<longleftrightarrow> a * c \<le> b"
proof
  assume "a \<le> b div c"
  then have "a * c \<le> b div c * c" using assms by simp
  also have "\<dots> \<le> b" using pos_mod_sign [OF assms, of b] minus_mod_eq_div_mult [of b c] by linarith
  finally show "a * c \<le> b" .
next
  assume "a * c \<le> b"
  then show "a \<le> b div c" using zdiv_mono1 [of "a * c" b c] assms by simp
qed

lemma four_digit_years_iff: "four_digit_years t \<longleftrightarrow> 0 \<le> fYear (fields_of t) \<and> fYear (fields_of t) \<le> 9999"
proof -
  have d: "n \<le> day_of t \<longleftrightarrow> (n - 719162) * 86400 * 1000000000 \<le> t" for n
  proof -
    have "n \<le> day_of t \<longleftrightarrow> n - 719162 \<le> t div 1000000000 div 86400" unfolding day_of_def by linarith
    then show ?thesis by (simp only: le_div_iff_mult zero_less_numeral)
  qed
  have "before_year 0 = - 366" "before_year 10000 = 3652059" by (simp_all add: before_year_def)
  then have "0 \<le> year_of (day_of t) \<longleftrightarrow> - 62167219200000000000 \<le> t"
    "\<not> 10000 \<le> year_of (day_of t) \<longleftrightarrow> t < 253402300800000000000"
    using d [of "-366"] d [of 3652059] by (simp_all only: year_ge_iff) auto
  then show ?thesis by (auto simp: four_digit_years_def fields_of_sel)
qed

section \<open>What a column keeps\<close>

text \<open>An instant as it is after it was written to a TEXT column and read back.\<close>

definition db_time :: "int \<Rightarrow> int" where
  "db_time t = parseDBTime (formatDBTime t)"

lemma db_time_eq: "db_time t = (if four_digit_years t then t div 100 * 100 else zero_time)"
  using readable(1) unreadable by (auto simp: db_time_def formatDBTime_def four_digit_years_iff not_le)

lemma db_time_idem [simp]: "db_time (db_time t) = db_time t"
proof -
  have "four_digit_years (t div 100 * 100)" if t: "four_digit_years t"
  proof -
    have "- 621672192000000000 \<le> t div 100"
      using t le_div_iff_mult [of 100 "- 621672192000000000" t] by (simp add: four_digit_years_def)
    moreover have "t div 100 * 100 \<le> t" using minus_mod_eq_div_mult [of t 100] pos_mod_sign [of 100 t] by linarith
    ultimately show ?thesis using t unfolding four_digit_years_def by linarith
  qed
  moreover have "four_digit_years zero_time" "zero_time div 100 * 100 = zero_time"
    by (simp_all add: four_digit_years_def zero_time_def)
  ultimately show ?thesis by (simp add: db_time_eq)
qed

end
