(* ===== verification/Tables.thy ===== *)
theory Tables
  imports ApiErrors DbTime
begin

text \<open>
  The SQLite database of \<open>store.go\<close> as two tables of rows, and the meaning of the program's SQL
  statements on them.  SQLite compares TEXT bytewise, so \<open>ORDER BY\<close> is the lexicographic order of
  byte strings; \<open>length\<close>, \<open>substr\<close> and \<open>instr\<close> on TEXT count characters and stop at a NUL, which is
  written out here.  Timestamps are instants in nanoseconds; a TEXT column keeps units of 100 ns.
\<close>

section \<open>Rows\<close>

record Bucket =
  Name :: string
  Description :: "string option"
  AccessKey :: string
  EncryptedSecretKey :: string
  CreatedAt :: int

record ObjectRow =
  oBucket :: string
  oKey :: string
  oSize :: int
  oLastModified :: int
  oETag :: "string option"
  oContentType :: "string option"
  oPublic :: bool

record database =
  tblBuckets :: "Bucket list"
  tblObjects :: "ObjectRow list"

abbreviation row_id :: "ObjectRow \<Rightarrow> string \<times> string" where
  "row_id r \<equiv> (oBucket r, oKey r)"

text \<open>What a row is once it was written and read back: its instant is what the TEXT column keeps.\<close>

definition stored_bucket :: "Bucket \<Rightarrow> Bucket" where
  "stored_bucket b = b\<lparr>CreatedAt := db_time (CreatedAt b)\<rparr>"

definition stored_row :: "ObjectRow \<Rightarrow> ObjectRow" where
  "stored_row r = r\<lparr>oLastModified := db_time (oLastModified r)\<rparr>"

lemma stored_row_simps [simp]:
  "oBucket (stored_row r) = oBucket r" "oKey (stored_row r) = oKey r" "oSize (stored_row r) = oSize r"
  "oETag (stored_row r) = oETag r" "oContentType (stored_row r) = oContentType r"
  "oPublic (stored_row r) = oPublic r" "oLastModified (stored_row r) = db_time (oLastModified r)"
  "stored_row (stored_row r) = stored_row r"
  by (simp_all add: stored_row_def)

lemma stored_bucket_simps [simp]:
  "Name (stored_bucket b) = Name b" "Description (stored_bucket b) = Description b"
  "AccessKey (stored_bucket b) = AccessKey b" "EncryptedSecretKey (stored_bucket b) = EncryptedSecretKey b"
  "CreatedAt (stored_bucket b) = db_time (CreatedAt b)"
  by (simp_all add: stored_bucket_def)

section \<open>SQLite text functions\<close>

function sqlite_chars :: "string \<Rightarrow> string list" where
  "sqlite_chars [] = []"
| "sqlite_chars (c # cs) =
     (if 192 \<le> byte_of c then (c # takeWhile is_cont cs) # sqlite_chars (dropWhile is_cont cs)
      else [c] # sqlite_chars cs)"
  by pat_completeness auto
termination
  by (relation "measure length") (auto simp: le_imp_less_Suc length_dropWhile_le)

definition sql_text :: "string \<Rightarrow> string" where
  "sql_text s = takeWhile (\<lambda>c. c \<noteq> CHR 0x00) s"

definition sql_length :: "string \<Rightarrow> nat" where
  "sql_length s = length (sqlite_chars (sql_text s))"

definition sql_substr1 :: "string \<Rightarrow> nat \<Rightarrow> string" where
  "sql_substr1 s n = concat (take n (sqlite_chars (sql_text s)))"

function sql_instr_from :: "char \<Rightarrow> nat \<Rightarrow> string \<Rightarrow> nat" where
  "sql_instr_from x n [] = 0"
| "sql_instr_from x n (c # cs) = (if c = x then n else sql_instr_from x (Suc n) (dropWhile is_cont cs))"
  by pat_completeness auto
termination
  by (relation "measure (\<lambda>(x, n, s). length s)") (auto simp: le_imp_less_Suc length_dropWhile_le)

definition sql_instr :: "string \<Rightarrow> char \<Rightarrow> nat" where
  "sql_instr s x = sql_instr_from x 1 s"

text \<open>\<open>prefixFilter\<close>: \<open>? = '' OR substr(Key, 1, length(?)) = ?\<close>.\<close>

definition prefix_filter :: "string \<Rightarrow> string \<Rightarrow> bool" where
  "prefix_filter p k \<longleftrightarrow> p = [] \<or> sql_substr1 k (sql_length p) = p"

lemma concat_sqlite_chars [simp]: "concat (sqlite_chars s) = s"
  by (induction s rule: sqlite_chars.induct) auto

lemma sqlite_chars_append:
  "t = [] \<or> \<not> is_cont (hd t) \<Longrightarrow> sqlite_chars (s @ t) = sqlite_chars s @ sqlite_chars t"
proof (induction s rule: sqlite_chars.induct)
  case (2 c cs)
  show ?case
  proof (cases "192 \<le> byte_of c")
    case True
    have "takeWhile is_cont (cs @ t) = takeWhile is_cont cs \<and>
        dropWhile is_cont (cs @ t) = dropWhile is_cont cs @ t"
    proof (cases "\<forall>x\<in>set cs. is_cont x")
      case True
      then have tw: "takeWhile is_cont cs = cs" "dropWhile is_cont cs = []"
        by (simp_all add: takeWhile_eq_all_conv)
      with True 2(3) show ?thesis
        by (cases t) (simp_all add: takeWhile_append_stop dropWhile_append_stop tw)
    next
      case False
      then obtain x where "x \<in> set cs" "\<not> is_cont x" by blast
      then show ?thesis by (simp add: takeWhile_append1 dropWhile_append1)
    qed
    with True 2 show ?thesis by simp
  next
    case False
    with 2 show ?thesis by simp
  qed
qed simp

lemma sql_text_id: "CHR 0x00 \<notin> set s \<Longrightarrow> sql_text s = s"
  by (auto simp: sql_text_def takeWhile_eq_all_conv)

text \<open>
  On keys without NUL the filter accepts exactly the keys that extend the prefix at a character
  boundary; for a well-formed prefix every extension of it is one.
\<close>

lemma prefix_filter_sound: "prefix_filter p k \<Longrightarrow> HasPrefix k p"
proof -
  assume "prefix_filter p k"
  moreover have "prefix (sql_substr1 k n) k" for n
  proof -
    have "prefix (sql_substr1 k n) (sql_text k)"
      unfolding sql_substr1_def
      by (metis append_take_drop_id concat_append concat_sqlite_chars prefixI)
    moreover have "prefix (sql_text k) k"
      unfolding sql_text_def by (metis prefixI takeWhile_dropWhile_id)
    ultimately show ?thesis using prefix_order.trans by blast
  qed
  ultimately show ?thesis by (metis Nil_prefix prefix_filter_def)
qed

lemma prefix_filter_complete:
  assumes "k = p @ r" and "CHR 0x00 \<notin> set k" and "r = [] \<or> \<not> is_cont (hd r)"
  shows "prefix_filter p k"
proof -
  have nul: "CHR 0x00 \<notin> set p" using assms(1,2) by auto
  have "sqlite_chars k = sqlite_chars p @ sqlite_chars r"
    using assms(1,3) by (simp add: sqlite_chars_append)
  then have "sql_substr1 k (sql_length p) = p"
    using assms(2) nul by (simp add: sql_substr1_def sql_length_def sql_text_id)
  then show ?thesis by (simp add: prefix_filter_def)
qed

section \<open>The invariant\<close>

definition db_wf :: "database \<Rightarrow> bool" where
  "db_wf d \<longleftrightarrow> distinct (map Name (tblBuckets d)) \<and> distinct (map AccessKey (tblBuckets d)) \<and>
     distinct (map row_id (tblObjects d))"

text \<open>No row of the object index outlives its bucket.\<close>

definition no_orphans :: "database \<Rightarrow> bool" where
  "no_orphans d \<longleftrightarrow> (\<forall>r\<in>set (tblObjects d). oBucket r \<in> Name ` set (tblBuckets d))"

section \<open>Statements\<close>

definition sel_bucket :: "string \<Rightarrow> database \<Rightarrow> Bucket option" where
  "sel_bucket name d = find (\<lambda>b. Name b = name) (tblBuckets d)"

definition sel_bucket_by_key :: "string \<Rightarrow> database \<Rightarrow> Bucket option" where
  "sel_bucket_by_key ak d = find (\<lambda>b. AccessKey b = ak) (tblBuckets d)"

definition sel_buckets :: "database \<Rightarrow> Bucket list" where
  "sel_buckets d = sort_key Name (tblBuckets d)"

text \<open>INSERT: \<open>None\<close> is a violated constraint (primary key or the unique access key).\<close>

definition ins_bucket :: "Bucket \<Rightarrow> database \<Rightarrow> database option" where
  "ins_bucket b d =
     (if list_ex (\<lambda>x. Name x = Name b \<or> AccessKey x = AccessKey b) (tblBuckets d) then None
      else Some (d\<lparr>tblBuckets := tblBuckets d @ [stored_bucket b]\<rparr>))"

text \<open>UPDATE of the key pair: \<open>None\<close> is a violated unique access key.\<close>

definition upd_bucket_keys :: "string \<Rightarrow> string \<Rightarrow> string \<Rightarrow> database \<Rightarrow> database option" where
  "upd_bucket_keys name ak es d =
     (if sel_bucket name d \<noteq> None \<and> list_ex (\<lambda>x. Name x \<noteq> name \<and> AccessKey x = ak) (tblBuckets d)
      then None
      else Some (d\<lparr>tblBuckets := map (\<lambda>x. if Name x = name
                     then x\<lparr>AccessKey := ak, EncryptedSecretKey := es\<rparr> else x) (tblBuckets d)\<rparr>))"

definition del_bucket :: "string \<Rightarrow> database \<Rightarrow> database" where
  "del_bucket name d = d\<lparr>tblBuckets := filter (\<lambda>b. Name b \<noteq> name) (tblBuckets d)\<rparr>"

definition sel_object :: "string \<Rightarrow> string \<Rightarrow> database \<Rightarrow> ObjectRow option" where
  "sel_object b k d = find (\<lambda>r. row_id r = (b, k)) (tblObjects d)"

definition ups_object :: "ObjectRow \<Rightarrow> database \<Rightarrow> database" where
  "ups_object r d =
     (if list_ex (\<lambda>x. row_id x = row_id r) (tblObjects d)
      then d\<lparr>tblObjects := map (\<lambda>x. if row_id x = row_id r then stored_row r else x) (tblObjects d)\<rparr>
      else d\<lparr>tblObjects := tblObjects d @ [stored_row r]\<rparr>)"

definition upd_etag :: "string \<Rightarrow> string \<Rightarrow> string \<Rightarrow> database \<Rightarrow> database" where
  "upd_etag b k e d =
     d\<lparr>tblObjects := map (\<lambda>x. if row_id x = (b, k) then x\<lparr>oETag := Some e\<rparr> else x) (tblObjects d)\<rparr>"

definition del_object :: "string \<Rightarrow> string \<Rightarrow> database \<Rightarrow> database" where
  "del_object b k d = d\<lparr>tblObjects := filter (\<lambda>x. row_id x \<noteq> (b, k)) (tblObjects d)\<rparr>"

definition del_bucket_objects :: "string \<Rightarrow> database \<Rightarrow> database" where
  "del_bucket_objects b d = d\<lparr>tblObjects := filter (\<lambda>x. oBucket x \<noteq> b) (tblObjects d)\<rparr>"

definition bucket_rows :: "string \<Rightarrow> database \<Rightarrow> ObjectRow list" where
  "bucket_rows b d = filter (\<lambda>r. oBucket r = b) (tblObjects d)"

text \<open>The rows a listing ranges over, in key order, and one page of them.\<close>

definition matching_rows :: "string \<Rightarrow> string \<Rightarrow> database \<Rightarrow> ObjectRow list" where
  "matching_rows b p d = sort_key oKey (filter (\<lambda>r. prefix_filter p (oKey r)) (bucket_rows b d))"

definition sel_page :: "string \<Rightarrow> string \<Rightarrow> string \<Rightarrow> nat \<Rightarrow> database \<Rightarrow> ObjectRow list" where
  "sel_page b p cursor limit d =
     take limit (sort_key oKey
       (filter (\<lambda>r. cursor < oKey r \<and> prefix_filter p (oKey r)) (bucket_rows b d)))"

record BucketStats =
  Objects :: int
  TotalBytes :: int
  TopLevelFolders :: int
  TopLevelFiles :: int

definition top_folder :: "string \<Rightarrow> string option" where
  "top_folder k = (if sql_instr k (CHR ''/'') > 0 then Some (sql_substr1 k (sql_instr k (CHR ''/'') - 1)) else None)"

text \<open>The aggregate query; \<open>None\<close> is SQLite's integer overflow of \<open>SUM\<close>.\<close>

definition sel_stats :: "string \<Rightarrow> string \<Rightarrow> database \<Rightarrow> BucketStats option" where
  "sel_stats b p d =
     (let rows = filter (\<lambda>r. prefix_filter p (oKey r)) (bucket_rows b d);
          total = sum_list (map oSize rows)
      in if total < 2 ^ 63 then
           Some \<lparr>Objects = int (length rows), TotalBytes = total,
             TopLevelFolders = int (length (remdups (List.map_filter (\<lambda>r. top_folder (oKey r)) rows))),
             TopLevelFiles = int (length (filter (\<lambda>r. sql_instr (oKey r) (CHR ''/'') = 0) rows))\<rparr>
         else None)"

section \<open>Laws of the bucket table\<close>

lemma find_Some_mem: "find P xs = Some x \<Longrightarrow> x \<in> set xs \<and> P x"
  by (induction xs) (auto split: if_splits)

lemma find_distinct:
  "distinct (map f xs) \<Longrightarrow> find (\<lambda>x. f x = a) xs = Some x \<longleftrightarrow> x \<in> set xs \<and> f x = a"
  by (induction xs) auto

lemma find_filter_other:
  "(\<And>x. P x \<Longrightarrow> Q x) \<Longrightarrow> find P (filter Q xs) = find P xs"
  by (induction xs) auto

lemma find_append: "find P (xs @ ys) = (case find P xs of None \<Rightarrow> find P ys | Some x \<Rightarrow> Some x)"
  by (induction xs) auto

lemma find_None_all: "find P xs = None \<longleftrightarrow> (\<forall>x\<in>set xs. \<not> P x)"
  by (auto simp: find_None_iff)

lemma sel_bucket_Some:
  "db_wf d \<Longrightarrow> sel_bucket n d = Some b \<longleftrightarrow> b \<in> set (tblBuckets d) \<and> Name b = n"
  by (simp add: sel_bucket_def db_wf_def find_distinct)

lemma sel_bucket_by_key_Some:
  "db_wf d \<Longrightarrow> sel_bucket_by_key ak d = Some b \<longleftrightarrow> b \<in> set (tblBuckets d) \<and> AccessKey b = ak"
  by (simp add: sel_bucket_by_key_def db_wf_def find_distinct)

lemma sel_bucket_NameD: "sel_bucket n d = Some b \<Longrightarrow> b \<in> set (tblBuckets d) \<and> Name b = n"
  unfolding sel_bucket_def by (drule find_Some_mem)

lemma sel_bucket_by_keyD: "sel_bucket_by_key ak d = Some b \<Longrightarrow> b \<in> set (tblBuckets d) \<and> AccessKey b = ak"
  unfolding sel_bucket_by_key_def by (drule find_Some_mem)

lemma ins_bucket_Some:
  "ins_bucket b d = Some d' \<longleftrightarrow>
     (\<forall>x\<in>set (tblBuckets d). Name x \<noteq> Name b \<and> AccessKey x \<noteq> AccessKey b) \<and>
     d' = d\<lparr>tblBuckets := tblBuckets d @ [stored_bucket b]\<rparr>"
  by (auto simp: ins_bucket_def list_ex_iff)

lemma ins_bucket_wf: "db_wf d \<Longrightarrow> ins_bucket b d = Some d' \<Longrightarrow> db_wf d'"
  by (auto simp: ins_bucket_Some db_wf_def)

lemma upd_bucket_keys_names:
  "upd_bucket_keys n ak es d = Some d' \<Longrightarrow> map Name (tblBuckets d') = map Name (tblBuckets d)"
  by (auto simp: upd_bucket_keys_def split: if_splits)

lemma distinct_map_upd:
  "distinct (map f xs) \<Longrightarrow> distinct (map g xs) \<Longrightarrow> (\<forall>x\<in>set xs. f x \<noteq> n \<longrightarrow> g x \<noteq> a) \<Longrightarrow>
     distinct (map (\<lambda>x. if f x = n then a else g x) xs)"
  by (induction xs) (auto simp: image_iff)

lemma upd_bucket_keys_wf:
  assumes "db_wf d" and "upd_bucket_keys n ak es d = Some d'"
  shows "db_wf d'"
proof -
  let ?u = "\<lambda>x :: Bucket. if Name x = n then x\<lparr>AccessKey := ak, EncryptedSecretKey := es\<rparr> else x"
  from assms(2) have d': "d' = d\<lparr>tblBuckets := map ?u (tblBuckets d)\<rparr>"
    and ok: "sel_bucket n d = None \<or> (\<forall>x\<in>set (tblBuckets d). Name x \<noteq> n \<longrightarrow> AccessKey x \<noteq> ak)"
    by (auto simp: upd_bucket_keys_def list_ex_iff split: if_splits)
  have keys: "AccessKey \<circ> ?u = (\<lambda>x. if Name x = n then ak else AccessKey x)" by auto
  have "distinct (map (\<lambda>x. if Name x = n then ak else AccessKey x) (tblBuckets d))"
  proof (cases "sel_bucket n d")
    case None
    then have "map (\<lambda>x. if Name x = n then ak else AccessKey x) (tblBuckets d) = map AccessKey (tblBuckets d)"
      by (intro map_cong) (auto simp: sel_bucket_def find_None_all)
    then show ?thesis using assms(1) by (simp only: db_wf_def)
  next
    case (Some b)
    with ok assms(1) show ?thesis by (intro distinct_map_upd) (auto simp: db_wf_def)
  qed
  moreover have "Name \<circ> ?u = Name" by auto
  ultimately show ?thesis using assms(1) by (simp add: db_wf_def d' keys)
qed

lemma del_bucket_wf: "db_wf d \<Longrightarrow> db_wf (del_bucket n d)"
  by (simp add: db_wf_def del_bucket_def distinct_map_filter)

section \<open>Laws of the object index\<close>

text \<open>
  What the storage layer needs of the index: a point lookup sees the last upsert or delete of its
  key and nothing else.  Whole batches, as a reindex writes them, follow.
\<close>

locale object_index =
  fixes lookup :: "string \<Rightarrow> string \<Rightarrow> 'db \<Rightarrow> 'row option"
    and upsert :: "'row \<Rightarrow> 'db \<Rightarrow> 'db"
    and delete :: "string \<Rightarrow> string \<Rightarrow> 'db \<Rightarrow> 'db"
    and rkey :: "'row \<Rightarrow> string \<times> string"
    and stored :: "'row \<Rightarrow> 'row"
  assumes lookup_upsert: "lookup b k (upsert r d) = (if rkey r = (b, k) then Some (stored r) else lookup b k d)"
    and lookup_delete: "lookup b k (delete b' k' d) = (if (b', k') = (b, k) then None else lookup b k d)"
    and lookup_rkey: "lookup b k d = Some r \<Longrightarrow> rkey r = (b, k)"
begin

lemma lookup_upserts:
  "lookup b k (fold upsert rs d) =
     (case find (\<lambda>r. rkey r = (b, k)) (rev rs) of Some r \<Rightarrow> Some (stored r) | None \<Rightarrow> lookup b k d)"
proof (induction rs rule: rev_induct)
  case (snoc r rs)
  then show ?case by (simp add: lookup_upsert)
qed simp

lemma lookup_deletes:
  "lookup b k (fold (delete b') ks d) = (if b' = b \<and> k \<in> set ks then None else lookup b k d)"
proof (induction ks rule: rev_induct)
  case (snoc k' ks)
  then show ?case by (auto simp: lookup_delete)
qed simp

lemma lookup_batch:
  "lookup b k (fold (delete b') ks (fold upsert rs d)) =
     (if b' = b \<and> k \<in> set ks then None
      else case find (\<lambda>r. rkey r = (b, k)) (rev rs) of Some r \<Rightarrow> Some (stored r) | None \<Rightarrow> lookup b k d)"
  by (simp add: lookup_deletes lookup_upserts)

text \<open>The order in which a batch is deleted does not matter to any lookup.\<close>

lemma deletes_order: "set ks = set ks' \<Longrightarrow> lookup b k (fold (delete b') ks d) = lookup b k (fold (delete b') ks' d)"
  by (simp add: lookup_deletes)

end

lemma find_map_replace:
  "(\<And>x. f (g x) = f x) \<Longrightarrow> find (\<lambda>x. f x = a) (map g xs) = map_option g (find (\<lambda>x. f x = a) xs)"
  by (induction xs) auto

lemma sel_object_ups:
  "sel_object b k (ups_object r d) = (if row_id r = (b, k) then Some (stored_row r) else sel_object b k d)"
proof (cases "list_ex (\<lambda>x. row_id x = row_id r) (tblObjects d)")
  case True
  let ?g = "\<lambda>x. if row_id x = row_id r then stored_row r else x"
  have "find (\<lambda>x. row_id x = (b, k)) (map ?g (tblObjects d))
      = map_option ?g (find (\<lambda>x. row_id x = (b, k)) (tblObjects d))"
    by (rule find_map_replace) auto
  moreover have "find (\<lambda>x. row_id x = (b, k)) (tblObjects d) \<noteq> None" if "row_id r = (b, k)"
    using that True by (auto simp: find_None_all list_ex_iff)
  ultimately show ?thesis
    using True
    by (auto simp: ups_object_def sel_object_def dest: find_Some_mem split: option.splits
        cong del: if_weak_cong) (auto simp: map_option_case split: option.splits dest!: find_Some_mem)
next
  case False
  then have "sel_object b k d = None" if "row_id r = (b, k)"
    using that by (auto simp: sel_object_def find_None_all list_ex_iff)
  with False show ?thesis
    by (auto simp: ups_object_def sel_object_def find_append split: option.splits)
qed

lemma sel_object_del:
  "sel_object b k (del_object b' k' d) = (if (b', k') = (b, k) then None else sel_object b k d)"
  by (auto simp: sel_object_def del_object_def find_None_all intro!: find_filter_other)

lemma sel_object_rowD: "sel_object b k d = Some r \<Longrightarrow> r \<in> set (tblObjects d) \<and> row_id r = (b, k)"
  unfolding sel_object_def by (drule find_Some_mem)

interpretation idx: object_index sel_object ups_object del_object row_id stored_row
  by unfold_locales
    (simp_all only: sel_object_ups sel_object_del, simp add: sel_object_rowD)

lemma sel_object_Some:
  "db_wf d \<Longrightarrow> sel_object b k d = Some r \<longleftrightarrow> r \<in> set (tblObjects d) \<and> row_id r = (b, k)"
  using find_distinct [of row_id "tblObjects d" "(b, k)" r] by (simp add: sel_object_def db_wf_def)

lemma ups_object_ids:
  "map row_id (tblObjects (ups_object r d)) =
     (if list_ex (\<lambda>x. row_id x = row_id r) (tblObjects d) then map row_id (tblObjects d)
      else map row_id (tblObjects d) @ [row_id r])"
  by (auto simp: ups_object_def)

lemma ups_object_wf: "db_wf d \<Longrightarrow> db_wf (ups_object r d)"
  unfolding db_wf_def ups_object_ids
  by (auto simp: ups_object_def list_ex_iff)

lemma upd_etag_ids: "map row_id (tblObjects (upd_etag b k e d)) = map row_id (tblObjects d)"
  by (auto simp: upd_etag_def)

lemma upd_etag_wf: "db_wf d \<Longrightarrow> db_wf (upd_etag b k e d)"
  unfolding db_wf_def upd_etag_ids by (simp add: upd_etag_def)

lemma del_object_wf: "db_wf d \<Longrightarrow> db_wf (del_object b k d)"
  by (simp add: db_wf_def del_object_def distinct_map_filter)

lemma del_bucket_objects_wf: "db_wf d \<Longrightarrow> db_wf (del_bucket_objects b d)"
  by (simp add: db_wf_def del_bucket_objects_def distinct_map_filter)

lemma sel_object_upd_etag:
  "sel_object b k (upd_etag b' k' e d) =
     (if (b', k') = (b, k) then map_option (\<lambda>r. r\<lparr>oETag := Some e\<rparr>) (sel_object b k d) else sel_object b k d)"
proof -
  let ?g = "\<lambda>x. if row_id x = (b', k') then x\<lparr>oETag := Some e\<rparr> else x"
  have "sel_object b k (upd_etag b' k' e d) = map_option ?g (sel_object b k d)"
    using find_map_replace [of row_id ?g "(b, k)" "tblObjects d"]
    by (simp add: sel_object_def upd_etag_def)
  then show ?thesis by (cases "sel_object b k d") (auto dest: sel_object_rowD)
qed

lemma sel_object_del_bucket_objects:
  "sel_object b k (del_bucket_objects b' d) = (if b' = b then None else sel_object b k d)"
  by (auto simp: sel_object_def del_bucket_objects_def find_None_all intro!: find_filter_other)

lemma other_table [simp]:
  "tblBuckets (ups_object r d) = tblBuckets d" "tblBuckets (del_object b k d) = tblBuckets d"
  "tblBuckets (upd_etag b k e d) = tblBuckets d" "tblBuckets (del_bucket_objects b d) = tblBuckets d"
  "tblObjects (del_bucket n d) = tblObjects d"
  by (simp_all add: ups_object_def del_object_def upd_etag_def del_bucket_objects_def del_bucket_def)

lemma sel_bucket_other [simp]:
  "sel_bucket n (ups_object r d) = sel_bucket n d" "sel_bucket n (del_object b k d) = sel_bucket n d"
  "sel_bucket n (upd_etag b k e d) = sel_bucket n d" "sel_bucket n (del_bucket_objects b d) = sel_bucket n d"
  "sel_object b k (del_bucket n d) = sel_object b k d"
  by (simp_all add: sel_bucket_def sel_object_def)

lemma sel_bucket_by_key_other [simp]:
  "sel_bucket_by_key n (ups_object r d) = sel_bucket_by_key n d"
  "sel_bucket_by_key n (del_object b k d) = sel_bucket_by_key n d"
  "sel_bucket_by_key n (upd_etag b k e d) = sel_bucket_by_key n d"
  "sel_bucket_by_key n (del_bucket_objects b d) = sel_bucket_by_key n d"
  by (simp_all add: sel_bucket_by_key_def)

end
