(* ===== verification/World.thy ===== *)
theory World
  imports FileSystem Tables
begin

text \<open>
  The state the server works on: file system, database, clock, and a list of faults.  Every call
  of the operating system or of the database takes one entry from the list of faults: \<open>NoFault\<close> lets
  it run, \<open>Fail\<close> makes it return an error without effect, and \<open>Short n\<close> does the same except that a
  write leaves its first \<open>n\<close> bytes behind.  An exhausted list means no further faults, so
  \<open>wfaults w = []\<close> is a run in which only the errors of the model itself occur.  Every early
  \<open>return err\<close> of the code is thereby reachable.
\<close>

datatype fault = NoFault | Fail | Short nat

record world =
  wfs :: fsys
  wdb :: database
  wnow :: int
  wfaults :: "fault list"

type_synonym 'a action = "world \<Rightarrow> 'a go_result \<times> world"

section \<open>Sequencing\<close>

definition ret :: "'a \<Rightarrow> 'a action" where
  "ret x w = (Inr x, w)"

definition fail :: "go_error \<Rightarrow> 'a action" where
  "fail e w = (Inl e, w)"

text \<open>\<open>x, err := m; if err != nil { return err }; k\<close>.\<close>

definition andThen :: "'a action \<Rightarrow> ('a \<Rightarrow> 'b action) \<Rightarrow> 'b action" where
  "andThen m k w = (case m w of (Inl e, w') \<Rightarrow> (Inl e, w') | (Inr x, w') \<Rightarrow> k x w')"

text \<open>\<open>x, err := m; k\<close>, where \<open>k\<close> looks at the error itself.\<close>

definition attempt :: "'a action \<Rightarrow> ('a go_result \<Rightarrow> 'b action) \<Rightarrow> 'b action" where
  "attempt m k w = (case m w of (r, w') \<Rightarrow> k r w')"

text \<open>\<open>defer d()\<close> before \<open>m\<close>: \<open>d\<close> runs whatever \<open>m\<close> returns, and its own result is dropped.\<close>

definition deferred :: "'a action \<Rightarrow> 'b action \<Rightarrow> 'b action" where
  "deferred d m w = (case m w of (r, w') \<Rightarrow> (r, snd (d w')))"

definition lift_result :: "'a go_result \<Rightarrow> 'a action" where
  "lift_result r w = (r, w)"

fun for_each :: "('a \<Rightarrow> 'b action) \<Rightarrow> 'a list \<Rightarrow> 'b list action" where
  "for_each f [] w = (Inr [], w)"
| "for_each f (x # xs) w =
     (case f x w of
        (Inl e, w') \<Rightarrow> (Inl e, w')
      | (Inr y, w') \<Rightarrow>
          (case for_each f xs w' of (Inl e, w'') \<Rightarrow> (Inl e, w'') | (Inr ys, w'') \<Rightarrow> (Inr (y # ys), w'')))"

lemmas action_defs = ret_def fail_def andThen_def attempt_def deferred_def lift_result_def

section \<open>Primitive calls\<close>

definition next_fault :: "world \<Rightarrow> fault \<times> world" where
  "next_fault w = (case wfaults w of [] \<Rightarrow> (NoFault, w) | x # xs \<Rightarrow> (x, w\<lparr>wfaults := xs\<rparr>))"

definition os_call :: "(fsys \<Rightarrow> int \<Rightarrow> errno + 'a \<times> fsys) \<Rightarrow> 'a action" where
  "os_call f w =
     (case next_fault w of
        (NoFault, w') \<Rightarrow>
          (case f (wfs w') (wnow w') of
             Inl e \<Rightarrow> (Inl (OsErr e), w') | Inr (x, g) \<Rightarrow> (Inr x, w'\<lparr>wfs := g\<rparr>))
      | (_, w') \<Rightarrow> (Inl (OsErr EIO), w'))"

definition os_query :: "(fsys \<Rightarrow> errno + 'a) \<Rightarrow> 'a action" where
  "os_query f = os_call (\<lambda>g t. case f g of Inl e \<Rightarrow> Inl e | Inr x \<Rightarrow> Inr (x, g))"

definition os_update :: "(fsys \<Rightarrow> int \<Rightarrow> errno + fsys) \<Rightarrow> unit action" where
  "os_update f = os_call (\<lambda>g t. case f g t of Inl e \<Rightarrow> Inl e | Inr h \<Rightarrow> Inr ((), h))"

definition db_call :: "(database \<Rightarrow> go_error + 'a \<times> database) \<Rightarrow> 'a action" where
  "db_call f w =
     (case next_fault w of
        (NoFault, w') \<Rightarrow>
          (case f (wdb w') of
             Inl e \<Rightarrow> (Inl e, w') | Inr (x, d) \<Rightarrow> (Inr x, w'\<lparr>wdb := d\<rparr>))
      | (_, w') \<Rightarrow> (Inl DbErr, w'))"

definition db_query :: "(database \<Rightarrow> 'a) \<Rightarrow> 'a action" where
  "db_query f = db_call (\<lambda>d. Inr (f d, d))"

definition db_exec :: "(database \<Rightarrow> database) \<Rightarrow> unit action" where
  "db_exec f = db_call (\<lambda>d. Inr ((), f d))"

text \<open>
  A transaction: \<open>BeginTx\<close>, the statements, \<open>Commit\<close>.  Any failure rolls the database back; the
  faults already taken stay taken.
\<close>

definition in_tx :: "unit action \<Rightarrow> unit action" where
  "in_tx body w =
     (case andThen (db_query (\<lambda>d. ())) (\<lambda>_. andThen body (\<lambda>_. db_query (\<lambda>d. ()))) w of
        (Inl e, w') \<Rightarrow> (Inl e, w'\<lparr>wdb := wdb w\<rparr>)
      | (Inr x, w') \<Rightarrow> (Inr x, w'))"

section \<open>Calls of the os package\<close>

definition os_Stat :: "string \<Rightarrow> fnode action" where
  "os_Stat path = os_query (\<lambda>f. fs_stat f (path_comps path))"

definition os_ReadFile :: "string \<Rightarrow> string action" where
  "os_ReadFile path = os_query (\<lambda>f. fs_read f (path_comps path))"

definition os_MkdirAll :: "string \<Rightarrow> unit action" where
  "os_MkdirAll path = os_update (\<lambda>f t. fs_mkdir_all f (path_comps path))"

definition os_Remove :: "string \<Rightarrow> unit action" where
  "os_Remove path = os_update (\<lambda>f t. fs_remove f (path_comps path))"

definition os_Rename :: "string \<Rightarrow> string \<Rightarrow> unit action" where
  "os_Rename from to = os_update (\<lambda>f t. fs_rename f (path_comps from) (path_comps to))"

text \<open>
  A write through an open file or \<open>os.WriteFile\<close>: \<open>Short n\<close> leaves a truncated file behind.
\<close>

definition os_WriteFile :: "string \<Rightarrow> string \<Rightarrow> unit action" where
  "os_WriteFile path d w =
     (case next_fault w of
        (NoFault, w') \<Rightarrow>
          (case fs_write (wfs w') (path_comps path) d (wnow w') of
             Inl e \<Rightarrow> (Inl (OsErr e), w') | Inr g \<Rightarrow> (Inr (), w'\<lparr>wfs := g\<rparr>))
      | (Short n, w') \<Rightarrow>
          (case fs_write (wfs w') (path_comps path) (take n d) (wnow w') of
             Inl e \<Rightarrow> (Inl (OsErr e), w') | Inr g \<Rightarrow> (Inl (OsErr EIO), w'\<lparr>wfs := g\<rparr>))
      | (Fail, w') \<Rightarrow> (Inl (OsErr EIO), w'))"

text \<open>
  \<open>os.CreateTemp(dir, ".upload-*.tmp")\<close>: the first of the random names that does not exist yet.
\<close>

definition temp_name :: "string \<Rightarrow> string" where
  "temp_name r = ''.upload-'' @ r @ ''.tmp''"

fun create_temp :: "fsys \<Rightarrow> int \<Rightarrow> string \<Rightarrow> string list \<Rightarrow> errno + string \<times> fsys" where
  "create_temp f t dir [] = Inl EEXIST"
| "create_temp f t dir (r # rs) =
     (let path = dir @ slash # temp_name r in
      case fs_create_excl f (path_comps path) t of
        Inr g \<Rightarrow> Inr (path, g)
      | Inl e \<Rightarrow> if e = EEXIST then create_temp f t dir rs else Inl e)"

definition os_CreateTemp :: "string \<Rightarrow> string list \<Rightarrow> string action" where
  "os_CreateTemp dir rnds = os_call (\<lambda>f t. create_temp f t dir rnds)"

definition os_Readdirnames1 :: "string \<Rightarrow> string list action" where
  "os_Readdirnames1 dir = os_query (\<lambda>f.
     case fs_stat f (path_comps dir) of
       Inl e \<Rightarrow> Inl e
     | Inr (File d t) \<Rightarrow> Inl ENOTDIR
     | Inr Directory \<Rightarrow> Inr (map last (take 1 (fs_children f (path_comps dir)))))"

definition is_not_exist :: "go_error \<Rightarrow> bool" where
  "is_not_exist e \<longleftrightarrow> e = OsErr ENOENT"

section \<open>Runs without faults\<close>

lemma next_fault_quiet [world_simps]: "wfaults w = [] \<Longrightarrow> next_fault w = (NoFault, w)"
  by (simp add: next_fault_def)

lemma next_fault_state:
  "next_fault w = (x, w') \<Longrightarrow> wfs w' = wfs w \<and> wdb w' = wdb w \<and> wnow w' = wnow w"
  by (auto simp: next_fault_def split: list.splits)

lemma os_query_quiet [world_simps]:
  "wfaults w = [] \<Longrightarrow> os_query f w = (case f (wfs w) of Inl e \<Rightarrow> Inl (OsErr e) | Inr x \<Rightarrow> Inr x, w)"
  by (simp add: os_query_def os_call_def next_fault_quiet split: sum.splits)

lemma os_update_quiet [world_simps]:
  "wfaults w = [] \<Longrightarrow> os_update f w =
     (case f (wfs w) (wnow w) of Inl e \<Rightarrow> (Inl (OsErr e), w) | Inr g \<Rightarrow> (Inr (), w\<lparr>wfs := g\<rparr>))"
  by (simp add: os_update_def os_call_def next_fault_quiet split: sum.splits)

lemma db_query_quiet [world_simps]: "wfaults w = [] \<Longrightarrow> db_query f w = (Inr (f (wdb w)), w)"
  by (simp add: db_query_def db_call_def next_fault_quiet)

lemma db_exec_quiet [world_simps]: "wfaults w = [] \<Longrightarrow> db_exec f w = (Inr (), w\<lparr>wdb := f (wdb w)\<rparr>)"
  by (simp add: db_exec_def db_call_def next_fault_quiet)

lemma os_WriteFile_quiet [world_simps]:
  "wfaults w = [] \<Longrightarrow> os_WriteFile p d w =
     (case fs_write (wfs w) (path_comps p) d (wnow w) of
        Inl e \<Rightarrow> (Inl (OsErr e), w) | Inr g \<Rightarrow> (Inr (), w\<lparr>wfs := g\<rparr>))"
  by (simp add: os_WriteFile_def next_fault_quiet split: sum.splits)

lemma os_CreateTemp_quiet [world_simps]:
  "wfaults w = [] \<Longrightarrow> os_CreateTemp d rs w =
     (case create_temp (wfs w) (wnow w) d rs of
        Inl e \<Rightarrow> (Inl (OsErr e), w) | Inr (p, g) \<Rightarrow> (Inr p, w\<lparr>wfs := g\<rparr>))"
  by (simp add: os_CreateTemp_def os_call_def next_fault_quiet split: sum.splits prod.splits)

section \<open>Invariants of actions\<close>

text \<open>
  An action \<^emph>\<open>keeps\<close> a predicate of the state when it holds after every run from a state where it
  holds, faults or not.  The combinators propagate this, so a component only shows it for the
  primitives it uses.
\<close>

definition keeps :: "(world \<Rightarrow> bool) \<Rightarrow> 'a action \<Rightarrow> bool" where
  "keeps P m \<longleftrightarrow> (\<forall>w. P w \<longrightarrow> P (snd (m w)))"

named_theorems keeps_intros

lemma keepsD: "keeps P m \<Longrightarrow> P w \<Longrightarrow> P (snd (m w))"
  by (simp add: keeps_def)

lemma keeps_ret [keeps_intros]: "keeps P (ret x)"
  by (simp add: keeps_def ret_def)

lemma keeps_fail [keeps_intros]: "keeps P (fail e)"
  by (simp add: keeps_def fail_def)

lemma keeps_lift [keeps_intros]: "keeps P (lift_result r)"
  by (simp add: keeps_def lift_result_def)

lemma keeps_andThen [keeps_intros]: "keeps P m \<Longrightarrow> (\<And>x. keeps P (k x)) \<Longrightarrow> keeps P (andThen m k)"
  unfolding keeps_def andThen_def by (auto split: prod.splits sum.splits)

lemma keeps_attempt [keeps_intros]: "keeps P m \<Longrightarrow> (\<And>x. keeps P (k x)) \<Longrightarrow> keeps P (attempt m k)"
  unfolding keeps_def attempt_def by (auto split: prod.splits)

lemma keeps_deferred [keeps_intros]: "keeps P d \<Longrightarrow> keeps P m \<Longrightarrow> keeps P (deferred d m)"
  unfolding keeps_def deferred_def by (auto split: prod.splits)

lemma keeps_if [keeps_intros]: "keeps P m \<Longrightarrow> keeps P m' \<Longrightarrow> keeps P (if b then m else m')"
  by simp

lemma keeps_option [keeps_intros]:
  "keeps P m \<Longrightarrow> (\<And>x. keeps P (f x)) \<Longrightarrow> keeps P (case z of None \<Rightarrow> m | Some x \<Rightarrow> f x)"
  by (cases z) auto

lemma keeps_sum [keeps_intros]:
  "(\<And>x. keeps P (f x)) \<Longrightarrow> (\<And>y. keeps P (g y)) \<Longrightarrow> keeps P (case z of Inl x \<Rightarrow> f x | Inr y \<Rightarrow> g y)"
  by (cases z) auto

text \<open>What an action does next may depend on what it just got.\<close>

lemma keeps_andThen_from:
  "keeps P m \<Longrightarrow> (\<And>w x w'. P w \<Longrightarrow> m w = (Inr x, w') \<Longrightarrow> keeps P (k x)) \<Longrightarrow> keeps P (andThen m k)"
  unfolding keeps_def andThen_def by (auto split: prod.split sum.split)

lemma keeps_for_each_in: "(\<And>x. x \<in> set xs \<Longrightarrow> keeps P (f x)) \<Longrightarrow> keeps P (for_each f xs)"
proof (induction xs)
  case (Cons x xs)
  then have x: "keeps P (f x)" and xs: "keeps P (for_each f xs)" by simp_all
  show ?case unfolding keeps_def
  proof (intro allI impI)
    fix w
    assume "P w"
    then have "P (snd (f x w))" using x by (rule keepsD [rotated])
    then show "P (snd (for_each f (x # xs) w))"
      using keepsD [OF xs, of "snd (f x w)"] by (auto split: prod.split sum.split)
  qed
qed (simp add: keeps_def)

lemma keeps_for_each [keeps_intros]: "(\<And>x. keeps P (f x)) \<Longrightarrow> keeps P (for_each f xs)"
  by (rule keeps_for_each_in)

text \<open>Predicates of the file system alone and of the database alone.\<close>

lemma keeps_os_update:
  "(\<And>f t g. P f \<Longrightarrow> u f t = Inr g \<Longrightarrow> P g) \<Longrightarrow> keeps (\<lambda>w. P (wfs w)) (os_update u)"
  unfolding keeps_def os_update_def os_call_def
  by (auto split: prod.splits fault.splits sum.splits dest!: next_fault_state)

lemma keeps_os_query [keeps_intros]: "keeps (\<lambda>w. P (wfs w)) (os_query q)"
  unfolding keeps_def os_query_def os_call_def
  by (auto split: prod.splits fault.splits sum.splits dest!: next_fault_state)

lemma keeps_fs_db [keeps_intros]: "keeps (\<lambda>w. P (wfs w)) (db_call c)"
  unfolding keeps_def db_call_def
  by (auto split: prod.splits fault.splits sum.splits dest!: next_fault_state)

lemma keeps_db_os [keeps_intros]:
  "keeps (\<lambda>w. P (wdb w)) (os_call c)" "keeps (\<lambda>w. P (wdb w)) (os_query q)"
  "keeps (\<lambda>w. P (wdb w)) (os_update u)" "keeps (\<lambda>w. P (wdb w)) (os_WriteFile p d)"
  unfolding keeps_def os_query_def os_update_def os_call_def os_WriteFile_def
  by (auto split: prod.splits fault.splits sum.splits dest!: next_fault_state)

lemma keeps_db_call:
  "(\<And>d x d'. P d \<Longrightarrow> c d = Inr (x, d') \<Longrightarrow> P d') \<Longrightarrow> keeps (\<lambda>w. P (wdb w)) (db_call c)"
  unfolding keeps_def db_call_def
  by (auto split: prod.splits fault.splits sum.splits dest!: next_fault_state)

lemma keeps_db_query [keeps_intros]: "keeps (\<lambda>w. P (wdb w)) (db_query f)"
  unfolding db_query_def by (rule keeps_db_call) simp

lemma keeps_db_exec: "(\<And>d. P d \<Longrightarrow> P (f d)) \<Longrightarrow> keeps (\<lambda>w. P (wdb w)) (db_exec f)"
  unfolding db_exec_def by (rule keeps_db_call) auto

lemma keeps_fs_db_ops [keeps_intros]:
  "keeps (\<lambda>w. P (wfs w)) (db_query f)" "keeps (\<lambda>w. P (wfs w)) (db_exec e)"
  unfolding db_query_def db_exec_def by (rule keeps_fs_db)+

lemma keeps_in_tx_db [keeps_intros]:
  "keeps (\<lambda>w. P (wdb w)) body \<Longrightarrow> keeps (\<lambda>w. P (wdb w)) (in_tx body)"
proof -
  assume b: "keeps (\<lambda>w. P (wdb w)) body"
  have "keeps (\<lambda>w. P (wdb w)) (andThen (db_query (\<lambda>d. ())) (\<lambda>_. andThen body (\<lambda>_. db_query (\<lambda>d. ()))))"
    by (intro keeps_intros b)
  then show ?thesis
    unfolding keeps_def in_tx_def
    by (auto split: prod.splits sum.splits)
qed

lemma keeps_in_tx_fs [keeps_intros]:
  "keeps (\<lambda>w. P (wfs w)) body \<Longrightarrow> keeps (\<lambda>w. P (wfs w)) (in_tx body)"
proof -
  assume b: "keeps (\<lambda>w. P (wfs w)) body"
  have "keeps (\<lambda>w. P (wfs w)) (andThen (db_query (\<lambda>d. ())) (\<lambda>_. andThen body (\<lambda>_. db_query (\<lambda>d. ()))))"
    by (intro keeps_intros b)
  then show ?thesis
    unfolding keeps_def in_tx_def
    by (auto split: prod.splits sum.splits)
qed

text \<open>The calls that change the file system keep it well-formed.\<close>

abbreviation fs_ok :: "world \<Rightarrow> bool" where "fs_ok w \<equiv> fs_wf (wfs w)"
abbreviation db_ok :: "world \<Rightarrow> bool" where "db_ok w \<equiv> db_wf (wdb w)"

lemma create_temp_Inr:
  "create_temp f t dir rs = Inr (p, g) \<Longrightarrow>
     \<exists>r\<in>set rs. p = dir @ slash # temp_name r \<and> fs_create_excl f (path_comps p) t = Inr g"
  by (induction rs) (auto simp: Let_def split: sum.splits if_splits)

lemma keeps_fs_ok [keeps_intros]:
  "keeps fs_ok (os_MkdirAll p)" "keeps fs_ok (os_Remove p)" "keeps fs_ok (os_Rename p q)"
  "keeps fs_ok (os_WriteFile p d)" "keeps fs_ok (os_CreateTemp p rs)"
proof -
  show "keeps fs_ok (os_MkdirAll p)" "keeps fs_ok (os_Remove p)" "keeps fs_ok (os_Rename p q)"
    unfolding os_MkdirAll_def os_Remove_def os_Rename_def
    by (auto intro!: keeps_os_update intro: fs_mkdir_all_wf fs_remove_wf fs_rename_wf)
  show "keeps fs_ok (os_WriteFile p d)"
    unfolding keeps_def os_WriteFile_def
    by (auto split: prod.splits fault.splits sum.splits dest!: next_fault_state intro: fs_write_wf)
  show "keeps fs_ok (os_CreateTemp p rs)"
    unfolding keeps_def os_CreateTemp_def os_call_def
    by (auto split: prod.splits fault.splits sum.splits dest!: next_fault_state create_temp_Inr
        intro: fs_create_excl_wf)
qed

lemma keeps_os_reads [keeps_intros]:
  "keeps (\<lambda>w. P (wfs w)) (os_Stat p)" "keeps (\<lambda>w. P (wfs w)) (os_ReadFile p)"
  "keeps (\<lambda>w. P (wfs w)) (os_Readdirnames1 p)"
  unfolding os_Stat_def os_ReadFile_def os_Readdirnames1_def by (rule keeps_os_query)+

lemma keeps_db_os_named [keeps_intros]:
  "keeps (\<lambda>w. P (wdb w)) (os_Stat p)" "keeps (\<lambda>w. P (wdb w)) (os_ReadFile p)"
  "keeps (\<lambda>w. P (wdb w)) (os_Readdirnames1 p)" "keeps (\<lambda>w. P (wdb w)) (os_MkdirAll p)"
  "keeps (\<lambda>w. P (wdb w)) (os_Remove p)" "keeps (\<lambda>w. P (wdb w)) (os_Rename p q)"
  "keeps (\<lambda>w. P (wdb w)) (os_CreateTemp p rs)"
  unfolding os_Stat_def os_ReadFile_def os_Readdirnames1_def os_MkdirAll_def os_Remove_def
    os_Rename_def os_CreateTemp_def
  by (rule keeps_db_os)+

section \<open>Triples\<close>

text \<open>
  \<open>triple P m Q E\<close>: from a state with \<open>P\<close>, whatever the faults, \<open>m\<close> either returns an \<open>x\<close> in a
  state with \<open>Q x\<close> or an error in a state with \<open>E\<close>.
\<close>

definition triple :: "(world \<Rightarrow> bool) \<Rightarrow> 'a action \<Rightarrow> ('a \<Rightarrow> world \<Rightarrow> bool) \<Rightarrow> (world \<Rightarrow> bool) \<Rightarrow> bool" where
  "triple P m Q E \<longleftrightarrow>
     (\<forall>w. P w \<longrightarrow> (case m w of (Inl e, w') \<Rightarrow> E w' | (Inr x, w') \<Rightarrow> Q x w'))"

lemma tripleI:
  "(\<And>w e w'. P w \<Longrightarrow> m w = (Inl e, w') \<Longrightarrow> E w') \<Longrightarrow> (\<And>w x w'. P w \<Longrightarrow> m w = (Inr x, w') \<Longrightarrow> Q x w') \<Longrightarrow>
     triple P m Q E"
  by (auto simp: triple_def split: prod.splits sum.splits)

lemma tripleD:
  "triple P m Q E \<Longrightarrow> P w \<Longrightarrow> m w = (Inl e, w') \<Longrightarrow> E w'"
  "triple P m Q E \<Longrightarrow> P w \<Longrightarrow> m w = (Inr x, w') \<Longrightarrow> Q x w'"
  by (fastforce simp: triple_def)+

lemma triple_keeps: "keeps P m \<Longrightarrow> triple P m (\<lambda>_. P) P"
  by (rule tripleI) (auto dest: keepsD)

lemma triple_conseq:
  "triple P' m Q' E' \<Longrightarrow> (\<And>w. P w \<Longrightarrow> P' w) \<Longrightarrow> (\<And>x w. Q' x w \<Longrightarrow> Q x w) \<Longrightarrow> (\<And>w. E' w \<Longrightarrow> E w) \<Longrightarrow>
     triple P m Q E"
  unfolding triple_def by (fastforce split: prod.splits sum.splits)

lemma triple_andThen:
  "triple P m R E \<Longrightarrow> (\<And>x. triple (R x) (k x) Q E) \<Longrightarrow> triple P (andThen m k) Q E"
  unfolding triple_def andThen_def by (fastforce split: prod.splits sum.splits)

lemma triple_ret: "(\<And>w. P w \<Longrightarrow> Q x w) \<Longrightarrow> triple P (ret x) Q E"
  by (simp add: triple_def ret_def)

lemma triple_fail: "(\<And>w. P w \<Longrightarrow> E w) \<Longrightarrow> triple P (fail e) Q E"
  by (simp add: triple_def fail_def)

lemma triple_deferred:
  assumes "triple P m Q E" and "\<And>x. keeps (Q x) d" and "keeps E d"
  shows "triple P (deferred d m) Q E"
proof (rule tripleI)
  fix w e w' assume "P w" and "deferred d m w = (Inl e, w')"
  then obtain v where "m w = (Inl e, v)" "w' = snd (d v)"
    by (auto simp: deferred_def split: prod.splits)
  with assms(1,3) \<open>P w\<close> show "E w'" by (auto dest: tripleD keepsD)
next
  fix w x w' assume "P w" and "deferred d m w = (Inr x, w')"
  then obtain v where "m w = (Inr x, v)" "w' = snd (d v)"
    by (auto simp: deferred_def split: prod.splits)
  with assms(1,2) \<open>P w\<close> show "Q x w'" by (auto dest: tripleD keepsD)
qed

lemma triple_conj:
  "triple P m Q E \<Longrightarrow> triple P' m Q' E' \<Longrightarrow>
     triple (\<lambda>w. P w \<and> P' w) m (\<lambda>x w. Q x w \<and> Q' x w) (\<lambda>w. E w \<and> E' w)"
  unfolding triple_def by (fastforce split: prod.splits sum.splits)

lemma triple_frame:
  "triple P m Q E \<Longrightarrow> keeps F m \<Longrightarrow>
     triple (\<lambda>w. P w \<and> F w) m (\<lambda>x w. Q x w \<and> F w) (\<lambda>w. E w \<and> F w)"
  by (rule triple_conj) (auto intro: triple_keeps)

text \<open>The clock does not move within a request.\<close>

lemma keeps_now [keeps_intros]:
  "keeps (\<lambda>w. P (wnow w)) (os_call c)" "keeps (\<lambda>w. P (wnow w)) (db_call d)"
  "keeps (\<lambda>w. P (wnow w)) (os_WriteFile p s)"
  unfolding keeps_def os_call_def db_call_def os_WriteFile_def
  by (auto split: prod.splits fault.splits sum.splits dest!: next_fault_state)

lemma keeps_now_calls [keeps_intros]:
  "keeps (\<lambda>w. P (wnow w)) (os_query q)" "keeps (\<lambda>w. P (wnow w)) (os_update u)"
  "keeps (\<lambda>w. P (wnow w)) (db_query dq)" "keeps (\<lambda>w. P (wnow w)) (db_exec de)"
  "keeps (\<lambda>w. P (wnow w)) (os_Stat p)" "keeps (\<lambda>w. P (wnow w)) (os_ReadFile p)"
  "keeps (\<lambda>w. P (wnow w)) (os_MkdirAll p)" "keeps (\<lambda>w. P (wnow w)) (os_Remove p)"
  "keeps (\<lambda>w. P (wnow w)) (os_Rename p p')" "keeps (\<lambda>w. P (wnow w)) (os_CreateTemp p rs)"
  "keeps (\<lambda>w. P (wnow w)) (os_Readdirnames1 p)"
  unfolding os_query_def os_update_def db_query_def db_exec_def os_Stat_def os_ReadFile_def
    os_MkdirAll_def os_Remove_def os_Rename_def os_CreateTemp_def os_Readdirnames1_def
  by (rule keeps_now)+

end
