(* ===== verification/Base64.thy ===== *)
theory Base64
  imports Encodings
begin

text \<open>
  \<open>encoding/base64\<close>: \<open>StdEncoding\<close> (padded; its decoder skips CR and LF) for the master key and the
  encrypted secrets, \<open>RawURLEncoding\<close> (unpadded) for the generated keys.  Both are interpreted as
  codecs, and the URL alphabet is shown to consist of RFC 3986 unreserved characters.
\<close>

fun index_of :: "'a list \<Rightarrow> 'a \<Rightarrow> nat option" where
  "index_of [] x = None"
| "index_of (y # ys) x = (if x = y then Some 0 else map_option Suc (index_of ys x))"

lemma index_of_nth: "distinct xs \<Longrightarrow> n < length xs \<Longrightarrow> index_of xs (xs ! n) = Some n"
  by (induction xs arbitrary: n) (auto simp: nth_Cons split: nat.splits)

lemma index_of_None: "index_of xs x = None \<longleftrightarrow> x \<notin> set xs"
  by (induction xs) auto

definition b64_std :: string where
  "b64_std = ''ABCDEFGHIJKLMNOPQRSTUVWXYZabcdefghijklmnopqrstuvwxyz0123456789+/''"

definition b64_url :: string where
  "b64_url = ''ABCDEFGHIJKLMNOPQRSTUVWXYZabcdefghijklmnopqrstuvwxyz0123456789-_''"

definition pad_char :: char where "pad_char = CHR ''=''"

text \<open>\<open>EncodeToString\<close>: three bytes become four letters; a short last group is padded or not.\<close>

fun b64_encode :: "string \<Rightarrow> bool \<Rightarrow> string \<Rightarrow> string" where
  "b64_encode al p [] = []"
| "b64_encode al p [a] =
     [al ! (byte_of a div 4), al ! (byte_of a mod 4 * 16)] @ (if p then [pad_char, pad_char] else [])"
| "b64_encode al p [a, b] =
     [al ! (byte_of a div 4), al ! (byte_of a mod 4 * 16 + byte_of b div 16),
      al ! (byte_of b mod 16 * 4)] @ (if p then [pad_char] else [])"
| "b64_encode al p (a # b # c # r) =
     al ! (byte_of a div 4) # al ! (byte_of a mod 4 * 16 + byte_of b div 16)
     # al ! (byte_of b mod 16 * 4 + byte_of c div 64) # al ! (byte_of c mod 64) # b64_encode al p r"

definition b64_bytes1 :: "nat \<Rightarrow> nat \<Rightarrow> string" where
  "b64_bytes1 s t = [char_of (s * 4 + t div 16)]"

definition b64_bytes2 :: "nat \<Rightarrow> nat \<Rightarrow> nat \<Rightarrow> string" where
  "b64_bytes2 s t u = [char_of (s * 4 + t div 16), char_of (t mod 16 * 16 + u div 4)]"

definition b64_bytes3 :: "nat \<Rightarrow> nat \<Rightarrow> nat \<Rightarrow> nat \<Rightarrow> string" where
  "b64_bytes3 s t u v =
     [char_of (s * 4 + t div 16), char_of (t mod 16 * 16 + u div 4), char_of (u mod 4 * 64 + v)]"

definition b64_last2 :: "string \<Rightarrow> char \<Rightarrow> char \<Rightarrow> string option" where
  "b64_last2 al a b = (case (index_of al a, index_of al b) of
     (Some s, Some t) \<Rightarrow> Some (b64_bytes1 s t) | _ \<Rightarrow> None)"

definition b64_last3 :: "string \<Rightarrow> char \<Rightarrow> char \<Rightarrow> char \<Rightarrow> string option" where
  "b64_last3 al a b c = (case (index_of al a, index_of al b, index_of al c) of
     (Some s, Some t, Some u) \<Rightarrow> Some (b64_bytes2 s t u) | _ \<Rightarrow> None)"

text \<open>\<open>DecodeString\<close> without CR and LF; bits of a short last group beyond the bytes are ignored.\<close>

fun b64_quads :: "string \<Rightarrow> bool \<Rightarrow> string \<Rightarrow> string option" where
  "b64_quads al p [] = Some []"
| "b64_quads al p [a] = None"
| "b64_quads al p [a, b] = (if p then None else b64_last2 al a b)"
| "b64_quads al p [a, b, c] = (if p then None else b64_last3 al a b c)"
| "b64_quads al p (a # b # c # d # r) =
     (if p \<and> r = [] \<and> c = pad_char \<and> d = pad_char then b64_last2 al a b
      else if p \<and> r = [] \<and> d = pad_char then b64_last3 al a b c
      else case (index_of al a, index_of al b, index_of al c, index_of al d, b64_quads al p r) of
             (Some s, Some t, Some u, Some v, Some rest) \<Rightarrow> Some (b64_bytes3 s t u v @ rest)
           | _ \<Rightarrow> None)"

definition b64_decode :: "string \<Rightarrow> bool \<Rightarrow> string \<Rightarrow> string option" where
  "b64_decode al p s = b64_quads al p (filter (\<lambda>c. c \<noteq> CHR 0x0A \<and> c \<noteq> CHR 0x0D) s)"

abbreviation StdEncode :: "string \<Rightarrow> string" where "StdEncode \<equiv> b64_encode b64_std True"
abbreviation StdDecode :: "string \<Rightarrow> string option" where "StdDecode \<equiv> b64_decode b64_std True"
abbreviation RawURLEncode :: "string \<Rightarrow> string" where "RawURLEncode \<equiv> b64_encode b64_url False"
abbreviation RawURLDecode :: "string \<Rightarrow> string option" where "RawURLDecode \<equiv> b64_decode b64_url False"

text \<open>What the round trip needs of an alphabet.\<close>

definition b64_alphabet :: "string \<Rightarrow> bool" where
  "b64_alphabet al \<longleftrightarrow> length al = 64 \<and> distinct al \<and> pad_char \<notin> set al
     \<and> CHR 0x0A \<notin> set al \<and> CHR 0x0D \<notin> set al"

lemma b64_alphabets [simp]: "b64_alphabet b64_std" "b64_alphabet b64_url"
  by (simp_all add: b64_alphabet_def b64_std_def b64_url_def pad_char_def)

lemma b64_index [simp]: "b64_alphabet al \<Longrightarrow> n < 64 \<Longrightarrow> index_of al (al ! n) = Some n"
  by (simp add: b64_alphabet_def index_of_nth)

lemma b64_nth_not_pad [simp]: "b64_alphabet al \<Longrightarrow> n < 64 \<Longrightarrow> al ! n \<noteq> pad_char"
  by (metis b64_alphabet_def nth_mem)

lemma byte_div_bounds [simp]:
  "byte_of c div 4 < 64" "byte_of c div 16 < 16" "byte_of c div 64 < 4"
  using byte_of_less [of c] by linarith+

lemma sextet_bounds [simp]:
  "x mod 4 * 16 < (64::nat)" "x mod 16 * 4 < (64::nat)" "x mod 64 < (64::nat)"
  "y < 16 \<Longrightarrow> x mod 4 * 16 + y < (64::nat)" "z < 4 \<Longrightarrow> x mod 16 * 4 + z < (64::nat)"
proof -
  have m: "x mod 4 < 4" "x mod 16 < 16" "x mod 64 < (64::nat)" by simp_all
  show "x mod 4 * 16 < (64::nat)" "x mod 16 * 4 < (64::nat)" "x mod 64 < (64::nat)"
    using m by linarith+
  show "y < 16 \<Longrightarrow> x mod 4 * 16 + y < (64::nat)" "z < 4 \<Longrightarrow> x mod 16 * 4 + z < (64::nat)"
    using m by linarith+
qed

lemma b64_bytes_back:
  "b64_bytes1 (byte_of a div 4) (byte_of a mod 4 * 16) = [a]"
  "b64_bytes2 (byte_of a div 4) (byte_of a mod 4 * 16 + byte_of b div 16) (byte_of b mod 16 * 4) = [a, b]"
  "b64_bytes3 (byte_of a div 4) (byte_of a mod 4 * 16 + byte_of b div 16)
     (byte_of b mod 16 * 4 + byte_of c div 64) (byte_of c mod 64) = [a, b, c]"
proof -
  have 1: "byte_of a div 4 * 4 + (byte_of a mod 4 * 16 + y) div 16 = byte_of a" if "y < 16" for y a
    using that by simp
  have 2: "(x mod 4 * 16 + byte_of b div 16) mod 16 * 16 + (byte_of b mod 16 * 4 + y) div 4 = byte_of b"
    if "y < 4" for x y b using that by (simp add: mod_add_left_eq [symmetric])
  have 3: "(x mod 16 * 4 + byte_of c div 64) mod 4 * 64 + byte_of c mod 64 = byte_of c" for x c
    by (simp add: mod_add_left_eq [symmetric])
  show "b64_bytes1 (byte_of a div 4) (byte_of a mod 4 * 16) = [a]"
    using 1 [of 0 a] by (simp add: b64_bytes1_def del: div_mult_self1)
  show "b64_bytes2 (byte_of a div 4) (byte_of a mod 4 * 16 + byte_of b div 16) (byte_of b mod 16 * 4) = [a, b]"
    using 1 [of "byte_of b div 16" a] 2 [of 0 "byte_of a" b] by (simp add: b64_bytes2_def)
  show "b64_bytes3 (byte_of a div 4) (byte_of a mod 4 * 16 + byte_of b div 16)
     (byte_of b mod 16 * 4 + byte_of c div 64) (byte_of c mod 64) = [a, b, c]"
    using 1 [of "byte_of b div 16" a] 2 [of "byte_of c div 64" "byte_of a" b] 3 [of "byte_of b" c]
    by (simp add: b64_bytes3_def)
qed

lemma b64_quads_encode: "b64_alphabet al \<Longrightarrow> b64_quads al p (b64_encode al p s) = Some s"
proof (induction al p s rule: b64_encode.induct)
  case (4 al p a b c r)
  then show ?case by (simp add: b64_bytes_back)
qed (simp_all add: b64_last2_def b64_last3_def b64_bytes_back)

lemma b64_encode_set: "b64_alphabet al \<Longrightarrow> set (b64_encode al p s) \<subseteq> set al \<union> (if p then {pad_char} else {})"
proof (induction al p s rule: b64_encode.induct)
  case (4 al p a b c r)
  then show ?case by (simp add: b64_alphabet_def)
qed (simp_all add: b64_alphabet_def)

lemma b64_decode_encode: "b64_alphabet al \<Longrightarrow> b64_decode al p (b64_encode al p s) = Some s"
proof -
  assume al: "b64_alphabet al"
  then have "filter (\<lambda>c. c \<noteq> CHR 0x0A \<and> c \<noteq> CHR 0x0D) (b64_encode al p s) = b64_encode al p s"
    using b64_encode_set [OF al, of p s]
    by (intro filter_True) (auto simp: b64_alphabet_def pad_char_def split: if_splits)
  with al show ?thesis by (simp add: b64_decode_def b64_quads_encode)
qed

lemma length_raw_encode:
  "length (b64_encode al False s) = length s div 3 * 4 + (if length s mod 3 = 0 then 0 else length s mod 3 + 1)"
proof (induction al False s rule: b64_encode.induct)
  case (4 al a b c r)
  have "Suc (Suc (Suc n)) div 3 = Suc (n div 3)" "Suc (Suc (Suc n)) mod 3 = n mod 3" for n :: nat
    by presburger+
  with 4 show ?case by simp
qed simp_all

text \<open>RFC 3986 unreserved characters: what \<open>escapeDataString\<close> leaves alone.\<close>

definition unreserved :: "char \<Rightarrow> bool" where
  "unreserved c \<longleftrightarrow>
     (let b = byte_of c in (97 \<le> b \<and> b \<le> 122) \<or> (65 \<le> b \<and> b \<le> 90) \<or> (48 \<le> b \<and> b \<le> 57)
        \<or> c = CHR ''-'' \<or> c = CHR ''.'' \<or> c = CHR ''_'' \<or> c = CHR ''~'')"

lemma b64_url_unreserved: "c \<in> set b64_url \<Longrightarrow> unreserved c"
proof -
  have "list_all unreserved b64_url" by code_simp
  then show "c \<in> set b64_url \<Longrightarrow> unreserved c" by (simp add: list_all_iff)
qed

interpretation std64: codec StdEncode StdDecode "\<lambda>_. True"
  by unfold_locales (simp add: b64_decode_encode)

interpretation url64: token_codec RawURLEncode RawURLDecode "\<lambda>_. True" unreserved
proof unfold_locales
  show "RawURLDecode (RawURLEncode x) = Some x" for x by (simp add: b64_decode_encode)
  show "unreserved c" if "c \<in> set (RawURLEncode x)" for x c
    using that b64_encode_set [of b64_url False x] by (auto intro: b64_url_unreserved)
qed

end
