(* ===== verification/Store.thy ===== *)
theory Store
  imports World Base64
begin

text \<open>
  \<open>store.go\<close>: the methods of \<open>Store\<close> as actions on the world, one per Go method, over the SQL
  statements of \<open>Tables\<close>.  For each method there is its effect in a run without faults
  (\<open>world_simps\<close>) and the fact that it keeps the table invariant \<open>db_wf\<close> in every run
  (\<open>keeps_intros\<close>).
\<close>

section \<open>Buckets\<close>

definition InsertBucket :: "Bucket \<Rightarrow> unit action" where
  "InsertBucket b = db_call (\<lambda>d. case ins_bucket b d of
     None \<Rightarrow> Inl (bucketAlreadyExists (Name b)) | Some d' \<Rightarrow> Inr ((), d'))"

definition GetBucket :: "string \<Rightarrow> Bucket option action" where
  "GetBucket name = db_query (sel_bucket name)"

definition BucketByAccessKey :: "string \<Rightarrow> Bucket option action" where
  "BucketByAccessKey accessKey = db_query (sel_bucket_by_key accessKey)"

definition ListBuckets :: "Bucket list action" where
  "ListBuckets = db_query sel_buckets"

definition UpdateBucketKeys :: "string \<Rightarrow> string \<Rightarrow> string \<Rightarrow> unit action" where
  "UpdateBucketKeys name accessKey encryptedSecret = db_call (\<lambda>d.
     case upd_bucket_keys name accessKey encryptedSecret d of
       None \<Rightarrow> Inl DbErr | Some d' \<Rightarrow> Inr ((), d'))"

definition DeleteBucket :: "string \<Rightarrow> unit action" where
  "DeleteBucket name =
     in_tx (andThen (db_exec (del_bucket_objects name)) (\<lambda>_. db_exec (del_bucket name)))"

section \<open>The object index\<close>

definition GetObject :: "string \<Rightarrow> string \<Rightarrow> ObjectRow option action" where
  "GetObject bucket key = db_query (sel_object bucket key)"

definition UpsertObject :: "ObjectRow \<Rightarrow> unit action" where
  "UpsertObject r = db_exec (ups_object r)"

definition SetObjectETag :: "string \<Rightarrow> string \<Rightarrow> string \<Rightarrow> unit action" where
  "SetObjectETag bucket key etag = db_exec (upd_etag bucket key etag)"

text \<open>\<open>(public, found, err)\<close>: the indexed visibility, \<open>None\<close> if there is no row.\<close>

definition ObjectPublic :: "string \<Rightarrow> string \<Rightarrow> bool option action" where
  "ObjectPublic bucket key = db_query (\<lambda>d. map_option oPublic (sel_object bucket key d))"

definition DeleteObjectRow :: "string \<Rightarrow> string \<Rightarrow> unit action" where
  "DeleteObjectRow bucket key = db_exec (del_object bucket key)"

definition HasObjects :: "string \<Rightarrow> bool action" where
  "HasObjects bucket = db_query (\<lambda>d. bucket_rows bucket d \<noteq> [])"

definition ListObjectRows :: "string \<Rightarrow> string \<Rightarrow> string \<Rightarrow> nat \<Rightarrow> ObjectRow list action" where
  "ListObjectRows bucket pfx cursor limit = db_query (sel_page bucket pfx cursor limit)"

definition Stats :: "string \<Rightarrow> string \<Rightarrow> BucketStats action" where
  "Stats bucket pfx = db_call (\<lambda>d. case sel_stats bucket pfx d of
     None \<Rightarrow> Inl DbErr | Some st \<Rightarrow> Inr (st, d))"

text \<open>
  \<open>map[string]*ObjectRow\<close>, keyed by object key: the bucket's rows, in which a key occurs once.
\<close>

definition IndexedObjects :: "string \<Rightarrow> ObjectRow list action" where
  "IndexedObjects bucket = db_query (bucket_rows bucket)"

definition indexed_row :: "ObjectRow list \<Rightarrow> string \<Rightarrow> ObjectRow option" where
  "indexed_row rows key = find (\<lambda>r. oKey r = key) rows"

definition ApplyIndexChanges :: "string \<Rightarrow> ObjectRow list \<Rightarrow> string list \<Rightarrow> unit action" where
  "ApplyIndexChanges bucket upserts deletes =
     (if upserts = [] \<and> deletes = [] then ret ()
      else in_tx (andThen (for_each (\<lambda>r. db_exec (ups_object r)) upserts)
             (\<lambda>_. andThen (for_each (\<lambda>k. db_exec (del_object bucket k)) deletes) (\<lambda>_. ret ()))))"

definition DeleteBucketObjects :: "string \<Rightarrow> nat action" where
  "DeleteBucketObjects bucket =
     db_call (\<lambda>d. Inr (length (bucket_rows bucket d), del_bucket_objects bucket d))"

section \<open>Runs without faults\<close>

lemma for_each_exec_quiet [world_simps]:
  "wfaults w = [] \<Longrightarrow>
     for_each (\<lambda>x. db_exec (f x)) xs w = (Inr (replicate (length xs) ()), w\<lparr>wdb := fold f xs (wdb w)\<rparr>)"
  by (induction xs arbitrary: w) (simp_all add: db_exec_quiet)

lemma in_tx_quiet:
  "wfaults w = [] \<Longrightarrow> body w = (Inr (), w') \<Longrightarrow> wfaults w' = [] \<Longrightarrow> in_tx body w = (Inr (), w')"
  by (simp add: in_tx_def andThen_def db_query_quiet)

lemma store_quiet [world_simps]:
  assumes "wfaults w = []"
  shows "GetBucket n w = (Inr (sel_bucket n (wdb w)), w)"
    and "BucketByAccessKey ak w = (Inr (sel_bucket_by_key ak (wdb w)), w)"
    and "ListBuckets w = (Inr (sel_buckets (wdb w)), w)"
    and "GetObject b k w = (Inr (sel_object b k (wdb w)), w)"
    and "UpsertObject r w = (Inr (), w\<lparr>wdb := ups_object r (wdb w)\<rparr>)"
    and "SetObjectETag b k e w = (Inr (), w\<lparr>wdb := upd_etag b k e (wdb w)\<rparr>)"
    and "ObjectPublic b k w = (Inr (map_option oPublic (sel_object b k (wdb w))), w)"
    and "DeleteObjectRow b k w = (Inr (), w\<lparr>wdb := del_object b k (wdb w)\<rparr>)"
    and "HasObjects b w = (Inr (bucket_rows b (wdb w) \<noteq> []), w)"
    and "ListObjectRows b p c l w = (Inr (sel_page b p c l (wdb w)), w)"
    and "IndexedObjects b w = (Inr (bucket_rows b (wdb w)), w)"
    and "DeleteBucketObjects b w = (Inr (length (bucket_rows b (wdb w))), w\<lparr>wdb := del_bucket_objects b (wdb w)\<rparr>)"
  using assms
  by (simp_all add: GetBucket_def BucketByAccessKey_def ListBuckets_def GetObject_def UpsertObject_def
      SetObjectETag_def ObjectPublic_def DeleteObjectRow_def HasObjects_def ListObjectRows_def
      IndexedObjects_def DeleteBucketObjects_def db_query_quiet db_exec_quiet db_call_def next_fault_quiet)

lemma InsertBucket_quiet [world_simps]:
  "wfaults w = [] \<Longrightarrow> InsertBucket b w =
     (case ins_bucket b (wdb w) of
        None \<Rightarrow> (Inl (bucketAlreadyExists (Name b)), w) | Some d \<Rightarrow> (Inr (), w\<lparr>wdb := d\<rparr>))"
  by (simp add: InsertBucket_def db_call_def next_fault_quiet split: option.splits)

lemma UpdateBucketKeys_quiet [world_simps]:
  "wfaults w = [] \<Longrightarrow> UpdateBucketKeys n ak es w =
     (case upd_bucket_keys n ak es (wdb w) of None \<Rightarrow> (Inl DbErr, w) | Some d \<Rightarrow> (Inr (), w\<lparr>wdb := d\<rparr>))"
  by (simp add: UpdateBucketKeys_def db_call_def next_fault_quiet split: option.splits)

lemma Stats_quiet [world_simps]:
  "wfaults w = [] \<Longrightarrow> Stats b p w =
     (case sel_stats b p (wdb w) of None \<Rightarrow> (Inl DbErr, w) | Some st \<Rightarrow> (Inr st, w))"
  by (simp add: Stats_def db_call_def next_fault_quiet split: option.splits)

lemma DeleteBucket_quiet [world_simps]:
  "wfaults w = [] \<Longrightarrow>
     DeleteBucket n w = (Inr (), w\<lparr>wdb := del_bucket n (del_bucket_objects n (wdb w))\<rparr>)"
  unfolding DeleteBucket_def
  by (rule in_tx_quiet) (simp_all add: andThen_def db_exec_quiet)

lemma ApplyIndexChanges_quiet [world_simps]:
  "wfaults w = [] \<Longrightarrow> ApplyIndexChanges b us ds w =
     (Inr (), w\<lparr>wdb := fold (del_object b) ds (fold ups_object us (wdb w))\<rparr>)"
proof (cases "us = [] \<and> ds = []")
  case False
  assume "wfaults w = []"
  then show ?thesis
    unfolding ApplyIndexChanges_def if_not_P [OF False]
    by (intro in_tx_quiet) (simp_all add: andThen_def for_each_exec_quiet ret_def)
qed (simp add: ApplyIndexChanges_def ret_def)

section \<open>Atomicity\<close>

text \<open>
  Whatever faults occur, a transaction that reports an error has left the database as it was, and
  one that reports success has run all of its statements.
\<close>

lemma in_tx_error_db: "in_tx body w = (Inl e, w') \<Longrightarrow> wdb w' = wdb w"
  by (auto simp: in_tx_def split: prod.splits sum.splits)

lemma db_exec_Inr: "db_exec f w = (Inr x, w') \<Longrightarrow> wdb w' = f (wdb w)"
  by (auto simp: db_exec_def db_call_def split: prod.splits fault.splits dest!: next_fault_state)

lemma db_query_Inr: "db_query f w = (Inr x, w') \<Longrightarrow> x = f (wdb w) \<and> wdb w' = wdb w"
  by (auto simp: db_query_def db_call_def split: prod.splits fault.splits dest!: next_fault_state)

lemma for_each_exec_Inr:
  "for_each (\<lambda>x. db_exec (f x)) xs w = (Inr ys, w') \<Longrightarrow> wdb w' = fold f xs (wdb w)"
proof (induction xs arbitrary: w ys)
  case (Cons x xs)
  then show ?case by (auto split: prod.splits sum.splits dest!: db_exec_Inr)
qed simp

lemma in_tx_ok_db:
  "in_tx body w = (Inr x, w') \<Longrightarrow> \<exists>w1 y w2. wdb w1 = wdb w \<and> body w1 = (Inr y, w2) \<and> wdb w' = wdb w2"
  by (auto simp: in_tx_def andThen_def split: prod.splits sum.splits dest!: db_query_Inr)

lemma DeleteBucket_atomic:
  "DeleteBucket n w = (r, w') \<Longrightarrow>
     wdb w' = (case r of Inl e \<Rightarrow> wdb w | Inr u \<Rightarrow> del_bucket n (del_bucket_objects n (wdb w)))"
  unfolding DeleteBucket_def
  by (cases r)
    (auto dest!: in_tx_error_db in_tx_ok_db simp: andThen_def split: prod.splits sum.splits
       dest!: db_exec_Inr)

lemma ApplyIndexChanges_atomic:
  "ApplyIndexChanges b us ds w = (r, w') \<Longrightarrow>
     wdb w' = (case r of Inl e \<Rightarrow> wdb w | Inr u \<Rightarrow> fold (del_object b) ds (fold ups_object us (wdb w)))"
  unfolding ApplyIndexChanges_def
  by (cases r)
    (auto dest!: in_tx_error_db in_tx_ok_db simp: andThen_def ret_def split: prod.splits sum.splits if_splits
       dest!: for_each_exec_Inr)

section \<open>Every method keeps the table invariant\<close>

lemma keeps_InsertBucket [keeps_intros]: "keeps db_ok (InsertBucket b)"
  unfolding InsertBucket_def
  by (rule keeps_db_call) (auto split: option.splits intro: ins_bucket_wf)

lemma keeps_UpdateBucketKeys [keeps_intros]: "keeps db_ok (UpdateBucketKeys n ak es)"
  unfolding UpdateBucketKeys_def
  by (rule keeps_db_call) (auto split: option.splits intro: upd_bucket_keys_wf)

lemma keeps_db_ok_exec [keeps_intros]:
  "keeps db_ok (db_exec (del_bucket n))" "keeps db_ok (db_exec (del_bucket_objects n))"
  "keeps db_ok (db_exec (ups_object r))" "keeps db_ok (db_exec (upd_etag b k e))"
  "keeps db_ok (db_exec (del_object b k))"
  by (rule keeps_db_exec;
      simp add: del_bucket_wf del_bucket_objects_wf ups_object_wf upd_etag_wf del_object_wf)+

lemma keeps_db_ok_store [keeps_intros]:
  "keeps db_ok (DeleteBucket n)" "keeps db_ok (UpsertObject r)" "keeps db_ok (SetObjectETag b k e)"
  "keeps db_ok (DeleteObjectRow b k)" "keeps db_ok (ApplyIndexChanges b us ds)"
  unfolding DeleteBucket_def UpsertObject_def SetObjectETag_def DeleteObjectRow_def ApplyIndexChanges_def
  by (intro keeps_intros)+

lemma keeps_db_reads [keeps_intros]:
  "keeps (\<lambda>w. P (wdb w)) (GetBucket n)" "keeps (\<lambda>w. P (wdb w)) (BucketByAccessKey ak)"
  "keeps (\<lambda>w. P (wdb w)) ListBuckets" "keeps (\<lambda>w. P (wdb w)) (GetObject b k)"
  "keeps (\<lambda>w. P (wdb w)) (ObjectPublic b k)" "keeps (\<lambda>w. P (wdb w)) (HasObjects b)"
  "keeps (\<lambda>w. P (wdb w)) (ListObjectRows b p c l)" "keeps (\<lambda>w. P (wdb w)) (IndexedObjects b)"
  unfolding GetBucket_def BucketByAccessKey_def ListBuckets_def GetObject_def ObjectPublic_def
    HasObjects_def ListObjectRows_def IndexedObjects_def
  by (rule keeps_db_query)+

lemma keeps_Stats [keeps_intros]: "keeps (\<lambda>w. P (wdb w)) (Stats b p)"
  unfolding Stats_def by (rule keeps_db_call) (auto split: option.splits)

lemma keeps_DeleteBucketObjects [keeps_intros]: "keeps db_ok (DeleteBucketObjects b)"
  unfolding DeleteBucketObjects_def by (rule keeps_db_call) (auto intro: del_bucket_objects_wf)

lemma keeps_fs_store [keeps_intros]:
  "keeps (\<lambda>w. P (wfs w)) (InsertBucket bk)" "keeps (\<lambda>w. P (wfs w)) (GetBucket n)"
  "keeps (\<lambda>w. P (wfs w)) (BucketByAccessKey ak)" "keeps (\<lambda>w. P (wfs w)) ListBuckets"
  "keeps (\<lambda>w. P (wfs w)) (UpdateBucketKeys n ak es)" "keeps (\<lambda>w. P (wfs w)) (DeleteBucket n)"
  "keeps (\<lambda>w. P (wfs w)) (GetObject b k)" "keeps (\<lambda>w. P (wfs w)) (UpsertObject r)"
  "keeps (\<lambda>w. P (wfs w)) (SetObjectETag b k e)" "keeps (\<lambda>w. P (wfs w)) (ObjectPublic b k)"
  "keeps (\<lambda>w. P (wfs w)) (DeleteObjectRow b k)" "keeps (\<lambda>w. P (wfs w)) (HasObjects b)"
  "keeps (\<lambda>w. P (wfs w)) (ListObjectRows b p c l)" "keeps (\<lambda>w. P (wfs w)) (IndexedObjects b)"
  "keeps (\<lambda>w. P (wfs w)) (Stats b p)" "keeps (\<lambda>w. P (wfs w)) (DeleteBucketObjects b)"
  "keeps (\<lambda>w. P (wfs w)) (ApplyIndexChanges b us ds)"
  unfolding InsertBucket_def GetBucket_def BucketByAccessKey_def ListBuckets_def UpdateBucketKeys_def
    DeleteBucket_def GetObject_def UpsertObject_def SetObjectETag_def ObjectPublic_def
    DeleteObjectRow_def HasObjects_def ListObjectRows_def IndexedObjects_def Stats_def
    DeleteBucketObjects_def ApplyIndexChanges_def
  by (intro keeps_intros)+

end
