(* ===== verification/Json.thy ===== *)
theory Json
  imports Encodings
begin

text \<open>
  The part of \<open>encoding/json\<close> the program uses: parsing a whole document, decoding it into a struct
  of strings, string pointers, booleans and \<open>int64\<close> (case-insensitive field names, \<open>null\<close> leaves a
  field alone, the first value of a wrong type is the reported error), and printing the sidecar
  struct with Go's string escaping.
\<close>

datatype json =
  JNull | JBool bool | JNum string | JStr string | JArr "json list" | JObj "(string \<times> json) list"

section \<open>Strings\<close>

definition quote_char :: char where "quote_char = CHR 0x22"
definition backslash :: char where "backslash = CHR 0x5C"

definition replacement_utf8 :: string where
  "replacement_utf8 = [CHR 0xEF, CHR 0xBF, CHR 0xBD]"

text \<open>\<open>utf8.AppendRune\<close>.\<close>

definition encode_rune :: "nat \<Rightarrow> string" where
  "encode_rune r =
     (if r < 128 then [char_of r]
      else if r < 2048 then [char_of (192 + r div 64), char_of (128 + r mod 64)]
      else if (55296 \<le> r \<and> r < 57344) \<or> 1114112 \<le> r then replacement_utf8
      else if r < 65536 then
        [char_of (224 + r div 4096), char_of (128 + r div 64 mod 64), char_of (128 + r mod 64)]
      else [char_of (240 + r div 262144), char_of (128 + r div 4096 mod 64),
            char_of (128 + r div 64 mod 64), char_of (128 + r mod 64)])"

text \<open>\<open>strings.ToValidUTF8\<close> with U+FFFD per byte: what a string becomes on its way through JSON.\<close>

function utf8_sanitize :: "string \<Rightarrow> string" where
  "utf8_sanitize s =
     (if s = [] then []
      else if decode_rune s = (rune_error, 1) then replacement_utf8 @ utf8_sanitize (drop 1 s)
      else take (snd (decode_rune s)) s @ utf8_sanitize (drop (snd (decode_rune s)) s))"
  by pat_completeness auto
termination
  by (relation "measure length") (auto simp: decode_rune_shrinks)

declare utf8_sanitize.simps [simp del]

definition valid_utf8 :: "string \<Rightarrow> bool" where
  "valid_utf8 s \<longleftrightarrow> utf8_sanitize s = s"

text \<open>Four hex digits.\<close>

fun hex4 :: "string \<Rightarrow> (nat \<times> string) option" where
  "hex4 (a # b # c # d # r) =
     (case (hex_value a, hex_value b, hex_value c, hex_value d) of
        (Some w, Some x, Some y, Some z) \<Rightarrow> Some (w * 4096 + x * 256 + y * 16 + z, r)
      | _ \<Rightarrow> None)"
| "hex4 _ = None"

definition is_surrogate :: "nat \<Rightarrow> bool" where
  "is_surrogate r \<longleftrightarrow> 55296 \<le> r \<and> r < 57344"

text \<open>The rune a \<open>\u\<close> escape denotes, given what follows it: a valid pair takes both escapes.\<close>

definition unescape_u :: "nat \<Rightarrow> string \<Rightarrow> string \<times> string" where
  "unescape_u u r =
     (if is_surrogate u then
        (case r of
           x # y # r1 \<Rightarrow>
             (if x = backslash \<and> y = CHR ''u'' then
                (case hex4 r1 of
                   Some (v, r2) \<Rightarrow>
                     if u < 56320 \<and> 56320 \<le> v \<and> v < 57344
                     then (encode_rune ((u - 55296) * 1024 + (v - 56320) + 65536), r2)
                     else (replacement_utf8, r)
                 | None \<Rightarrow> (replacement_utf8, r))
              else (replacement_utf8, r))
         | _ \<Rightarrow> (replacement_utf8, r))
      else (encode_rune u, r))"

definition simple_escape :: "char \<Rightarrow> char option" where
  "simple_escape e =
     (if e = quote_char \<or> e = backslash \<or> e = CHR ''/'' then Some e
      else if e = CHR ''b'' then Some (CHR 0x08)
      else if e = CHR ''f'' then Some (CHR 0x0C)
      else if e = CHR ''n'' then Some (CHR 0x0A)
      else if e = CHR ''r'' then Some (CHR 0x0D)
      else if e = CHR ''t'' then Some (CHR 0x09) else None)"

definition cons_result :: "string \<Rightarrow> (string \<times> string) option \<Rightarrow> (string \<times> string) option" where
  "cons_result a r = map_option (\<lambda>(s, t). (a @ s, t)) r"

text \<open>The rest of a string literal after its opening quote: its value and what follows it.\<close>

lemma hex4_shrinks: "hex4 s = Some (u, r) \<Longrightarrow> length r < length s"
  by (cases s rule: hex4.cases) (auto split: option.splits)

lemma unescape_u_shrinks: "length (snd (unescape_u u r)) \<le> length r"
  by (auto simp: unescape_u_def split: list.splits option.splits dest!: hex4_shrinks)

function json_str :: "string \<Rightarrow> (string \<times> string) option" where
  "json_str [] = None"
| "json_str (c # cs) =
     (if c = quote_char then Some ([], cs)
      else if c = backslash then
        (case cs of
           [] \<Rightarrow> None
         | e # r \<Rightarrow>
             (if e = CHR ''u'' then
                (case hex4 r of
                   None \<Rightarrow> None
                 | Some (u, r1) \<Rightarrow> cons_result (fst (unescape_u u r1)) (json_str (snd (unescape_u u r1))))
              else (case simple_escape e of None \<Rightarrow> None | Some x \<Rightarrow> cons_result [x] (json_str r))))
      else if byte_of c < 32 then None
      else if decode_rune (c # cs) = (rune_error, 1) then cons_result replacement_utf8 (json_str cs)
      else cons_result (take (snd (decode_rune (c # cs))) (c # cs))
             (json_str (drop (snd (decode_rune (c # cs))) (c # cs))))"
  by pat_completeness auto
termination
proof (relation "measure length", goal_cases)
  case (2 c cs e r a u r1)
  then show ?case
    using unescape_u_shrinks [of u r1] hex4_shrinks [of r u r1] by (simp add: le_imp_less_Suc)
next
  case (5 c cs)
  then show ?case using decode_rune_shrinks [of "c # cs"] by simp
qed auto

declare json_str.simps(2) [simp del]

lemma json_str_quote [simp]: "json_str (quote_char # cs) = Some ([], cs)"
  by (simp add: json_str.simps(2))

lemma cons_result_Some [simp]: "cons_result a (Some (s, t)) = Some (a @ s, t)"
  by (simp add: cons_result_def)

section \<open>Printing strings\<close>

text \<open>\<open>json.Marshal\<close> of a string, HTML escaping on: the text between the quotes.\<close>

definition escape_ascii :: "char \<Rightarrow> string" where
  "escape_ascii c =
     (let b = byte_of c in
      if c = quote_char \<or> c = backslash then [backslash, c]
      else if b = 8 then [backslash, CHR ''b'']
      else if b = 12 then [backslash, CHR ''f'']
      else if b = 10 then [backslash, CHR ''n'']
      else if b = 13 then [backslash, CHR ''r'']
      else if b = 9 then [backslash, CHR ''t'']
      else if b < 32 \<or> c = CHR ''<'' \<or> c = CHR ''>'' \<or> c = CHR ''&''
        then [backslash, CHR ''u'', CHR ''0'', CHR ''0'', hex_digit (b div 16), hex_digit (b mod 16)]
      else [c])"

function json_escape :: "string \<Rightarrow> string" where
  "json_escape [] = []"
| "json_escape (c # cs) =
     (if byte_of c < 128 then escape_ascii c @ json_escape cs
      else if decode_rune (c # cs) = (rune_error, 1) then
        [backslash, CHR ''u'', CHR ''f'', CHR ''f'', CHR ''f'', CHR ''d''] @ json_escape cs
      else if fst (decode_rune (c # cs)) = 8232 \<or> fst (decode_rune (c # cs)) = 8233 then
        [backslash, CHR ''u'', CHR ''2'', CHR ''0'', CHR ''2'',
          hex_digit (fst (decode_rune (c # cs)) mod 16)]
        @ json_escape (drop (snd (decode_rune (c # cs))) (c # cs))
      else take (snd (decode_rune (c # cs))) (c # cs)
        @ json_escape (drop (snd (decode_rune (c # cs))) (c # cs)))"
  by pat_completeness auto
termination
proof (relation "measure length", goal_cases)
  case (4 c cs)
  then show ?case using decode_rune_shrinks [of "c # cs"] by simp
next
  case (5 c cs)
  then show ?case using decode_rune_shrinks [of "c # cs"] by simp
qed auto

declare json_escape.simps(2) [simp del]

definition json_quote :: "string \<Rightarrow> string" where
  "json_quote s = quote_char # json_escape s @ [quote_char]"

text \<open>A decoded rune does not depend on what follows its bytes, and encoding it gives them back.\<close>

lemma decode_multi_cases:
  "decode2 c0 cs = (rune_error, 1) \<or> (\<exists>c1 r. cs = c1 # r \<and> is_cont c1 \<and>
     decode2 c0 cs = ((byte_of c0 - 192) * 64 + (byte_of c1 - 128), 2))"
  "decode3 c0 cs = (rune_error, 1) \<or> (\<exists>c1 c2 r. cs = c1 # c2 # r \<and> is_cont c1 \<and> is_cont c2 \<and>
     byte_in c1 (if byte_of c0 = 224 then 160 else 128) (if byte_of c0 = 237 then 159 else 191) \<and>
     decode3 c0 cs = ((byte_of c0 - 224) * 4096 + (byte_of c1 - 128) * 64 + (byte_of c2 - 128), 3))"
  "decode4 c0 cs = (rune_error, 1) \<or> (\<exists>c1 c2 c3 r. cs = c1 # c2 # c3 # r \<and> is_cont c1 \<and> is_cont c2 \<and> is_cont c3 \<and>
     byte_in c1 (if byte_of c0 = 240 then 144 else 128) (if byte_of c0 = 244 then 143 else 191) \<and>
     decode4 c0 cs = ((byte_of c0 - 240) * 262144 + (byte_of c1 - 128) * 4096
       + (byte_of c2 - 128) * 64 + (byte_of c3 - 128), 4))"
    apply (cases "(c0, cs)" rule: decode2.cases; simp)
   apply (cases "(c0, cs)" rule: decode3.cases; auto simp: is_cont_def byte_in_def)
  apply (cases "(c0, cs)" rule: decode4.cases; auto simp: is_cont_def byte_in_def)
  done

lemma decode_rune_cases:
  assumes "128 \<le> byte_of c0" and "decode_rune (c0 # cs) \<noteq> (rune_error, 1)"
  obtains
    (two) c1 r where "cs = c1 # r" "194 \<le> byte_of c0" "byte_of c0 < 224" "is_cont c1"
      "decode_rune (c0 # cs) = ((byte_of c0 - 192) * 64 + (byte_of c1 - 128), 2)"
  | (three) c1 c2 r where "cs = c1 # c2 # r" "224 \<le> byte_of c0" "byte_of c0 < 240" "is_cont c1" "is_cont c2"
      "byte_in c1 (if byte_of c0 = 224 then 160 else 128) (if byte_of c0 = 237 then 159 else 191)"
      "decode_rune (c0 # cs) = ((byte_of c0 - 224) * 4096 + (byte_of c1 - 128) * 64 + (byte_of c2 - 128), 3)"
  | (four) c1 c2 c3 r where "cs = c1 # c2 # c3 # r" "240 \<le> byte_of c0" "byte_of c0 < 245"
      "is_cont c1" "is_cont c2" "is_cont c3"
      "byte_in c1 (if byte_of c0 = 240 then 144 else 128) (if byte_of c0 = 244 then 143 else 191)"
      "decode_rune (c0 # cs) = ((byte_of c0 - 240) * 262144 + (byte_of c1 - 128) * 4096
         + (byte_of c2 - 128) * 64 + (byte_of c3 - 128), 4)"
proof -
  from assms have b: "194 \<le> byte_of c0" "byte_of c0 < 245"
    by (auto simp: decode_rune_def split: if_splits)
  then consider "byte_of c0 < 224" | "224 \<le> byte_of c0 \<and> byte_of c0 < 240" | "240 \<le> byte_of c0"
    by linarith
  then show thesis
  proof cases
    case 1
    then have "decode_rune (c0 # cs) = decode2 c0 cs" using b by (simp add: decode_rune_def)
    with 1 b assms(2) two show thesis using decode_multi_cases(1) [of c0 cs] by metis
  next
    case 2
    then have "decode_rune (c0 # cs) = decode3 c0 cs" using b by (simp add: decode_rune_def)
    with 2 b assms(2) three show thesis using decode_multi_cases(2) [of c0 cs] by metis
  next
    case 3
    then have "decode_rune (c0 # cs) = decode4 c0 cs" using b by (simp add: decode_rune_def)
    with 3 b assms(2) four show thesis using decode_multi_cases(3) [of c0 cs] by metis
  qed
qed

lemma decode_rune_local:
  assumes "128 \<le> byte_of c0" and "decode_rune (c0 # cs) \<noteq> (rune_error, 1)"
  shows "decode_rune (take (snd (decode_rune (c0 # cs))) (c0 # cs) @ t) = decode_rune (c0 # cs)"
  using assms by (cases rule: decode_rune_cases) (simp_all add: decode_rune_def)

lemma encode_decode_rune:
  assumes "128 \<le> byte_of c0" and "decode_rune (c0 # cs) \<noteq> (rune_error, 1)"
  shows "encode_rune (fst (decode_rune (c0 # cs))) = take (snd (decode_rune (c0 # cs))) (c0 # cs)"
  using assms
proof (cases rule: decode_rune_cases)
  case (two c1 r)
  define x y where "x = byte_of c0 - 192" and "y = byte_of c1 - 128"
  have xy: "2 \<le> x" "x < 32" "y < 64" "byte_of c0 = 192 + x" "byte_of c1 = 128 + y"
    using two by (auto simp: x_def y_def is_cont_def)
  have "encode_rune (x * 64 + y) = [char_of (192 + x), char_of (128 + y)]"
    using xy by (simp add: encode_rune_def)
  then show ?thesis using two(1,5) by (simp flip: x_def y_def xy(4,5))
next
  case (three c1 c2 r)
  define x y z where "x = byte_of c0 - 224" and "y = byte_of c1 - 128" and "z = byte_of c2 - 128"
  have xyz: "x < 16" "y < 64" "z < 64" "byte_of c0 = 224 + x" "byte_of c1 = 128 + y" "byte_of c2 = 128 + z"
    using three by (auto simp: x_def y_def z_def is_cont_def)
  have lim: "x = 0 \<Longrightarrow> 32 \<le> y" "x = 13 \<Longrightarrow> y < 32"
    using three(6) xyz by (auto simp: byte_in_def)
  let ?r = "x * 4096 + y * 64 + z"
  have r: "2048 \<le> ?r" "?r < 65536" "\<not> (55296 \<le> ?r \<and> ?r < 57344)"
    using xyz lim by (cases "x = 0"; cases "x = 13"; linarith)+
  have e: "?r = (x * 64 + y) * 64 + z" by simp
  have dm: "?r mod 64 = z"
    unfolding e using xyz by (simp only: mod_mult_self3 mod_less)
  have "?r div 64 = x * 64 + y" and "?r div 4096 = x"
    using xyz by simp_all
  note dm = dm this(2)
  from \<open>?r div 64 = x * 64 + y\<close> have "?r div 64 mod 64 = y" using xyz by simp
  note dm = this dm
  from r dm have "encode_rune ?r = [char_of (224 + x), char_of (128 + y), char_of (128 + z)]"
    by (auto simp: encode_rune_def)
  then show ?thesis using three(1,7) by (simp flip: x_def y_def z_def xyz(4-6))
next
  case (four c1 c2 c3 r)
  define x y z u where "x = byte_of c0 - 240" and "y = byte_of c1 - 128" and "z = byte_of c2 - 128"
    and "u = byte_of c3 - 128"
  have xyz: "x < 5" "y < 64" "z < 64" "u < 64" "byte_of c0 = 240 + x" "byte_of c1 = 128 + y"
      "byte_of c2 = 128 + z" "byte_of c3 = 128 + u"
    using four by (auto simp: x_def y_def z_def u_def is_cont_def)
  have lim: "x = 0 \<Longrightarrow> 16 \<le> y" "x = 4 \<Longrightarrow> y < 16"
    using four(7) xyz by (auto simp: byte_in_def)
  let ?r = "x * 262144 + y * 4096 + z * 64 + u"
  have r: "65536 \<le> ?r" "?r < 1114112"
    using xyz lim by (cases "x = 0"; cases "x = 4"; linarith)+
  have e: "?r = ((x * 64 + y) * 64 + z) * 64 + u" by simp
  have m: "?r mod 64 = u"
    unfolding e using xyz by (simp only: mod_mult_self3 mod_less)
  have "?r div 262144 = x" "?r div 4096 = x * 64 + y" "?r div 64 = (x * 64 + y) * 64 + z"
    using xyz by simp_all
  note d = this
  have "?r div 4096 mod 64 = y" "?r div 64 mod 64 = z"
    unfolding d(2,3) using xyz by (simp_all only: mod_mult_self3 mod_less)
  with r m d(1) have "encode_rune ?r = [char_of (240 + x), char_of (128 + y), char_of (128 + z), char_of (128 + u)]"
    by (auto simp: encode_rune_def)
  then show ?thesis using four(1,8) by (simp flip: x_def y_def z_def u_def xyz(5-8))
qed

text \<open>
  Reading a printed string gives it back with every invalid UTF-8 byte replaced; on valid UTF-8 the
  two are inverse.
\<close>

lemma json_str_u:
  "hex4 r = Some (u, r1) \<Longrightarrow> \<not> is_surrogate u \<Longrightarrow>
     json_str (backslash # CHR ''u'' # r) = cons_result (encode_rune u) (json_str r1)"
  by (simp add: json_str.simps(2) quote_char_def backslash_def unescape_u_def)

lemma json_str_simple:
  "simple_escape e = Some x \<Longrightarrow> e \<noteq> CHR ''u'' \<Longrightarrow>
     json_str (backslash # e # r) = cons_result [x] (json_str r)"
  by (simp add: json_str.simps(2) quote_char_def backslash_def)

lemma json_str_plain:
  "32 \<le> byte_of c \<Longrightarrow> byte_of c < 128 \<Longrightarrow> c \<noteq> quote_char \<Longrightarrow> c \<noteq> backslash \<Longrightarrow>
     json_str (c # r) = cons_result [c] (json_str r)"
  by (simp add: json_str.simps(2) decode_rune_ascii rune_error_def)

lemma char_eqI: "byte_of c = byte_of d \<Longrightarrow> c = d"
  by simp

lemma replacement_chars: "char_of (239::nat) = CHR 0xEF" "char_of (191::nat) = CHR 0xBF" "char_of (189::nat) = CHR 0xBD"
  by (rule char_eqI, simp)+

lemma json_str_escape_ascii:
  assumes "byte_of c < 128"
  shows "json_str (escape_ascii c @ r) = cons_result [c] (json_str r)"
proof -
  let ?b = "byte_of c"
  consider "c = quote_char \<or> c = backslash" | "?b = 8" | "?b = 12" | "?b = 10" | "?b = 13" | "?b = 9"
    | "c \<noteq> quote_char \<and> c \<noteq> backslash \<and> ?b \<notin> {8, 9, 10, 12, 13} \<and>
       (?b < 32 \<or> c = CHR ''<'' \<or> c = CHR ''>'' \<or> c = CHR ''&'')"
    | "c \<noteq> quote_char \<and> c \<noteq> backslash \<and> 32 \<le> ?b \<and> c \<noteq> CHR ''<'' \<and> c \<noteq> CHR ''>'' \<and> c \<noteq> CHR ''&''"
    by (auto simp: quote_char_def backslash_def) linarith
  then show ?thesis
  proof cases
    case 1
    then have "escape_ascii c = [backslash, c]" by (auto simp: escape_ascii_def)
    moreover have "simple_escape c = Some c" using 1 by (auto simp: simple_escape_def)
    moreover have "c \<noteq> CHR ''u''" using 1 by (auto simp: quote_char_def backslash_def)
    ultimately show ?thesis by (simp add: json_str_simple)
  next
    case 7
    then have e: "escape_ascii c =
        [backslash, CHR ''u'', CHR ''0'', CHR ''0'', hex_digit (?b div 16), hex_digit (?b mod 16)]"
      by (auto simp: escape_ascii_def Let_def)
    have "hex_value (CHR ''0'') = Some 0" by (simp add: hex_value_def)
    moreover have "?b div 16 * 16 + ?b mod 16 = ?b" by simp
    ultimately have "hex4 (CHR ''0'' # CHR ''0'' # hex_digit (?b div 16) # hex_digit (?b mod 16) # r) = Some (?b, r)"
      by simp
    moreover have "encode_rune ?b = [c]" using assms by (simp add: encode_rune_def)
    ultimately show ?thesis
      using assms by (simp add: e json_str_u is_surrogate_def)
  next
    case 8
    then have "escape_ascii c = [c]" by (auto simp: escape_ascii_def Let_def)
    with 8 assms show ?thesis by (simp add: json_str_plain)
  next
    case 2
    then have "c = CHR 0x08" by (intro char_eqI) simp
    then show ?thesis using json_str_simple [of "CHR ''b''" c r]
      by (simp add: escape_ascii_def quote_char_def backslash_def simple_escape_def)
  next
    case 3
    then have "c = CHR 0x0C" by (intro char_eqI) simp
    then show ?thesis using json_str_simple [of "CHR ''f''" c r]
      by (simp add: escape_ascii_def quote_char_def backslash_def simple_escape_def)
  next
    case 4
    then have "c = CHR 0x0A" by (intro char_eqI) simp
    then show ?thesis using json_str_simple [of "CHR ''n''" c r]
      by (simp add: escape_ascii_def quote_char_def backslash_def simple_escape_def)
  next
    case 5
    then have "c = CHR 0x0D" by (intro char_eqI) simp
    then show ?thesis using json_str_simple [of "CHR ''r''" c r]
      by (simp add: escape_ascii_def quote_char_def backslash_def simple_escape_def)
  next
    case 6
    then have "c = CHR 0x09" by (intro char_eqI) simp
    then show ?thesis using json_str_simple [of "CHR ''t''" c r]
      by (simp add: escape_ascii_def quote_char_def backslash_def simple_escape_def)
  qed
qed

lemma json_str_multi:
  assumes "128 \<le> byte_of c" and "decode_rune (c # cs) \<noteq> (rune_error, 1)"
  defines "w \<equiv> snd (decode_rune (c # cs))"
  shows "json_str (take w (c # cs) @ r) = cons_result (take w (c # cs)) (json_str r)"
proof -
  have w: "0 < w" "w \<le> length (c # cs)"
    using assms(1,2) unfolding w_def by (cases rule: decode_rune_cases; simp)+
  then obtain v where v: "w = Suc v" by (cases w) auto
  have loc: "decode_rune (take w (c # cs) @ r) = decode_rune (c # cs)"
    unfolding w_def by (rule decode_rune_local [OF assms(1,2)])
  have len: "length (take w (c # cs)) = w" using w by simp
  have "c \<noteq> quote_char" "c \<noteq> backslash" "\<not> byte_of c < 32"
    using assms(1) by (auto simp: quote_char_def backslash_def)
  then show ?thesis
    using loc len assms(2) unfolding v
    by (simp add: json_str.simps(2) w_def [symmetric, unfolded v])
qed

theorem json_str_escape: "json_str (json_escape s @ quote_char # r) = Some (utf8_sanitize s, r)"
proof (induction s rule: json_escape.induct)
  case 1
  show ?case by (simp add: utf8_sanitize.simps)
next
  case (2 c cs)
  let ?d = "decode_rune (c # cs)"
  consider "byte_of c < 128" | "128 \<le> byte_of c" "?d = (rune_error, 1)"
    | "128 \<le> byte_of c" "?d \<noteq> (rune_error, 1)"
    by linarith
  then show ?case
  proof cases
    case 1
    then show ?thesis
      using 2(1) by (simp add: json_escape.simps(2) json_str_escape_ascii utf8_sanitize.simps [of "c # cs"]
          decode_rune_ascii rune_error_def)
  next
    case 2
    then show ?thesis
      using "2.IH"(2)
      by (simp add: json_escape.simps(2) json_str_u [where u = 65533] hex_value_def is_surrogate_def
          encode_rune_def utf8_sanitize.simps [of "c # cs"] replacement_utf8_def replacement_chars)
  next
    case 3
    let ?w = "snd ?d"
    have s: "utf8_sanitize (c # cs) = take ?w (c # cs) @ utf8_sanitize (drop ?w (c # cs))"
      using 3 by (subst utf8_sanitize.simps) simp
    show ?thesis
    proof (cases "fst ?d = 8232 \<or> fst ?d = 8233")
      case True
      then have "hex4 ([CHR ''2'', CHR ''0'', CHR ''2'', hex_digit (fst ?d mod 16)] @ t) = Some (fst ?d, t)" for t
        by (auto simp: hex_value_def [of "CHR ''2''"] hex_value_def [of "CHR ''0''"])
      moreover have "\<not> is_surrogate (fst ?d)" using True by (auto simp: is_surrogate_def)
      ultimately have "json_str (json_escape (c # cs) @ quote_char # r)
          = cons_result (take ?w (c # cs)) (json_str (json_escape (drop ?w (c # cs)) @ quote_char # r))"
        using 3 True by (simp add: json_escape.simps(2) json_str_u encode_decode_rune)
      with "2.IH"(3) 3 True s show ?thesis by simp
    next
      case False
      then have "json_escape (c # cs) = take ?w (c # cs) @ json_escape (drop ?w (c # cs))"
        using 3 by (simp add: json_escape.simps(2))
      with "2.IH"(4) 3 False s show ?thesis
        using json_str_multi [OF 3, of "json_escape (drop ?w (c # cs)) @ quote_char # r"]
        by (simp only: append_assoc cons_result_Some simp_thms if_False)
    qed
  qed
qed

section \<open>Documents\<close>

definition json_space :: "char \<Rightarrow> bool" where
  "json_space c \<longleftrightarrow> c = CHR '' '' \<or> c = CHR 0x09 \<or> c = CHR 0x0A \<or> c = CHR 0x0D"

definition skip_ws :: "string \<Rightarrow> string" where
  "skip_ws s = dropWhile json_space s"

definition span_digits :: "string \<Rightarrow> string \<times> string" where
  "span_digits s = (takeWhile is_digit s, dropWhile is_digit s)"

text \<open>A number literal at the head of the input: the literal and what follows it.\<close>

definition num_int :: "string \<Rightarrow> (string \<times> string) option" where
  "num_int s = (case s of [] \<Rightarrow> None | c # cs \<Rightarrow>
     if c = CHR ''0'' then Some ([c], cs)
     else if is_digit c then (case span_digits s of (a, b) \<Rightarrow> Some (a, b)) else None)"

definition num_frac :: "string \<Rightarrow> (string \<times> string) option" where
  "num_frac s = (case s of [] \<Rightarrow> Some ([], []) | c # cs \<Rightarrow>
     if c = CHR ''.'' then
       (case span_digits cs of (a, b) \<Rightarrow> if a = [] then None else Some (c # a, b))
     else Some ([], s))"

definition num_exp :: "string \<Rightarrow> (string \<times> string) option" where
  "num_exp s = (case s of [] \<Rightarrow> Some ([], []) | c # cs \<Rightarrow>
     if c = CHR ''e'' \<or> c = CHR ''E'' then
       (let sg = takeWhile (\<lambda>x. x = CHR ''+'' \<or> x = CHR ''-'') (take 1 cs);
            r = drop (length sg) cs
        in case span_digits r of (a, b) \<Rightarrow> if a = [] then None else Some (c # sg @ a, b))
     else Some ([], s))"

definition json_number :: "string \<Rightarrow> (string \<times> string) option" where
  "json_number s =
     (let neg = takeWhile (\<lambda>x. x = CHR ''-'') (take 1 s) in
      case num_int (drop (length neg) s) of None \<Rightarrow> None | Some (a, s1) \<Rightarrow>
      (case num_frac s1 of None \<Rightarrow> None | Some (b, s2) \<Rightarrow>
      (case num_exp s2 of None \<Rightarrow> None | Some (c, s3) \<Rightarrow> Some (neg @ a @ b @ c, s3))))"

definition keyword :: "string \<Rightarrow> json \<Rightarrow> string \<Rightarrow> (json \<times> string) option" where
  "keyword w v s = (if HasPrefix s w then Some (v, drop (length w) s) else None)"

text \<open>
  Values, by fuel: each call spends one unit, and \<open>2 * length s + 2\<close> is enough since at most two
  calls are made per byte of input.  \<open>d\<close> is what is left of the decoder's nesting limit of 10000.
\<close>

fun json_value :: "nat \<Rightarrow> nat \<Rightarrow> string \<Rightarrow> (json \<times> string) option"
and json_elements :: "nat \<Rightarrow> nat \<Rightarrow> string \<Rightarrow> (json list \<times> string) option"
and json_members :: "nat \<Rightarrow> nat \<Rightarrow> string \<Rightarrow> ((string \<times> json) list \<times> string) option"
where
  "json_value 0 d s = None"
| "json_value (Suc n) d s =
     (case skip_ws s of
        [] \<Rightarrow> None
      | c # cs \<Rightarrow>
          if c = CHR ''{'' then
            (if d = 0 then None
             else case skip_ws cs of
                [] \<Rightarrow> None
              | x # r \<Rightarrow> if x = CHR ''}'' then Some (JObj [], r)
                         else map_option (\<lambda>(ms, t). (JObj ms, t)) (json_members n (d - 1) cs))
          else if c = CHR ''['' then
            (if d = 0 then None
             else case skip_ws cs of
                [] \<Rightarrow> None
              | x # r \<Rightarrow> if x = CHR '']'' then Some (JArr [], r)
                         else map_option (\<lambda>(es, t). (JArr es, t)) (json_elements n (d - 1) cs))
          else if c = quote_char then map_option (\<lambda>(a, t). (JStr a, t)) (json_str cs)
          else if c = CHR ''t'' then keyword ''true'' (JBool True) (c # cs)
          else if c = CHR ''f'' then keyword ''false'' (JBool False) (c # cs)
          else if c = CHR ''n'' then keyword ''null'' JNull (c # cs)
          else map_option (\<lambda>(a, t). (JNum a, t)) (json_number (c # cs)))"
| "json_elements 0 d s = None"
| "json_elements (Suc n) d s =
     (case json_value n d s of
        None \<Rightarrow> None
      | Some (v, s1) \<Rightarrow>
          (case skip_ws s1 of
             [] \<Rightarrow> None
           | c # cs \<Rightarrow>
               if c = CHR '','' then map_option (\<lambda>(vs, t). (v # vs, t)) (json_elements n d cs)
               else if c = CHR '']'' then Some ([v], cs) else None))"
| "json_members 0 d s = None"
| "json_members (Suc n) d s =
     (case skip_ws s of
        [] \<Rightarrow> None
      | q # s0 \<Rightarrow>
          if q \<noteq> quote_char then None
          else (case json_str s0 of
             None \<Rightarrow> None
           | Some (k, s1) \<Rightarrow>
               (case skip_ws s1 of
                  [] \<Rightarrow> None
                | c # s2 \<Rightarrow>
                    if c \<noteq> CHR '':'' then None
                    else (case json_value n d s2 of
                       None \<Rightarrow> None
                     | Some (v, s3) \<Rightarrow>
                         (case skip_ws s3 of
                            [] \<Rightarrow> None
                          | e # s4 \<Rightarrow>
                              if e = CHR '','' then
                                map_option (\<lambda>(ms, t). ((k, v) # ms, t)) (json_members n d s4)
                              else if e = CHR ''}'' then Some ([(k, v)], s4) else None)))))"

definition json_parse :: "string \<Rightarrow> json option" where
  "json_parse s =
     (case json_value (2 * length s + 2) 10000 s of
        Some (v, r) \<Rightarrow> if skip_ws r = [] then Some v else None
      | None \<Rightarrow> None)"

section \<open>Decoding into a struct\<close>

datatype field_kind = KString | KStringPtr | KBool | KInt64

text \<open>\<open>foldName\<close>, as far as ASCII field names can tell: letters, the long s and the Kelvin sign.\<close>

fun fold_name :: "string \<Rightarrow> string" where
  "fold_name [] = []"
| "fold_name [a] = [if 97 \<le> byte_of a \<and> byte_of a \<le> 122 then char_of (byte_of a - 32) else a]"
| "fold_name [a, b] =
     (if a = CHR 0xC5 \<and> b = CHR 0xBF then ''S''
      else (if 97 \<le> byte_of a \<and> byte_of a \<le> 122 then char_of (byte_of a - 32) else a) # fold_name [b])"
| "fold_name (a # b # c # r) =
     (if a = CHR 0xC5 \<and> b = CHR 0xBF then CHR ''S'' # fold_name (c # r)
      else if a = CHR 0xE2 \<and> b = CHR 0x84 \<and> c = CHR 0xAA then CHR ''K'' # fold_name r
      else (if 97 \<le> byte_of a \<and> byte_of a \<le> 122 then char_of (byte_of a - 32) else a)
             # fold_name (b # c # r))"

type_synonym schema = "(string \<times> field_kind) list"

definition field_of :: "schema \<Rightarrow> string \<Rightarrow> (string \<times> field_kind) option" where
  "field_of sch key =
     (case find (\<lambda>f. fst f = key) sch of
        Some f \<Rightarrow> Some f
      | None \<Rightarrow> find (\<lambda>f. fold_name (fst f) = fold_name key) sch)"

fun value_fits :: "field_kind \<Rightarrow> json \<Rightarrow> bool" where
  "value_fits k JNull = True"
| "value_fits KString (JStr s) = True"
| "value_fits KStringPtr (JStr s) = True"
| "value_fits KBool (JBool b) = True"
| "value_fits KInt64 (JNum n) = (ParseInt n \<noteq> None)"
| "value_fits k v = False"

text \<open>The values given for one field, in order, and the field of the first value that does not fit.\<close>

definition field_values :: "schema \<Rightarrow> string \<Rightarrow> (string \<times> json) list \<Rightarrow> json list" where
  "field_values sch f ms = map snd (filter (\<lambda>m. map_option fst (field_of sch (fst m)) = Some f) ms)"

definition misfit :: "schema \<Rightarrow> (string \<times> json) list \<Rightarrow> string option" where
  "misfit sch ms =
     (case find (\<lambda>m. case field_of sch (fst m) of None \<Rightarrow> False | Some f \<Rightarrow> \<not> value_fits (snd f) (snd m)) ms of
        None \<Rightarrow> None
      | Some m \<Rightarrow> map_option fst (field_of sch (fst m)))"

datatype json_error = SyntaxError | TypeError string

text \<open>The members to decode: \<open>null\<close> decodes into a struct without touching it.\<close>

definition unmarshal :: "schema \<Rightarrow> string \<Rightarrow> json_error + (string \<times> json) list" where
  "unmarshal sch s =
     (case json_parse s of
        None \<Rightarrow> Inl SyntaxError
      | Some JNull \<Rightarrow> Inr []
      | Some (JObj ms) \<Rightarrow> (case misfit sch ms of Some f \<Rightarrow> Inl (TypeError f) | None \<Rightarrow> Inr ms)
      | Some v \<Rightarrow> Inl (TypeError []))"

definition get_string :: "schema \<Rightarrow> string \<Rightarrow> (string \<times> json) list \<Rightarrow> string" where
  "get_string sch f ms = fold (\<lambda>v a. case v of JStr s \<Rightarrow> s | _ \<Rightarrow> a) (field_values sch f ms) []"

definition get_ptr :: "schema \<Rightarrow> string \<Rightarrow> (string \<times> json) list \<Rightarrow> string option" where
  "get_ptr sch f ms =
     fold (\<lambda>v a. case v of JStr s \<Rightarrow> Some s | JNull \<Rightarrow> None | _ \<Rightarrow> a) (field_values sch f ms) None"

definition get_bool :: "schema \<Rightarrow> string \<Rightarrow> (string \<times> json) list \<Rightarrow> bool" where
  "get_bool sch f ms = fold (\<lambda>v a. case v of JBool b \<Rightarrow> b | _ \<Rightarrow> a) (field_values sch f ms) False"

definition get_int64 :: "schema \<Rightarrow> string \<Rightarrow> (string \<times> json) list \<Rightarrow> int64" where
  "get_int64 sch f ms =
     fold (\<lambda>v a. case v of JNum n \<Rightarrow> (case ParseInt n of Some i \<Rightarrow> i | None \<Rightarrow> a) | _ \<Rightarrow> a)
       (field_values sch f ms) 0"

end
