(* ===== verification/Hashes.thy ===== *)
theory Hashes
  imports Encodings
begin

text \<open>
  The digests of Go's standard library the program calls, written out from their standards over
  32-bit words: SHA-256 (FIPS 180-4) and HMAC (RFC 2104) for request signatures, MD5 (RFC 1321)
  for ETags.  All are executable.
\<close>

unbundle bit_operations_syntax

type_synonym word32 = "32 word"

section \<open>Bytes and words\<close>

definition be_word :: "string \<Rightarrow> word32" where
  "be_word cs = foldl (\<lambda>a c. a * 256 + word_of_nat (byte_of c)) 0 cs"

definition le_word :: "string \<Rightarrow> word32" where
  "le_word cs = be_word (rev cs)"

fun le_bytes :: "nat \<Rightarrow> nat \<Rightarrow> string" where
  "le_bytes 0 n = []"
| "le_bytes (Suc k) n = char_of (n mod 256) # le_bytes k (n div 256)"

definition be_bytes :: "nat \<Rightarrow> nat \<Rightarrow> string" where
  "be_bytes k n = rev (le_bytes k n)"

lemma length_le_bytes [simp]: "length (le_bytes k n) = k"
  by (induction k n rule: le_bytes.induct) auto

lemma length_be_bytes [simp]: "length (be_bytes k n) = k"
  by (simp add: be_bytes_def)

function chunks :: "nat \<Rightarrow> 'a list \<Rightarrow> 'a list list" where
  "chunks n xs = (if xs = [] \<or> n = 0 then [] else take n xs # chunks n (drop n xs))"
  by pat_completeness auto
termination
  by (relation "measure (\<lambda>(n, xs). length xs)") auto

declare chunks.simps [simp del]

text \<open>Padding to whole 64-byte blocks: 0x80, zeros, and the bit length in eight bytes.\<close>

definition pad_message :: "(nat \<Rightarrow> nat \<Rightarrow> string) \<Rightarrow> string \<Rightarrow> string" where
  "pad_message len m =
     (let z = (119 - length m mod 64) mod 64
      in m @ [CHR 0x80] @ replicate z (CHR 0x00) @ len 8 (8 * length m))"

lemma pad_message_blocks: "64 dvd length (pad_message be_bytes m)"
proof -
  define l where "l = length m mod 64"
  have l: "l < 64" and len: "length m = 64 * (length m div 64) + l" by (simp_all add: l_def)
  have "64 dvd l + (9 + (119 - l) mod 64)"
  proof (cases "l < 56")
    case True
    then have "(119 - l) mod 64 = 55 - l"
      using mod_add_self2 [of "55 - l" 64] by simp
    with True show ?thesis by simp
  next
    case False
    with l show ?thesis by simp
  qed
  moreover have "length (pad_message be_bytes m) = 64 * (length m div 64) + (l + (9 + (119 - l) mod 64))"
    using len by (simp add: pad_message_def Let_def l_def)
  ultimately show ?thesis by simp
qed

section \<open>SHA-256\<close>

definition sha256_k :: "word32 list" where
  "sha256_k =
     [1116352408, 1899447441, 3049323471, 3921009573,
      961987163, 1508970993, 2453635748, 2870763221,
      3624381080, 310598401, 607225278, 1426881987,
      1925078388, 2162078206, 2614888103, 3248222580,
      3835390401, 4022224774, 264347078, 604807628,
      770255983, 1249150122, 1555081692, 1996064986,
      2554220882, 2821834349, 2952996808, 3210313671,
      3336571891, 3584528711, 113926993, 338241895,
      666307205, 773529912, 1294757372, 1396182291,
      1695183700, 1986661051, 2177026350, 2456956037,
      2730485921, 2820302411, 3259730800, 3345764771,
      3516065817, 3600352804, 4094571909, 275423344,
      430227734, 506948616, 659060556, 883997877,
      958139571, 1322822218, 1537002063, 1747873779,
      1955562222, 2024104815, 2227730452, 2361852424,
      2428436474, 2756734187, 3204031479, 3329325298]"

record sha_state =
  sa :: word32
  sb :: word32
  sc :: word32
  sd :: word32
  se :: word32
  sf :: word32
  sg :: word32
  sh :: word32

definition sha256_init :: sha_state where
  "sha256_init =
     \<lparr>sa = 1779033703, sb = 3144134277, sc = 1013904242, sd = 2773480762,
      se = 1359893119, sf = 2600822924, sg = 528734635, sh = 1541459225\<rparr>"

definition sha_sigma0 :: "word32 \<Rightarrow> word32" where
  "sha_sigma0 x = (word_rotr 7 x) XOR (word_rotr 18 x) XOR (drop_bit 3 x)"

definition sha_sigma1 :: "word32 \<Rightarrow> word32" where
  "sha_sigma1 x = (word_rotr 17 x) XOR (word_rotr 19 x) XOR (drop_bit 10 x)"

definition sha_Sigma0 :: "word32 \<Rightarrow> word32" where
  "sha_Sigma0 x = (word_rotr 2 x) XOR (word_rotr 13 x) XOR (word_rotr 22 x)"

definition sha_Sigma1 :: "word32 \<Rightarrow> word32" where
  "sha_Sigma1 x = (word_rotr 6 x) XOR (word_rotr 11 x) XOR (word_rotr 25 x)"

definition bit_choose :: "word32 \<Rightarrow> word32 \<Rightarrow> word32 \<Rightarrow> word32" where
  "bit_choose x y z = (x AND y) OR (NOT x AND z)"

definition bit_majority :: "word32 \<Rightarrow> word32 \<Rightarrow> word32 \<Rightarrow> word32" where
  "bit_majority x y z = (x AND y) XOR (x AND z) XOR (y AND z)"

text \<open>The message schedule: \<open>w\<close> is the window of the last sixteen words.\<close>

fun sha_schedule :: "nat \<Rightarrow> word32 list \<Rightarrow> word32 list" where
  "sha_schedule 0 w = []"
| "sha_schedule (Suc n) w =
     (let x = hd w;
          y = sha_sigma1 (w ! 14) + w ! 9 + sha_sigma0 (w ! 1) + x
      in x # sha_schedule n (tl w @ [y]))"

definition sha_round :: "word32 \<times> word32 \<Rightarrow> sha_state \<Rightarrow> sha_state" where
  "sha_round kw s =
     (let t1 = sh s + sha_Sigma1 (se s) + bit_choose (se s) (sf s) (sg s) + fst kw + snd kw;
          t2 = sha_Sigma0 (sa s) + bit_majority (sa s) (sb s) (sc s)
      in \<lparr>sa = t1 + t2, sb = sa s, sc = sb s, sd = sc s,
          se = sd s + t1, sf = se s, sg = sf s, sh = sg s\<rparr>)"

definition sha_compress :: "string \<Rightarrow> sha_state \<Rightarrow> sha_state" where
  "sha_compress block s =
     (let w = sha_schedule 64 (map be_word (chunks 4 block));
          r = fold sha_round (zip sha256_k w) s
      in \<lparr>sa = sa s + sa r, sb = sb s + sb r, sc = sc s + sc r, sd = sd s + sd r,
          se = se s + se r, sf = sf s + sf r, sg = sg s + sg r, sh = sh s + sh r\<rparr>)"

definition sha256 :: "string \<Rightarrow> string" where
  "sha256 m =
     (let s = fold sha_compress (chunks 64 (pad_message be_bytes m)) sha256_init
      in concat (map (\<lambda>x. be_bytes 4 (unat x)) [sa s, sb s, sc s, sd s, se s, sf s, sg s, sh s]))"

lemma length_sha256 [simp]: "length (sha256 m) = 32"
  by (simp add: sha256_def Let_def)

section \<open>HMAC\<close>

definition xor_byte :: "char \<Rightarrow> char \<Rightarrow> char" where
  "xor_byte a b = char_of (byte_of a XOR byte_of b)"

definition hmac_pad :: "nat \<Rightarrow> string \<Rightarrow> string" where
  "hmac_pad b key = map (xor_byte (char_of b)) (key @ replicate (64 - length key) (CHR 0x00))"

definition hmac_sha256 :: "string \<Rightarrow> string \<Rightarrow> string" where
  "hmac_sha256 key m =
     (let k = (if 64 < length key then sha256 key else key)
      in sha256 (hmac_pad 92 k @ sha256 (hmac_pad 54 k @ m)))"

lemma length_hmac_sha256 [simp]: "length (hmac_sha256 key m) = 32"
  by (simp add: hmac_sha256_def Let_def)

section \<open>MD5\<close>

definition md5_k :: "word32 list" where
  "md5_k =
     [3614090360, 3905402710, 606105819, 3250441966,
      4118548399, 1200080426, 2821735955, 4249261313,
      1770035416, 2336552879, 4294925233, 2304563134,
      1804603682, 4254626195, 2792965006, 1236535329,
      4129170786, 3225465664, 643717713, 3921069994,
      3593408605, 38016083, 3634488961, 3889429448,
      568446438, 3275163606, 4107603335, 1163531501,
      2850285829, 4243563512, 1735328473, 2368359562,
      4294588738, 2272392833, 1839030562, 4259657740,
      2763975236, 1272893353, 4139469664, 3200236656,
      681279174, 3936430074, 3572445317, 76029189,
      3654602809, 3873151461, 530742520, 3299628645,
      4096336452, 1126891415, 2878612391, 4237533241,
      1700485571, 2399980690, 4293915773, 2240044497,
      1873313359, 4264355552, 2734768916, 1309151649,
      4149444226, 3174756917, 718787259, 3951481745]"

definition md5_shifts :: "nat list" where
  "md5_shifts =
     concat (replicate 4 [7, 12, 17, 22]) @ concat (replicate 4 [5, 9, 14, 20])
     @ concat (replicate 4 [4, 11, 16, 23]) @ concat (replicate 4 [6, 10, 15, 21])"

definition md5_mix :: "nat \<Rightarrow> word32 \<Rightarrow> word32 \<Rightarrow> word32 \<Rightarrow> word32" where
  "md5_mix i b c d =
     (if i < 16 then (b AND c) OR (NOT b AND d)
      else if i < 32 then (d AND b) OR (NOT d AND c)
      else if i < 48 then b XOR c XOR d
      else c XOR (b OR NOT d))"

definition md5_index :: "nat \<Rightarrow> nat" where
  "md5_index i =
     (if i < 16 then i
      else if i < 32 then (5 * i + 1) mod 16
      else if i < 48 then (3 * i + 5) mod 16
      else (7 * i) mod 16)"

definition md5_round ::
  "word32 list \<Rightarrow> nat \<times> word32 \<times> nat \<Rightarrow> word32 \<times> word32 \<times> word32 \<times> word32
     \<Rightarrow> word32 \<times> word32 \<times> word32 \<times> word32" where
  "md5_round block step st =
     (case step of (i, k, s) \<Rightarrow> case st of (a, b, c, d) \<Rightarrow>
        (d, b + word_rotl s (a + md5_mix i b c d + k + block ! md5_index i), b, c))"

definition md5_compress ::
  "string \<Rightarrow> word32 \<times> word32 \<times> word32 \<times> word32 \<Rightarrow> word32 \<times> word32 \<times> word32 \<times> word32" where
  "md5_compress block st =
     (let w = map le_word (chunks 4 block);
          r = fold (md5_round w) (zip [0..<64] (zip md5_k md5_shifts)) st
      in case (st, r) of ((a, b, c, d), (a', b', c', d')) \<Rightarrow> (a + a', b + b', c + c', d + d'))"

definition md5 :: "string \<Rightarrow> string" where
  "md5 m =
     (case fold md5_compress (chunks 64 (pad_message le_bytes m))
             (1732584193, 4023233417, 2562383102, 271733878) of
        (a, b, c, d) \<Rightarrow> concat (map (\<lambda>x. le_bytes 4 (unat x)) [a, b, c, d]))"

lemma length_md5 [simp]: "length (md5 m) = 16"
  by (simp add: md5_def split: prod.split)

end
