(* ===== verification/Sidecar.thy ===== *)
theory Sidecar
  imports Json Hashes
begin

text \<open>
  The metadata sidecar of an object (\<open>objectMeta\<close> in \<open>storage.go\<close>) as the JSON text on disk: how it
  is printed and read, with the legacy form that is a bare Content-Type, and the sanitising of
  Content-Types.  The lemmas show that reading what was written gives the metadata back and that
  nothing but a JSON object with a true \<open>Public\<close> member is ever read as public.
\<close>

record objectMeta =
  mContentType :: "string option"
  mPublic :: bool
  mETag :: "string option"

definition no_meta :: objectMeta where
  "no_meta = \<lparr>mContentType = None, mPublic = False, mETag = None\<rparr>"

section \<open>Content types\<close>

definition sanitizeContentType :: "string \<Rightarrow> string option" where
  "sanitizeContentType ct =
     (if TrimSpace ct = [] \<or> 255 < RuneCountInString ct \<or> list_ex IsControl (runes ct) then None
      else Some ct)"

definition sanitizeContentTypePtr :: "string option \<Rightarrow> string option" where
  "sanitizeContentTypePtr ct = (case ct of None \<Rightarrow> None | Some s \<Rightarrow> sanitizeContentType s)"

lemma sanitizeContentType_Some:
  "sanitizeContentType ct = Some s \<Longrightarrow>
     s = ct \<and> TrimSpace s \<noteq> [] \<and> RuneCountInString s \<le> 255 \<and> (\<forall>r\<in>set (runes s). \<not> IsControl r)"
  by (auto simp: sanitizeContentType_def list_ex_iff split: if_splits)

lemma sanitize_idem [simp]:
  "sanitizeContentTypePtr (sanitizeContentTypePtr ct) = sanitizeContentTypePtr ct"
  "sanitizeContentTypePtr (sanitizeContentType s) = sanitizeContentType s"
  by (auto simp: sanitizeContentTypePtr_def sanitizeContentType_def split: option.splits)

text \<open>No byte of an accepted Content-Type is an ASCII control: it cannot end a header line.\<close>

lemma sanitized_no_control_byte:
  assumes "sanitizeContentType ct = Some s" and "c \<in> set s"
  shows "32 \<le> byte_of c \<and> byte_of c \<noteq> 127"
proof (rule ccontr)
  assume "\<not> ?thesis"
  then have small: "byte_of c < 32 \<or> byte_of c = 127" by linarith
  then have "byte_of c < 128" by linarith
  then have "byte_of c \<in> set (runes s)" using assms(2) by (rule ascii_byte_in_runes [rotated])
  moreover have "IsControl (byte_of c)" using small by (auto simp: IsControl_def)
  ultimately show False using sanitizeContentType_Some [OF assms(1)] by blast
qed

section \<open>Printing\<close>

definition json_bool :: "bool \<Rightarrow> string" where
  "json_bool b = (if b then ''true'' else ''false'')"

definition json_opt :: "string option \<Rightarrow> string" where
  "json_opt x = (case x of None \<Rightarrow> ''null'' | Some s \<Rightarrow> json_quote s)"

definition json_name :: "string \<Rightarrow> string" where
  "json_name k = quote_char # k @ [quote_char, CHR '':'']"

definition marshalMeta :: "objectMeta \<Rightarrow> string" where
  "marshalMeta m =
     ''{'' @ json_name ''ContentType'' @ json_opt (mContentType m)
     @ '','' @ json_name ''Public'' @ json_bool (mPublic m)
     @ (case mETag m of None \<Rightarrow> [] | Some e \<Rightarrow> '','' @ json_name ''ETag'' @ json_quote e)
     @ ''}''"

section \<open>Reading\<close>

definition meta_schema :: schema where
  "meta_schema = [(''ContentType'', KStringPtr), (''Public'', KBool), (''ETag'', KStringPtr)]"

definition meta_of :: "(string \<times> json) list \<Rightarrow> objectMeta" where
  "meta_of ms =
     \<lparr>mContentType = get_ptr meta_schema ''ContentType'' ms,
      mPublic = get_bool meta_schema ''Public'' ms,
      mETag = get_ptr meta_schema ''ETag'' ms\<rparr>"

definition parse_sidecar :: "string \<Rightarrow> objectMeta" where
  "parse_sidecar data =
     (let raw = TrimSpace data in
      case (if HasPrefix raw ''{'' then unmarshal meta_schema raw else Inl SyntaxError) of
        Inr ms \<Rightarrow> meta_of ms
      | Inl e \<Rightarrow> if raw = [] then no_meta else no_meta\<lparr>mContentType := Some raw\<rparr>)"

text \<open>
  A sidecar is read as public only if it is a JSON object that says so; in particular a legacy
  sidecar, a bare Content-Type, never is.
\<close>

lemma parse_sidecar_public:
  "mPublic (parse_sidecar data) \<Longrightarrow>
     \<exists>ms. HasPrefix (TrimSpace data) ''{'' \<and> json_parse (TrimSpace data) = Some (JObj ms) \<and>
        JBool True \<in> set (field_values meta_schema ''Public'' ms)"
proof -
  have last_true: "JBool True \<in> set vs"
    if "fold (\<lambda>v a. case v of JBool b \<Rightarrow> b | _ \<Rightarrow> a) vs a" and "\<not> a" for vs a
    using that
  proof (induction vs arbitrary: a)
    case (Cons v vs)
    show ?case
    proof (cases "v = JBool True")
      case False
      then have "\<not> (case v of JBool b \<Rightarrow> b | _ \<Rightarrow> a)" using Cons.prems(2) by (auto split: json.splits)
      then show ?thesis using Cons.IH [of "case v of JBool b \<Rightarrow> b | _ \<Rightarrow> a"] Cons.prems(1) by simp
    qed simp
  qed simp
  assume "mPublic (parse_sidecar data)"
  then obtain ms where pre: "HasPrefix (TrimSpace data) ''{''"
    and un: "unmarshal meta_schema (TrimSpace data) = Inr ms" and b: "get_bool meta_schema ''Public'' ms"
    by (auto simp: parse_sidecar_def Let_def meta_of_def no_meta_def split: sum.splits if_splits)
  have "JBool True \<in> set (field_values meta_schema ''Public'' ms)"
    by (rule last_true [of _ False]) (use b in \<open>simp_all add: get_bool_def\<close>)
  moreover from this have "ms \<noteq> []" by (auto simp: field_values_def)
  with un have "json_parse (TrimSpace data) = Some (JObj ms)"
    by (auto simp: unmarshal_def split: option.splits json.splits)
  ultimately show ?thesis using pre by blast
qed

lemma parse_sidecar_legacy:
  "\<not> HasPrefix (TrimSpace data) ''{'' \<Longrightarrow>
     parse_sidecar data = no_meta\<lparr>mContentType := (if TrimSpace data = [] then None else Some (TrimSpace data))\<rparr>"
  by (simp add: parse_sidecar_def Let_def no_meta_def)

section \<open>Round trip\<close>

lemma skip_ws_stop: "\<not> json_space c \<Longrightarrow> skip_ws (c # cs) = c # cs"
  by (simp add: skip_ws_def)

lemma not_space [simp]:
  "\<not> json_space quote_char" "\<not> json_space (CHR '':'')" "\<not> json_space (CHR '','')" "\<not> json_space (CHR ''{'')"
  "\<not> json_space (CHR ''}'')" "\<not> json_space (CHR ''t'')" "\<not> json_space (CHR ''f'')" "\<not> json_space (CHR ''n'')"
  by (simp_all add: json_space_def quote_char_def)

lemma members_more:
  "json_str s0 = Some (k, CHR '':'' # s2) \<Longrightarrow> json_value n d s2 = Some (v, CHR '','' # s4) \<Longrightarrow>
     json_members (Suc n) d (quote_char # s0) = map_option (\<lambda>(ms, t). ((k, v) # ms, t)) (json_members n d s4)"
  by (simp add: skip_ws_stop)

lemma members_last:
  "json_str s0 = Some (k, CHR '':'' # s2) \<Longrightarrow> json_value n d s2 = Some (v, CHR ''}'' # s4) \<Longrightarrow>
     json_members (Suc n) d (quote_char # s0) = Some ([(k, v)], s4)"
  by (simp add: skip_ws_stop)

lemma value_object:
  "json_members n d (quote_char # cs) = Some (ms, t) \<Longrightarrow>
     json_value (Suc n) (Suc d) (CHR ''{'' # quote_char # cs) = Some (JObj ms, t)"
  by (simp add: skip_ws_stop) (simp add: quote_char_def)

lemma value_string: "json_value (Suc n) d (quote_char # json_escape s @ quote_char # r) = Some (JStr (utf8_sanitize s), r)"
  by (simp add: skip_ws_stop json_str_escape) (simp add: quote_char_def)

lemma value_bool: "json_value (Suc n) d (json_bool b @ r) = Some (JBool b, r)"
  by (cases b) (simp_all add: json_bool_def skip_ws_stop keyword_def quote_char_def)

lemma value_opt:
  "json_value (Suc n) d (json_opt x @ r) =
     Some (case x of None \<Rightarrow> JNull | Some s \<Rightarrow> JStr (utf8_sanitize s), r)"
  by (cases x) (simp_all add: json_opt_def json_quote_def value_string del: json_value.simps,
      simp add: skip_ws_stop keyword_def quote_char_def)

lemma json_str_names:
  "json_str (''ContentType'' @ quote_char # r) = Some (''ContentType'', r)"
  "json_str (''Public'' @ quote_char # r) = Some (''Public'', r)"
  "json_str (''ETag'' @ quote_char # r) = Some (''ETag'', r)"
  by (simp_all add: json_str_plain quote_char_def backslash_def) (simp_all flip: quote_char_def)

text \<open>What a printed sidecar parses to, and the metadata read back from it.\<close>

definition meta_members :: "objectMeta \<Rightarrow> (string \<times> json) list" where
  "meta_members m =
     [(''ContentType'', case mContentType m of None \<Rightarrow> JNull | Some s \<Rightarrow> JStr (utf8_sanitize s)),
      (''Public'', JBool (mPublic m))]
     @ (case mETag m of None \<Rightarrow> [] | Some e \<Rightarrow> [(''ETag'', JStr (utf8_sanitize e))])"

lemma members_meta:
  "json_members (Suc (Suc (Suc (Suc n)))) d (tl (marshalMeta m)) = Some (meta_members m, [])"
proof (cases "mETag m")
  case None
  have "json_members (Suc (Suc (Suc n))) d (quote_char # ''Public'' @ quote_char # CHR '':'' # json_bool (mPublic m) @ ''}'')
      = Some ([(''Public'', JBool (mPublic m))], [])"
    by (rule members_last [OF json_str_names(2) value_bool])
  then show ?thesis
    using None members_more [OF json_str_names(1) value_opt]
    by (simp add: marshalMeta_def json_name_def meta_members_def del: json_members.simps)
next
  case (Some e)
  have "json_members (Suc (Suc n)) d (quote_char # ''ETag'' @ quote_char # CHR '':'' # json_quote e @ ''}'')
      = Some ([(''ETag'', JStr (utf8_sanitize e))], [])"
    using members_last [OF json_str_names(3) value_string] by (simp add: json_quote_def del: json_members.simps)
  then have "json_members (Suc (Suc (Suc n))) d (quote_char # ''Public'' @ quote_char # CHR '':'' # json_bool (mPublic m)
        @ CHR '','' # quote_char # ''ETag'' @ quote_char # CHR '':'' # json_quote e @ ''}'')
      = Some ([(''Public'', JBool (mPublic m)), (''ETag'', JStr (utf8_sanitize e))], [])"
    using members_more [OF json_str_names(2) value_bool] by (simp del: json_members.simps)
  then show ?thesis
    using Some members_more [OF json_str_names(1) value_opt]
    by (simp add: marshalMeta_def json_name_def meta_members_def del: json_members.simps)
qed

lemma marshalMeta_Cons: "marshalMeta m = CHR ''{'' # quote_char # tl (tl (marshalMeta m))"
  by (simp add: marshalMeta_def json_name_def)

lemma json_parse_marshal: "json_parse (marshalMeta m) = Some (JObj (meta_members m))"
proof -
  let ?n = "2 * length (marshalMeta m) + 2"
  have "5 \<le> ?n" by (simp add: marshalMeta_def json_name_def)
  then have "?n = Suc (Suc (Suc (Suc (Suc (?n - 5)))))" by linarith
  then obtain n where n: "?n = Suc (Suc (Suc (Suc (Suc n))))" by blast
  have "json_value ?n (Suc 9999) (marshalMeta m) = Some (JObj (meta_members m), [])"
    unfolding n
    by (subst marshalMeta_Cons, rule value_object)
      (use members_meta [of n 9999 m] in \<open>simp add: marshalMeta_def json_name_def del: json_members.simps\<close>)
  then show ?thesis by (simp add: json_parse_def skip_ws_def)
qed

lemma marshalMeta_trim: "TrimSpace (marshalMeta m) = marshalMeta m"
  by (rule TrimSpace_id) (simp_all add: marshalMeta_def solid_def)

lemma parse_marshal:
  "parse_sidecar (marshalMeta m) =
     \<lparr>mContentType = map_option utf8_sanitize (mContentType m), mPublic = mPublic m,
      mETag = map_option utf8_sanitize (mETag m)\<rparr>"
proof -
  have "unmarshal meta_schema (marshalMeta m) = Inr (meta_members m)"
    by (cases "mContentType m"; cases "mETag m")
      (simp_all add: unmarshal_def json_parse_marshal misfit_def meta_members_def field_of_def meta_schema_def)
  moreover have "HasPrefix (marshalMeta m) ''{''" by (simp add: marshalMeta_def)
  ultimately show ?thesis
    by (cases "mContentType m"; cases "mETag m")
      (simp_all add: parse_sidecar_def marshalMeta_trim meta_of_def meta_members_def field_of_def meta_schema_def
        field_values_def get_ptr_def get_bool_def)
qed

text \<open>Text of ASCII bytes, such as a hex ETag, is valid UTF-8 and survives unchanged.\<close>

lemma utf8_sanitize_ascii: "\<forall>c\<in>set s. byte_of c < 128 \<Longrightarrow> utf8_sanitize s = s"
proof (induction s)
  case (Cons c s)
  then show ?case
    by (subst utf8_sanitize.simps) (simp add: decode_rune_ascii rune_error_def)
qed (simp add: utf8_sanitize.simps)

definition etag_of :: "string \<Rightarrow> string" where
  "etag_of data = hex_encode (md5 data)"

lemma lower_hex_ascii: "is_lower_hex c \<Longrightarrow> byte_of c < 128"
  by (auto simp: is_lower_hex_def is_digit_def)

lemma sanitize_etag [simp]: "utf8_sanitize (etag_of d) = etag_of d"
  unfolding etag_of_def
  by (rule utf8_sanitize_ascii) (auto dest!: hex_encode_lower lower_hex_ascii)

end
