(* ===== verification/Storage.thy ===== *)
theory Storage
  imports Store Sidecar
begin

text \<open>
  \<open>storage.go\<close>: the object layer, one action per Go method, over the file system, the sidecars and
  the object index.  An upload body is the bytes the reader yields and the error it ends with, if
  any; the random parts of temporary file names are an argument.  A method is one action here, a
  reindex too; theory Concurrency takes a reindex apart into the calls between which requests run.
\<close>

record Storage =
  root :: string
  metaRoot :: string

record ObjectSummary =
  Key :: string
  Size :: int
  LastModified :: int
  ETag :: string
  ContentType :: string
  Public :: bool

record ListObjectsResponse =
  lObjects :: "ObjectSummary list"
  IsTruncated :: bool
  NextCursor :: "string option"
  KeyCount :: nat

record body =
  bData :: string
  bErr :: "go_error option"

definition MaxListLimit :: int where "MaxListLimit = 1000"

definition defaultContentType :: string where "defaultContentType = ''application/octet-stream''"

section \<open>Paths\<close>

text \<open>\<open>filepath.Abs\<close> with the working directory as an argument.\<close>

definition Abs :: "string \<Rightarrow> string \<Rightarrow> string" where
  "Abs cwd p = (if HasPrefix p [slash] then Clean p else Join [cwd, p])"

definition NewStorage :: "string \<Rightarrow> string \<Rightarrow> Storage action" where
  "NewStorage cwd rootArg =
     (let abs = Abs cwd rootArg in
      andThen (os_MkdirAll abs) (\<lambda>_. ret \<lparr>root = abs, metaRoot = Join [abs, ''.meta'']\<rparr>))"

definition bucketDir :: "Storage \<Rightarrow> string \<Rightarrow> string" where
  "bucketDir s bucket = Join [root s, bucket]"

definition metaPath :: "Storage \<Rightarrow> string \<Rightarrow> string \<Rightarrow> string" where
  "metaPath s bucket key = Join [metaRoot s, bucket, key]"

definition ResolveObjectPath :: "Storage \<Rightarrow> string \<Rightarrow> string \<Rightarrow> string go_result" where
  "ResolveObjectPath s bucket key =
     (if TrimSpace key = [] \<or> HasPrefix key [slash] \<or> Contains key dotdot \<or> CHR 0x00 \<in> set key
      then Inl (badRequest ''InvalidKey'' ''Object key is invalid'')
      else let dir = bucketDir s bucket; resolved = Join [dir, key] in
        if \<not> HasPrefix resolved (dir @ [slash])
        then Inl (badRequest ''InvalidKey'' ''Object key escapes bucket directory'')
        else Inr resolved)"

section \<open>Helpers over the file system\<close>

definition os_Close :: "unit action" where
  "os_Close = os_query (\<lambda>f. Inr ())"

text \<open>\<open>ctx.Err()\<close>: nil, or an error once the request is cancelled.\<close>

definition ctx_Err :: "unit action" where
  "ctx_Err = os_query (\<lambda>f. Inr ())"

definition removeIfExists :: "string \<Rightarrow> unit action" where
  "removeIfExists path = attempt (os_Remove path) (\<lambda>r. case r of
     Inl e \<Rightarrow> if is_not_exist e then ret () else fail e
   | Inr u \<Rightarrow> ret ())"

definition isFile :: "string \<Rightarrow> bool action" where
  "isFile path = attempt (os_Stat path) (\<lambda>r. ret (case r of Inr (File d t) \<Rightarrow> True | _ \<Rightarrow> False))"

definition isDir :: "string \<Rightarrow> bool action" where
  "isDir path = attempt (os_Stat path) (\<lambda>r. ret (case r of Inr Directory \<Rightarrow> True | _ \<Rightarrow> False))"

text \<open>
  The loop of \<open>removeEmptyParents\<close>, by fuel: each step shortens \<open>dir\<close>, so its length is enough.
\<close>

fun remove_parents :: "nat \<Rightarrow> string \<Rightarrow> string \<Rightarrow> unit action" where
  "remove_parents 0 dir boundary = ret ()"
| "remove_parents (Suc n) dir boundary =
     (if dir \<noteq> boundary \<and> HasPrefix dir (boundary @ [slash])
      then attempt (os_Remove dir) (\<lambda>r. case r of
             Inl e \<Rightarrow> ret ()
           | Inr u \<Rightarrow> remove_parents n (Dir_of dir) boundary)
      else ret ())"

definition removeEmptyParents :: "string \<Rightarrow> string \<Rightarrow> unit action" where
  "removeEmptyParents dir boundary = remove_parents (length dir) dir boundary"

text \<open>\<open>info.Size()\<close> and \<open>info.ModTime()\<close>; only files are asked for them.\<close>

fun node_size :: "fnode \<Rightarrow> int" where
  "node_size (File d t) = int (length d)"
| "node_size Directory = 0"

fun node_mtime :: "fnode \<Rightarrow> int" where
  "node_mtime (File d t) = t"
| "node_mtime Directory = 0"

text \<open>The object files under a directory with their sizes, in walking order.\<close>

definition object_files :: "fsys \<Rightarrow> fpath \<Rightarrow> fpath list" where
  "object_files f d = filter (\<lambda>p. \<not> HasPrefix (last p) ''.upload-'') (fs_files_below f d)"

definition walkObjectFiles :: "string \<Rightarrow> (string \<times> int) list action" where
  "walkObjectFiles dir = os_query (\<lambda>f.
     case fs_stat f (path_comps dir) of
       Inl e \<Rightarrow> Inl e
     | Inr n \<Rightarrow> Inr (map (\<lambda>p. (abs_path p, node_size (the (fs_node f p)))) (object_files f (path_comps dir))))"

definition hasObjectFiles :: "string \<Rightarrow> bool action" where
  "hasObjectFiles dir =
     andThen (isDir dir) (\<lambda>d. if \<not> d then ret False
       else attempt (walkObjectFiles dir) (\<lambda>r. ret (case r of Inr fs \<Rightarrow> fs \<noteq> [] | Inl e \<Rightarrow> False)))"

text \<open>\<open>filepath.ToSlash(filepath.Rel(dir, path))\<close> for a path below \<open>dir\<close>.\<close>

definition Rel :: "string \<Rightarrow> string \<Rightarrow> string" where
  "Rel dir path = join_with [slash] (drop (length (path_comps dir)) (path_comps path))"

definition computeETag :: "string \<Rightarrow> string action" where
  "computeETag path = andThen (os_ReadFile path) (\<lambda>d. ret (etag_of d))"

section \<open>Sidecars\<close>

definition writeMeta ::
  "Storage \<Rightarrow> string \<Rightarrow> string \<Rightarrow> string option \<Rightarrow> bool \<Rightarrow> string option \<Rightarrow> unit action" where
  "writeMeta s bucket key contentType public etag =
     (let path = metaPath s bucket key; ct = sanitizeContentTypePtr contentType in
      if ct = None \<and> \<not> public \<and> etag = None then removeIfExists path
      else andThen (os_MkdirAll (Dir_of path)) (\<lambda>_.
           os_WriteFile path (marshalMeta \<lparr>mContentType = ct, mPublic = public, mETag = etag\<rparr>)))"

definition readMeta :: "Storage \<Rightarrow> string \<Rightarrow> string \<Rightarrow> objectMeta action" where
  "readMeta s bucket key = attempt (os_ReadFile (metaPath s bucket key)) (\<lambda>r. ret (case r of
     Inl e \<Rightarrow> no_meta
   | Inr data \<Rightarrow> parse_sidecar data))"

definition indexFromDisk :: "Storage \<Rightarrow> string \<Rightarrow> string \<Rightarrow> string \<Rightarrow> ObjectRow action" where
  "indexFromDisk s bucket key path =
     andThen (os_Stat path) (\<lambda>info.
     andThen (readMeta s bucket key) (\<lambda>meta.
     andThen (case mETag meta of
         Some e \<Rightarrow> ret meta
       | None \<Rightarrow>
           andThen (computeETag path) (\<lambda>etag.
           andThen (writeMeta s bucket key (mContentType meta) (mPublic meta) (Some etag)) (\<lambda>_.
           ret (meta\<lparr>mETag := Some etag\<rparr>)))) (\<lambda>meta.
     ret \<lparr>oBucket = bucket, oKey = key, oSize = node_size info, oLastModified = node_mtime info,
          oETag = mETag meta, oContentType = mContentType meta, oPublic = mPublic meta\<rparr>)))"

section \<open>Operations\<close>

definition summaryOf :: "ObjectRow \<Rightarrow> ObjectSummary" where
  "summaryOf r =
     \<lparr>Key = oKey r, Size = oSize r, LastModified = oLastModified r,
      ETag = (case oETag r of Some e \<Rightarrow> e | None \<Rightarrow> []),
      ContentType = (case oContentType r of Some c \<Rightarrow> c | None \<Rightarrow> defaultContentType),
      Public = oPublic r\<rparr>"

definition CreateBucketDirectory :: "Storage \<Rightarrow> string \<Rightarrow> unit action" where
  "CreateBucketDirectory s bucket = os_MkdirAll (bucketDir s bucket)"

definition RemoveBucketDirectory :: "Storage \<Rightarrow> string \<Rightarrow> unit action" where
  "RemoveBucketDirectory s bucket = removeIfExists (bucketDir s bucket)"

text \<open>Opening the directory, then reading one name: the end of the directory is an empty answer.\<close>

definition IsBucketEmpty :: "Storage \<Rightarrow> string \<Rightarrow> bool action" where
  "IsBucketEmpty s bucket =
     attempt (os_Stat (bucketDir s bucket)) (\<lambda>r. case r of
       Inl e \<Rightarrow> if is_not_exist e then ret True else fail e
     | Inr n \<Rightarrow> andThen (os_Readdirnames1 (bucketDir s bucket)) (\<lambda>names. ret (names = [])))"

text \<open>\<open>io.Copy\<close> of the body into the temporary file.\<close>

definition copy_body :: "string \<Rightarrow> body \<Rightarrow> unit action" where
  "copy_body tmp b =
     andThen (os_WriteFile tmp (bData b)) (\<lambda>_. case bErr b of None \<Rightarrow> ret () | Some e \<Rightarrow> fail e)"

definition PutObject ::
  "Storage \<Rightarrow> string list \<Rightarrow> string \<Rightarrow> string \<Rightarrow> body \<Rightarrow> string \<Rightarrow> bool \<Rightarrow> string action" where
  "PutObject s rnds bucket key b contentType public =
     andThen (lift_result (ResolveObjectPath s bucket key)) (\<lambda>target.
     andThen (os_MkdirAll (Dir_of target)) (\<lambda>_.
     andThen (os_CreateTemp (Dir_of target) rnds) (\<lambda>tmp.
     deferred (os_Remove tmp) (
       andThen (copy_body tmp b) (\<lambda>_.
       andThen os_Close (\<lambda>_.
       andThen (os_Rename tmp target) (\<lambda>_.
       let etag = etag_of (bData b); ct = sanitizeContentType contentType in
       andThen (writeMeta s bucket key ct public (Some etag)) (\<lambda>_.
       andThen (os_Stat target) (\<lambda>info.
       andThen (UpsertObject
           \<lparr>oBucket = bucket, oKey = key, oSize = node_size info, oLastModified = node_mtime info,
            oETag = Some etag, oContentType = ct, oPublic = public\<rparr>) (\<lambda>_.
       ret etag))))))))))"

definition statIndexed :: "Storage \<Rightarrow> string \<Rightarrow> string \<Rightarrow> string \<Rightarrow> ObjectSummary action" where
  "statIndexed s bucket key path =
     andThen (GetObject bucket key) (\<lambda>found. case found of
       Some row \<Rightarrow>
         (case oETag row of
            Some e \<Rightarrow> ret (summaryOf row)
          | None \<Rightarrow>
              andThen (computeETag path) (\<lambda>etag.
              andThen (SetObjectETag bucket key etag) (\<lambda>_.
              ret (summaryOf (row\<lparr>oETag := Some etag\<rparr>)))))
     | None \<Rightarrow>
         andThen (indexFromDisk s bucket key path) (\<lambda>row.
         andThen (UpsertObject row) (\<lambda>_.
         ret (summaryOf row))))"

text \<open>The open file is the bytes it had when it was opened: no later call changes them.\<close>

definition OpenObject :: "Storage \<Rightarrow> string \<Rightarrow> string \<Rightarrow> (string \<times> ObjectSummary) action" where
  "OpenObject s bucket key =
     andThen (lift_result (ResolveObjectPath s bucket key)) (\<lambda>path.
     attempt (os_Stat path) (\<lambda>opened. case opened of
       Inl e \<Rightarrow> if is_not_exist e then fail (noSuchKey bucket key) else fail e
     | Inr node \<Rightarrow>
         attempt (os_query (\<lambda>f. Inr node)) (\<lambda>info. case info of
           Inr (File d t) \<Rightarrow> andThen (statIndexed s bucket key path) (\<lambda>summary. ret (d, summary))
         | _ \<Rightarrow> fail (noSuchKey bucket key))))"

definition SetPublic :: "Storage \<Rightarrow> string \<Rightarrow> string \<Rightarrow> bool \<Rightarrow> unit action" where
  "SetPublic s bucket key public =
     andThen (lift_result (ResolveObjectPath s bucket key)) (\<lambda>path.
     andThen (isFile path) (\<lambda>there.
     if \<not> there then fail (noSuchKey bucket key)
     else andThen (readMeta s bucket key) (\<lambda>meta.
       andThen (writeMeta s bucket key (mContentType meta) public (mETag meta)) (\<lambda>_.
       andThen (GetObject bucket key) (\<lambda>found.
       andThen (case found of Some row \<Rightarrow> ret row | None \<Rightarrow> indexFromDisk s bucket key path) (\<lambda>row.
       UpsertObject (row\<lparr>oPublic := public\<rparr>)))))))"

definition IsPublic :: "Storage \<Rightarrow> string \<Rightarrow> string \<Rightarrow> bool action" where
  "IsPublic s bucket key =
     (case ResolveObjectPath s bucket key of
        Inl e \<Rightarrow> ret False
      | Inr path \<Rightarrow>
          attempt (ObjectPublic bucket key) (\<lambda>r. case r of
            Inl e \<Rightarrow> ret False
          | Inr (Some public) \<Rightarrow> ret public
          | Inr None \<Rightarrow> andThen (readMeta s bucket key) (\<lambda>m. ret (mPublic m))))"

definition DeleteObject :: "Storage \<Rightarrow> string \<Rightarrow> string \<Rightarrow> unit action" where
  "DeleteObject s bucket key =
     andThen (lift_result (ResolveObjectPath s bucket key)) (\<lambda>path.
     let mp = metaPath s bucket key in
     andThen (removeIfExists path) (\<lambda>_.
     andThen (removeEmptyParents (Dir_of path) (bucketDir s bucket)) (\<lambda>_.
     andThen (removeIfExists mp) (\<lambda>_.
     andThen (removeEmptyParents (Dir_of mp) (Join [metaRoot s, bucket])) (\<lambda>_.
     DeleteObjectRow bucket key)))))"

text \<open>One visit of a reindex: the key of the file, and the row to write if it needs one.\<close>

definition reindex_file ::
  "Storage \<Rightarrow> string \<Rightarrow> bool \<Rightarrow> ObjectRow list \<Rightarrow> string \<times> int \<Rightarrow> (string \<times> ObjectRow option) action" where
  "reindex_file s bucket force existing file =
     andThen ctx_Err (\<lambda>_.
     let path = fst file; key = Rel (bucketDir s bucket) path; row = indexed_row existing key in
     if \<not> force \<and> (case row of Some r \<Rightarrow> oETag r \<noteq> None \<and> oSize r = snd file | None \<Rightarrow> False)
     then ret (key, None)
     else andThen (indexFromDisk s bucket key path) (\<lambda>fresh. ret (key, Some fresh)))"

definition ReindexBucket :: "Storage \<Rightarrow> string \<Rightarrow> bool \<Rightarrow> nat action" where
  "ReindexBucket s bucket force =
     (let dir = bucketDir s bucket in
      andThen (isDir dir) (\<lambda>d.
      if \<not> d then DeleteBucketObjects bucket
      else andThen (IndexedObjects bucket) (\<lambda>existing.
        andThen (andThen (walkObjectFiles dir) (for_each (reindex_file s bucket force existing))) (\<lambda>visited.
        let upserts = List.map_filter snd visited;
            deletes = filter (\<lambda>k. k \<notin> set (map fst visited)) (map oKey existing) in
        andThen (ApplyIndexChanges bucket upserts deletes) (\<lambda>_.
        ret (length upserts + length deletes))))))"

definition ListObjects :: "Storage \<Rightarrow> string \<Rightarrow> string \<Rightarrow> int \<Rightarrow> string \<Rightarrow> ListObjectsResponse action" where
  "ListObjects s bucket pfx limit cursor =
     (let lim = nat (min (max limit 1) MaxListLimit) in
      andThen (if cursor = [] \<and> pfx = []
               then andThen (HasObjects bucket) (\<lambda>has.
                 if has then ret ()
                 else andThen (hasObjectFiles (bucketDir s bucket)) (\<lambda>files.
                   if files then andThen (ReindexBucket s bucket False) (\<lambda>_. ret ()) else ret ()))
               else ret ()) (\<lambda>_.
      andThen (ListObjectRows bucket pfx cursor (lim + 1)) (\<lambda>rows.
      let page = (if lim < length rows then take lim rows else rows) in
      ret \<lparr>lObjects = map summaryOf page, IsTruncated = lim < length rows,
           NextCursor = (if lim < length rows then Some (oKey (rows ! (lim - 1))) else None),
           KeyCount = length page\<rparr>)))"

end
