(* ===== verification/StorageSafety.thy ===== *)
theory StorageSafety
  imports Storage
begin

text \<open>
  Where the storage layer may write.  A storage root and a bucket name that is one proper path
  component determine the bucket's two trees, \<open>root/bucket\<close> and \<open>root/.meta/bucket\<close>; every accepted
  key resolves strictly below the first, and its sidecar lies strictly below the second.  Then:
  every operation keeps the file system and the tables well-formed, whatever faults occur.
\<close>

section \<open>Roots and keys\<close>

definition storage_at :: "fpath \<Rightarrow> Storage \<Rightarrow> bool" where
  "storage_at rs s \<longleftrightarrow> proper rs \<and> root s = abs_path rs \<and> metaRoot s = abs_path (rs @ [''.meta''])"

definition bucket_ok :: "string \<Rightarrow> bool" where
  "bucket_ok b \<longleftrightarrow> proper_comp b \<and> b \<noteq> ''.meta''"

definition key_ok :: "string \<Rightarrow> bool" where
  "key_ok k \<longleftrightarrow> TrimSpace k \<noteq> [] \<and> \<not> HasPrefix k [slash] \<and> \<not> Contains k dotdot \<and>
     CHR 0x00 \<notin> set k \<and> key_comps k \<noteq> []"

text \<open>What a key must satisfy for its paths to be well-formed, whether or not a client may use it.\<close>

definition key_clean :: "string \<Rightarrow> bool" where
  "key_clean k \<longleftrightarrow> dotdot \<notin> set (split_on slash k) \<and> key_comps k \<noteq> []"

lemma key_ok_clean [simp]: "key_ok k \<Longrightarrow> key_clean k"
  by (simp add: key_ok_def key_clean_def no_dotdot_comp)

abbreviation obj_path :: "fpath \<Rightarrow> string \<Rightarrow> string \<Rightarrow> fpath" where
  "obj_path rs b k \<equiv> rs @ b # key_comps k"

abbreviation side_path :: "fpath \<Rightarrow> string \<Rightarrow> string \<Rightarrow> fpath" where
  "side_path rs b k \<equiv> rs @ ''.meta'' # b # key_comps k"

lemma proper_meta [simp]: "proper_comp ''.meta''"
  by (simp add: proper_comp_def dotdot_def slash_def)

lemma bucket_okD: "bucket_ok b \<Longrightarrow> proper_comp b" "bucket_ok b \<Longrightarrow> b \<noteq> ''.meta''"
  by (simp_all add: bucket_ok_def)

lemma storage_atD:
  "storage_at rs s \<Longrightarrow> proper rs" "storage_at rs s \<Longrightarrow> root s = abs_path rs"
  "storage_at rs s \<Longrightarrow> metaRoot s = abs_path (rs @ [''.meta''])"
  by (simp_all add: storage_at_def)

lemma key_ok_proper: "key_clean k \<Longrightarrow> proper (key_comps k)"
  by (simp add: key_clean_def proper_key_comps)

lemma key_ok_comps: "key_clean k \<Longrightarrow> key_comps k \<noteq> []"
  by (simp add: key_clean_def)

lemma bucketDir_at [path_simps]:
  "storage_at rs s \<Longrightarrow> bucket_ok b \<Longrightarrow> bucketDir s b = abs_path (rs @ [b])"
  by (simp add: bucketDir_def storage_at_def bucket_ok_def Join_name)

lemma metaDir_at [path_simps]:
  "storage_at rs s \<Longrightarrow> bucket_ok b \<Longrightarrow> Join [metaRoot s, b] = abs_path (rs @ [''.meta'', b])"
  using Join_name [of "rs @ [''.meta'']" b] by (simp add: storage_at_def bucket_ok_def)

lemma metaPath_ok [path_simps]:
  "storage_at rs s \<Longrightarrow> bucket_ok b \<Longrightarrow> key_clean k \<Longrightarrow> metaPath s b k = abs_path (side_path rs b k)"
  using Join_three [of "rs @ [''.meta'']" b k]
  by (simp add: metaPath_def storage_at_def bucket_ok_def key_clean_def)

lemma resolve_iff:
  assumes "storage_at rs s" and "bucket_ok b"
  shows "ResolveObjectPath s b k = Inr p \<longleftrightarrow> key_ok k \<and> p = abs_path (obj_path rs b k)"
proof (cases "TrimSpace k = [] \<or> HasPrefix k [slash] \<or> Contains k dotdot \<or> CHR 0x00 \<in> set k")
  case True
  then show ?thesis by (auto simp: ResolveObjectPath_def key_ok_def)
next
  case False
  then have nodot: "dotdot \<notin> set (split_on slash k)" by (simp add: no_dotdot_comp)
  have pr: "proper (rs @ [b])" using assms by (simp add: storage_at_def bucket_ok_def)
  have "Join [bucketDir s b, k] = abs_path ((rs @ [b]) @ key_comps k)"
    unfolding bucketDir_at [OF assms] by (rule Join_below [OF pr _ nodot]) simp
  moreover have "HasPrefix (abs_path ((rs @ [b]) @ key_comps k)) (abs_path (rs @ [b]) @ [slash])
      \<longleftrightarrow> key_comps k \<noteq> []"
    by (rule abs_path_prefix_iff [OF pr]) (simp_all add: proper_key_comps nodot)
  ultimately show ?thesis
    using False by (auto simp: ResolveObjectPath_def key_ok_def bucketDir_at [OF assms] Let_def)
qed

lemma resolve_Inl:
  "ResolveObjectPath s b k = Inl e \<Longrightarrow> \<exists>msg. e = badRequest ''InvalidKey'' msg"
  by (auto simp: ResolveObjectPath_def Let_def split: if_splits)

lemma resolve_ok:
  "storage_at rs s \<Longrightarrow> bucket_ok b \<Longrightarrow> key_ok k \<Longrightarrow> ResolveObjectPath s b k = Inr (abs_path (obj_path rs b k))"
  by (simp add: resolve_iff)

lemma obj_path_proper:
  "storage_at rs s \<Longrightarrow> bucket_ok b \<Longrightarrow> key_clean k \<Longrightarrow> proper (obj_path rs b k) \<and> proper (side_path rs b k)"
  by (simp add: storage_at_def bucket_ok_def key_ok_proper)

lemma proper_butlast: "proper cs \<Longrightarrow> proper (butlast cs)"
  unfolding proper_def by (blast dest: in_set_butlastD)

lemma Dir_of_butlast: "proper p \<Longrightarrow> p \<noteq> [] \<Longrightarrow> Dir_of (abs_path p) = abs_path (butlast p)"
  using Dir_of_abs by (cases p rule: rev_cases) auto

text \<open>The two trees do not meet, and neither do those of two buckets.\<close>

lemma trees_disjoint:
  assumes "bucket_ok b" and "bucket_ok b'"
  shows "\<not> (prefix (rs @ [b]) p \<and> prefix (rs @ [''.meta'', b']) p)"
    and "b \<noteq> b' \<Longrightarrow> \<not> (prefix (rs @ [b]) p \<and> prefix (rs @ [b']) p)"
  using assms by (auto simp: prefix_def bucket_ok_def)

lemma obj_side_neq: "bucket_ok b \<Longrightarrow> rs @ b # ds \<noteq> rs @ ''.meta'' # ds'"
  by (simp add: bucket_ok_def)

section \<open>Cleaning gives absolute paths\<close>

lemma clean_step_proper:
  "slash \<notin> set c \<Longrightarrow> proper out \<Longrightarrow> proper (clean_step True c out)"
  by (cases out rule: rev_cases) (auto simp: clean_step_def proper_comp_def)

lemma fold_clean_step_proper:
  "\<forall>c\<in>set cs. slash \<notin> set c \<Longrightarrow> proper out \<Longrightarrow> proper (fold (clean_step True) cs out)"
  by (induction cs arbitrary: out) (auto intro: clean_step_proper)

lemma Clean_rooted: "\<exists>cs. proper cs \<and> Clean (slash # p) = abs_path cs"
  using fold_clean_step_proper [of "split_on slash (slash # p)" "[]"]
  by (auto simp: Clean_def abs_path_def Let_def dest: split_on_sep_free simp del: split_on.simps)

lemma NewStorage_at:
  assumes "HasPrefix cwd [slash]" and "NewStorage cwd r w = (Inr s, w')"
  shows "\<exists>rs. storage_at rs s"
proof -
  have "\<exists>cs. proper cs \<and> Abs cwd r = abs_path cs"
    using assms(1) Clean_rooted by (fastforce simp: Abs_def Join_def prefix_def)
  then obtain cs where cs: "proper cs" "Abs cwd r = abs_path cs" by blast
  then have "s = \<lparr>root = abs_path cs, metaRoot = abs_path (cs @ [''.meta''])\<rparr>"
    using assms(2) Join_name [OF cs(1), of "''.meta''"]
    by (auto simp: NewStorage_def Let_def andThen_def ret_def split: prod.splits sum.splits)
  with cs(1) show ?thesis by (auto simp: storage_at_def)
qed

section \<open>Well-formedness is kept\<close>

lemma keeps_in_tx_now [keeps_intros]:
  "keeps (\<lambda>w. P (wnow w)) body \<Longrightarrow> keeps (\<lambda>w. P (wnow w)) (in_tx body)"
proof -
  assume b: "keeps (\<lambda>w. P (wnow w)) body"
  have "keeps (\<lambda>w. P (wnow w)) (andThen (db_query (\<lambda>d. ())) (\<lambda>_. andThen body (\<lambda>_. db_query (\<lambda>d. ()))))"
    by (intro keeps_intros b)
  then show ?thesis
    unfolding keeps_def in_tx_def by (auto split: prod.splits sum.splits)
qed

lemma keeps_case_bool [keeps_intros]:
  "keeps P m \<Longrightarrow> keeps P m' \<Longrightarrow> keeps P (case b of True \<Rightarrow> m | False \<Rightarrow> m')"
  by (cases b) auto

lemma keeps_case_node [keeps_intros]:
  "(\<And>d t. keeps P (f d t)) \<Longrightarrow> keeps P m \<Longrightarrow> keeps P (case n of File d t \<Rightarrow> f d t | Directory \<Rightarrow> m)"
  by (cases n) auto

lemma keeps_remove_parents [keeps_intros]:
  "(\<And>p. keeps P (os_Remove p)) \<Longrightarrow> keeps P (remove_parents n d b)"
proof (induction n arbitrary: d)
  case (Suc n)
  then show ?case by (auto intro!: keeps_intros)
qed (simp add: keeps_ret)

lemmas storage_helpers =
  os_Close_def ctx_Err_def removeIfExists_def isFile_def isDir_def removeEmptyParents_def
  walkObjectFiles_def hasObjectFiles_def computeETag_def writeMeta_def readMeta_def indexFromDisk_def
  CreateBucketDirectory_def RemoveBucketDirectory_def IsBucketEmpty_def copy_body_def
  statIndexed_def reindex_file_def

lemmas storage_operations =
  PutObject_def OpenObject_def SetPublic_def IsPublic_def DeleteObject_def ReindexBucket_def ListObjects_def

lemma keeps_fs_storage [keeps_intros]:
  "keeps fs_ok (PutObject s rnds b k body ct pub)" "keeps fs_ok (OpenObject s b k)"
  "keeps fs_ok (SetPublic s b k pub)" "keeps fs_ok (IsPublic s b k)" "keeps fs_ok (DeleteObject s b k)"
  "keeps fs_ok (ReindexBucket s b force)" "keeps fs_ok (ListObjects s b pfx l cursor)"
  "keeps fs_ok (CreateBucketDirectory s b)" "keeps fs_ok (RemoveBucketDirectory s b)"
  "keeps fs_ok (IsBucketEmpty s b)"
  unfolding storage_operations storage_helpers Let_def
  by (intro keeps_intros allI impI)+

lemma keeps_db_storage [keeps_intros]:
  "keeps db_ok (PutObject s rnds b k body ct pub)" "keeps db_ok (OpenObject s b k)"
  "keeps db_ok (SetPublic s b k pub)" "keeps db_ok (IsPublic s b k)" "keeps db_ok (DeleteObject s b k)"
  "keeps db_ok (ReindexBucket s b force)" "keeps db_ok (ListObjects s b pfx l cursor)"
  unfolding storage_operations storage_helpers Let_def
  by (intro keeps_intros allI impI)+

end
