(* ===== verification/StorageOps.thy ===== *)
theory StorageOps
  imports StorageSafety
begin

text \<open>
  What the operations of the storage layer do in a run without faults: sidecars, \<open>IsPublic\<close>,
  \<open>OpenObject\<close>, \<open>SetPublic\<close>, \<open>PutObject\<close> and \<open>DeleteObject\<close>, each with its error branches.
\<close>

section \<open>Calls on absolute paths\<close>

lemma os_Stat_quiet [world_simps]:
  "wfaults w = [] \<Longrightarrow> os_Stat p w = (case fs_stat (wfs w) (path_comps p) of Inl e \<Rightarrow> Inl (OsErr e) | Inr n \<Rightarrow> Inr n, w)"
  by (simp add: os_Stat_def os_query_quiet)

lemma os_ReadFile_quiet [world_simps]:
  "wfaults w = [] \<Longrightarrow> os_ReadFile p w = (case fs_read (wfs w) (path_comps p) of Inl e \<Rightarrow> Inl (OsErr e) | Inr d \<Rightarrow> Inr d, w)"
  by (simp add: os_ReadFile_def os_query_quiet)

lemma os_Remove_quiet [world_simps]:
  "wfaults w = [] \<Longrightarrow> os_Remove p w =
     (case fs_remove (wfs w) (path_comps p) of Inl e \<Rightarrow> (Inl (OsErr e), w) | Inr g \<Rightarrow> (Inr (), w\<lparr>wfs := g\<rparr>))"
  by (simp add: os_Remove_def os_update_quiet)

lemma os_MkdirAll_quiet [world_simps]:
  "wfaults w = [] \<Longrightarrow> os_MkdirAll p w =
     (case fs_mkdir_all (wfs w) (path_comps p) of Inl e \<Rightarrow> (Inl (OsErr e), w) | Inr g \<Rightarrow> (Inr (), w\<lparr>wfs := g\<rparr>))"
  by (simp add: os_MkdirAll_def os_update_quiet)

lemma os_Rename_quiet [world_simps]:
  "wfaults w = [] \<Longrightarrow> os_Rename p q w =
     (case fs_rename (wfs w) (path_comps p) (path_comps q) of
        Inl e \<Rightarrow> (Inl (OsErr e), w) | Inr g \<Rightarrow> (Inr (), w\<lparr>wfs := g\<rparr>))"
  by (simp add: os_Rename_def os_update_quiet)

lemma andThen_assoc: "andThen (andThen m k) l = andThen m (\<lambda>x. andThen (k x) l)"
  by (rule ext) (auto simp: andThen_def split: prod.splits sum.splits)

lemma andThen_Inr: "m w = (Inr x, w') \<Longrightarrow> andThen m k w = k x w'"
  by (simp add: andThen_def)

lemma andThen_Inl: "m w = (Inl e, w') \<Longrightarrow> andThen m k w = (Inl e, w')"
  by (simp add: andThen_def)

lemma helpers_quiet [world_simps]:
  assumes "wfaults w = []"
  shows "os_Close w = (Inr (), w)" and "ctx_Err w = (Inr (), w)"
    and "isFile p w = (Inr (is_File (fs_node (wfs w) (path_comps p))), w)"
    and "isDir p w = (Inr (fs_node (wfs w) (path_comps p) = Some Directory), w)"
    and "computeETag p w = (case fs_read (wfs w) (path_comps p) of Inl e \<Rightarrow> Inl (OsErr e) | Inr d \<Rightarrow> Inr (etag_of d), w)"
  using assms
  by (auto simp: os_Close_def ctx_Err_def isFile_def isDir_def computeETag_def action_defs os_query_quiet
      os_Stat_quiet os_ReadFile_quiet fs_stat_def split: option.splits fnode.splits sum.splits)

section \<open>Sidecars\<close>

definition meta_on_disk :: "fsys \<Rightarrow> fpath \<Rightarrow> objectMeta" where
  "meta_on_disk f p = (case fs_node f p of Some (File d t) \<Rightarrow> parse_sidecar d | _ \<Rightarrow> no_meta)"

lemma readMeta_quiet [world_simps]:
  "storage_at rs s \<Longrightarrow> bucket_ok b \<Longrightarrow> key_clean k \<Longrightarrow> wfaults w = [] \<Longrightarrow>
     readMeta s b k w = (Inr (meta_on_disk (wfs w) (side_path rs b k)), w)"
  using obj_path_proper [of rs s b k]
  by (simp add: readMeta_def action_defs os_ReadFile_quiet metaPath_ok meta_on_disk_def
      fs_read_def fs_stat_def split: option.splits fnode.splits)

text \<open>
  A path is writable when nothing but directories lies above it and it is not a directory itself.
  After a write there, the system differs from before in that file and the directories above it.
\<close>

definition writable :: "fsys \<Rightarrow> fpath \<Rightarrow> bool" where
  "writable f p \<longleftrightarrow> p \<noteq> [] \<and> \<not> file_above f (butlast p) \<and> fs_node f p \<noteq> Some Directory"

definition written :: "fsys \<Rightarrow> fpath \<Rightarrow> string \<Rightarrow> int \<Rightarrow> fsys \<Rightarrow> bool" where
  "written f p d t g \<longleftrightarrow> fs_wf g \<and>
     (\<forall>q. fs_node g q = (if q = p then Some (File d t) else if prefix q (butlast p) then Some Directory else fs_node f q))"

lemma writtenD:
  "written f p d t g \<Longrightarrow> fs_wf g"
  "written f p d t g \<Longrightarrow> fs_node g p = Some (File d t)"
  "written f p d t g \<Longrightarrow> q \<noteq> p \<Longrightarrow> \<not> prefix q (butlast p) \<Longrightarrow> fs_node g q = fs_node f q"
  by (auto simp: written_def)

lemma not_prefix_butlast: "p \<noteq> [] \<Longrightarrow> \<not> prefix p (butlast p)"
  by (cases p rule: rev_cases) (auto dest: prefix_length_le)

lemma mkdir_then:
  assumes "fs_wf f" and "writable f p"
  obtains g where "fs_mkdir_all f (butlast p) = Inr g" and "fs_wf g"
    and "\<And>q. fs_node g q = (if prefix q (butlast p) then Some Directory else fs_node f q)"
    and "fs_node g (butlast p) = Some Directory" and "fs_node g p \<noteq> Some Directory"
proof -
  obtain g where g: "fs_mkdir_all f (butlast p) = Inr g"
    using assms(2) fs_mkdir_all_ok by (auto simp: writable_def)
  have n: "fs_node g q = (if prefix q (butlast p) then Some Directory else fs_node f q)" for q
    by (rule fs_mkdir_all_node [OF g])
  have "\<not> prefix p (butlast p)" using assms(2) by (simp add: writable_def not_prefix_butlast)
  with n assms(2) have "fs_node g p \<noteq> Some Directory" by (simp add: writable_def)
  with that [OF g fs_mkdir_all_wf [OF assms(1) g] n] show thesis by (simp add: n)
qed

lemma writeMeta_ok:
  assumes st: "storage_at rs s" "bucket_ok b" "key_clean k" and q: "wfaults w = []" "fs_ok w"
    and wr: "writable (wfs w) (side_path rs b k)"
  obtains g where
    "writeMeta s b k ct pub (Some e) w = (Inr (), w\<lparr>wfs := g\<rparr>)"
    "written (wfs w) (side_path rs b k)
       (marshalMeta \<lparr>mContentType = sanitizeContentTypePtr ct, mPublic = pub, mETag = Some e\<rparr>) (wnow w) g"
proof -
  define p where "p = side_path rs b k"
  define d where "d = marshalMeta \<lparr>mContentType = sanitizeContentTypePtr ct, mPublic = pub, mETag = Some e\<rparr>"
  have p: "proper p" "p \<noteq> []" using st obj_path_proper by (auto simp: p_def)
  have mp: "metaPath s b k = abs_path p" using st by (simp add: metaPath_ok p_def)
  obtain h where h: "fs_mkdir_all (wfs w) (butlast p) = Inr h" "fs_wf h"
      "\<And>q. fs_node h q = (if prefix q (butlast p) then Some Directory else fs_node (wfs w) q)"
      "fs_node h (butlast p) = Some Directory" "fs_node h p \<noteq> Some Directory"
    using mkdir_then [OF q(2)] wr unfolding p_def by blast
  obtain g where g: "fs_write h p d (wnow w) = Inr g"
    using h(4,5) p(2) by (simp add: fs_write_Inr)
  show thesis
  proof (rule that)
    show "writeMeta s b k ct pub (Some e) w = (Inr (), w\<lparr>wfs := g\<rparr>)"
      using q(1) h(1) g p
      by (simp add: writeMeta_def Let_def mp Dir_of_butlast proper_butlast andThen_def os_MkdirAll_quiet
          os_WriteFile_quiet flip: d_def)
    show "written (wfs w) (side_path rs b k) (marshalMeta \<lparr>mContentType = sanitizeContentTypePtr ct,
        mPublic = pub, mETag = Some e\<rparr>) (wnow w) g"
      unfolding written_def p_def [symmetric] d_def [symmetric]
      using fs_write_wf [OF h(2) g] fs_write_node [OF g] h(3) by simp
  qed
qed

section \<open>Uploading\<close>

lemma proper_temp_name: "slash \<notin> set r \<Longrightarrow> proper_comp (temp_name r)"
  by (auto simp: proper_comp_def temp_name_def dotdot_def slash_def)

lemma temp_path:
  assumes "proper dir" and "dir \<noteq> []" and "slash \<notin> set r"
  shows "abs_path dir @ slash # temp_name r = abs_path (dir @ [temp_name r])"
    and "path_comps (abs_path dir @ slash # temp_name r) = dir @ [temp_name r]"
proof -
  show e: "abs_path dir @ slash # temp_name r = abs_path (dir @ [temp_name r])"
    using assms(2) by (simp add: abs_path_append)
  show "path_comps (abs_path dir @ slash # temp_name r) = dir @ [temp_name r]"
    unfolding e using assms by (simp add: proper_temp_name)
qed

lemma create_temp_ok:
  assumes dir: "fs_node f dir = Some Directory" "proper dir" "dir \<noteq> []"
    and "\<forall>r\<in>set rnds. slash \<notin> set r"
    and "\<exists>r\<in>set rnds. fs_node f (dir @ [temp_name r]) = None"
  obtains r where "r \<in> set rnds" "fs_node f (dir @ [temp_name r]) = None"
    "create_temp f t (abs_path dir) rnds =
       Inr (abs_path (dir @ [temp_name r]), AList.update (dir @ [temp_name r]) (File [] t) f)"
proof -
  have "\<exists>r\<in>set rnds. fs_node f (dir @ [temp_name r]) = None \<and>
      create_temp f t (abs_path dir) rnds =
        Inr (abs_path (dir @ [temp_name r]), AList.update (dir @ [temp_name r]) (File [] t) f)"
    using assms(4,5)
  proof (induction rnds)
    case (Cons r rs)
    note tp = temp_path [OF dir(2,3), of r]
    have pe: "parent_err f (dir @ [temp_name r]) = None" using dir(1) by (simp add: parent_err_None)
    show ?case
    proof (cases "fs_node f (dir @ [temp_name r])")
      case None
      with pe tp Cons.prems(1) show ?thesis by (auto simp: fs_create_excl_def Let_def)
    next
      case (Some n)
      with pe tp Cons show ?thesis by (auto simp: fs_create_excl_def Let_def)
    qed
  qed simp
  with that show thesis by blast
qed

definition put_ready :: "fpath \<Rightarrow> fsys \<Rightarrow> string \<Rightarrow> string \<Rightarrow> string list \<Rightarrow> bool" where
  "put_ready rs f b k rnds \<longleftrightarrow> writable f (obj_path rs b k) \<and> writable f (side_path rs b k) \<and>
     (\<forall>r\<in>set rnds. slash \<notin> set r \<and> temp_name r \<noteq> last (key_comps k)) \<and>
     (\<exists>r\<in>set rnds. fs_node f (butlast (obj_path rs b k) @ [temp_name r]) = None)"

text \<open>The steps up to the rename leave exactly the new file, and no temporary one.\<close>

lemma upload_ok:
  assumes q: "wfaults w = []" "fs_ok w" and p: "proper p" "butlast p \<noteq> []" "writable (wfs w) p"
    and r: "\<forall>r\<in>set rnds. slash \<notin> set r \<and> temp_name r \<noteq> last p"
      "\<exists>r\<in>set rnds. fs_node (wfs w) (butlast p @ [temp_name r]) = None"
  obtains r h h2 g where
    "os_MkdirAll (abs_path (butlast p)) w = (Inr (), w\<lparr>wfs := h\<rparr>)"
    "os_CreateTemp (abs_path (butlast p)) rnds (w\<lparr>wfs := h\<rparr>) =
       (Inr (abs_path (butlast p @ [temp_name r])), w\<lparr>wfs := AList.update (butlast p @ [temp_name r]) (File [] (wnow w)) h\<rparr>)"
    "copy_body (abs_path (butlast p @ [temp_name r])) \<lparr>bData = d, bErr = None\<rparr>
       (w\<lparr>wfs := AList.update (butlast p @ [temp_name r]) (File [] (wnow w)) h\<rparr>) = (Inr (), w\<lparr>wfs := h2\<rparr>)"
    "os_Rename (abs_path (butlast p @ [temp_name r])) (abs_path p) (w\<lparr>wfs := h2\<rparr>) = (Inr (), w\<lparr>wfs := g\<rparr>)"
    "written (wfs w) p d (wnow w) g" "fs_node g (butlast p @ [temp_name r]) = None" "slash \<notin> set r"
proof -
  obtain h where h: "fs_mkdir_all (wfs w) (butlast p) = Inr h" "fs_wf h"
      "\<And>q. fs_node h q = (if prefix q (butlast p) then Some Directory else fs_node (wfs w) q)"
      "fs_node h (butlast p) = Some Directory" "fs_node h p \<noteq> Some Directory"
    using mkdir_then [OF q(2) p(3)] by blast
  have pb: "proper (butlast p)" using p(1) by (rule proper_butlast)
  have deep: "\<not> prefix (butlast p @ [x]) (butlast p)" for x by (auto dest: prefix_length_le)
  obtain r where rr: "r \<in> set rnds" "fs_node h (butlast p @ [temp_name r]) = None" and ct:
      "create_temp h (wnow w) (abs_path (butlast p)) rnds =
         Inr (abs_path (butlast p @ [temp_name r]), AList.update (butlast p @ [temp_name r]) (File [] (wnow w)) h)"
    by (rule create_temp_ok [OF h(4) pb p(2), of rnds]) (use r h(3) deep in auto)
  define tp where "tp = butlast p @ [temp_name r]"
  have sl: "slash \<notin> set r" using r(1) rr(1) by blast
  have ne: "tp \<noteq> p" unfolding tp_def using r(1) rr(1) by (metis last_snoc)
  have tp: "proper tp" "tp \<noteq> []" "butlast tp = butlast p" "fs_node h tp = None" "p \<noteq> []"
    using pb sl proper_temp_name rr(2) p(2) by (auto simp: tp_def)
  note tp = tp(1-3) ne tp(4,5)
  define h1 where "h1 = AList.update tp (File [] (wnow w)) h"
  define h2 where "h2 = AList.update tp (File d (wnow w)) h1"
  define g where "g = AList.update p (File d (wnow w)) (AList.delete tp h2)"
  have w1: "fs_write h1 tp d (wnow w) = Inr h2"
    using tp h(4) by (auto simp: fs_write_Inr h1_def h2_def fs_simps)
  have w2: "fs_rename h2 tp p = Inr g"
    using tp h(4,5) by (auto simp: fs_rename_Inr h1_def h2_def g_def fs_simps)
  have wf: "fs_wf g"
    using h(2,4) tp by (intro fs_rename_wf [OF fs_write_wf [OF _ w1] w2]) (auto simp: h1_def intro!: fs_wf_update)
  have node: "fs_node g x = (if x = p then Some (File d (wnow w)) else if x = tp then None else fs_node h x)" for x
    using tp by (simp add: g_def h2_def h1_def fs_simps)
  show thesis
  proof (rule that [of h r h2 g])
    show "written (wfs w) p d (wnow w) g"
      unfolding written_def
      using wf node h(3) tp(5) deep [of "temp_name r"] tp_def by (metis (full_types))
    show "copy_body (abs_path (butlast p @ [temp_name r])) \<lparr>bData = d, bErr = None\<rparr>
       (w\<lparr>wfs := AList.update (butlast p @ [temp_name r]) (File [] (wnow w)) h\<rparr>) = (Inr (), w\<lparr>wfs := h2\<rparr>)"
      using q(1) w1 tp(1) by (simp add: copy_body_def action_defs os_WriteFile_quiet flip: tp_def h1_def)
    show "os_Rename (abs_path (butlast p @ [temp_name r])) (abs_path p) (w\<lparr>wfs := h2\<rparr>) = (Inr (), w\<lparr>wfs := g\<rparr>)"
      using q(1) w2 tp(1) p(1) by (simp add: os_Rename_quiet flip: tp_def)
  qed (use q h(1) pb ct sl node [of tp] tp(4) in \<open>simp_all add: os_MkdirAll_quiet os_CreateTemp_quiet tp_def\<close>)
qed

lemma written_writable:
  assumes "written f p d t g" and "writable f q" and "\<not> prefix p q" and "\<not> prefix q (butlast p)"
  shows "writable g q"
proof -
  have "\<not> file_above g (butlast q)"
  proof
    assume "file_above g (butlast q)"
    then obtain x where x: "prefix x (butlast q)" "is_File (fs_node g x)"
      by (auto simp: file_above_def list_ex_iff)
    then have "prefix x q" by (meson prefix_order.trans prefixeq_butlast)
    then have "x \<noteq> p" using assms(3) by blast
    with x(2) assms(1) have "is_File (fs_node f x)" by (auto simp: written_def split: if_splits)
    with x(1) assms(2) show False by (auto simp: writable_def file_above_def list_ex_iff)
  qed
  moreover have "fs_node g q \<noteq> Some Directory"
    using assms by (auto simp: written_def writable_def)
  ultimately show ?thesis using assms(2) by (simp add: writable_def)
qed

text \<open>A successful upload: the bytes, the sidecar, the row, and nothing else but directories.\<close>

definition uploaded_row :: "string \<Rightarrow> string \<Rightarrow> string \<Rightarrow> string \<Rightarrow> bool \<Rightarrow> int \<Rightarrow> ObjectRow" where
  "uploaded_row b k d ct pub t =
     \<lparr>oBucket = b, oKey = k, oSize = int (length d), oLastModified = t,
      oETag = Some (etag_of d), oContentType = sanitizeContentType ct, oPublic = pub\<rparr>"

definition uploaded_meta :: "string \<Rightarrow> string \<Rightarrow> bool \<Rightarrow> string" where
  "uploaded_meta d ct pub =
     marshalMeta \<lparr>mContentType = sanitizeContentType ct, mPublic = pub, mETag = Some (etag_of d)\<rparr>"

lemma PutObject_ok:
  assumes st: "storage_at rs s" "bucket_ok b" "key_ok k" and q: "wfaults w = []" "fs_ok w"
    and ready: "put_ready rs (wfs w) b k rnds"
  obtains g h where
    "PutObject s rnds b k \<lparr>bData = d, bErr = None\<rparr> ct pub w =
       (Inr (etag_of d), w\<lparr>wfs := h, wdb := ups_object (uploaded_row b k d ct pub (wnow w)) (wdb w)\<rparr>)"
    "written (wfs w) (obj_path rs b k) d (wnow w) g"
    "written g (side_path rs b k) (uploaded_meta d ct pub) (wnow w) h"
proof -
  note sc = st(1,2) key_ok_clean [OF st(3)]
  define p m where "p = obj_path rs b k" and "m = side_path rs b k"
  have kc: "key_comps k \<noteq> []" using sc(3) by (rule key_ok_comps)
  have p: "proper p" "butlast p \<noteq> []" "p \<noteq> []" "last p = last (key_comps k)"
    using obj_path_proper [OF sc] kc by (auto simp: p_def butlast_append)
  have sep: "\<not> prefix p m" "\<not> prefix m (butlast p)" "p \<noteq> m" "\<not> prefix p (butlast m)"
    using st(2) kc by (auto simp: p_def m_def bucket_ok_def butlast_append)
  obtain r h0 h2 g where up:
    "os_MkdirAll (abs_path (butlast p)) w = (Inr (), w\<lparr>wfs := h0\<rparr>)"
    "os_CreateTemp (abs_path (butlast p)) rnds (w\<lparr>wfs := h0\<rparr>) =
       (Inr (abs_path (butlast p @ [temp_name r])), w\<lparr>wfs := AList.update (butlast p @ [temp_name r]) (File [] (wnow w)) h0\<rparr>)"
    "copy_body (abs_path (butlast p @ [temp_name r])) \<lparr>bData = d, bErr = None\<rparr>
       (w\<lparr>wfs := AList.update (butlast p @ [temp_name r]) (File [] (wnow w)) h0\<rparr>) = (Inr (), w\<lparr>wfs := h2\<rparr>)"
    "os_Rename (abs_path (butlast p @ [temp_name r])) (abs_path p) (w\<lparr>wfs := h2\<rparr>) = (Inr (), w\<lparr>wfs := g\<rparr>)"
    "written (wfs w) p d (wnow w) g" "fs_node g (butlast p @ [temp_name r]) = None" "slash \<notin> set r"
    by (rule upload_ok [OF q p(1,2), of rnds])
      (use ready p in \<open>auto simp: put_ready_def simp flip: p_def\<close>)
  have "writable g m"
    using written_writable [OF up(5) _ sep(1,2)] ready by (simp add: put_ready_def m_def)
  then obtain h where h:
    "writeMeta s b k (sanitizeContentType ct) pub (Some (etag_of d)) (w\<lparr>wfs := g\<rparr>) = (Inr (), w\<lparr>wfs := h\<rparr>)"
    "written g m (uploaded_meta d ct pub) (wnow w) h"
    using writeMeta_ok [OF sc, of "w\<lparr>wfs := g\<rparr>" "sanitizeContentType ct" pub "etag_of d"] q(1) writtenD(1) [OF up(5)]
    by (auto simp: m_def uploaded_meta_def)
  have hp: "fs_node h p = Some (File d (wnow w))"
    using writtenD(3) [OF h(2) sep(3,4)] writtenD(2) [OF up(5)] by simp
  have tm: "fs_node h (butlast p @ [temp_name r]) = None"
  proof -
    have "butlast p @ [temp_name r] \<noteq> m \<and> \<not> prefix (butlast p @ [temp_name r]) (butlast m)"
      using st(2) kc by (auto simp: p_def m_def bucket_ok_def butlast_append)
    then show ?thesis using writtenD(3) [OF h(2)] up(6) by metis
  qed
  have gone: "snd (os_Remove (abs_path (butlast p @ [temp_name r])) (w\<lparr>wfs := h, wdb := x\<rparr>)) = w\<lparr>wfs := h, wdb := x\<rparr>" for x
    using q(1) p(1) up(7) tm
    by (simp add: os_Remove_quiet proper_butlast proper_temp_name fs_remove_def fs_stat_def)
  have "PutObject s rnds b k \<lparr>bData = d, bErr = None\<rparr> ct pub w =
       (Inr (etag_of d), w\<lparr>wfs := h, wdb := ups_object (uploaded_row b k d ct pub (wnow w)) (wdb w)\<rparr>)"
  proof -
    have res: "lift_result (ResolveObjectPath s b k) w = (Inr (abs_path p), w)"
      by (simp add: resolve_ok [OF st] lift_result_def p_def)
    show ?thesis
      using q(1) hp p(1,3) h(1) up(1-4) gone
      by (simp add: PutObject_def Let_def andThen_def res Dir_of_butlast deferred_def helpers_quiet os_Stat_quiet store_quiet
          ret_def uploaded_row_def)
  qed
  then show thesis using that up(5) h(2) unfolding p_def m_def by blast
qed

section \<open>Visibility and reading\<close>

text \<open>The row a file and its sidecar stand for.\<close>

definition disk_row :: "string \<Rightarrow> string \<Rightarrow> string \<Rightarrow> int \<Rightarrow> objectMeta \<Rightarrow> ObjectRow" where
  "disk_row b k d t m =
     \<lparr>oBucket = b, oKey = k, oSize = int (length d), oLastModified = t,
      oETag = Some (case mETag m of Some e \<Rightarrow> e | None \<Rightarrow> etag_of d),
      oContentType = mContentType m, oPublic = mPublic m\<rparr>"

lemma IsPublic_quiet [world_simps]:
  assumes "storage_at rs s" "bucket_ok b" "wfaults w = []"
  shows "IsPublic s b k w =
     (Inr (key_ok k \<and> (case sel_object b k (wdb w) of
         Some r \<Rightarrow> oPublic r | None \<Rightarrow> mPublic (meta_on_disk (wfs w) (side_path rs b k)))), w)"
proof (cases "key_ok k")
  case True
  then show ?thesis
    using assms
    by (auto simp: IsPublic_def resolve_ok attempt_def ret_def andThen_def store_quiet readMeta_quiet split: option.splits)
next
  case False
  then have "\<exists>e. ResolveObjectPath s b k = Inl e"
    using resolve_iff [OF assms(1,2), of k] by (metis sumE)
  with False show ?thesis by (auto simp: IsPublic_def ret_def)
qed

lemma indexFromDisk_cached:
  assumes "storage_at rs s" "bucket_ok b" "key_clean k" "wfaults w = []"
    and "fs_node (wfs w) (obj_path rs b k) = Some (File d t)"
    and "mETag (meta_on_disk (wfs w) (side_path rs b k)) = Some e"
  shows "indexFromDisk s b k (abs_path (obj_path rs b k)) w =
     (Inr (disk_row b k d t (meta_on_disk (wfs w) (side_path rs b k))), w)"
  using assms obj_path_proper [OF assms(1-3)]
  by (simp add: indexFromDisk_def andThen_def os_Stat_quiet readMeta_quiet ret_def disk_row_def)

lemma indexFromDisk_hash:
  assumes st: "storage_at rs s" "bucket_ok b" "key_clean k" and q: "wfaults w = []" "fs_ok w"
    and there: "fs_node (wfs w) (obj_path rs b k) = Some (File d t)"
    and none: "mETag (meta_on_disk (wfs w) (side_path rs b k)) = None"
    and wr: "writable (wfs w) (side_path rs b k)"
  obtains g where
    "indexFromDisk s b k (abs_path (obj_path rs b k)) w =
       (Inr (disk_row b k d t (meta_on_disk (wfs w) (side_path rs b k))), w\<lparr>wfs := g\<rparr>)"
    "written (wfs w) (side_path rs b k)
       (marshalMeta \<lparr>mContentType = sanitizeContentTypePtr (mContentType (meta_on_disk (wfs w) (side_path rs b k))),
          mPublic = mPublic (meta_on_disk (wfs w) (side_path rs b k)), mETag = Some (etag_of d)\<rparr>) (wnow w) g"
proof -
  let ?m = "meta_on_disk (wfs w) (side_path rs b k)"
  obtain g where g: "writeMeta s b k (mContentType ?m) (mPublic ?m) (Some (etag_of d)) w = (Inr (), w\<lparr>wfs := g\<rparr>)"
    "written (wfs w) (side_path rs b k) (marshalMeta \<lparr>mContentType = sanitizeContentTypePtr (mContentType ?m),
          mPublic = mPublic ?m, mETag = Some (etag_of d)\<rparr>) (wnow w) g"
    by (rule writeMeta_ok [OF st q wr])
  have "indexFromDisk s b k (abs_path (obj_path rs b k)) w = (Inr (disk_row b k d t ?m), w\<lparr>wfs := g\<rparr>)"
    using st q there none g(1) obj_path_proper [OF st]
    by (simp add: indexFromDisk_def andThen_def os_Stat_quiet readMeta_quiet helpers_quiet fs_read_def ret_def disk_row_def)
  with g(2) that show thesis by blast
qed

text \<open>
  Reading an object whose row has an ETag: the bytes on disk and the row's metadata, and no change
  of state.  A missing object and a directory are \<open>NoSuchKey\<close>.
\<close>

lemma OpenObject_indexed:
  assumes "storage_at rs s" "bucket_ok b" "key_ok k" "wfaults w = []"
    and "fs_node (wfs w) (obj_path rs b k) = Some (File d t)"
    and "sel_object b k (wdb w) = Some r" and "oETag r = Some e"
  shows "OpenObject s b k w = (Inr (d, summaryOf r), w)"
  using assms obj_path_proper [OF assms(1,2) key_ok_clean [OF assms(3)]]
  by (simp add: OpenObject_def andThen_def lift_result_def resolve_ok attempt_def os_Stat_quiet os_query_quiet
      statIndexed_def store_quiet ret_def)

lemma OpenObject_no_etag:
  assumes "storage_at rs s" "bucket_ok b" "key_ok k" "wfaults w = []"
    and "fs_node (wfs w) (obj_path rs b k) = Some (File d t)"
    and "sel_object b k (wdb w) = Some r" and "oETag r = None"
  shows "OpenObject s b k w =
     (Inr (d, summaryOf (r\<lparr>oETag := Some (etag_of d)\<rparr>)), w\<lparr>wdb := upd_etag b k (etag_of d) (wdb w)\<rparr>)"
  using assms obj_path_proper [OF assms(1,2) key_ok_clean [OF assms(3)]]
  by (simp add: OpenObject_def andThen_def lift_result_def resolve_ok attempt_def os_Stat_quiet os_query_quiet
      statIndexed_def store_quiet ret_def helpers_quiet fs_read_def)

lemma OpenObject_missing:
  assumes "storage_at rs s" "bucket_ok b" "key_ok k" "wfaults w = []"
    and "fs_node (wfs w) (obj_path rs b k) = Some Directory \<or>
      fs_node (wfs w) (obj_path rs b k) = None \<and> \<not> file_above (wfs w) (obj_path rs b k)"
  shows "OpenObject s b k w = (Inl (noSuchKey b k), w)"
  using assms(5) assms(1-4) obj_path_proper [OF assms(1,2) key_ok_clean [OF assms(3)]]
  by (auto simp: OpenObject_def andThen_def lift_result_def resolve_ok attempt_def os_Stat_quiet os_query_quiet
      fail_def fs_stat_def is_not_exist_def)

lemma OpenObject_below_file:
  assumes "storage_at rs s" "bucket_ok b" "key_ok k" "wfaults w = []"
    and "fs_node (wfs w) (obj_path rs b k) = None" "file_above (wfs w) (obj_path rs b k)"
  shows "OpenObject s b k w = (Inl (OsErr ENOTDIR), w)"
  using assms obj_path_proper [OF assms(1,2) key_ok_clean [OF assms(3)]]
  by (simp add: OpenObject_def andThen_def lift_result_def resolve_ok attempt_def os_Stat_quiet
      fail_def fs_stat_def is_not_exist_def)

lemma resolve_error:
  "storage_at rs s \<Longrightarrow> bucket_ok b \<Longrightarrow> \<not> key_ok k \<Longrightarrow>
     \<exists>msg. ResolveObjectPath s b k = Inl (badRequest ''InvalidKey'' msg)"
  by (metis resolve_Inl resolve_iff sumE)

text \<open>An invalid key is refused by every operation before anything is read or written.\<close>

lemma invalid_key:
  assumes "storage_at rs s" "bucket_ok b" "\<not> key_ok k"
  shows "\<exists>msg. OpenObject s b k w = (Inl (badRequest ''InvalidKey'' msg), w) \<and>
    PutObject s rnds b k body ct pub w = (Inl (badRequest ''InvalidKey'' msg), w) \<and>
    SetPublic s b k pub w = (Inl (badRequest ''InvalidKey'' msg), w) \<and>
    DeleteObject s b k w = (Inl (badRequest ''InvalidKey'' msg), w)"
  using resolve_error [OF assms]
  by (auto simp: OpenObject_def PutObject_def SetPublic_def DeleteObject_def andThen_def lift_result_def)

end
