(* ===== verification/StorageFaults.thy ===== *)
theory StorageFaults
  imports StorageOps
begin

text \<open>
  The storage layer under faults: whatever call fails, and wherever a write stops short, an upload
  replaces the bytes of its object completely or not at all, a deletion removes them or not, and no
  other object changes.  When an operation reports success, the index row it wrote is in place.
\<close>

section \<open>The files of a system\<close>

definition file_at :: "fsys \<Rightarrow> fpath \<Rightarrow> (string \<times> int) option" where
  "file_at f p = (case fs_node f p of Some (File d t) \<Rightarrow> Some (d, t) | _ \<Rightarrow> None)"

lemma file_at_Some: "file_at f p = Some (d, t) \<longleftrightarrow> fs_node f p = Some (File d t)"
  by (auto simp: file_at_def split: option.splits fnode.splits)

lemma file_at_None: "file_at f p = None \<longleftrightarrow> \<not> is_File (fs_node f p)"
  by (auto simp: file_at_def is_File_iff split: option.splits fnode.splits)

lemma file_at_node: "fs_node g q = fs_node f q \<Longrightarrow> file_at g q = file_at f q"
  by (simp add: file_at_def)

lemma file_at_mkdir: "fs_mkdir_all f p = Inr g \<Longrightarrow> file_at g q = file_at f q"
proof (cases "prefix q p")
  case True
  assume g: "fs_mkdir_all f p = Inr g"
  then have "\<not> is_File (fs_node f q)"
    using True by (auto simp: fs_mkdir_all_def file_above_def list_ex_iff split: if_splits)
  then show ?thesis
    using True fs_mkdir_all_node [OF g, of q] file_at_None [of f q] by (simp add: file_at_def)
qed (simp add: fs_mkdir_all_node file_at_def)

lemma file_at_remove_dir: "fs_remove f p = Inr g \<Longrightarrow> \<not> is_File (fs_node f p) \<Longrightarrow> file_at g q = file_at f q"
  using fs_remove_node [of f p g q] file_at_None [of f p] by (cases "q = p") (auto simp: file_at_def)

section \<open>Frames of the calls\<close>

lemma keeps_conj [keeps_intros]: "keeps P m \<Longrightarrow> keeps Q m \<Longrightarrow> keeps (\<lambda>w. P w \<and> Q w) m"
  by (auto simp: keeps_def)

lemma keeps_file_query [keeps_intros]:
  "keeps (\<lambda>w. P (wfs w)) os_Close" "keeps (\<lambda>w. P (wfs w)) ctx_Err" "keeps (\<lambda>w. P (wfs w)) (isFile p)"
  "keeps (\<lambda>w. P (wfs w)) (isDir p)" "keeps (\<lambda>w. P (wfs w)) (computeETag p)" "keeps (\<lambda>w. P (wfs w)) (readMeta s b k)"
  "keeps (\<lambda>w. P (wfs w)) (walkObjectFiles p)" "keeps (\<lambda>w. P (wfs w)) (hasObjectFiles p)"
  "keeps (\<lambda>w. P (wfs w)) (IsPublic s b k)" "keeps (\<lambda>w. P (wfs w)) (IsBucketEmpty s b)"
  unfolding storage_helpers IsPublic_def by (intro keeps_intros)+

lemma keeps_file_mkdir [keeps_intros]: "keeps (\<lambda>w. file_at (wfs w) q = x) (os_MkdirAll p)"
  unfolding os_MkdirAll_def
  by (rule keeps_os_update [where P = "\<lambda>f. file_at f q = x"]) (simp add: file_at_mkdir)

lemma keeps_file_write: "path_comps p \<noteq> q \<Longrightarrow> keeps (\<lambda>w. file_at (wfs w) q = x) (os_WriteFile p d)"
  unfolding keeps_def os_WriteFile_def
  by (auto simp: file_at_def fs_write_node split: prod.splits fault.splits sum.splits dest!: next_fault_state)

lemma keeps_file_remove: "path_comps p \<noteq> q \<Longrightarrow> keeps (\<lambda>w. file_at (wfs w) q = x) (os_Remove p)"
  unfolding os_Remove_def
  by (rule keeps_os_update [where P = "\<lambda>f. file_at f q = x"]) (auto simp: file_at_def fs_remove_node)

lemma keeps_file_rename:
  "path_comps p \<noteq> q \<Longrightarrow> path_comps p' \<noteq> q \<Longrightarrow> keeps (\<lambda>w. file_at (wfs w) q = x) (os_Rename p p')"
  unfolding os_Rename_def
  by (rule keeps_os_update [where P = "\<lambda>f. file_at f q = x"])
    (auto simp: file_at_def fs_rename_Inr fs_simps dest: fs_node_File_nonempty)

lemma keeps_file_temp:
  assumes "proper dir" "dir \<noteq> []" "\<forall>r\<in>set rnds. slash \<notin> set r \<and> dir @ [temp_name r] \<noteq> q"
  shows "keeps (\<lambda>w. file_at (wfs w) q = x) (os_CreateTemp (abs_path dir) rnds)"
  using assms unfolding keeps_def os_CreateTemp_def os_call_def
  by (auto split: prod.splits fault.splits sum.splits dest!: next_fault_state create_temp_Inr
      simp: temp_path(2) fs_create_excl_Inr file_at_def fs_simps)

lemma CreateTemp_name:
  assumes "os_CreateTemp (abs_path dir) rnds w = (Inr p, w')" and "proper dir" "dir \<noteq> []"
    and "\<forall>r\<in>set rnds. slash \<notin> set r"
  shows "\<exists>r\<in>set rnds. p = abs_path (dir @ [temp_name r]) \<and> path_comps p = dir @ [temp_name r]"
proof -
  from assms(1) obtain v :: world and g where "create_temp (wfs v) (wnow v) (abs_path dir) rnds = Inr (p, g)"
    by (auto simp: os_CreateTemp_def os_call_def split: prod.splits fault.splits sum.splits)
  then obtain r where "r \<in> set rnds" "p = abs_path dir @ slash # temp_name r"
    using create_temp_Inr by blast
  with assms(2-4) temp_path [of dir r] show ?thesis by auto
qed

lemma WriteFile_Inr:
  "os_WriteFile p d w = (Inr u, w') \<Longrightarrow> file_at (wfs w') (path_comps p) = Some (d, wnow w)"
  by (auto simp: os_WriteFile_def fs_write_Inr file_at_def fs_simps split: prod.splits fault.splits sum.splits
      dest!: next_fault_state)

lemma Rename_Inr:
  "os_Rename p q w = (Inr u, w') \<Longrightarrow> file_at (wfs w) (path_comps p) = Some (d, t) \<Longrightarrow>
     path_comps p \<noteq> path_comps q \<Longrightarrow> file_at (wfs w') (path_comps q) = Some (d, t)"
  by (auto simp: os_Rename_def os_update_def os_call_def file_at_Some fs_rename_node
      split: prod.splits fault.splits sum.splits dest!: next_fault_state)

lemma os_update_Inl_fs: "os_update u w = (Inl e, w') \<Longrightarrow> wfs w' = wfs w"
  by (auto simp: os_update_def os_call_def split: prod.splits fault.splits sum.splits dest!: next_fault_state)

lemma os_Stat_Inr: "os_Stat p w = (Inr n, w') \<Longrightarrow> fs_node (wfs w) (path_comps p) = Some n \<and> wfs w' = wfs w"
  by (auto simp: os_Stat_def os_query_def os_call_def split: prod.splits fault.splits sum.splits
      dest!: next_fault_state)

lemma UpsertObject_Inr: "UpsertObject r w = (Inr u, w') \<Longrightarrow> wdb w' = ups_object r (wdb w) \<and> wfs w' = wfs w"
  by (auto simp: UpsertObject_def db_exec_def db_call_def split: prod.splits fault.splits sum.splits
      dest!: next_fault_state)

lemma same_now:
  assumes "\<And>P. keeps (\<lambda>w. P (wnow w)) m" and "m w = (r, w')"
  shows "wnow w' = wnow w"
  using keepsD [OF assms(1) [of "\<lambda>n. n = wnow w"], of w] assms(2) by simp

lemmas now_MkdirAll = same_now [OF keeps_now_calls(7)]
lemmas now_Rename = same_now [OF keeps_now_calls(9)]

lemma keeps_const [keeps_intros]: "keeps (\<lambda>w. c) m"
  by (simp add: keeps_def)

lemma triple_keeps_post:
  assumes "keeps P m" and "\<And>w x w'. P w \<Longrightarrow> m w = (Inr x, w') \<Longrightarrow> R x w'"
  shows "triple P m (\<lambda>x w. P w \<and> R x w) P"
  using assms by (intro tripleI) (auto simp: keeps_def dest!: spec)

lemma triple_keeps_err: "keeps P m \<Longrightarrow> (\<And>w. P w \<Longrightarrow> E w) \<Longrightarrow> triple P m (\<lambda>_. P) E"
  by (rule tripleI) (auto dest: keepsD)

lemma triple_pure: "(c \<Longrightarrow> triple P m Q E) \<Longrightarrow> triple (\<lambda>w. P w \<and> c) m (\<lambda>x w. Q x w \<and> c) E"
  by (cases c) (simp_all add: triple_def)

lemma triple_pure_pre: "(c \<Longrightarrow> triple P m Q E) \<Longrightarrow> triple (\<lambda>w. P w \<and> c) m Q E"
  by (cases c) (simp_all add: triple_def)

lemma triple_pre_False: "(\<And>w. \<not> P w) \<Longrightarrow> triple P m Q E"
  by (simp add: triple_def)

section \<open>Sidecars\<close>

lemma side_comps:
  "storage_at rs s \<Longrightarrow> bucket_ok b \<Longrightarrow> key_clean k \<Longrightarrow> path_comps (metaPath s b k) = side_path rs b k"
  using obj_path_proper [of rs s b k] by (simp add: metaPath_ok)

lemma keeps_file_writeMeta:
  assumes "storage_at rs s" "bucket_ok b" "key_clean k" "q \<noteq> side_path rs b k"
  shows "keeps (\<lambda>w. file_at (wfs w) q = x) (writeMeta s b k ct pub e)"
proof -
  have p: "path_comps (metaPath s b k) \<noteq> q" using assms side_comps by metis
  show ?thesis
    unfolding writeMeta_def Let_def removeIfExists_def
    by (intro keeps_intros keeps_file_remove keeps_file_write p)
qed

lemma keeps_now_writeMeta [keeps_intros]: "keeps (\<lambda>w. P (wnow w)) (writeMeta s b k ct pub e)"
  unfolding writeMeta_def Let_def removeIfExists_def by (intro keeps_intros)

lemma writeMeta_Inr:
  assumes "storage_at rs s" "bucket_ok b" "key_clean k" and "writeMeta s b k ct pub (Some e) w = (Inr u, w')"
  shows "file_at (wfs w') (side_path rs b k) =
    Some (marshalMeta \<lparr>mContentType = sanitizeContentTypePtr ct, mPublic = pub, mETag = Some e\<rparr>, wnow w)"
proof -
  obtain v where v: "os_MkdirAll (Dir_of (metaPath s b k)) w = (Inr (), v)"
    "os_WriteFile (metaPath s b k) (marshalMeta \<lparr>mContentType = sanitizeContentTypePtr ct, mPublic = pub, mETag = Some e\<rparr>) v
      = (Inr u, w')"
    using assms(4) by (auto simp: writeMeta_def Let_def andThen_def split: prod.splits sum.splits)
  have "wnow v = wnow w" using now_MkdirAll v(1) .
  with WriteFile_Inr [OF v(2)] show ?thesis by (simp add: side_comps [OF assms(1-3)])
qed

section \<open>An upload is all or nothing\<close>

text \<open>The temporary names of a run: one component, and not the name of the object itself.\<close>

definition temps_ok :: "string \<Rightarrow> string list \<Rightarrow> bool" where
  "temps_ok k rnds \<longleftrightarrow> (\<forall>r\<in>set rnds. slash \<notin> set r \<and> temp_name r \<noteq> last (key_comps k))"

definition at_file :: "fpath \<Rightarrow> (string \<times> int) option \<Rightarrow> int \<Rightarrow> world \<Rightarrow> bool" where
  "at_file q x t w \<longleftrightarrow> file_at (wfs w) q = x \<and> wnow w = t"

lemma keeps_at_file:
  "keeps (\<lambda>w. file_at (wfs w) q = x) m \<Longrightarrow> keeps (\<lambda>w. wnow w = t) m \<Longrightarrow> keeps (at_file q x t) m"
  by (simp add: keeps_def at_file_def)

text \<open>The part of an upload that runs with the temporary file \<open>tp\<close>.\<close>

definition finish_upload ::
  "Storage \<Rightarrow> string \<Rightarrow> string \<Rightarrow> body \<Rightarrow> string \<Rightarrow> bool \<Rightarrow> string \<Rightarrow> string \<Rightarrow> string action" where
  "finish_upload s bucket key b contentType public target tmp =
     andThen (copy_body tmp b) (\<lambda>_.
     andThen os_Close (\<lambda>_.
     andThen (os_Rename tmp target) (\<lambda>_.
     let etag = etag_of (bData b); ct = sanitizeContentType contentType in
     andThen (writeMeta s bucket key ct public (Some etag)) (\<lambda>_.
     andThen (os_Stat target) (\<lambda>info.
     andThen (UpsertObject
         \<lparr>oBucket = bucket, oKey = key, oSize = node_size info, oLastModified = node_mtime info,
          oETag = Some etag, oContentType = ct, oPublic = public\<rparr>) (\<lambda>_.
     ret etag))))))"

lemma PutObject_finish:
  "PutObject s rnds bucket key b contentType public =
     andThen (lift_result (ResolveObjectPath s bucket key)) (\<lambda>target.
     andThen (os_MkdirAll (Dir_of target)) (\<lambda>_.
     andThen (os_CreateTemp (Dir_of target) rnds) (\<lambda>tmp.
     deferred (os_Remove tmp) (finish_upload s bucket key b contentType public target tmp))))"
  by (simp add: PutObject_def finish_upload_def)

definition put_done :: "fpath \<Rightarrow> string \<Rightarrow> string \<Rightarrow> string \<Rightarrow> string \<Rightarrow> bool \<Rightarrow> int \<Rightarrow> world \<Rightarrow> bool" where
  "put_done rs b k d ct pub t w \<longleftrightarrow>
     file_at (wfs w) (obj_path rs b k) = Some (d, t) \<and>
     file_at (wfs w) (side_path rs b k) = Some (uploaded_meta d ct pub, t) \<and>
     sel_object b k (wdb w) = Some (stored_row (uploaded_row b k d ct pub t))"

lemma finish_upload_target:
  assumes st: "storage_at rs s" "bucket_ok b" "key_ok k"
    and tp: "proper tp" "tp \<noteq> obj_path rs b k"
  shows "triple (at_file (obj_path rs b k) x t)
     (finish_upload s b k bd ct pub (abs_path (obj_path rs b k)) (abs_path tp))
     (\<lambda>e w. e = etag_of (bData bd) \<and> bErr bd = None \<and> put_done rs b k (bData bd) ct pub t w)
     (\<lambda>w. file_at (wfs w) (obj_path rs b k) = x \<or>
          bErr bd = None \<and> file_at (wfs w) (obj_path rs b k) = Some (bData bd, t))"
proof -
  note sc = st(1,2) key_ok_clean [OF st(3)]
  let ?p = "obj_path rs b k" and ?m = "side_path rs b k"
  have pc: "path_comps (abs_path ?p) = ?p" "path_comps (abs_path tp) = tp"
    using obj_path_proper [OF sc] tp(1) by simp_all
  have pm: "?p \<noteq> ?m" using st(2) by (simp add: bucket_ok_def)
  have copy: "triple (at_file ?p x t) (copy_body (abs_path tp) bd)
      (\<lambda>_ w. at_file ?p x t w \<and> bErr bd = None \<and> file_at (wfs w) tp = Some (bData bd, t)) (at_file ?p x t)"
  proof (rule triple_keeps_post)
    show "keeps (at_file ?p x t) (copy_body (abs_path tp) bd)"
      unfolding copy_body_def using tp(2)
      by (intro keeps_intros keeps_at_file keeps_file_write) (simp_all add: pc)
    show "bErr bd = None \<and> file_at (wfs w') tp = Some (bData bd, t)"
      if "at_file ?p x t w" "copy_body (abs_path tp) bd w = (Inr u, w')" for w u w'
      using that WriteFile_Inr [of "abs_path tp" "bData bd" w]
      by (auto simp: copy_body_def andThen_def at_file_def pc ret_def fail_def split: prod.splits sum.splits option.splits)
  qed
  have ren: "triple (\<lambda>w. at_file ?p x t w \<and> bErr bd = None \<and> file_at (wfs w) tp = Some (bData bd, t))
      (os_Rename (abs_path tp) (abs_path ?p))
      (\<lambda>_. at_file ?p (Some (bData bd, t)) t) (at_file ?p x t)"
  proof (rule tripleI)
    fix w e w' assume h: "at_file ?p x t w \<and> bErr bd = None \<and> file_at (wfs w) tp = Some (bData bd, t)"
      "os_Rename (abs_path tp) (abs_path ?p) w = (Inl e, w')"
    have "wnow w' = t" using now_Rename h(2) h(1) unfolding at_file_def by metis
    with h show "at_file ?p x t w'" by (auto simp: at_file_def os_Rename_def dest!: os_update_Inl_fs)
  next
    fix w u w' assume h: "at_file ?p x t w \<and> bErr bd = None \<and> file_at (wfs w) tp = Some (bData bd, t)"
      "os_Rename (abs_path tp) (abs_path ?p) w = (Inr u, w')"
    have "wnow w' = t" using now_Rename h(2) h(1) unfolding at_file_def by metis
    with h tp(2) Rename_Inr [of "abs_path tp" "abs_path ?p" w u w'] show "at_file ?p (Some (bData bd, t)) t w'"
      by (simp add: at_file_def pc)
  qed
  have meta: "triple (at_file ?p (Some (bData bd, t)) t)
      (writeMeta s b k (sanitizeContentType ct) pub (Some (etag_of (bData bd))))
      (\<lambda>_ w. at_file ?p (Some (bData bd, t)) t w \<and> at_file ?m (Some (uploaded_meta (bData bd) ct pub, t)) t w)
      (at_file ?p (Some (bData bd, t)) t)"
  proof (rule triple_keeps_post)
    show k: "keeps (at_file ?p (Some (bData bd, t)) t) (writeMeta s b k (sanitizeContentType ct) pub e)" for e
      using keeps_file_writeMeta [OF sc pm] by (intro keeps_at_file keeps_now_writeMeta)
    show "at_file ?m (Some (uploaded_meta (bData bd) ct pub, t)) t w'"
      if "at_file ?p (Some (bData bd, t)) t w"
        "writeMeta s b k (sanitizeContentType ct) pub (Some (etag_of (bData bd))) w = (Inr u, w')" for w u w'
      using that writeMeta_Inr [OF sc that(2)] same_now [OF keeps_now_writeMeta that(2)]
      by (simp add: at_file_def uploaded_meta_def)
  qed
  define E where "E w \<longleftrightarrow> file_at (wfs w) ?p = x \<or> bErr bd = None \<and> file_at (wfs w) ?p = Some (bData bd, t)" for w :: world
  have e1: "at_file ?p x t w \<Longrightarrow> E w" for w by (simp add: at_file_def E_def)
  show ?thesis
  proof (cases "bErr bd")
    case (Some er)
    have "triple (at_file ?p x t) (finish_upload s b k bd ct pub (abs_path ?p) (abs_path tp)) Q E" for Q
      unfolding finish_upload_def
      by (rule triple_andThen, rule triple_conseq [OF copy], assumption, assumption, erule e1)
        (simp add: triple_pre_False Some)
    then show ?thesis unfolding E_def .
  next
    case None
    have e2: "at_file ?p (Some (bData bd, t)) t w \<Longrightarrow> E w" for w by (simp add: at_file_def E_def None)
    have "triple (at_file ?p x t) (finish_upload s b k bd ct pub (abs_path ?p) (abs_path tp))
        (\<lambda>e w. e = etag_of (bData bd) \<and> put_done rs b k (bData bd) ct pub t w) E"
      unfolding finish_upload_def Let_def
    proof (intro triple_andThen)
      let ?R = "\<lambda>w. at_file ?p x t w \<and> bErr bd = None \<and> file_at (wfs w) tp = Some (bData bd, t)"
      let ?S = "\<lambda>w. at_file ?p (Some (bData bd, t)) t w \<and> at_file ?m (Some (uploaded_meta (bData bd) ct pub, t)) t w"
      show "triple (at_file ?p x t) (copy_body (abs_path tp) bd) (\<lambda>_. ?R) E"
        by (rule triple_conseq [OF copy _ _ e1])
      show "triple ?R os_Close (\<lambda>_. ?R) E"
        by (rule triple_conseq [OF triple_keeps [of ?R]])
          (auto simp: os_Close_def intro!: keeps_intros keeps_at_file e1)
      show "triple ?R (os_Rename (abs_path tp) (abs_path ?p)) (\<lambda>_. at_file ?p (Some (bData bd, t)) t) E"
        by (rule triple_conseq [OF ren _ _ e1])
      show "triple (at_file ?p (Some (bData bd, t)) t)
          (writeMeta s b k (sanitizeContentType ct) pub (Some (etag_of (bData bd)))) (\<lambda>_. ?S) E"
        by (rule triple_conseq [OF meta _ _ e2])
      have "triple ?S (os_Stat (abs_path ?p)) (\<lambda>i w. ?S w \<and> i = File (bData bd) t) ?S"
        by (rule triple_keeps_post)
          (auto simp: at_file_def file_at_Some pc intro!: keeps_intros keeps_at_file dest!: os_Stat_Inr)
      then show "triple ?S (os_Stat (abs_path ?p)) (\<lambda>i w. ?S w \<and> i = File (bData bd) t) E"
        by (rule triple_conseq) (auto intro: e2)
      show "triple (\<lambda>w. ?S w \<and> i = File (bData bd) t)
          (UpsertObject \<lparr>oBucket = b, oKey = k, oSize = node_size i, oLastModified = node_mtime i,
             oETag = Some (etag_of (bData bd)), oContentType = sanitizeContentType ct, oPublic = pub\<rparr>)
          (\<lambda>_. put_done rs b k (bData bd) ct pub t) E" for i
      proof (rule triple_conseq [OF triple_keeps_post [of "\<lambda>w. ?S w \<and> i = File (bData bd) t" _
            "\<lambda>_ w. sel_object b k (wdb w) = Some (stored_row (uploaded_row b k (bData bd) ct pub t))"]])
        show "keeps (\<lambda>w. ?S w \<and> i = File (bData bd) t) (UpsertObject r)" for r
          unfolding UpsertObject_def by (intro keeps_intros keeps_at_file)
      qed (auto dest!: UpsertObject_Inr simp: sel_object_ups uploaded_row_def put_done_def at_file_def intro: e2)
    qed (auto intro!: triple_ret)
    then show ?thesis unfolding E_def by (simp add: None)
  qed
qed

lemma keeps_Remove_target:
  assumes "storage_at rs s" "bucket_ok b" "key_ok k" "proper tp" "tp \<noteq> q"
  shows "keeps (\<lambda>w. file_at (wfs w) q = x) (os_Remove (abs_path tp))"
  using assms by (intro keeps_file_remove) simp

lemma dir_of_object:
  assumes "storage_at rs s" "bucket_ok b" "key_clean k"
  shows "Dir_of (abs_path (obj_path rs b k)) = abs_path (butlast (obj_path rs b k))"
    and "proper (butlast (obj_path rs b k))" and "butlast (obj_path rs b k) \<noteq> []"
    and "last (obj_path rs b k) = last (key_comps k)"
  using obj_path_proper [OF assms] key_ok_comps [OF assms(3)]
  by (simp_all add: Dir_of_butlast proper_butlast del: butlast_append) (simp add: butlast_append)

text \<open>
  The outcome of an upload for its own object: after an error, the old bytes or all of the new
  ones; after a success, the new bytes, their sidecar and their row.
\<close>

lemma PutObject_atomic:
  assumes st: "storage_at rs s" "bucket_ok b" "key_ok k" and tmp: "temps_ok k rnds"
  shows "triple (at_file (obj_path rs b k) x t) (PutObject s rnds b k bd ct pub)
     (\<lambda>e w. e = etag_of (bData bd) \<and> bErr bd = None \<and> put_done rs b k (bData bd) ct pub t w)
     (\<lambda>w. file_at (wfs w) (obj_path rs b k) = x \<or>
          bErr bd = None \<and> file_at (wfs w) (obj_path rs b k) = Some (bData bd, t))"
proof -
  note sc = st(1,2) key_ok_clean [OF st(3)]
  let ?p = "obj_path rs b k" and ?m = "side_path rs b k"
  let ?d = "butlast ?p"
  define E where "E w \<longleftrightarrow> file_at (wfs w) ?p = x \<or> bErr bd = None \<and> file_at (wfs w) ?p = Some (bData bd, t)" for w :: world
  have e1: "at_file ?p x t w \<Longrightarrow> E w" for w by (simp add: at_file_def E_def)
  note dir = dir_of_object [OF sc]
  have sl: "\<forall>r\<in>set rnds. slash \<notin> set r" using tmp by (simp add: temps_ok_def)
  have ne: "?d @ [temp_name r] \<noteq> ?p" "?d @ [temp_name r] \<noteq> ?m" if "r \<in> set rnds" for r
  proof -
    show "?d @ [temp_name r] \<noteq> ?p" using that tmp dir(4) by (metis last_snoc temps_ok_def)
    show "?d @ [temp_name r] \<noteq> ?m" using st(2) key_ok_comps [OF sc(3)] by (auto simp: bucket_ok_def butlast_append)
  qed
  have "triple (at_file ?p x t) (PutObject s rnds b k bd ct pub)
     (\<lambda>e w. e = etag_of (bData bd) \<and> bErr bd = None \<and> put_done rs b k (bData bd) ct pub t w) E"
    unfolding PutObject_finish resolve_ok [OF st]
  proof (intro triple_andThen)
    show "triple (at_file ?p x t) (lift_result (Inr (abs_path ?p))) (\<lambda>y w. at_file ?p x t w \<and> y = abs_path ?p) E"
      by (simp add: triple_def lift_result_def)
    show "triple (\<lambda>w. at_file ?p x t w \<and> y = abs_path ?p) (os_MkdirAll (Dir_of y))
        (\<lambda>_ w. at_file ?p x t w \<and> y = abs_path ?p) E" for y
      by (rule triple_keeps_err) (auto intro!: keeps_intros keeps_at_file intro: e1)
    have "triple (\<lambda>w. at_file ?p x t w \<and> y = abs_path ?p) (os_CreateTemp (Dir_of y) rnds)
        (\<lambda>z w. (at_file ?p x t w \<and> y = abs_path ?p) \<and> (\<exists>r\<in>set rnds. z = abs_path (?d @ [temp_name r])))
        (\<lambda>w. at_file ?p x t w \<and> y = abs_path ?p)" for y
    proof (cases "y = abs_path ?p")
      case True
      show ?thesis
        unfolding True dir(1)
        by (rule triple_keeps_post)
          (use sl ne dir(2,3) in \<open>auto intro!: keeps_intros keeps_at_file keeps_file_temp dest!: CreateTemp_name
             simp del: butlast_append\<close>)
    qed (simp add: triple_def)
    then show "triple (\<lambda>w. at_file ?p x t w \<and> y = abs_path ?p) (os_CreateTemp (Dir_of y) rnds)
        (\<lambda>z w. (at_file ?p x t w \<and> y = abs_path ?p) \<and> (\<exists>r\<in>set rnds. z = abs_path (?d @ [temp_name r]))) E" for y
      by (rule triple_conseq) (auto intro: e1)
    show "triple (\<lambda>w. (at_file ?p x t w \<and> y = abs_path ?p) \<and> (\<exists>r\<in>set rnds. z = abs_path (?d @ [temp_name r])))
        (deferred (os_Remove z) (finish_upload s b k bd ct pub y z))
        (\<lambda>e w. e = etag_of (bData bd) \<and> bErr bd = None \<and> put_done rs b k (bData bd) ct pub t w) E" for y z
    proof (cases "y = abs_path ?p \<and> (\<exists>r\<in>set rnds. z = abs_path (?d @ [temp_name r]))")
      case True
      then obtain r where r: "r \<in> set rnds" "z = abs_path (?d @ [temp_name r])" and y: "y = abs_path ?p" by blast
      define tp where "tp = ?d @ [temp_name r]"
      have tp: "proper tp" "tp \<noteq> ?p" "tp \<noteq> ?m" "z = abs_path tp"
        using r ne [OF r(1)] sl dir(2) proper_temp_name by (auto simp: tp_def simp del: butlast_append)
      have rem: "keeps (\<lambda>w. file_at (wfs w) q = v) (os_Remove z)" if "tp \<noteq> q" for q v
        using that tp(1,4) by (simp add: keeps_file_remove)
      have db: "keeps (\<lambda>w. sel_object b k (wdb w) = v) (os_Remove z)" for v
        by (rule keeps_db_os_named)
      have "triple (at_file ?p x t) (deferred (os_Remove z) (finish_upload s b k bd ct pub y z))
        (\<lambda>e w. e = etag_of (bData bd) \<and> bErr bd = None \<and> put_done rs b k (bData bd) ct pub t w) E"
        unfolding y tp(4)
      proof (rule triple_deferred [OF finish_upload_target [OF st tp(1,2), of x t bd ct pub, folded E_def]])
        show "keeps (\<lambda>w. e = etag_of (bData bd) \<and> bErr bd = None \<and> put_done rs b k (bData bd) ct pub t w)
            (os_Remove (abs_path tp))" for e
          using rem [OF tp(2)] rem [OF tp(3)] db unfolding put_done_def tp(4)
          by (intro keeps_conj keeps_const)
        show "keeps E (os_Remove (abs_path tp))"
          using rem [OF tp(2)] unfolding E_def tp(4) keeps_def by blast
      qed
      then show ?thesis by (rule triple_conseq) auto
    qed (auto simp: triple_def)
  qed
  then show ?thesis unfolding E_def .
qed

section \<open>Other objects are left alone\<close>

lemma keeps_triple: "triple P m (\<lambda>_. P) P \<Longrightarrow> keeps P m"
  unfolding triple_def keeps_def by (fastforce split: prod.splits sum.splits)

lemma keeps_file_copy:
  "path_comps p \<noteq> q \<Longrightarrow> keeps (\<lambda>w. file_at (wfs w) q = x) (copy_body p bd)"
  unfolding copy_body_def by (intro keeps_intros keeps_file_write)

lemma PutObject_frame:
  assumes st: "storage_at rs s" "bucket_ok b" and tmp: "temps_ok k rnds"
    and q: "q \<noteq> obj_path rs b k" "q \<noteq> side_path rs b k"
      "\<forall>r\<in>set rnds. q \<noteq> butlast (obj_path rs b k) @ [temp_name r]"
  shows "keeps (\<lambda>w. file_at (wfs w) q = x) (PutObject s rnds b k bd ct pub)"
proof (cases "key_ok k")
  case False
  then show ?thesis using invalid_key [OF st] unfolding keeps_def by (metis snd_conv)
next
  case True
  let ?p = "obj_path rs b k" and ?I = "\<lambda>w. file_at (wfs w) q = x"
  note st = st True
  note sc = st(1,2) key_ok_clean [OF st(3)]
  note dir = dir_of_object [OF sc]
  have sl: "\<forall>r\<in>set rnds. slash \<notin> set r" using tmp by (simp add: temps_ok_def)
  have pc: "path_comps (abs_path ?p) = ?p" using obj_path_proper [OF sc] by simp
  have fin: "keeps ?I (deferred (os_Remove z) (finish_upload s b k bd ct pub (abs_path ?p) z))"
    if "path_comps z \<noteq> q" for z
    unfolding finish_upload_def Let_def UpsertObject_def
    using that q pc
    by (intro keeps_intros keeps_file_remove keeps_file_copy keeps_file_rename keeps_file_writeMeta [OF sc]) auto
  have ct: "triple ?I (os_CreateTemp (abs_path (butlast ?p)) rnds) (\<lambda>z w. ?I w \<and> path_comps z \<noteq> q) ?I"
    by (rule triple_keeps_post)
      (use sl q(3) dir(2,3) in \<open>auto intro!: keeps_file_temp dest!: CreateTemp_name simp del: butlast_append\<close>)
  have "triple ?I (PutObject s rnds b k bd ct pub) (\<lambda>_. ?I) ?I"
    unfolding PutObject_finish resolve_ok [OF st]
  proof (intro triple_andThen)
    show "triple ?I (lift_result (Inr (abs_path ?p))) (\<lambda>y w. ?I w \<and> y = abs_path ?p) ?I"
      by (simp add: triple_def lift_result_def)
    show "triple (\<lambda>w. ?I w \<and> y = abs_path ?p) (os_MkdirAll (Dir_of y)) (\<lambda>_ w. ?I w \<and> y = abs_path ?p) ?I" for y
      by (rule triple_keeps_err) (auto intro!: keeps_intros)
    show "triple (\<lambda>w. ?I w \<and> y = abs_path ?p) (os_CreateTemp (Dir_of y) rnds)
        (\<lambda>z w. (?I w \<and> path_comps z \<noteq> q) \<and> y = abs_path ?p) ?I" for y
      by (rule triple_pure) (use ct dir(1) in simp)
    show "triple (\<lambda>w. (?I w \<and> path_comps z \<noteq> q) \<and> y = abs_path ?p)
        (deferred (os_Remove z) (finish_upload s b k bd ct pub y z)) (\<lambda>_. ?I) ?I" for y z
      by (intro triple_pure_pre) (simp add: triple_keeps [OF fin])
  qed
  then show ?thesis by (rule keeps_triple)
qed

section \<open>Deletion\<close>

text \<open>Nothing above \<open>p\<close>, nor \<open>p\<close> itself, is a file.\<close>

definition no_file_to :: "fsys \<Rightarrow> fpath \<Rightarrow> bool" where
  "no_file_to f p \<longleftrightarrow> (\<forall>z. prefix z p \<longrightarrow> \<not> is_File (fs_node f z))"

lemma no_file_to_prefix: "no_file_to f p \<Longrightarrow> prefix z p \<Longrightarrow> no_file_to f z"
  by (auto simp: no_file_to_def)

lemma os_Remove_Inr:
  "os_Remove p w = (Inr u, w') \<Longrightarrow> fs_remove (wfs w) (path_comps p) = Inr (wfs w')"
  by (auto simp: os_Remove_def os_update_def os_call_def split: prod.splits fault.splits sum.splits
      dest!: next_fault_state)

lemma os_Remove_ENOENT:
  "os_Remove p w = (Inl (OsErr ENOENT), w') \<Longrightarrow>
     fs_node (wfs w) (path_comps p) = None \<and> \<not> file_above (wfs w) (path_comps p) \<and> wfs w' = wfs w"
  by (auto simp: os_Remove_def os_update_def os_call_def fs_remove_def fs_stat_def
      split: prod.splits fault.splits sum.splits option.splits fnode.splits if_splits dest!: next_fault_state)

lemma removeIfExists_Inr:
  assumes "removeIfExists p w = (Inr u, w')" and "fs_ok w"
  shows "fs_node (wfs w') (path_comps p) = None" and "no_file_to (wfs w') (path_comps p)"
proof -
  let ?p = "path_comps p"
  consider "os_Remove p w = (Inl (OsErr ENOENT), w')" | v where "os_Remove p w = (Inr v, w')"
    using assms(1) by (auto simp: removeIfExists_def attempt_def is_not_exist_def ret_def fail_def
        split: prod.splits sum.splits if_splits)
  then have "fs_node (wfs w') ?p = None \<and> no_file_to (wfs w') ?p"
  proof cases
    case 1
    then show ?thesis
      using os_Remove_ENOENT [OF 1] by (auto simp: no_file_to_def file_above_def list_ex_iff)
  next
    case 2
    then have r: "fs_remove (wfs w) ?p = Inr (wfs w')" by (rule os_Remove_Inr)
    then obtain n where n: "fs_node (wfs w) ?p = Some n" by (auto simp: fs_remove_Inr)
    have node: "fs_node (wfs w') z = (if z = ?p then None else fs_node (wfs w) z)" for z
      by (rule fs_remove_node [OF r])
    have "\<not> is_File (fs_node (wfs w') z)" if "prefix z ?p" for z
      using fs_node_ancestor [OF assms(2) n, of z] that node [of z]
      by (cases "z = ?p") (auto simp: strict_prefix_def)
    with node show ?thesis by (auto simp: no_file_to_def)
  qed
  then show "fs_node (wfs w') ?p = None" and "no_file_to (wfs w') ?p" by blast+
qed

lemma keeps_file_removeIfExists:
  "path_comps p \<noteq> q \<Longrightarrow> keeps (\<lambda>w. file_at (wfs w) q = x) (removeIfExists p)"
  unfolding removeIfExists_def by (intro keeps_intros keeps_file_remove)

lemma keeps_no_file_remove [keeps_intros]: "keeps (\<lambda>w. no_file_to (wfs w) leaf) (os_Remove p)"
  unfolding os_Remove_def
  by (rule keeps_os_update [where P = "\<lambda>f. no_file_to f leaf"]) (auto simp: no_file_to_def fs_remove_node)

lemma keeps_file_remove_dir:
  "prefix (path_comps p) leaf \<Longrightarrow> keeps (\<lambda>w. file_at (wfs w) q = x \<and> no_file_to (wfs w) leaf) (os_Remove p)"
  unfolding os_Remove_def
  by (rule keeps_os_update [where P = "\<lambda>f. file_at f q = x \<and> no_file_to f leaf"])
    (auto simp: no_file_to_def fs_remove_node file_at_remove_dir)

lemma keeps_file_remove_parents:
  "proper ds \<Longrightarrow> prefix ds leaf \<Longrightarrow> bnd \<noteq> [] \<Longrightarrow>
     keeps (\<lambda>w. file_at (wfs w) q = x \<and> no_file_to (wfs w) leaf) (remove_parents n (abs_path ds) bnd)"
proof (induction n arbitrary: ds)
  case (Suc n)
  show ?case
  proof (cases "ds = []")
    case True
    then have "\<not> HasPrefix (abs_path ds) (bnd @ [slash])"
      using Suc.prems(3) by (cases bnd) (auto simp: abs_path_def)
    then show ?thesis by (simp add: keeps_ret)
  next
    case False
    then show ?thesis
      using Suc.prems Suc.IH [of "butlast ds"] prefix_order.trans [OF prefixeq_butlast Suc.prems(2)]
      by (auto simp: Dir_of_butlast proper_butlast intro!: keeps_attempt keeps_ret keeps_file_remove_dir split: sum.splits)
  qed
qed (simp add: keeps_ret)

lemma keeps_split: "(\<And>y. keeps (\<lambda>w. f w = y \<and> P w) m) \<Longrightarrow> keeps (\<lambda>w. R (f w) \<and> P w) m"
  unfolding keeps_def by metis

lemma keeps_file_parents:
  assumes "proper p" "p \<noteq> []" "bnd \<noteq> []"
  shows "keeps (\<lambda>w. R (file_at (wfs w) q) \<and> no_file_to (wfs w) p) (removeEmptyParents (Dir_of (abs_path p)) bnd)"
proof (rule keeps_split [where f = "\<lambda>w. file_at (wfs w) q" and P = "\<lambda>w. no_file_to (wfs w) p" and R = R])
  show "keeps (\<lambda>w. file_at (wfs w) q = y \<and> no_file_to (wfs w) p) (removeEmptyParents (Dir_of (abs_path p)) bnd)" for y
    unfolding removeEmptyParents_def Dir_of_butlast [OF assms(1,2)]
    by (rule keeps_file_remove_parents [OF proper_butlast [OF assms(1)] prefixeq_butlast assms(3)])
qed

lemma keeps_no_file_parents [keeps_intros]:
  "keeps (\<lambda>w. no_file_to (wfs w) p) (removeEmptyParents d bnd)"
  "keeps (\<lambda>w. no_file_to (wfs w) p) (removeIfExists d)"
  unfolding removeEmptyParents_def removeIfExists_def by (intro keeps_intros)+

lemma keeps_fs_ok_parents [keeps_intros]:
  "keeps fs_ok (removeEmptyParents d bnd)" "keeps fs_ok (removeIfExists d)"
  unfolding removeEmptyParents_def removeIfExists_def by (intro keeps_intros)+

lemma keeps_file_gone:
  "keeps (\<lambda>w. file_at (wfs w) q = x \<or> c \<and> file_at (wfs w) q = None) (removeIfExists p)"
  if "path_comps p = q \<Longrightarrow> c"
proof -
  have "keeps (\<lambda>w. file_at (wfs w) q = x \<or> c \<and> file_at (wfs w) q = None) (os_Remove p)"
    unfolding os_Remove_def
    by (rule keeps_os_update [where P = "\<lambda>f. file_at f q = x \<or> c \<and> file_at f q = None"])
      (use that in \<open>auto simp: file_at_def fs_remove_node\<close>)
  then show ?thesis unfolding removeIfExists_def by (intro keeps_intros)
qed

lemma DeleteObjectRow_Inr: "DeleteObjectRow b k w = (Inr u, w') \<Longrightarrow> wdb w' = del_object b k (wdb w)"
  unfolding DeleteObjectRow_def by (rule db_exec_Inr)

text \<open>
  The outcome of a deletion for any path \<open>q\<close>: the file there is what it was, unless \<open>q\<close> is the
  object or its sidecar; after a success neither of these exists, nor does the row.
\<close>

lemma DeleteObject_outcome:
  fixes q :: fpath and x :: "(string \<times> int) option"
  assumes st: "storage_at rs s" "bucket_ok b" "key_ok k"
  defines "J \<equiv> \<lambda>w. fs_ok w \<and> (file_at (wfs w) q = x \<or>
      (q = obj_path rs b k \<or> q = side_path rs b k) \<and> file_at (wfs w) q = None)"
  shows "triple J (DeleteObject s b k)
     (\<lambda>_ w. J w \<and> file_at (wfs w) (obj_path rs b k) = None \<and> file_at (wfs w) (side_path rs b k) = None \<and>
        sel_object b k (wdb w) = None) J"
proof -
  note sc = st(1,2) key_ok_clean [OF st(3)]
  let ?p = "obj_path rs b k" and ?m = "side_path rs b k"
  have pr: "proper ?p" "?p \<noteq> []" "proper ?m" "?m \<noteq> []" using obj_path_proper [OF sc] by simp_all
  have bnd: "bucketDir s b \<noteq> []" "Join [metaRoot s, b] \<noteq> []"
    using st by (simp_all add: bucketDir_at metaDir_at)
  have J: "keeps J (removeIfExists (abs_path ?p))" "keeps J (removeIfExists (abs_path ?m))"
    unfolding J_def using pr by (intro keeps_conj keeps_fs_ok_parents keeps_file_gone; simp)+
  have par: "keeps (\<lambda>w. J w \<and> no_file_to (wfs w) z) (removeEmptyParents (Dir_of (abs_path z)) bd)"
    if "proper z" "z \<noteq> []" "bd \<noteq> []" for z bd
    using keeps_conj [OF keeps_fs_ok_parents(1) keeps_file_parents [OF that, of "\<lambda>y. y = x \<or> (q = ?p \<or> q = ?m) \<and> y = None" q]]
    unfolding J_def by (simp add: conj_assoc)
  have rem: "no_file_to (wfs w') z" if "J w" "removeIfExists (abs_path z) w = (Inr u, w')" "proper z" for w u w' z
    using removeIfExists_Inr(2) [OF that(2)] that(1,3) by (simp add: J_def)
  show ?thesis
    unfolding DeleteObject_def resolve_ok [OF st] Let_def metaPath_ok [OF sc]
  proof (intro triple_andThen)
    show "triple J (lift_result (Inr (abs_path ?p))) (\<lambda>y w. J w \<and> y = abs_path ?p) J"
      by (simp add: triple_def lift_result_def)
    show "triple (\<lambda>w. J w \<and> y = abs_path ?p) (removeIfExists y)
        (\<lambda>_ w. (J w \<and> no_file_to (wfs w) ?p) \<and> y = abs_path ?p) J" for y
      by (rule triple_pure) (use J(1) rem pr(1) in \<open>auto intro!: triple_keeps_post\<close>)
    show "triple (\<lambda>w. (J w \<and> no_file_to (wfs w) ?p) \<and> y = abs_path ?p)
        (removeEmptyParents (Dir_of y) (bucketDir s b)) (\<lambda>_ w. J w \<and> no_file_to (wfs w) ?p) J" for y
      by (intro triple_pure_pre triple_keeps_err) (use par [OF pr(1,2) bnd(1)] in auto)
    have "triple (\<lambda>w. J w \<and> no_file_to (wfs w) ?p) (removeIfExists (abs_path ?m))
        (\<lambda>_ w. (J w \<and> no_file_to (wfs w) ?p) \<and> no_file_to (wfs w) ?m) (\<lambda>w. J w \<and> no_file_to (wfs w) ?p)"
      by (rule triple_keeps_post) (use rem pr(3) in \<open>auto intro!: keeps_conj J keeps_no_file_parents\<close>)
    then show "triple (\<lambda>w. J w \<and> no_file_to (wfs w) ?p) (removeIfExists (abs_path ?m))
        (\<lambda>_ w. (J w \<and> no_file_to (wfs w) ?p) \<and> no_file_to (wfs w) ?m) J"
      by (rule triple_conseq) auto
    have "keeps (\<lambda>w. (J w \<and> no_file_to (wfs w) ?m) \<and> no_file_to (wfs w) ?p)
        (removeEmptyParents (Dir_of (abs_path ?m)) (Join [metaRoot s, b]))"
      by (intro keeps_conj [OF par [OF pr(3,4) bnd(2)]] keeps_no_file_parents)
    then show "triple (\<lambda>w. (J w \<and> no_file_to (wfs w) ?p) \<and> no_file_to (wfs w) ?m)
        (removeEmptyParents (Dir_of (abs_path ?m)) (Join [metaRoot s, b]))
        (\<lambda>_ w. (J w \<and> no_file_to (wfs w) ?m) \<and> no_file_to (wfs w) ?p) J"
      by (rule triple_conseq [OF triple_keeps]) auto
    have "triple (\<lambda>w. (J w \<and> no_file_to (wfs w) ?m) \<and> no_file_to (wfs w) ?p) (DeleteObjectRow b k)
        (\<lambda>_ w. ((J w \<and> no_file_to (wfs w) ?m) \<and> no_file_to (wfs w) ?p) \<and> sel_object b k (wdb w) = None)
        (\<lambda>w. (J w \<and> no_file_to (wfs w) ?m) \<and> no_file_to (wfs w) ?p)"
      unfolding J_def
      by (rule triple_keeps_post)
        (auto intro!: keeps_intros simp: sel_object_del dest!: DeleteObjectRow_Inr)
    then show "triple (\<lambda>w. (J w \<and> no_file_to (wfs w) ?m) \<and> no_file_to (wfs w) ?p) (DeleteObjectRow b k)
        (\<lambda>_ w. J w \<and> file_at (wfs w) ?p = None \<and> file_at (wfs w) ?m = None \<and> sel_object b k (wdb w) = None) J"
      by (rule triple_conseq) (auto simp: file_at_None no_file_to_def)
  qed
qed

lemma DeleteObject_rows:
  "triple (\<lambda>w. wdb w = d) (DeleteObject s b k) (\<lambda>_ w. wdb w = del_object b k d) (\<lambda>w. wdb w = d)"
proof -
  have k: "keeps (\<lambda>w. wdb w = d) (removeIfExists p)" "keeps (\<lambda>w. wdb w = d) (removeEmptyParents p q)" for p q
    unfolding removeIfExists_def removeEmptyParents_def by (intro keeps_intros)+
  have "triple (\<lambda>w. wdb w = d) (DeleteObjectRow b k) (\<lambda>_ w. wdb w = del_object b k d) (\<lambda>w. wdb w = d)"
    by (rule tripleI) (auto simp: DeleteObjectRow_def db_exec_def db_call_def
        split: prod.splits fault.splits dest!: next_fault_state)
  then show ?thesis
    unfolding DeleteObject_def Let_def by (intro triple_andThen [OF triple_keeps] k keeps_intros)
qed

text \<open>The sidecar of an object that is still there is as it was, even when the deletion fails.\<close>

lemma DeleteObject_order:
  assumes st: "storage_at rs s" "bucket_ok b" "key_ok k"
  shows "triple (\<lambda>w. fs_ok w \<and> file_at (wfs w) (side_path rs b k) = y) (DeleteObject s b k) (\<lambda>_ _. True)
     (\<lambda>w. file_at (wfs w) (side_path rs b k) = y \<or> file_at (wfs w) (obj_path rs b k) = None)"
proof -
  note sc = st(1,2) key_ok_clean [OF st(3)]
  let ?p = "obj_path rs b k" and ?m = "side_path rs b k"
  let ?P = "\<lambda>w. fs_ok w \<and> file_at (wfs w) ?m = y" and ?N = "\<lambda>w. no_file_to (wfs w) ?p"
  have pr: "proper ?p" using obj_path_proper [OF sc] by simp
  have ne: "?p \<noteq> ?m" using st(2) by (simp add: bucket_ok_def)
  have step: "triple ?N m (\<lambda>_. ?N) (\<lambda>w. file_at (wfs w) ?m = y \<or> file_at (wfs w) ?p = None)" if "keeps ?N m" for m :: "'b action"
    using that by (intro triple_keeps_err) (simp_all add: file_at_None no_file_to_def)
  show ?thesis
    unfolding DeleteObject_def resolve_ok [OF st] Let_def
  proof (intro triple_andThen)
    show "triple ?P (lift_result (Inr (abs_path ?p))) (\<lambda>z w. ?P w \<and> z = abs_path ?p)
        (\<lambda>w. file_at (wfs w) ?m = y \<or> file_at (wfs w) ?p = None)"
      by (simp add: triple_def lift_result_def)
    show "triple (\<lambda>w. ?P w \<and> z = abs_path ?p) (removeIfExists z) (\<lambda>_. ?N)
        (\<lambda>w. file_at (wfs w) ?m = y \<or> file_at (wfs w) ?p = None)" for z
    proof (rule tripleI)
      fix w e w' assume "?P w \<and> z = abs_path ?p" "removeIfExists z w = (Inl e, w')"
      then show "file_at (wfs w') ?m = y \<or> file_at (wfs w') ?p = None"
        using keepsD [OF keeps_file_removeIfExists [of z ?m y], of w] pr ne by simp
    next
      fix w u w' assume "?P w \<and> z = abs_path ?p" "removeIfExists z w = (Inr u, w')"
      then show "?N w'" using removeIfExists_Inr(2) pr by fastforce
    qed
    show "triple ?N (DeleteObjectRow b k) (\<lambda>_ _. True) (\<lambda>w. file_at (wfs w) ?m = y \<or> file_at (wfs w) ?p = None)"
      by (rule triple_conseq [OF step]) (auto simp: DeleteObjectRow_def intro: keeps_intros)
  qed (auto intro!: step keeps_intros)
qed

section \<open>Visibility\<close>

lemma keeps_file_indexFromDisk:
  assumes "storage_at rs s" "bucket_ok b" "key_clean k" "q \<noteq> side_path rs b k"
  shows "keeps (\<lambda>w. file_at (wfs w) q = x) (indexFromDisk s b k p)"
  unfolding indexFromDisk_def by (intro keeps_intros keeps_file_writeMeta [OF assms])

lemma andThen_InrE:
  assumes "andThen m k w = (Inr y, w')"
  obtains x v where "m w = (Inr x, v)" "k x v = (Inr y, w')"
  using assms by (auto simp: andThen_def split: prod.splits sum.splits)

lemma indexFromDisk_id:
  "indexFromDisk s b k p w = (Inr r, w') \<Longrightarrow> row_id r = (b, k)"
  by (auto simp: indexFromDisk_def ret_def elim!: andThen_InrE)

lemma GetObject_id: "GetObject b k w = (Inr (Some r), w') \<Longrightarrow> row_id r = (b, k)"
  unfolding GetObject_def by (drule db_query_Inr) (auto dest: sel_object_rowD [OF sym])

text \<open>A visibility change that reports success has recorded the new visibility, whatever was there.\<close>

lemma SetPublic_row:
  assumes "SetPublic s b k pub w = (Inr u, w')"
  shows "\<exists>r. sel_object b k (wdb w') = Some r \<and> oPublic r = pub"
proof -
  from assms obtain row v where row: "row_id row = (b, k)" and up: "UpsertObject (row\<lparr>oPublic := pub\<rparr>) v = (Inr u, w')"
    by (auto simp: SetPublic_def fail_def ret_def elim!: andThen_InrE split: if_splits option.splits
        dest!: GetObject_id indexFromDisk_id)
  then show ?thesis by (auto dest!: UpsertObject_Inr simp: sel_object_ups)
qed

lemma SetPublic_frame:
  assumes "storage_at rs s" "bucket_ok b" "q \<noteq> side_path rs b k"
  shows "keeps (\<lambda>w. file_at (wfs w) q = x) (SetPublic s b k pub)"
proof (cases "key_ok k")
  case True
  then have "key_clean k" by simp
  with assms show ?thesis
    unfolding SetPublic_def UpsertObject_def GetObject_def
    by (intro keeps_intros keeps_file_writeMeta keeps_file_indexFromDisk)
next
  case False
  then show ?thesis using invalid_key [OF assms(1,2)] unfolding keeps_def by (metis snd_conv)
qed

lemma OpenObject_frame:
  assumes "storage_at rs s" "bucket_ok b" "q \<noteq> side_path rs b k"
  shows "keeps (\<lambda>w. file_at (wfs w) q = x) (OpenObject s b k)"
proof (cases "key_ok k")
  case True
  then have "key_clean k" by simp
  with assms show ?thesis
    unfolding OpenObject_def statIndexed_def UpsertObject_def GetObject_def SetObjectETag_def
    by (intro keeps_intros keeps_file_indexFromDisk)
next
  case False
  then show ?thesis using invalid_key [OF assms(1,2)] unfolding keeps_def by (metis snd_conv)
qed

end
