(* ===== verification/StorageIndex.thy ===== *)
theory StorageIndex
  imports StorageOps
begin

text \<open>
  Reindexing in a run without faults: it visits every object file of the bucket once, hashes what
  has no ETag yet, and leaves an index with exactly one row per file.  A second pass over an index
  that agrees with the disk changes nothing.
\<close>

section \<open>Keys of files\<close>

definition comp_key :: "fpath \<Rightarrow> string" where
  "comp_key cs = join_with [slash] cs"

lemma split_comp_key: "proper cs \<Longrightarrow> cs \<noteq> [] \<Longrightarrow> split_on slash (comp_key cs) = cs"
  by (simp add: comp_key_def split_join proper_no_slash)

lemma key_comps_comp_key [simp]: "proper cs \<Longrightarrow> cs \<noteq> [] \<Longrightarrow> key_comps (comp_key cs) = cs"
  by (simp add: key_comps_def split_comp_key)

lemma comp_key_clean: "proper cs \<Longrightarrow> cs \<noteq> [] \<Longrightarrow> key_clean (comp_key cs)"
  by (auto simp: key_clean_def split_comp_key proper_def proper_comp_def)

lemma comp_key_inject: "proper as \<Longrightarrow> proper bs \<Longrightarrow> as \<noteq> [] \<Longrightarrow> bs \<noteq> [] \<Longrightarrow> comp_key as = comp_key bs \<longleftrightarrow> as = bs"
  by (metis key_comps_comp_key)

lemma Rel_below: "proper (ds @ cs) \<Longrightarrow> Rel (abs_path ds) (abs_path (ds @ cs)) = comp_key cs"
  by (simp add: Rel_def comp_key_def)

section \<open>The object files of a bucket\<close>

text \<open>Names on disk are proper components, as a file system guarantees.\<close>

definition fs_names :: "fsys \<Rightarrow> bool" where
  "fs_names f \<longleftrightarrow> (\<forall>p\<in>fst ` set f. proper p)"

definition bucket_files :: "fpath \<Rightarrow> fsys \<Rightarrow> string \<Rightarrow> fpath list" where
  "bucket_files rs f b = map (drop (length (rs @ [b]))) (object_files f (rs @ [b]))"

definition object_file :: "fpath \<Rightarrow> fsys \<Rightarrow> string \<Rightarrow> fpath \<Rightarrow> bool" where
  "object_file rs f b cs \<longleftrightarrow> cs \<noteq> [] \<and> is_File (fs_node f (rs @ b # cs)) \<and> \<not> HasPrefix (last cs) ''.upload-''"

lemma fs_names_node: "fs_names f \<Longrightarrow> fs_node f p = Some n \<Longrightarrow> proper p"
  by (cases "p = []") (force simp: fs_names_def fs_node_def dest!: map_of_SomeD)+

lemma object_files_below:
  assumes "fs_node f ds = Some Directory"
  shows "map (\<lambda>cs. ds @ cs) (map (drop (length ds)) (object_files f ds)) = object_files f ds"
    and "[] \<notin> set (map (drop (length ds)) (object_files f ds))"
proof -
  have "prefix ds p \<and> p \<noteq> ds" if "p \<in> set (object_files f ds)" for p
    using that assms by (auto simp: object_files_def fs_files_below_set)
  then have "\<exists>zs. p = ds @ zs \<and> zs \<noteq> []" if "p \<in> set (object_files f ds)" for p
    using that by (auto simp: prefix_def)
  then have e: "ds @ drop (length ds) p = p" "drop (length ds) p \<noteq> []" if "p \<in> set (object_files f ds)" for p
    using that by fastforce+
  show "map (\<lambda>cs. ds @ cs) (map (drop (length ds)) (object_files f ds)) = object_files f ds"
    using e(1) by (simp add: map_idI comp_def)
  show "[] \<notin> set (map (drop (length ds)) (object_files f ds))"
    using e(2) by auto
qed

lemma bucket_files_set:
  assumes "fs_node f (rs @ [b]) = Some Directory"
  shows "cs \<in> set (bucket_files rs f b) \<longleftrightarrow> object_file rs f b cs"
proof
  assume "cs \<in> set (bucket_files rs f b)"
  then obtain p where p: "p \<in> set (object_files f (rs @ [b]))" "cs = drop (length (rs @ [b])) p"
    by (auto simp: bucket_files_def)
  then have "p = (rs @ [b]) @ cs" by (auto simp: object_files_def fs_files_below_set prefix_def)
  moreover have "cs \<noteq> []" using p object_files_below(2) [OF assms] by force
  ultimately show "object_file rs f b cs"
    using p by (auto simp: object_file_def object_files_def fs_files_below_set)
next
  assume o: "object_file rs f b cs"
  then have "(rs @ [b]) @ cs \<in> set (object_files f (rs @ [b]))"
    by (auto simp: object_file_def object_files_def fs_files_below_set)
  then show "cs \<in> set (bucket_files rs f b)"
    unfolding bucket_files_def by force
qed

lemma distinct_bucket_files:
  assumes "fs_wf f" "fs_node f (rs @ [b]) = Some Directory"
  shows "distinct (bucket_files rs f b)"
proof -
  have "distinct (map (\<lambda>cs. (rs @ [b]) @ cs) (bucket_files rs f b))"
    using object_files_below(1) [OF assms(2)] distinct_fs_files_below [OF assms(1)]
    by (simp add: bucket_files_def object_files_def del: map_map)
  then show ?thesis by (simp add: distinct_map)
qed

lemma bucket_files_proper:
  "fs_names f \<Longrightarrow> object_file rs f b cs \<Longrightarrow> proper cs"
  using fs_names_node [of f "rs @ b # cs"] by (auto simp: object_file_def is_File_iff)

text \<open>Different files are never above one another, and neither are their sidecars.\<close>

lemma files_not_nested:
  assumes "fs_wf f" "object_file rs f b cs" "object_file rs f b ds" "cs \<noteq> ds"
  shows "\<not> prefix cs ds"
proof
  assume "prefix cs ds"
  then have "strict_prefix (rs @ b # cs) (rs @ b # ds)" using assms(4) by (auto simp: strict_prefix_def)
  moreover obtain n where "fs_node f (rs @ b # ds) = Some n" using assms(3) by (auto simp: object_file_def is_File_iff)
  ultimately have "fs_node f (rs @ b # cs) = Some Directory" using fs_node_ancestor [OF assms(1)] by blast
  then show False using assms(2) by (auto simp: object_file_def)
qed

section \<open>One visit\<close>

definition side_of :: "fpath \<Rightarrow> string \<Rightarrow> fpath \<Rightarrow> fpath" where
  "side_of rs b cs = rs @ ''.meta'' # b # cs"

text \<open>The row an existing index lets a pass keep, and the row a pass would write.\<close>

definition keeps_row :: "bool \<Rightarrow> ObjectRow list \<Rightarrow> string \<Rightarrow> string \<Rightarrow> bool" where
  "keeps_row force existing k d \<longleftrightarrow> \<not> force \<and>
     (case indexed_row existing k of Some r \<Rightarrow> oETag r \<noteq> None \<and> oSize r = int (length d) | None \<Rightarrow> False)"

definition fresh_row :: "fpath \<Rightarrow> fsys \<Rightarrow> string \<Rightarrow> fpath \<Rightarrow> ObjectRow" where
  "fresh_row rs f b cs =
     (case fs_node f (rs @ b # cs) of
        Some (File d t) \<Rightarrow> disk_row b (comp_key cs) d t (meta_on_disk f (side_of rs b cs))
      | _ \<Rightarrow> disk_row b (comp_key cs) [] 0 no_meta)"

definition visit_result :: "fpath \<Rightarrow> fsys \<Rightarrow> string \<Rightarrow> bool \<Rightarrow> ObjectRow list \<Rightarrow> fpath \<Rightarrow> string \<times> ObjectRow option" where
  "visit_result rs f b force existing cs =
     (comp_key cs,
      case fs_node f (rs @ b # cs) of
        Some (File d t) \<Rightarrow> if keeps_row force existing (comp_key cs) d then None else Some (fresh_row rs f b cs)
      | _ \<Rightarrow> None)"

text \<open>A pass can write the sidecar of every file that has no ETag in one.\<close>

definition side_ready :: "fpath \<Rightarrow> fsys \<Rightarrow> string \<Rightarrow> fpath \<Rightarrow> bool" where
  "side_ready rs f b cs \<longleftrightarrow>
     mETag (meta_on_disk f (side_of rs b cs)) \<noteq> None \<or> writable f (side_of rs b cs)"

text \<open>What a pass may change: sidecars of the listed files and directories above them.\<close>

definition same_but_sides :: "fpath \<Rightarrow> fsys \<Rightarrow> string \<Rightarrow> fpath list \<Rightarrow> fsys \<Rightarrow> bool" where
  "same_but_sides rs f b css g \<longleftrightarrow> fs_wf g \<and>
     (\<forall>q. (\<forall>cs\<in>set css. q \<noteq> side_of rs b cs \<and> \<not> prefix q (butlast (side_of rs b cs))) \<longrightarrow>
        fs_node g q = fs_node f q)"

text \<open>A visit without faults, and one whose sidecar has its ETag, which writes nothing.\<close>

lemma reindex_file_visit:
  assumes st: "storage_at rs s" "bucket_ok b" and q: "wfaults w = []" and cs: "proper cs" "cs \<noteq> []"
  shows "reindex_file s b force existing (abs_path (rs @ b # cs), int (length d)) w =
      (if keeps_row force existing (comp_key cs) d then (Inr (comp_key cs, None), w)
       else andThen (indexFromDisk s b (comp_key cs) (abs_path (rs @ b # cs))) (\<lambda>fresh. ret (comp_key cs, Some fresh)) w)"
proof -
  have rel: "Rel (bucketDir s b) (abs_path (rs @ b # cs)) = comp_key cs"
    using Rel_below [of "rs @ [b]" cs] cs(1) storage_atD(1) [OF st(1)] bucket_okD(1) [OF st(2)]
    by (simp add: bucketDir_at [OF st])
  show ?thesis
    using q unfolding reindex_file_def keeps_row_def
    by (simp add: andThen_def helpers_quiet ret_def Let_def rel cong: option.case_cong)
qed

lemma reindex_file_cached:
  assumes st: "storage_at rs s" "bucket_ok b" and q: "wfaults w = []" and cs: "proper cs" "cs \<noteq> []"
    and node: "fs_node (wfs w) (rs @ b # cs) = Some (File d t)"
    and e: "keeps_row force existing (comp_key cs) d \<or> mETag (meta_on_disk (wfs w) (side_of rs b cs)) \<noteq> None"
  shows "reindex_file s b force existing (abs_path (rs @ b # cs), int (length d)) w =
    (Inr (visit_result rs (wfs w) b force existing cs), w)"
proof (cases "keeps_row force existing (comp_key cs) d")
  case True
  then show ?thesis by (simp add: reindex_file_visit [OF st q cs] visit_result_def node)
next
  case False
  have k: "key_clean (comp_key cs)" "side_path rs b (comp_key cs) = side_of rs b cs"
    using cs by (simp_all add: comp_key_clean side_of_def)
  with False e obtain x where "mETag (meta_on_disk (wfs w) (side_path rs b (comp_key cs))) = Some x" by auto
  with indexFromDisk_cached [OF st k(1) q, of d t x] node cs k False show ?thesis
    by (simp add: reindex_file_visit [OF st q cs] visit_result_def fresh_row_def andThen_def ret_def)
qed

lemma reindex_file_quiet:
  assumes st: "storage_at rs s" "bucket_ok b" and q: "wfaults w = []" "fs_ok w"
    and cs: "proper cs" "object_file rs (wfs w) b cs" "side_ready rs (wfs w) b cs"
    and node: "fs_node (wfs w) (rs @ b # cs) = Some (File d t)"
  obtains g where
    "reindex_file s b force existing (abs_path (rs @ b # cs), int (length d)) w =
       (Inr (visit_result rs (wfs w) b force existing cs), w\<lparr>wfs := g\<rparr>)"
    "g = wfs w \<or> (\<exists>x. written (wfs w) (side_of rs b cs) x (wnow w) g)"
proof -
  let ?k = "comp_key cs"
  have ne: "cs \<noteq> []" using cs(2) by (simp add: object_file_def)
  have k: "key_clean ?k" "key_comps ?k = cs" using cs(1) ne by (simp_all add: comp_key_clean)
  have side: "side_path rs b ?k = side_of rs b cs" by (simp add: k side_of_def)
  show thesis
  proof (cases "keeps_row force existing ?k d \<or> mETag (meta_on_disk (wfs w) (side_of rs b cs)) \<noteq> None")
    case True
    then show thesis using that [of "wfs w"] reindex_file_cached [OF st q(1) cs(1) ne node True] by simp
  next
    case False
    then have "writable (wfs w) (side_of rs b cs)" using cs(3) by (simp add: side_ready_def)
    then obtain g where "indexFromDisk s b ?k (abs_path (rs @ b # cs)) w =
        (Inr (disk_row b ?k d t (meta_on_disk (wfs w) (side_of rs b cs))), w\<lparr>wfs := g\<rparr>)"
      "\<exists>x. written (wfs w) (side_of rs b cs) x (wnow w) g"
      using indexFromDisk_hash [OF st k(1) q, of d t] node k(2) side False by metis
    then show thesis using that [of g] False
      by (simp add: reindex_file_visit [OF st q(1) cs(1) ne] andThen_def ret_def visit_result_def node fresh_row_def)
  qed
qed

section \<open>The pass\<close>

definition file_entry :: "fpath \<Rightarrow> fsys \<Rightarrow> string \<Rightarrow> fpath \<Rightarrow> string \<times> int" where
  "file_entry rs f b cs = (abs_path (rs @ b # cs), node_size (the (fs_node f (rs @ b # cs))))"

lemma side_of_apart:
  assumes "bucket_ok b"
  shows "rs @ b # ds \<noteq> side_of rs b cs" and "\<not> prefix (rs @ b # ds) (butlast (side_of rs b cs))"
    and "prefix (side_of rs b ds) (side_of rs b cs) \<longleftrightarrow> prefix ds cs"
  using assms by (auto simp: side_of_def bucket_ok_def butlast_append)

lemma prefix_butlast_trans: "prefix p (butlast q) \<Longrightarrow> prefix p q"
  using prefix_order.trans [OF _ prefixeq_butlast] .

lemma uploaded_node:
  assumes "bucket_ok b" "key_ok k" and "written f (obj_path rs b k) d t g" "written g (side_path rs b k) x t h"
  shows "fs_node h (obj_path rs b k) = Some (File d t)"
proof -
  have "\<not> prefix (obj_path rs b k) (butlast (side_path rs b k))"
  proof
    assume "prefix (obj_path rs b k) (butlast (side_path rs b k))"
    then have "prefix (obj_path rs b k) (side_path rs b k)" by (rule prefix_butlast_trans)
    then show False using assms(1) by (simp add: bucket_ok_def)
  qed
  moreover have "obj_path rs b k \<noteq> side_path rs b k" by (rule obj_side_neq [OF assms(1)])
  ultimately show ?thesis using writtenD(2) [OF assms(3)] writtenD(3) [OF assms(4)] by metis
qed

lemma visit_others:
  assumes b: "bucket_ok b" and wf: "fs_wf f" and fl: "object_file rs f b cs" "object_file rs f b ds" "cs \<noteq> ds"
    and wr: "written f (side_of rs b cs) x t g"
  shows "fs_node g (rs @ b # ds) = fs_node f (rs @ b # ds)"
    and "fs_node g (side_of rs b ds) = fs_node f (side_of rs b ds)"
    and "side_ready rs f b ds \<Longrightarrow> side_ready rs g b ds"
proof -
  have np: "\<not> prefix (side_of rs b cs) (side_of rs b ds)" "\<not> prefix (side_of rs b ds) (side_of rs b cs)"
    using files_not_nested [OF wf fl] files_not_nested [OF wf fl(2,1)] fl(3) side_of_apart(3) [OF b] by metis+
  then have npb: "\<not> prefix (side_of rs b ds) (butlast (side_of rs b cs))" "side_of rs b ds \<noteq> side_of rs b cs"
    using prefix_butlast_trans by auto
  show "fs_node g (rs @ b # ds) = fs_node f (rs @ b # ds)"
    using wr side_of_apart(1,2) [OF b] by (simp add: writtenD(3))
  show n: "fs_node g (side_of rs b ds) = fs_node f (side_of rs b ds)"
    using wr npb by (simp add: writtenD(3))
  show "side_ready rs f b ds \<Longrightarrow> side_ready rs g b ds"
    using written_writable [OF wr _ np(1) npb(1)] n by (auto simp: side_ready_def meta_on_disk_def)
qed

lemma reindex_files_quiet:
  assumes st: "storage_at rs s" "bucket_ok b"
  shows "wfaults w = [] \<Longrightarrow> fs_ok w \<Longrightarrow> distinct css \<Longrightarrow>
     (\<forall>cs\<in>set css. proper cs \<and> object_file rs (wfs w) b cs \<and> side_ready rs (wfs w) b cs) \<Longrightarrow>
     \<exists>g. for_each (reindex_file s b force existing) (map (file_entry rs (wfs w) b) css) w =
           (Inr (map (visit_result rs (wfs w) b force existing) css), w\<lparr>wfs := g\<rparr>) \<and>
         same_but_sides rs (wfs w) b css g"
proof (induction css arbitrary: w)
  case Nil
  then show ?case by (intro exI [of _ "wfs w"]) (simp add: same_but_sides_def)
next
  case (Cons c css)
  let ?f = "wfs w"
  have c: "proper c" "object_file rs ?f b c" "side_ready rs ?f b c" using Cons.prems(4) by simp_all
  then obtain d t where n: "fs_node ?f (rs @ b # c) = Some (File d t)" by (auto simp: object_file_def is_File_iff)
  obtain g where g: "reindex_file s b force existing (abs_path (rs @ b # c), int (length d)) w =
       (Inr (visit_result rs ?f b force existing c), w\<lparr>wfs := g\<rparr>)"
    and gw: "g = ?f \<or> (\<exists>x. written ?f (side_of rs b c) x (wnow w) g)"
    by (rule reindex_file_quiet [OF st Cons.prems(1,2) c n])
  have wf: "fs_wf g" using gw Cons.prems(2) writtenD(1) by blast
  have rest: "fs_node g (rs @ b # ds) = fs_node ?f (rs @ b # ds) \<and>
      fs_node g (side_of rs b ds) = fs_node ?f (side_of rs b ds) \<and> side_ready rs g b ds" if "ds \<in> set css" for ds
  proof -
    have ds: "object_file rs ?f b ds" "side_ready rs ?f b ds" "c \<noteq> ds" using that Cons.prems(3,4) by auto
    show ?thesis
    proof (cases "g = ?f")
      case False
      then obtain x where "written ?f (side_of rs b c) x (wnow w) g" using gw by blast
      from visit_others [OF st(2) Cons.prems(2) c(2) ds(1,3) this] ds(2) show ?thesis by blast
    qed (simp add: ds)
  qed
  have fr: "fresh_row rs g b ds = fresh_row rs ?f b ds" if "ds \<in> set css" for ds
    using rest [OF that] by (auto simp: fresh_row_def meta_on_disk_def split: option.splits fnode.splits)
  have same: "map (file_entry rs g b) css = map (file_entry rs ?f b) css"
    "map (visit_result rs g b force existing) css = map (visit_result rs ?f b force existing) css"
    using rest fr by (auto simp: file_entry_def visit_result_def split: option.splits fnode.splits)
  have "\<exists>h. for_each (reindex_file s b force existing) (map (file_entry rs g b) css) (w\<lparr>wfs := g\<rparr>) =
           (Inr (map (visit_result rs g b force existing) css), w\<lparr>wfs := h\<rparr>) \<and> same_but_sides rs g b css h"
    using Cons.IH [of "w\<lparr>wfs := g\<rparr>"] Cons.prems wf rest by (simp add: object_file_def)
  then obtain h where h: "for_each (reindex_file s b force existing) (map (file_entry rs ?f b) css) (w\<lparr>wfs := g\<rparr>) =
           (Inr (map (visit_result rs ?f b force existing) css), w\<lparr>wfs := h\<rparr>)" "same_but_sides rs g b css h"
    unfolding same by blast
  have "same_but_sides rs ?f b (c # css) h"
    using h(2) gw by (auto simp: same_but_sides_def writtenD(3))
  moreover have "file_entry rs ?f b c = (abs_path (rs @ b # c), int (length d))"
    using n by (simp add: file_entry_def)
  ultimately show ?case using h(1) g by (intro exI [of _ h]) simp
qed

lemma indexed_row_sel: "indexed_row (bucket_rows b d) k = sel_object b k d"
proof -
  have "find (\<lambda>r. oKey r = k) (filter (\<lambda>r. oBucket r = b) xs) = find (\<lambda>r. row_id r = (b, k)) xs" for xs
    by (induction xs) auto
  then show ?thesis by (simp add: indexed_row_def bucket_rows_def sel_object_def)
qed

lemma find_unique:
  assumes "x \<in> set xs" "P x" "\<And>y. y \<in> set xs \<Longrightarrow> P y \<Longrightarrow> y = x"
  shows "find P xs = Some x"
proof (cases "find P xs")
  case None
  then show ?thesis using assms(1,2) by (auto simp: find_None_all)
next
  case (Some y)
  then show ?thesis using find_Some_mem [OF Some] assms(3) by simp
qed

text \<open>The rows a pass writes and the keys it deletes.\<close>

definition pass_upserts :: "fpath \<Rightarrow> fsys \<Rightarrow> string \<Rightarrow> bool \<Rightarrow> database \<Rightarrow> ObjectRow list" where
  "pass_upserts rs f b force d =
     List.map_filter (\<lambda>cs. snd (visit_result rs f b force (bucket_rows b d) cs)) (bucket_files rs f b)"

definition pass_deletes :: "fpath \<Rightarrow> fsys \<Rightarrow> string \<Rightarrow> database \<Rightarrow> string list" where
  "pass_deletes rs f b d =
     filter (\<lambda>k. k \<notin> set (map comp_key (bucket_files rs f b))) (map oKey (bucket_rows b d))"

definition pass_row :: "fpath \<Rightarrow> fsys \<Rightarrow> string \<Rightarrow> bool \<Rightarrow> database \<Rightarrow> fpath \<Rightarrow> ObjectRow option" where
  "pass_row rs f b force d cs =
     (case fs_node f (rs @ b # cs) of
        Some (File data t) \<Rightarrow> if keeps_row force (bucket_rows b d) (comp_key cs) data then sel_object b (comp_key cs) d
                      else Some (stored_row (fresh_row rs f b cs))
      | _ \<Rightarrow> None)"

lemma walk_quiet:
  assumes st: "storage_at rs s" "bucket_ok b" and "wfaults w = []" and dir: "fs_node (wfs w) (rs @ [b]) = Some Directory"
  shows "walkObjectFiles (bucketDir s b) w = (Inr (map (file_entry rs (wfs w) b) (bucket_files rs (wfs w) b)), w)"
proof -
  have bd: "path_comps (bucketDir s b) = rs @ [b]"
    unfolding bucketDir_at [OF st] by (rule path_comps_abs) (use st in \<open>simp add: storage_at_def bucket_ok_def\<close>)
  have "object_files (wfs w) (rs @ [b]) = map (\<lambda>cs. (rs @ [b]) @ cs) (bucket_files rs (wfs w) b)"
    using object_files_below(1) [OF dir] by (simp add: bucket_files_def)
  then show ?thesis
    using assms(3) dir by (simp add: walkObjectFiles_def os_query_quiet bd file_entry_def)
qed

lemma ReindexBucket_quiet:
  fixes force :: bool
  assumes st: "storage_at rs s" "bucket_ok b" and q: "wfaults w = []" "fs_ok w"
    and names: "fs_names (wfs w)" and dir: "fs_node (wfs w) (rs @ [b]) = Some Directory"
    and ready: "\<And>cs. object_file rs (wfs w) b cs \<Longrightarrow> side_ready rs (wfs w) b cs"
  defines "ups \<equiv> pass_upserts rs (wfs w) b force (wdb w)" and "dels \<equiv> pass_deletes rs (wfs w) b (wdb w)"
  obtains g where
    "ReindexBucket s b force w =
       (Inr (length ups + length dels), w\<lparr>wfs := g, wdb := fold (del_object b) dels (fold ups_object ups (wdb w))\<rparr>)"
    "same_but_sides rs (wfs w) b (bucket_files rs (wfs w) b) g"
proof -
  let ?f = "wfs w" and ?css = "bucket_files rs (wfs w) b"
  have pd: "proper (rs @ [b])" using st by (simp add: storage_at_def bucket_ok_def)
  have bd: "path_comps (bucketDir s b) = rs @ [b]" using pd st by (simp add: bucketDir_at)
  note files = walk_quiet [OF st q(1) dir]
  obtain g where g: "for_each (reindex_file s b force (bucket_rows b (wdb w))) (map (file_entry rs ?f b) ?css) w =
           (Inr (map (visit_result rs ?f b force (bucket_rows b (wdb w))) ?css), w\<lparr>wfs := g\<rparr>)"
         "same_but_sides rs ?f b ?css g"
    using reindex_files_quiet [OF st q, of ?css force "bucket_rows b (wdb w)"]
      distinct_bucket_files [OF q(2) dir] bucket_files_set [OF dir] bucket_files_proper [OF names] ready by blast
  have u: "List.map_filter snd (map (visit_result rs ?f b force (bucket_rows b (wdb w))) ?css) = ups"
    by (simp add: ups_def pass_upserts_def List.map_filter_def filter_map comp_def)
  have d: "filter (\<lambda>k. k \<notin> set (map fst (map (visit_result rs ?f b force (bucket_rows b (wdb w))) ?css)))
      (map oKey (bucket_rows b (wdb w))) = dels"
    by (simp add: dels_def pass_deletes_def visit_result_def comp_def image_image)
  define keys where "keys = map oKey (bucket_rows b (wdb w))"
  define visited where "visited = map (visit_result rs ?f b force (bucket_rows b (wdb w))) ?css"
  have "ReindexBucket s b force w =
       (Inr (length ups + length dels), w\<lparr>wfs := g, wdb := fold (del_object b) dels (fold ups_object ups (wdb w))\<rparr>)"
    using q(1) dir files g(1) u d unfolding keys_def [symmetric] visited_def [symmetric]
    by (simp add: ReindexBucket_def Let_def andThen_def helpers_quiet bd store_quiet ret_def ApplyIndexChanges_quiet
        flip: keys_def del: length_filter_map)
  with g(2) that show thesis by blast
qed

section \<open>The index after a pass\<close>

lemma mem_map_filter: "r \<in> set (List.map_filter f xs) \<longleftrightarrow> (\<exists>x\<in>set xs. f x = Some r)"
  by (induction xs) (auto simp: List.map_filter_simps split: option.splits)

lemma pass_upserts_set:
  assumes "fs_node f (rs @ [b]) = Some Directory"
  shows "r \<in> set (pass_upserts rs f b force d) \<longleftrightarrow>
    (\<exists>cs data t. object_file rs f b cs \<and> fs_node f (rs @ b # cs) = Some (File data t) \<and>
       \<not> keeps_row force (bucket_rows b d) (comp_key cs) data \<and> r = fresh_row rs f b cs)"
proof -
  have "snd (visit_result rs f b force (bucket_rows b d) cs) = Some r \<longleftrightarrow>
      (\<exists>data t. fs_node f (rs @ b # cs) = Some (File data t) \<and>
         \<not> keeps_row force (bucket_rows b d) (comp_key cs) data \<and> r = fresh_row rs f b cs)" for cs
    by (auto simp: visit_result_def split: option.splits fnode.splits)
  then show ?thesis
    by (simp only: pass_upserts_def mem_map_filter Bex_def bucket_files_set [OF assms]) blast
qed

lemma fresh_row_id: "object_file rs f b cs \<Longrightarrow> row_id (fresh_row rs f b cs) = (b, comp_key cs)"
  by (auto simp: object_file_def is_File_iff fresh_row_def disk_row_def)

lemma pass_lookup:
  assumes dir: "fs_node f (rs @ [b]) = Some Directory" and names: "fs_names f"
  shows "sel_object b' k (fold (del_object b) (pass_deletes rs f b d) (fold ups_object (pass_upserts rs f b force d) d)) =
    (if b' \<noteq> b then sel_object b' k d
     else if \<exists>cs. object_file rs f b cs \<and> k = comp_key cs then pass_row rs f b force d (key_comps k) else None)"
proof -
  let ?U = "pass_upserts rs f b force d" and ?D = "pass_deletes rs f b d"
  let ?find = "find (\<lambda>r. row_id r = (b', k)) (rev ?U)"
  have up: "\<exists>cs data t. object_file rs f b cs \<and> fs_node f (rs @ b # cs) = Some (File data t) \<and>
      \<not> keeps_row force (bucket_rows b d) (comp_key cs) data \<and> r = fresh_row rs f b cs \<and> row_id r = (b, comp_key cs)"
    if "r \<in> set ?U" for r
    using that fresh_row_id unfolding pass_upserts_set [OF dir] by blast
  note batch = idx.lookup_batch [of b' k b ?D ?U d]
  show ?thesis
  proof (cases "b' = b \<and> (\<exists>cs. object_file rs f b cs \<and> k = comp_key cs)")
    case True
    then obtain cs where cs: "object_file rs f b cs" "k = comp_key cs" and b': "b' = b" by blast
    have pr: "proper cs" "cs \<noteq> []" using bucket_files_proper [OF names cs(1)] cs(1) by (auto simp: object_file_def)
    obtain data t where n: "fs_node f (rs @ b # cs) = Some (File data t)"
      using cs(1) by (auto simp: object_file_def is_File_iff)
    have same: "ds = cs" if "object_file rs f b ds" "comp_key ds = k" for ds
      using that bucket_files_proper [OF names that(1)] pr cs(2) comp_key_inject [of ds cs] by (auto simp: object_file_def)
    have nd: "k \<notin> set ?D" using cs bucket_files_set [OF dir] by (auto simp: pass_deletes_def)
    have res: "pass_row rs f b force d (key_comps k) = (if keeps_row force (bucket_rows b d) k data
        then sel_object b k d else Some (stored_row (fresh_row rs f b cs)))"
      using n pr cs(2) by (simp add: pass_row_def)
    show ?thesis
    proof (cases "keeps_row force (bucket_rows b d) k data")
      case kept: True
      have "row_id r \<noteq> (b, k)" if "r \<in> set ?U" for r
        using up [OF that] same kept n by fastforce
      then have "?find = None" using b' by (auto simp: find_None_all)
      with batch nd kept True res show ?thesis by simp
    next
      case False
      have mem: "fresh_row rs f b cs \<in> set ?U" unfolding pass_upserts_set [OF dir] using cs n False by blast
      have "?find = Some (fresh_row rs f b cs)"
      proof (rule find_unique)
        show "fresh_row rs f b cs \<in> set (rev ?U)" using mem by simp
        show "row_id (fresh_row rs f b cs) = (b', k)" using fresh_row_id [OF cs(1)] b' cs(2) by simp
        show "r = fresh_row rs f b cs" if "r \<in> set (rev ?U)" "row_id r = (b', k)" for r
        proof -
          obtain ds where "object_file rs f b ds" "r = fresh_row rs f b ds" "row_id r = (b, comp_key ds)"
            using up [of r] \<open>r \<in> set (rev ?U)\<close> by auto
          with that(2) same show ?thesis by auto
        qed
      qed
      with batch nd False True res show ?thesis by simp
    qed
  next
    case False
    have "row_id r \<noteq> (b', k)" if "r \<in> set ?U" for r
      using up [OF that] False by auto
    then have "?find = None" by (auto simp: find_None_all)
    moreover have "k \<in> set ?D \<or> sel_object b k d = None" if "b' = b"
      using False that sel_object_rowD [of b k d] bucket_files_set [OF dir]
      by (cases "sel_object b k d") (auto simp: pass_deletes_def bucket_rows_def)
    ultimately show ?thesis using batch False by auto
  qed
qed

text \<open>
  The index agrees with the disk: one row per object file, with its size and an ETag, and no other
  row in the bucket.
\<close>

definition index_synced :: "fpath \<Rightarrow> fsys \<Rightarrow> string \<Rightarrow> database \<Rightarrow> bool" where
  "index_synced rs f b d \<longleftrightarrow>
     (\<forall>cs data t. object_file rs f b cs \<longrightarrow> fs_node f (rs @ b # cs) = Some (File data t) \<longrightarrow>
        (\<exists>r. sel_object b (comp_key cs) d = Some r \<and> oETag r \<noteq> None \<and> oSize r = int (length data))) \<and>
     (\<forall>k. sel_object b k d \<noteq> None \<longrightarrow> (\<exists>cs. object_file rs f b cs \<and> k = comp_key cs))"

lemma same_but_sides_object:
  assumes "same_but_sides rs f b css g" "bucket_ok b"
  shows "fs_node g (rs @ b # cs) = fs_node f (rs @ b # cs)"
  using assms side_of_apart(1,2) [OF assms(2)] by (auto simp: same_but_sides_def)

lemma synced_after_pass:
  assumes dir: "fs_node f (rs @ [b]) = Some Directory" and names: "fs_names f" and b: "bucket_ok b"
    and g: "same_but_sides rs f b css g"
  shows "index_synced rs g b
     (fold (del_object b) (pass_deletes rs f b d) (fold ups_object (pass_upserts rs f b force d) d))"
proof -
  have obj: "object_file rs g b cs = object_file rs f b cs" for cs
    by (simp add: object_file_def same_but_sides_object [OF g b])
  have row: "\<exists>r. pass_row rs f b force d (key_comps (comp_key cs)) = Some r \<and> oETag r \<noteq> None \<and> oSize r = int (length data)"
    if "object_file rs f b cs" "fs_node f (rs @ b # cs) = Some (File data t)" for cs data t
  proof -
    have k: "key_comps (comp_key cs) = cs"
      using bucket_files_proper [OF names that(1)] that(1) by (simp add: object_file_def)
    show ?thesis
    proof (cases "keeps_row force (bucket_rows b d) (comp_key cs) data")
      case True
      then show ?thesis
        using that(2) by (auto simp: pass_row_def k keeps_row_def indexed_row_sel split: option.splits)
    next
      case False
      then show ?thesis
        using that(2) by (auto simp: pass_row_def k fresh_row_def disk_row_def)
    qed
  qed
  show ?thesis
    unfolding index_synced_def obj same_but_sides_object [OF g b] pass_lookup [OF dir names]
  proof (intro conjI allI impI)
    fix cs data t assume "object_file rs f b cs" "fs_node f (rs @ b # cs) = Some (File data t)"
    from row [OF this] this(1) show "\<exists>r. (if b \<noteq> b then sel_object b (comp_key cs) d
        else if \<exists>ds. object_file rs f b ds \<and> comp_key cs = comp_key ds
          then pass_row rs f b force d (key_comps (comp_key cs)) else None) = Some r \<and>
        oETag r \<noteq> None \<and> oSize r = int (length data)" by auto
  qed (auto split: if_splits)
qed

text \<open>Over an index that agrees with the disk a pass that is not forced does nothing.\<close>

lemma reindex_synced:
  assumes st: "storage_at rs s" "bucket_ok b" and q: "wfaults w = []"
    and names: "fs_names (wfs w)" and dir: "fs_node (wfs w) (rs @ [b]) = Some Directory"
    and sync: "index_synced rs (wfs w) b (wdb w)"
  shows "ReindexBucket s b False w = (Inr 0, w)"
proof -
  let ?f = "wfs w" and ?css = "bucket_files rs (wfs w) b" and ?ex = "bucket_rows b (wdb w)"
  have pd: "proper (rs @ [b])" using st by (simp add: storage_at_def bucket_ok_def)
  have bd: "path_comps (bucketDir s b) = rs @ [b]" using pd st by (simp add: bucketDir_at)
  have "object_files ?f (rs @ [b]) = map (\<lambda>cs. (rs @ [b]) @ cs) ?css"
    using object_files_below(1) [OF dir] by (simp add: bucket_files_def)
  then have files: "walkObjectFiles (bucketDir s b) w = (Inr (map (file_entry rs ?f b) ?css), w)"
    using q dir by (simp add: walkObjectFiles_def os_query_quiet bd file_entry_def)
  have visit: "reindex_file s b False ?ex (file_entry rs ?f b cs) w = (Inr (comp_key cs, None), w)"
    if "cs \<in> set ?css" for cs
  proof -
    have o: "object_file rs ?f b cs" using that bucket_files_set [OF dir] by blast
    then obtain d t where n: "fs_node ?f (rs @ b # cs) = Some (File d t)" by (auto simp: object_file_def is_File_iff)
    have pr: "proper cs" by (rule bucket_files_proper [OF names o])
    have "Rel (bucketDir s b) (abs_path (rs @ b # cs)) = comp_key cs"
      using Rel_below [of "rs @ [b]" cs] pd pr by (simp add: bucketDir_at [OF st])
    moreover obtain r where "sel_object b (comp_key cs) (wdb w) = Some r" "oETag r \<noteq> None" "oSize r = int (length d)"
      using sync o n unfolding index_synced_def by blast
    ultimately show ?thesis
      using q n by (simp add: reindex_file_def andThen_def helpers_quiet Let_def ret_def file_entry_def indexed_row_sel)
  qed
  define visited where "visited = map (\<lambda>cs. (comp_key cs, None :: ObjectRow option)) ?css"
  have "for_each (reindex_file s b False ?ex) (map (file_entry rs ?f b) cs) w
      = (Inr (map (\<lambda>cs. (comp_key cs, None)) cs), w)" if "set cs \<subseteq> set ?css" for cs
    using that visit by (induction cs) auto
  then have pass: "for_each (reindex_file s b False ?ex) (map (file_entry rs ?f b) ?css) w = (Inr visited, w)"
    by (simp add: visited_def)
  have u: "List.map_filter snd visited = []"
    by (simp add: visited_def List.map_filter_def)
  have "k \<in> fst ` set visited" if "k \<in> set (map oKey ?ex)" for k
  proof -
    from that obtain r where "r \<in> set (tblObjects (wdb w))" "oBucket r = b" "oKey r = k"
      by (auto simp: bucket_rows_def)
    then have "sel_object b k (wdb w) \<noteq> None" by (auto simp: sel_object_def find_None_all)
    then obtain cs where "object_file rs ?f b cs" "k = comp_key cs" using sync unfolding index_synced_def by blast
    then show ?thesis using bucket_files_set [OF dir] by (force simp: visited_def)
  qed
  then have d: "filter (\<lambda>k. k \<notin> set (map fst visited)) (map oKey ?ex) = []"
    by (simp add: filter_empty_conv)
  define keys where "keys = map oKey ?ex"
  show ?thesis
    using q dir files pass u d unfolding keys_def [symmetric]
    by (simp add: ReindexBucket_def Let_def andThen_def helpers_quiet bd store_quiet ret_def ApplyIndexChanges_quiet
        flip: keys_def del: filter_map length_filter_map)
qed

end
