(* ===== verification/Aead.thy ===== *)
theory Aead
  imports Hashes
begin

text \<open>
  The authenticated encryption behind \<open>crypto/aes\<close> and \<open>cipher.NewGCM\<close>: AES-256 (FIPS 197) and
  GCM with a 12-byte nonce and a 16-byte tag and no additional data (SP 800-38D), executable.  The
  interface \<open>aead\<close> states what a user of the mode relies on; GCM is shown to satisfy it over every
  block function, so over AES under every key.
\<close>

section \<open>AES-256\<close>

type_synonym byte = "8 word"

definition to_bytes :: "string \<Rightarrow> byte list" where
  "to_bytes s = map (\<lambda>c. word_of_nat (byte_of c)) s"

definition of_bytes :: "byte list \<Rightarrow> string" where
  "of_bytes bs = map (\<lambda>b. char_of (unat b)) bs"

definition aes_sbox_table :: "byte list" where
  "aes_sbox_table =
     [99, 124, 119, 123, 242, 107, 111, 197, 48, 1, 103, 43, 254, 215, 171, 118,
      202, 130, 201, 125, 250, 89, 71, 240, 173, 212, 162, 175, 156, 164, 114, 192,
      183, 253, 147, 38, 54, 63, 247, 204, 52, 165, 229, 241, 113, 216, 49, 21,
      4, 199, 35, 195, 24, 150, 5, 154, 7, 18, 128, 226, 235, 39, 178, 117,
      9, 131, 44, 26, 27, 110, 90, 160, 82, 59, 214, 179, 41, 227, 47, 132,
      83, 209, 0, 237, 32, 252, 177, 91, 106, 203, 190, 57, 74, 76, 88, 207,
      208, 239, 170, 251, 67, 77, 51, 133, 69, 249, 2, 127, 80, 60, 159, 168,
      81, 163, 64, 143, 146, 157, 56, 245, 188, 182, 218, 33, 16, 255, 243, 210,
      205, 12, 19, 236, 95, 151, 68, 23, 196, 167, 126, 61, 100, 93, 25, 115,
      96, 129, 79, 220, 34, 42, 144, 136, 70, 238, 184, 20, 222, 94, 11, 219,
      224, 50, 58, 10, 73, 6, 36, 92, 194, 211, 172, 98, 145, 149, 228, 121,
      231, 200, 55, 109, 141, 213, 78, 169, 108, 86, 244, 234, 101, 122, 174, 8,
      186, 120, 37, 46, 28, 166, 180, 198, 232, 221, 116, 31, 75, 189, 139, 138,
      112, 62, 181, 102, 72, 3, 246, 14, 97, 53, 87, 185, 134, 193, 29, 158,
      225, 248, 152, 17, 105, 217, 142, 148, 155, 30, 135, 233, 206, 85, 40, 223,
      140, 161, 137, 13, 191, 230, 66, 104, 65, 153, 45, 15, 176, 84, 187, 22]"

definition aes_sbox :: "byte \<Rightarrow> byte" where
  "aes_sbox b = aes_sbox_table ! unat b"

definition aes_xtime :: "byte \<Rightarrow> byte" where
  "aes_xtime b = (push_bit 1 b) XOR (if bit b 7 then 27 else 0)"

definition xor_bytes :: "byte list \<Rightarrow> byte list \<Rightarrow> byte list" where
  "xor_bytes xs ys = map2 (XOR) xs ys"

text \<open>Key expansion: \<open>ws\<close> is the schedule so far, \<open>i\<close> the index of the next word, \<open>rc\<close> the round constant.\<close>

fun aes_expand :: "nat \<Rightarrow> nat \<Rightarrow> byte \<Rightarrow> byte list list \<Rightarrow> byte list list" where
  "aes_expand 0 i rc ws = ws"
| "aes_expand (Suc n) i rc ws =
     (let prev = last ws; base = ws ! (i - 8) in
      if i mod 8 = 0 then
        (let t = map aes_sbox (tl prev @ [hd prev]) in
         aes_expand n (Suc i) (aes_xtime rc) (ws @ [xor_bytes base ((hd t XOR rc) # tl t)]))
      else if i mod 8 = 4 then aes_expand n (Suc i) rc (ws @ [xor_bytes base (map aes_sbox prev)])
      else aes_expand n (Suc i) rc (ws @ [xor_bytes base prev]))"

definition aes_round_keys :: "string \<Rightarrow> byte list list" where
  "aes_round_keys key = map concat (chunks 4 (aes_expand 52 8 1 (chunks 4 (to_bytes key))))"

definition aes_shift_rows :: "byte list \<Rightarrow> byte list" where
  "aes_shift_rows st = map (\<lambda>i. st ! (5 * i mod 16)) [0..<16]"

fun aes_mix_column :: "byte list \<Rightarrow> byte list" where
  "aes_mix_column [a, b, c, d] =
     (let t = a XOR b XOR c XOR d in
      [a XOR t XOR aes_xtime (a XOR b), b XOR t XOR aes_xtime (b XOR c),
       c XOR t XOR aes_xtime (c XOR d), d XOR t XOR aes_xtime (d XOR a)])"
| "aes_mix_column col = col"

definition aes_round :: "byte list \<Rightarrow> byte list \<Rightarrow> byte list" where
  "aes_round rk st =
     xor_bytes (concat (map aes_mix_column (chunks 4 (aes_shift_rows (map aes_sbox st))))) rk"

definition aes256_block :: "string \<Rightarrow> string \<Rightarrow> string" where
  "aes256_block key block =
     (let rks = aes_round_keys key;
          s0 = xor_bytes (to_bytes block) (hd rks);
          s13 = fold aes_round (butlast (tl rks)) s0
      in of_bytes (xor_bytes (aes_shift_rows (map aes_sbox s13)) (last rks)))"

section \<open>GCM over a block function\<close>

type_synonym block_fun = "string \<Rightarrow> string"

type_synonym word128 = "128 word"

definition block_word :: "string \<Rightarrow> word128" where
  "block_word s = foldl (\<lambda>a c. a * 256 + word_of_nat (byte_of c)) 0 s"

definition gf_step :: "word128 \<Rightarrow> nat \<Rightarrow> word128 \<times> word128 \<Rightarrow> word128 \<times> word128" where
  "gf_step x i zv = (case zv of (z, v) \<Rightarrow>
     (if bit x (127 - i) then z XOR v else z,
      (drop_bit 1 v) XOR (if bit v 0 then push_bit 120 225 else 0)))"

definition gf_mult :: "word128 \<Rightarrow> word128 \<Rightarrow> word128" where
  "gf_mult x y = fst (fold (gf_step x) [0..<128] (0, y))"

definition zero_pad16 :: "string \<Rightarrow> string" where
  "zero_pad16 s = s @ replicate ((16 - length s mod 16) mod 16) (CHR 0x00)"

definition ghash :: "word128 \<Rightarrow> string \<Rightarrow> word128" where
  "ghash h s = fold (\<lambda>b y. gf_mult (y XOR block_word b) h) (chunks 16 s) 0"

definition gcm_counter :: "string \<Rightarrow> nat \<Rightarrow> string" where
  "gcm_counter nonce i = nonce @ be_bytes 4 (i mod 2 ^ 32)"

fun keystream :: "block_fun \<Rightarrow> string \<Rightarrow> nat \<Rightarrow> nat \<Rightarrow> string" where
  "keystream ek nonce i 0 = []"
| "keystream ek nonce i (Suc n) = ek (gcm_counter nonce i) @ keystream ek nonce (Suc i) n"

definition xor_string :: "string \<Rightarrow> string \<Rightarrow> string" where
  "xor_string s k = map2 xor_byte s (take (length s) (k @ replicate (length s - length k) (CHR 0x00)))"

definition gcm_ctr :: "block_fun \<Rightarrow> string \<Rightarrow> string \<Rightarrow> string" where
  "gcm_ctr ek nonce s = xor_string s (keystream ek nonce 2 ((length s + 15) div 16))"

definition gcm_tag :: "block_fun \<Rightarrow> string \<Rightarrow> string \<Rightarrow> string" where
  "gcm_tag ek nonce c =
     (let h = block_word (ek (replicate 16 (CHR 0x00)));
          s = ghash h (zero_pad16 c @ be_bytes 8 0 @ be_bytes 8 (8 * length c))
      in take 16 (xor_string (be_bytes 16 (unat s)) (ek (gcm_counter nonce 1))))"

definition gcm_nonce_size :: nat where "gcm_nonce_size = 12"
definition gcm_overhead :: nat where "gcm_overhead = 16"

definition gcm_seal :: "block_fun \<Rightarrow> string \<Rightarrow> string \<Rightarrow> string" where
  "gcm_seal ek nonce p = (let c = gcm_ctr ek nonce p in c @ gcm_tag ek nonce c)"

definition gcm_open :: "block_fun \<Rightarrow> string \<Rightarrow> string \<Rightarrow> string option" where
  "gcm_open ek nonce ct =
     (if length ct < gcm_overhead then None
      else (let c = take (length ct - gcm_overhead) ct; t = drop (length ct - gcm_overhead) ct
            in if t = gcm_tag ek nonce c then Some (gcm_ctr ek nonce c) else None))"

section \<open>The interface and its provider\<close>

locale aead =
  fixes seal :: "string \<Rightarrow> string \<Rightarrow> string"
    and unseal :: "string \<Rightarrow> string \<Rightarrow> string option"
    and overhead :: nat
  assumes open_seal: "unseal n (seal n p) = Some p"
    and open_only_sealed: "unseal n c = Some p \<Longrightarrow> c = seal n p"
    and length_seal: "length (seal n p) = length p + overhead"
begin

lemma open_iff: "unseal n c = Some p \<longleftrightarrow> c = seal n p"
  using open_only_sealed open_seal by blast

lemma seal_inject: "seal n p = seal n q \<longleftrightarrow> p = q"
  by (metis open_seal option.inject)

lemma open_short: "length c < overhead \<Longrightarrow> unseal n c = None"
  by (cases "unseal n c") (auto dest!: open_only_sealed simp: length_seal)

text \<open>The layout nonce, ciphertext, tag in one string, and reading it back.\<close>

lemma open_combined:
  "length n = k \<Longrightarrow> unseal (take k (n @ seal n p)) (drop k (n @ seal n p)) = Some p"
  by (simp add: open_seal)

end

lemma xor_byte_cancel [simp]: "xor_byte (xor_byte a b) b = a"
proof -
  have "take_bit 8 (byte_of a XOR byte_of b) = byte_of a XOR byte_of b"
    by (simp add: take_bit_xor take_bit_nat_eq_self)
  then have "byte_of a XOR byte_of b < 256"
    using take_bit_nat_less_exp [of 8 "byte_of a XOR byte_of b"] by simp
  then show ?thesis by (simp add: xor_byte_def xor.assoc)
qed

lemma length_xor_string [simp]: "length (xor_string s k) = length s"
  by (simp add: xor_string_def)

lemma map2_xor_byte_cancel: "length s = length k \<Longrightarrow> map2 xor_byte (map2 xor_byte s k) k = s"
  by (induction s k rule: list_induct2) auto

lemma xor_string_cancel [simp]: "xor_string (xor_string s k) k = s"
proof -
  let ?k = "take (length s) (k @ replicate (length s - length k) (CHR 0x00))"
  have "length s = length ?k" by simp
  then show ?thesis using map2_xor_byte_cancel [of s ?k] by (simp add: xor_string_def)
qed

lemma length_gcm_ctr [simp]: "length (gcm_ctr ek n s) = length s"
  by (simp add: gcm_ctr_def)

lemma gcm_ctr_involution [simp]: "gcm_ctr ek n (gcm_ctr ek n s) = s"
proof -
  have "gcm_ctr ek n (gcm_ctr ek n s)
      = xor_string (gcm_ctr ek n s) (keystream ek n 2 ((length s + 15) div 16))"
    by (simp add: gcm_ctr_def)
  then show ?thesis by (simp add: gcm_ctr_def)
qed

lemma length_gcm_tag [simp]: "length (gcm_tag ek n c) = gcm_overhead"
  by (simp add: gcm_tag_def Let_def gcm_overhead_def)

lemma gcm_open_seal: "gcm_open ek n (gcm_seal ek n p) = Some p"
  by (simp add: gcm_open_def gcm_seal_def Let_def)

lemma gcm_open_only_sealed: "gcm_open ek n c = Some p \<Longrightarrow> c = gcm_seal ek n p"
  by (auto simp: gcm_open_def gcm_seal_def Let_def split: if_splits)
    (metis append_take_drop_id)

interpretation gcm: aead "gcm_seal ek" "gcm_open ek" gcm_overhead for ek
  by unfold_locales
    (rule gcm_open_seal, erule gcm_open_only_sealed, simp add: gcm_seal_def Let_def)

end
