(* ===== verification/Crypto.thy ===== *)
theory Crypto
  imports Aead Base64 ApiErrors
begin

text \<open>
  \<open>crypto.go\<close>: encryption of bucket secrets under the master key, generation of key pairs, and the
  request signature.  Randomness is an argument: \<open>rand_bytes n r\<close> are the \<open>n\<close> bytes the system
  generator delivered (\<open>rand.Read\<close> never fails).  A \<open>Crypto\<close> value holds the AES-256 key its AEAD was
  built from.
\<close>

section \<open>Randomness\<close>

definition rand_bytes :: "nat \<Rightarrow> string \<Rightarrow> string" where
  "rand_bytes n r = take n (r @ replicate n (CHR 0x00))"

lemma length_rand_bytes [simp]: "length (rand_bytes n r) = n"
  by (simp add: rand_bytes_def)

lemma rand_bytes_id [simp]: "length r = n \<Longrightarrow> rand_bytes n r = r"
  by (simp add: rand_bytes_def)

section \<open>Secrets at rest\<close>

record Crypto =
  aead_key :: string

definition aead_seal :: "Crypto \<Rightarrow> string \<Rightarrow> string \<Rightarrow> string" where
  "aead_seal c = gcm_seal (aes256_block (aead_key c))"

definition aead_open :: "Crypto \<Rightarrow> string \<Rightarrow> string \<Rightarrow> string option" where
  "aead_open c = gcm_open (aes256_block (aead_key c))"

definition NewCrypto :: "string \<Rightarrow> Crypto go_result" where
  "NewCrypto masterKeyBase64 =
     (if masterKeyBase64 = [] then
        Inl (PlainErr ''S3BENDER_MASTER_KEY is not set. Generate one with: openssl rand -base64 32'')
      else case StdDecode masterKeyBase64 of
        None \<Rightarrow> Inl (PlainErr ''S3BENDER_MASTER_KEY is not valid base64: illegal base64 data'')
      | Some key \<Rightarrow>
          if length key \<noteq> 32 then
            Inl (PlainErr ''S3BENDER_MASTER_KEY must decode to exactly 32 bytes (AES-256)'')
          else Inr \<lparr>aead_key = key\<rparr>)"

definition EncryptSecret :: "Crypto \<Rightarrow> string \<Rightarrow> string \<Rightarrow> string" where
  "EncryptSecret c rnd plaintext =
     (let nonce = rand_bytes gcm_nonce_size rnd
      in StdEncode (nonce @ aead_seal c nonce plaintext))"

definition DecryptSecret :: "Crypto \<Rightarrow> string \<Rightarrow> string go_result" where
  "DecryptSecret c encoded =
     (case StdDecode encoded of
        None \<Rightarrow> Inl (PlainErr ''illegal base64 data'')
      | Some combined \<Rightarrow>
          (let n = gcm_nonce_size in
           if length combined < n + gcm_overhead then Inl (PlainErr ''encrypted secret is truncated'')
           else case aead_open c (take n combined) (drop n combined) of
                  None \<Rightarrow> Inl (PlainErr ''cipher: message authentication failed'')
                | Some plain \<Rightarrow> Inr plain))"

definition randomBase64URL :: "nat \<Rightarrow> string \<Rightarrow> string" where
  "randomBase64URL n rnd = RawURLEncode (rand_bytes n rnd)"

definition GenerateAccessKey :: "string \<Rightarrow> string" where
  "GenerateAccessKey rnd = ''AK'' @ randomBase64URL 16 rnd"

definition GenerateSecretKey :: "string \<Rightarrow> string" where
  "GenerateSecretKey rnd = randomBase64URL 32 rnd"

interpretation secret_aead: aead "aead_seal c" "aead_open c" gcm_overhead for c
  unfolding aead_seal_def aead_open_def by (rule gcm.aead_axioms)

lemma decrypt_encrypt: "DecryptSecret c (EncryptSecret c rnd s) = Inr s"
proof -
  let ?n = "rand_bytes gcm_nonce_size rnd"
  have "length (?n @ aead_seal c ?n s) = gcm_nonce_size + (length s + gcm_overhead)"
    by (simp add: secret_aead.length_seal)
  moreover have "aead_open c (take gcm_nonce_size (?n @ aead_seal c ?n s))
      (drop gcm_nonce_size (?n @ aead_seal c ?n s)) = Some s"
    by (rule secret_aead.open_combined) simp
  ultimately show ?thesis
    by (simp add: EncryptSecret_def DecryptSecret_def std64.dec_enc Let_def)
qed

text \<open>
  Only what was sealed under the same key decrypts: a successful \<open>DecryptSecret\<close> determines the
  stored bytes as a nonce followed by the sealing of the returned secret under that nonce.
\<close>

lemma decrypt_only_sealed:
  assumes "DecryptSecret c enc = Inr s"
  shows "\<exists>nonce. length nonce = gcm_nonce_size \<and> StdDecode enc = Some (nonce @ aead_seal c nonce s)"
proof -
  from assms obtain comb where comb: "StdDecode enc = Some comb"
      "gcm_nonce_size + gcm_overhead \<le> length comb"
      "aead_open c (take gcm_nonce_size comb) (drop gcm_nonce_size comb) = Some s"
    by (auto simp: DecryptSecret_def Let_def split: option.splits if_splits)
  have "comb = take gcm_nonce_size comb @ aead_seal c (take gcm_nonce_size comb) s"
    using secret_aead.open_only_sealed [OF comb(3)] by (metis append_take_drop_id)
  then show ?thesis
    using comb(1,2) by (intro exI [of _ "take gcm_nonce_size comb"]) simp
qed

text \<open>Generated keys: fixed length, URL-safe characters, and one key per random string.\<close>

lemma access_key_format:
  "length (GenerateAccessKey rnd) = 24 \<and> HasPrefix (GenerateAccessKey rnd) ''AK''
   \<and> (\<forall>c\<in>set (GenerateAccessKey rnd). unreserved c)"
proof -
  have "unreserved (CHR ''A'')" "unreserved (CHR ''K'')" by (simp_all add: unreserved_def)
  then show ?thesis
    by (auto simp: GenerateAccessKey_def randomBase64URL_def length_raw_encode prefix_def
        dest: url64.enc_alphabet [OF TrueI])
qed

lemma secret_key_format:
  "length (GenerateSecretKey rnd) = 43 \<and> (\<forall>c\<in>set (GenerateSecretKey rnd). unreserved c)"
  by (auto simp: GenerateSecretKey_def randomBase64URL_def length_raw_encode
      dest: url64.enc_alphabet [OF TrueI])

lemma generated_keys_inject:
  "length r = 16 \<Longrightarrow> length r' = 16 \<Longrightarrow> GenerateAccessKey r = GenerateAccessKey r' \<longleftrightarrow> r = r'"
  "length q = 32 \<Longrightarrow> length q' = 32 \<Longrightarrow> GenerateSecretKey q = GenerateSecretKey q' \<longleftrightarrow> q = q'"
  by (simp_all add: GenerateAccessKey_def GenerateSecretKey_def randomBase64URL_def url64.enc_inject)

section \<open>Signatures\<close>

definition newline :: char where "newline = CHR 0x0A"

definition StringToSign :: "string \<Rightarrow> string \<Rightarrow> int64 \<Rightarrow> string" where
  "StringToSign mth path epochSeconds = mth @ [newline] @ path @ [newline] @ FormatInt epochSeconds"

definition Sign :: "string \<Rightarrow> string \<Rightarrow> string" where
  "Sign secretKey stringToSign = hex_encode (hmac_sha256 secretKey stringToSign)"

text \<open>\<open>subtle.ConstantTimeCompare\<close>: the differences of all byte pairs, accumulated with OR.\<close>

definition byte_diff :: "string \<Rightarrow> string \<Rightarrow> nat" where
  "byte_diff x y = fold (\<lambda>(a, b) v. v OR (byte_of a XOR byte_of b)) (zip x y) 0"

definition ConstantTimeCompare :: "string \<Rightarrow> string \<Rightarrow> nat" where
  "ConstantTimeCompare x y =
     (if length x \<noteq> length y then 0 else if byte_diff x y = 0 then 1 else 0)"

definition SignatureMatches :: "string \<Rightarrow> string \<Rightarrow> bool" where
  "SignatureMatches expected provided \<longleftrightarrow> ConstantTimeCompare expected provided = 1"

lemma or_eq_0_nat: "(a :: nat) OR b = 0 \<longleftrightarrow> a = 0 \<and> b = 0"
  by (metis bit.disj_zero_right or_eq_0_iff)

lemma xor_eq_0_nat: "(a :: nat) XOR b = 0 \<longleftrightarrow> a = b"
  by (metis xor.assoc xor.left_neutral xor_self_eq xor.right_neutral)

lemma byte_diff_acc:
  "length x = length y \<Longrightarrow>
     fold (\<lambda>(a, b) v. v OR (byte_of a XOR byte_of b)) (zip x y) acc = 0 \<longleftrightarrow> acc = 0 \<and> x = y"
  by (induction x y arbitrary: acc rule: list_induct2) (auto simp: or_eq_0_nat xor_eq_0_nat)

lemma constant_time_compare_iff: "ConstantTimeCompare x y = 1 \<longleftrightarrow> x = y"
  by (auto simp: ConstantTimeCompare_def byte_diff_def byte_diff_acc)

text \<open>What the authentication middleware relies on.\<close>

locale signature_scheme =
  fixes sign :: "string \<Rightarrow> string \<Rightarrow> string"
    and matches :: "string \<Rightarrow> string \<Rightarrow> bool"
    and payload :: "string \<Rightarrow> string \<Rightarrow> int64 \<Rightarrow> string"
    and sig_char :: "char \<Rightarrow> bool"
  assumes matches_iff: "matches e p \<longleftrightarrow> e = p"
    and payload_inject: "newline \<notin> set m \<Longrightarrow> newline \<notin> set m' \<Longrightarrow>
      payload m p t = payload m' p' t' \<longleftrightarrow> m = m' \<and> p = p' \<and> t = t'"
    and sign_chars: "c \<in> set (sign k s) \<Longrightarrow> sig_char c"
    and sign_nonempty: "sign k s \<noteq> []"
begin

lemma own_signature_matches [simp]: "matches (sign k s) (sign k s)"
  by (simp add: matches_iff)

text \<open>
  A signature presented for one request and accepted for another is a collision of the keyed
  digest on two different strings: the payload itself never confuses two requests.
\<close>

lemma cross_request_needs_collision:
  assumes "newline \<notin> set m" and "newline \<notin> set m'"
    and "matches (sign k (payload m p t)) (sign k (payload m' p' t'))"
    and "(m, p, t) \<noteq> (m', p', t')"
  shows "payload m p t \<noteq> payload m' p' t' \<and> sign k (payload m p t) = sign k (payload m' p' t')"
  using assms by (auto simp: matches_iff payload_inject)

end

lemma newline_not_int_char: "\<not> int_char newline"
  by (simp add: newline_def int_char_def is_digit_def)

lemma string_to_sign_inject:
  assumes "newline \<notin> set m" and "newline \<notin> set m'"
  shows "StringToSign m p t = StringToSign m' p' t' \<longleftrightarrow> m = m' \<and> p = p' \<and> t = t'"
proof -
  have "StringToSign m p t = StringToSign m' p' t' \<longleftrightarrow>
      (m @ newline # p) @ newline # FormatInt t = (m' @ newline # p') @ newline # FormatInt t'"
    by (simp add: StringToSign_def)
  also have "\<dots> \<longleftrightarrow> m @ newline # p = m' @ newline # p' \<and> t = t'"
    by (simp only: dec64.last_field_inject [OF TrueI TrueI newline_not_int_char])
  also have "\<dots> \<longleftrightarrow> m = m' \<and> p = p' \<and> t = t'"
    using assms by (auto dest: first_segment_unique)
  finally show ?thesis .
qed

lemma length_Sign [simp]: "length (Sign k s) = 64"
  by (simp add: Sign_def)

lemma Sign_nonempty [simp]: "Sign k s \<noteq> []"
  using length_Sign [of k s] by force

interpretation hmac_sig: signature_scheme Sign SignatureMatches StringToSign is_lower_hex
  by unfold_locales
    (auto simp: SignatureMatches_def constant_time_compare_iff [simplified] string_to_sign_inject Sign_def
       dest: hexc.enc_alphabet [OF TrueI] simp flip: length_0_conv)

end
