(* ===== verification/Examples.thy ===== *)
theory Examples
  imports StorageFaults StorageIndex Crypto
begin

text \<open>
  A small server state on which the properties are applied: a storage root \<open>/data\<close> with one bucket
  \<open>photos\<close>, one object in it, its sidecar and its row.
\<close>

definition ex_storage :: Storage where
  "ex_storage = \<lparr>root = ''/data'', metaRoot = ''/data/.meta''\<rparr>"

definition ex_etag :: string where "ex_etag = ''49f68a5c8493ec2c0bf489821c21fc3b''"

definition ex_side :: string where
  "ex_side = marshalMeta \<lparr>mContentType = Some ''text/plain'', mPublic = False, mETag = Some ex_etag\<rparr>"

definition ex_fs :: fsys where
  "ex_fs =
     [([''data''], Directory), ([''data'', ''.meta''], Directory), ([''data'', ''photos''], Directory),
      ([''data'', ''photos'', ''a''], Directory), ([''data'', ''photos'', ''a'', ''x.txt''], File ''hi'' 0),
      ([''data'', ''.meta'', ''photos''], Directory), ([''data'', ''.meta'', ''photos'', ''a''], Directory),
      ([''data'', ''.meta'', ''photos'', ''a'', ''x.txt''], File ex_side 0)]"

text \<open>The secret of the bucket is kept sealed; no proof evaluates the cipher.\<close>

definition ex_crypto :: Crypto where
  "ex_crypto = \<lparr>aead_key = replicate 32 (CHR ''k'')\<rparr>"

definition ex_bucket :: Bucket where
  "ex_bucket = \<lparr>Name = ''photos'', Description = None, AccessKey = ''AK1'',
     EncryptedSecretKey = EncryptSecret ex_crypto [] ''s3cr3t'', CreatedAt = 0\<rparr>"

definition ex_row :: ObjectRow where
  "ex_row = \<lparr>oBucket = ''photos'', oKey = ''a/x.txt'', oSize = 2, oLastModified = 0,
     oETag = Some ex_etag, oContentType = Some ''text/plain'', oPublic = False\<rparr>"

definition ex_db :: database where
  "ex_db = \<lparr>tblBuckets = [ex_bucket], tblObjects = [ex_row]\<rparr>"

definition ex_world :: world where
  "ex_world = \<lparr>wfs = ex_fs, wdb = ex_db, wnow = 1700000000, wfaults = []\<rparr>"

text \<open>The same state with a disk that fails one byte into the next write.\<close>

definition ex_world_faulty :: world where
  "ex_world_faulty = ex_world\<lparr>wfaults := [NoFault, NoFault, Short 1]\<rparr>"

lemma ex_storage_at: "storage_at [''data''] ex_storage"
  by (simp add: storage_at_def ex_storage_def abs_path_def slash_def proper_comp_def dotdot_def)

lemma ex_bucket_ok: "bucket_ok ''photos''"
  by (simp add: bucket_ok_def slash_def proper_comp_def dotdot_def)

lemma ex_key_ok: "key_ok ''a/x.txt''" "key_ok ''b.txt''"
  by code_simp+

lemma ex_key_bad: "\<not> key_ok ''../etc/passwd''"
  by code_simp

lemma ex_comps [simp]: "key_comps ''a/x.txt'' = [''a'', ''x.txt'']" "key_comps ''b.txt'' = [''b.txt'']"
  by code_simp+

lemma ex_fs_wf: "fs_wf ex_fs" and ex_fs_names: "fs_names ex_fs"
  by code_simp+

lemma ex_db_wf: "db_wf ex_db"
  by (simp add: db_wf_def ex_db_def)

lemma ex_bucket_simps [simp]:
  "Name ex_bucket = ''photos''" "AccessKey ex_bucket = ''AK1''"
  "DecryptSecret ex_crypto (EncryptedSecretKey ex_bucket) = Inr ''s3cr3t''"
  by (simp_all add: ex_bucket_def decrypt_encrypt)

lemma ex_sel [simp]:
  "sel_bucket ''photos'' ex_db = Some ex_bucket" "sel_bucket_by_key ''AK1'' ex_db = Some ex_bucket"
  "sel_object ''photos'' ''a/x.txt'' ex_db = Some ex_row" "sel_object ''photos'' ''b.txt'' ex_db = None"
  by (simp_all add: sel_bucket_def sel_bucket_by_key_def sel_object_def ex_db_def ex_row_def)

lemma ex_temps_ok: "temps_ok ''b.txt'' [''1'']"
  by code_simp

lemma ex_world_simps [simp]:
  "wfs ex_world = ex_fs" "wdb ex_world = ex_db" "wnow ex_world = 1700000000" "wfaults ex_world = []"
  "wfs ex_world_faulty = ex_fs" "wdb ex_world_faulty = ex_db" "wnow ex_world_faulty = 1700000000"
  by (simp_all add: ex_world_def ex_world_faulty_def)

lemma ex_put_ready: "put_ready [''data''] ex_fs ''photos'' ''b.txt'' [''1'']"
  by code_simp

end
