(* ===== verification/Config.thy ===== *)
theory Config
  imports Encodings
begin

text \<open>
  \<open>config.go\<close>: the configuration read from the environment.  The environment is a function from
  variable names to values, \<open>''''\<close> where a variable is unset, as \<open>os.Getenv\<close> reports it.
\<close>

record Config =
  APIPort :: int64
  FrontendPort :: int64
  StorageRoot :: string
  DBPath :: string
  AdminAPIKey :: string
  MasterKey :: string
  PublicBaseURL :: string
  ClockSkewSeconds :: int64
  MaxPresignExpirySeconds :: int64

definition envStr :: "(string \<Rightarrow> string) \<Rightarrow> string \<Rightarrow> string \<Rightarrow> string" where
  "envStr env name fallback = (let v = env name in if v \<noteq> [] then v else fallback)"

definition envInt :: "(string \<Rightarrow> string) \<Rightarrow> string \<Rightarrow> int64 \<Rightarrow> int64" where
  "envInt env name fallback = (case ParseInt (env name) of Some v \<Rightarrow> v | None \<Rightarrow> fallback)"

definition ConfigFromEnv :: "(string \<Rightarrow> string) \<Rightarrow> Config" where
  "ConfigFromEnv env =
     \<lparr>APIPort = envInt env ''PORT'' 8080,
      FrontendPort = envInt env ''S3BENDER_FRONTEND_PORT'' 8081,
      StorageRoot = envStr env ''S3BENDER_STORAGE_ROOT'' ''./data/objects'',
      DBPath = envStr env ''S3BENDER_DB_PATH'' ''./data/db/s3bender.db'',
      AdminAPIKey = env ''S3BENDER_ADMIN_API_KEY'',
      MasterKey = env ''S3BENDER_MASTER_KEY'',
      PublicBaseURL = env ''S3BENDER_PUBLIC_BASE_URL'',
      ClockSkewSeconds = envInt env ''S3BENDER_CLOCK_SKEW_SECONDS'' 900,
      MaxPresignExpirySeconds = envInt env ''S3BENDER_MAX_PRESIGN_EXPIRY_SECONDS'' 604800\<rparr>"

lemma envInt_format [simp]: "env name = FormatInt v \<Longrightarrow> envInt env name d = v"
  by (simp add: envInt_def dec64.dec_enc)

lemma envInt_unset [simp]: "env name = [] \<Longrightarrow> envInt env name d = d"
  by (simp add: envInt_def ParseInt_def parse_digits_def)

text \<open>
  Printing a configuration as environment variables and reading it back: every field the program
  takes from the environment is read from the variable that names it.
\<close>

definition env_of :: "Config \<Rightarrow> string \<Rightarrow> string" where
  "env_of c name =
     (if name = ''PORT'' then FormatInt (APIPort c)
      else if name = ''S3BENDER_FRONTEND_PORT'' then FormatInt (FrontendPort c)
      else if name = ''S3BENDER_STORAGE_ROOT'' then StorageRoot c
      else if name = ''S3BENDER_DB_PATH'' then DBPath c
      else if name = ''S3BENDER_ADMIN_API_KEY'' then AdminAPIKey c
      else if name = ''S3BENDER_MASTER_KEY'' then MasterKey c
      else if name = ''S3BENDER_PUBLIC_BASE_URL'' then PublicBaseURL c
      else if name = ''S3BENDER_CLOCK_SKEW_SECONDS'' then FormatInt (ClockSkewSeconds c)
      else if name = ''S3BENDER_MAX_PRESIGN_EXPIRY_SECONDS'' then FormatInt (MaxPresignExpirySeconds c)
      else [])"

lemma config_env_roundtrip:
  "StorageRoot c \<noteq> [] \<Longrightarrow> DBPath c \<noteq> [] \<Longrightarrow> ConfigFromEnv (env_of c) = c"
  by (cases c) (simp add: ConfigFromEnv_def env_of_def envStr_def)

end
