(* ===== verification/Http.thy ===== *)
theory Http
  imports StorageOps Crypto Config
begin

text \<open>
  Requests and responses as the handlers see them, with the parts of \<open>net/http\<close> and \<open>net/url\<close> they
  use: header lookup, query parsing, percent-encoding.  A response body is the value given to
  \<open>writeJSON\<close>, or the file given to \<open>http.ServeContent\<close>, with the status 200 that call starts from; what the
  client reads in the end is defined in ContentServing.  What the middleware attaches to the
  request context and the path values of the router are fields of the request.
\<close>

section \<open>Requests\<close>

text \<open>\<open>authInfo\<close> of \<open>auth.go\<close>.\<close>

record authInfo =
  aBucket :: Bucket
  viaPublic :: bool
  presignExpires :: int64

text \<open>The random bytes a request draws: access key, secret key, nonce, temporary names.\<close>

record entropy =
  rndAccess :: string
  rndSecret :: string
  rndNonce :: string
  rndTemps :: "string list"

record request =
  rMethod :: string
  rPath :: string
  rRawQuery :: string
  rHeader :: "(string \<times> string list) list"
  rBody :: body
  rHost :: string
  rTLS :: bool
  rEntropy :: entropy
  rAuth :: "authInfo option"
  pvName :: string
  pvBucket :: string
  pvKey :: string

text \<open>\<open>r.Header.Get\<close> for a canonical name.\<close>

definition HeaderGet :: "request \<Rightarrow> string \<Rightarrow> string" where
  "HeaderGet r name = (case map_of (rHeader r) name of Some (v # vs) \<Rightarrow> v | _ \<Rightarrow> [])"

section \<open>Queries\<close>

text \<open>\<open>url.QueryUnescape\<close>.\<close>

fun QueryUnescape :: "string \<Rightarrow> string option" where
  "QueryUnescape [] = Some []"
| "QueryUnescape (c # cs) =
     (if c = CHR ''+'' then map_option (\<lambda>r. CHR '' '' # r) (QueryUnescape cs)
      else if c = CHR 0x25 then
        (case cs of
           a # b # r \<Rightarrow>
             (case (hex_value a, hex_value b) of
                (Some x, Some y) \<Rightarrow> map_option (\<lambda>t. char_of (16 * x + y) # t) (QueryUnescape r)
              | _ \<Rightarrow> None)
         | _ \<Rightarrow> None)
      else map_option (\<lambda>r. c # r) (QueryUnescape cs))"

text \<open>\<open>r.URL.Query()\<close>: the well-formed pairs in order; the others are dropped.\<close>

definition parse_pair :: "string \<Rightarrow> (string \<times> string) option" where
  "parse_pair s =
     (if s = [] \<or> CHR '';'' \<in> set s then None
      else case cut_at (CHR ''='') s of (k, v, _) \<Rightarrow>
        (case (QueryUnescape k, QueryUnescape v) of (Some k', Some v') \<Rightarrow> Some (k', v') | _ \<Rightarrow> None))"

definition ParseQuery :: "string \<Rightarrow> (string \<times> string) list" where
  "ParseQuery q = List.map_filter parse_pair (split_on (CHR ''&'') q)"

definition QueryHas :: "(string \<times> string) list \<Rightarrow> string \<Rightarrow> bool" where
  "QueryHas q k \<longleftrightarrow> list_ex (\<lambda>p. fst p = k) q"

definition QueryGet :: "(string \<times> string) list \<Rightarrow> string \<Rightarrow> string" where
  "QueryGet q k = (case find (\<lambda>p. fst p = k) q of Some p \<Rightarrow> snd p | None \<Rightarrow> [])"

section \<open>Percent-encoding\<close>

definition upper_hex :: "nat \<Rightarrow> char" where
  "upper_hex d = (if d < 10 then char_of (48 + d) else char_of (55 + d))"

fun escapeDataString :: "string \<Rightarrow> string" where
  "escapeDataString [] = []"
| "escapeDataString (c # cs) =
     (if unreserved c then c # escapeDataString cs
      else CHR 0x25 # upper_hex (byte_of c div 16) # upper_hex (byte_of c mod 16) # escapeDataString cs)"

text \<open>\<open>url.PathUnescape\<close>, which turns the request target's path into \<open>URL.Path\<close>.\<close>

fun PathUnescape :: "string \<Rightarrow> string option" where
  "PathUnescape [] = Some []"
| "PathUnescape (c # cs) =
     (if c = CHR 0x25 then
        (case cs of
           a # b # r \<Rightarrow>
             (case (hex_value a, hex_value b) of
                (Some x, Some y) \<Rightarrow> map_option (\<lambda>t. char_of (16 * x + y) # t) (PathUnescape r)
              | _ \<Rightarrow> None)
         | _ \<Rightarrow> None)
      else map_option (\<lambda>r. c # r) (PathUnescape cs))"

text \<open>The bytes an escaped string may contain.\<close>

definition escaped_char :: "char \<Rightarrow> bool" where
  "escaped_char c \<longleftrightarrow> unreserved c \<or> c = CHR 0x25"

lemma hex_value_upper [simp]: "d < 16 \<Longrightarrow> hex_value (upper_hex d) = Some d"
  by (auto simp: hex_value_def upper_hex_def Let_def)

lemma unreserved_upper [simp]: "d < 16 \<Longrightarrow> unreserved (upper_hex d)"
  by (auto simp: unreserved_def upper_hex_def)

lemma unreserved_not [simp]:
  "\<not> unreserved (CHR 0x25)" "\<not> unreserved (CHR ''+'')" "\<not> unreserved (CHR ''&'')" "\<not> unreserved (CHR ''='')"
  "\<not> unreserved (CHR '';'')" "\<not> unreserved (CHR ''/'')" "\<not> unreserved (CHR ''?'')"
  by (simp_all add: unreserved_def)

lemma unescape_escape: "QueryUnescape (escapeDataString s) = Some s" "PathUnescape (escapeDataString s) = Some s"
proof -
  have b: "char_of (16 * (byte_of c div 16) + byte_of c mod 16) = c" for c :: char
    by (metis char_of_byte_of mult_div_mod_eq)
  have n: "unreserved c \<Longrightarrow> c \<noteq> CHR 0x25 \<and> c \<noteq> CHR ''+''" for c by auto
  show "QueryUnescape (escapeDataString s) = Some s"
    by (induction s) (auto simp: b dest: n)
  show "PathUnescape (escapeDataString s) = Some s"
    by (induction s) (auto simp: b dest: n)
qed

lemma escape_chars: "c \<in> set (escapeDataString s) \<Longrightarrow> escaped_char c"
  by (induction s) (auto simp: escaped_char_def split: if_splits)

interpretation query_esc: token_codec escapeDataString QueryUnescape "\<lambda>_. True" escaped_char
  by unfold_locales (auto simp: unescape_escape intro: escape_chars)

interpretation path_esc: token_codec escapeDataString PathUnescape "\<lambda>_. True" escaped_char
  by unfold_locales (auto simp: unescape_escape intro: escape_chars)

text \<open>Text of unreserved bytes is its own encoding.\<close>

lemma escape_unreserved: "\<forall>c\<in>set s. unreserved c \<Longrightarrow> escapeDataString s = s"
  by (induction s) auto

lemma PathUnescape_slash:
  "PathUnescape (escapeDataString u @ slash # t) = map_option (\<lambda>x. u @ slash # x) (PathUnescape t)"
proof -
  have b: "char_of (16 * (byte_of c div 16) + byte_of c mod 16) = c" for c :: char
    by (metis char_of_byte_of mult_div_mod_eq)
  have n: "unreserved c \<Longrightarrow> c \<noteq> CHR 0x25" for c by auto
  show ?thesis
    by (induction u) (auto simp: b slash_def map_option.compositionality comp_def dest: n)
qed

section \<open>Responses\<close>

datatype payload =
    Empty
  | ErrorBody string string int
  | HealthBody string
  | CredentialsBody string string string int "string option"
  | BucketsBody "(string \<times> int \<times> string option) list"
  | IndexedBody string nat
  | ListBody ListObjectsResponse
  | StatsBody BucketStats
  | PresignBody string string int64
  | ServeContent int string

record response =
  rsStatus :: nat
  rsHeader :: "(string \<times> string) list"
  rsBody :: payload

type_synonym http = "request \<Rightarrow> world \<Rightarrow> response \<times> world"

type_synonym handler = "request \<Rightarrow> response action"

definition writeJSON :: "nat \<Rightarrow> payload \<Rightarrow> response" where
  "writeJSON status v =
     \<lparr>rsStatus = status, rsHeader = [(''Content-Type'', ''application/json; charset=utf-8'')], rsBody = v\<rparr>"

definition writeError :: "nat \<Rightarrow> string \<Rightarrow> string \<Rightarrow> world \<Rightarrow> response \<times> world" where
  "writeError status code message w = (writeJSON status (ErrorBody code message (wnow w)), w)"

definition writeHeader :: "nat \<Rightarrow> response" where
  "writeHeader status = \<lparr>rsStatus = status, rsHeader = [], rsBody = Empty\<rparr>"

definition setHeader :: "string \<Rightarrow> string \<Rightarrow> response \<Rightarrow> response" where
  "setHeader k v rs = rs\<lparr>rsHeader := AList.update k v (rsHeader rs)\<rparr>"

text \<open>\<open>internalError\<close> of \<open>server.go\<close>, its log line left out.\<close>

definition internalError :: "world \<Rightarrow> response \<times> world" where
  "internalError = writeError StatusInternalServerError ''InternalError'' ''An unexpected error occurred''"

text \<open>\<open>time.Now().Unix()\<close>.\<close>

definition now_unix :: "world \<Rightarrow> int64" where
  "now_unix w = word_of_int (wnow w div 1000000000)"

end
