(* ===== verification/Auth.thy ===== *)
theory Auth
  imports Http
begin

text \<open>
  \<open>auth.go\<close>: the two middlewares that decide whether a request reaches its handler.  The three
  regular expressions are matched by functions on the byte string; \<open>next\<close> is the rest of the
  pipeline.
\<close>

record Server =
  cfg :: Config
  storage :: Storage
  crypto :: Crypto
  console :: "string \<Rightarrow> string option"

section \<open>Paths and headers\<close>

text \<open>\<open>^/buckets/([^/]+)(/.*)?$\<close>: a dot matches any character but a newline.\<close>

definition bucketPathRe :: "string \<Rightarrow> string option" where
  "bucketPathRe path =
     (if HasPrefix path ''/buckets/'' then
        (let rest = drop 9 path; name = takeWhile (\<lambda>c. c \<noteq> slash) rest; tail = dropWhile (\<lambda>c. c \<noteq> slash) rest
         in if name \<noteq> [] \<and> newline \<notin> set tail then Some name else None)
      else None)"

text \<open>\<open>^/buckets/([^/]+)/objects/(.+)$\<close>.\<close>

definition objectPathRe :: "string \<Rightarrow> (string \<times> string) option" where
  "objectPathRe path =
     (if HasPrefix path ''/buckets/'' then
        (let rest = drop 9 path; name = takeWhile (\<lambda>c. c \<noteq> slash) rest; tail = dropWhile (\<lambda>c. c \<noteq> slash) rest;
             key = drop 9 tail
         in if name \<noteq> [] \<and> HasPrefix tail ''/objects/'' \<and> key \<noteq> [] \<and> newline \<notin> set key
            then Some (name, key) else None)
      else None)"

text \<open>
  \<open>^S3BENDER-HMAC-SHA256\s+AccessKey=([^,]+),\s*Timestamp=([^,]+),\s*Signature=([0-9a-fA-F]+)$\<close>.
\<close>

definition re_space :: "char \<Rightarrow> bool" where
  "re_space c \<longleftrightarrow> byte_of c \<in> {9, 10, 12, 13, 32}"

definition re_field :: "string \<Rightarrow> string \<Rightarrow> (string \<times> string) option" where
  "re_field label s =
     (if HasPrefix s label then
        (let rest = drop (length label) s; v = takeWhile (\<lambda>c. c \<noteq> CHR '','') rest; r = dropWhile (\<lambda>c. c \<noteq> CHR '','') rest
         in if v \<noteq> [] \<and> r \<noteq> [] then Some (v, dropWhile re_space (tl r)) else None)
      else None)"

record header_match =
  hmAccessKey :: string
  hmTimestamp :: string
  hmSignature :: string

definition authHeaderRe :: "string \<Rightarrow> header_match option" where
  "authHeaderRe s =
     (if HasPrefix s ''S3BENDER-HMAC-SHA256'' then
        (let s1 = drop 20 s; s2 = dropWhile re_space s1 in
         if s1 = [] \<or> \<not> re_space (hd s1) then None
         else case re_field ''AccessKey='' s2 of
           None \<Rightarrow> None
         | Some (ak, s3) \<Rightarrow>
             (case re_field ''Timestamp='' s3 of
                None \<Rightarrow> None
              | Some (ts, s4) \<Rightarrow>
                  if HasPrefix s4 ''Signature='' \<and> drop 10 s4 \<noteq> [] \<and> list_all is_hex (drop 10 s4)
                  then Some \<lparr>hmAccessKey = ak, hmTimestamp = ts, hmSignature = drop 10 s4\<rparr>
                  else None))
      else None)"

section \<open>Signatures\<close>

definition verifyPresigned ::
  "int64 \<Rightarrow> string \<Rightarrow> string \<Rightarrow> string \<Rightarrow> string \<Rightarrow> string \<Rightarrow> int64 \<times> bool" where
  "verifyPresigned now mth path secret expiresParam signature =
     (case ParseInt expiresParam of
        None \<Rightarrow> (0, False)
      | Some expires \<Rightarrow>
          if sint expires < sint now then (0, False)
          else (expires, SignatureMatches (Sign secret (StringToSign mth path expires)) signature))"

definition verifyHeader ::
  "int64 \<Rightarrow> string \<Rightarrow> string \<Rightarrow> string \<Rightarrow> header_match option \<Rightarrow> int64 \<Rightarrow> bool" where
  "verifyHeader now mth path secret m clockSkewSeconds =
     (case m of
        None \<Rightarrow> False
      | Some hm \<Rightarrow>
          (case ParseInt (hmTimestamp hm) of
             None \<Rightarrow> False
           | Some ts \<Rightarrow>
               let d = now - ts; skew = (if sint d < 0 then - d else d) in
               if sint clockSkewSeconds < sint skew then False
               else SignatureMatches (Sign secret (StringToSign mth path ts)) (hmSignature hm)))"

section \<open>Middleware\<close>

text \<open>\<open>adminAuth\<close>: guards every \<open>/admin\<close> route with the shared admin key.\<close>

definition admin_path :: "string \<Rightarrow> bool" where
  "admin_path p \<longleftrightarrow> p = ''/admin'' \<or> HasPrefix p ''/admin/''"

definition adminAuth :: "Server \<Rightarrow> http \<Rightarrow> http" where
  "adminAuth s nxt r w =
     (if \<not> admin_path (rPath r) then nxt r w
      else if TrimSpace (AdminAPIKey (cfg s)) = [] then
        writeError StatusInternalServerError ''AdminKeyNotConfigured'' ''Server admin API key is not configured'' w
      else case map_of (rHeader r) ''X-Admin-Api-Key'' of
        Some (provided # others) \<Rightarrow>
          if ConstantTimeCompare (AdminAPIKey (cfg s)) provided \<noteq> 1
          then writeError StatusUnauthorized ''Unauthorized'' ''Missing or invalid X-Admin-Api-Key header'' w
          else nxt r w
      | _ \<Rightarrow> writeError StatusUnauthorized ''Unauthorized'' ''Missing or invalid X-Admin-Api-Key header'' w)"

text \<open>The bypass of \<open>bucketAuth\<close> for public objects: the bucket, if the request may skip credentials.\<close>

definition public_bypass :: "Server \<Rightarrow> request \<Rightarrow> string \<Rightarrow> world \<Rightarrow> Bucket option \<times> world" where
  "public_bypass s r bucketName w =
     (if rMethod r = ''GET'' \<or> rMethod r = ''HEAD'' then
        (case objectPathRe (rPath r) of
           Some (n, key) \<Rightarrow>
             (case GetBucket bucketName w of
                (Inr (Some b), w1) \<Rightarrow>
                  (case IsPublic (storage s) (Name b) key w1 of
                     (Inr True, w2) \<Rightarrow> (Some b, w2)
                   | (_, w2) \<Rightarrow> (None, w2))
              | (_, w1) \<Rightarrow> (None, w1))
         | None \<Rightarrow> (None, w))
      else (None, w))"

text \<open>The access key a request presents: the query's, else the header's, else none.\<close>

definition presented_key :: "(string \<times> string) list \<Rightarrow> header_match option \<Rightarrow> string" where
  "presented_key query hm =
     (if QueryHas query ''AccessKey'' then QueryGet query ''AccessKey''
      else case hm of Some m \<Rightarrow> hmAccessKey m | None \<Rightarrow> [])"

definition check_signature ::
  "Server \<Rightarrow> request \<Rightarrow> int64 \<Rightarrow> (string \<times> string) list \<Rightarrow> header_match option \<Rightarrow> string \<Rightarrow> int64 \<times> bool" where
  "check_signature s r now query hm secret =
     (if QueryHas query ''AccessKey'' \<and> QueryHas query ''Expires'' \<and> QueryHas query ''Signature'' then
        (if rMethod r = ''GET'' \<or> rMethod r = ''PUT'' \<or> rMethod r = ''HEAD''
         then verifyPresigned now (rMethod r) (rPath r) secret (QueryGet query ''Expires'') (QueryGet query ''Signature'')
         else (0, False))
      else (0, verifyHeader now (rMethod r) (rPath r) secret hm (ClockSkewSeconds (cfg s))))"

text \<open>The bucket an access key belongs to; no key, no lookup.\<close>

definition lookup_key :: "string \<Rightarrow> Bucket option action" where
  "lookup_key accessKey = (if accessKey \<noteq> [] then BucketByAccessKey accessKey else ret None)"

definition deny_key :: "string \<Rightarrow> world \<Rightarrow> response \<times> world" where
  "deny_key bucketName = writeError StatusUnauthorized ''InvalidAccessKey''
     (''No such bucket, or credentials do not belong to bucket '' @ [CHR 0x27] @ bucketName @ [CHR 0x27])"

text \<open>The last part of \<open>bucketAuth\<close>: the bucket is found, the signature decides.\<close>

definition check_credentials ::
  "Server \<Rightarrow> http \<Rightarrow> (string \<times> string) list \<Rightarrow> header_match option \<Rightarrow> Bucket \<Rightarrow> http" where
  "check_credentials s nxt query hm b r w =
     (case DecryptSecret (crypto s) (EncryptedSecretKey b) of
        Inl e \<Rightarrow> internalError w
      | Inr secret \<Rightarrow>
          (case check_signature s r (now_unix w) query hm secret of
             (expires, ok) \<Rightarrow>
               if \<not> ok
               then writeError StatusForbidden ''SignatureMismatch''
                 ''Request signature is invalid, expired, or malformed'' w
               else nxt (r\<lparr>rAuth := Some \<lparr>aBucket = b, viaPublic = False, presignExpires = expires\<rparr>\<rparr>) w))"

definition bucketAuth :: "Server \<Rightarrow> http \<Rightarrow> http" where
  "bucketAuth s nxt r w =
     (case bucketPathRe (rPath r) of
        None \<Rightarrow> nxt r w
      | Some bucketName \<Rightarrow>
          (case public_bypass s r bucketName w of
             (Some b, w1) \<Rightarrow> nxt (r\<lparr>rAuth := Some \<lparr>aBucket = b, viaPublic = True, presignExpires = 0\<rparr>\<rparr>) w1
           | (None, w1) \<Rightarrow>
               let query = ParseQuery (rRawQuery r);
                   hm = authHeaderRe (TrimSpace (HeaderGet r ''Authorization''))
               in case lookup_key (presented_key query hm) w1 of
                    (Inl e, w2) \<Rightarrow> internalError w2
                  | (Inr None, w2) \<Rightarrow> deny_key bucketName w2
                  | (Inr (Some b), w2) \<Rightarrow>
                      if Name b \<noteq> bucketName then deny_key bucketName w2
                      else check_credentials s nxt query hm b r w2))"

end
