(* ===== verification/Handlers.thy ===== *)
theory Handlers
  imports Auth
begin

text \<open>
  \<open>handlers.go\<close>: one action per route.  A handler returns the response it writes, or the error that
  the dispatcher turns into one.
\<close>

section \<open>Request bodies\<close>

definition maxJSONBody :: nat where "maxJSONBody = 1048576"

definition decodeJSON :: "schema \<Rightarrow> request \<Rightarrow> (string \<times> json) list go_result" where
  "decodeJSON sch r =
     (let data = take (maxJSONBody + 1) (bData (rBody r)) in
      case (if length data < maxJSONBody + 1 then bErr (rBody r) else None) of
        Some e \<Rightarrow> Inl e
      | None \<Rightarrow>
          if maxJSONBody < length data then
            Inl (ApiErr \<lparr>Status = StatusRequestEntityTooLarge, Code = ''InvalidRequest'',
                   Message = ''Request body is too large''\<rparr>)
          else if TrimSpace data = [] then
            Inl (badRequest ''InvalidRequest'' ''A non-empty request body is required.'')
          else (case unmarshal sch data of
            Inl (TypeError f) \<Rightarrow>
              Inl (badRequest ''InvalidRequest''
                (''The JSON value for '' @ [CHR 0x27] @ f @ [CHR 0x27] @ '' is not valid.''))
          | Inl SyntaxError \<Rightarrow> Inl (badRequest ''InvalidRequest'' ''Request body is not valid JSON.'')
          | Inr ms \<Rightarrow> Inr ms))"

section \<open>Admin routes\<close>

definition health :: handler where
  "health r = ret (writeJSON StatusOK (HealthBody ''ok''))"

text \<open>\<open>^[a-z0-9]([a-z0-9-]{1,61}[a-z0-9])?$\<close>.\<close>

definition lower_alnum :: "char \<Rightarrow> bool" where
  "lower_alnum c \<longleftrightarrow> (97 \<le> byte_of c \<and> byte_of c \<le> 122) \<or> is_digit c"

definition bucketNameRe :: "string \<Rightarrow> bool" where
  "bucketNameRe n \<longleftrightarrow> n \<noteq> [] \<and> lower_alnum (hd n) \<and>
     (length n = 1 \<or>
      3 \<le> length n \<and> length n \<le> 63 \<and> lower_alnum (last n) \<and>
      list_all (\<lambda>c. lower_alnum c \<or> c = CHR ''-'') (butlast (tl n)))"

definition create_schema :: schema where
  "create_schema = [(''name'', KString), (''description'', KStringPtr)]"

definition createBucket :: "Server \<Rightarrow> handler" where
  "createBucket s r =
     andThen (lift_result (decodeJSON create_schema r)) (\<lambda>req.
     let name = get_string create_schema ''name'' req; desc = get_ptr create_schema ''description'' req in
     if name = [] then fail (badRequest ''InvalidRequest'' ''The Name field is required.'')
     else if \<not> bucketNameRe name then
       fail (badRequest ''InvalidRequest''
         ''must be 3-63 chars, lowercase alphanumeric and hyphens, not starting/ending with a hyphen'')
     else if (case desc of Some d \<Rightarrow> 200 < RuneCountInString d | None \<Rightarrow> False) then
       fail (badRequest ''InvalidRequest'' ''must be 200 characters or fewer'')
     else andThen (GetBucket name) (\<lambda>existing.
       if existing \<noteq> None then fail (bucketAlreadyExists name)
       else
         let description = (case desc of Some d \<Rightarrow> if TrimSpace d \<noteq> [] then Some (TrimSpace d) else None | None \<Rightarrow> None);
             accessKey = GenerateAccessKey (rndAccess (rEntropy r));
             secretKey = GenerateSecretKey (rndSecret (rEntropy r)) in
         (\<lambda>w. let b = \<lparr>Name = name, Description = description, AccessKey = accessKey,
                    EncryptedSecretKey = EncryptSecret (crypto s) (rndNonce (rEntropy r)) secretKey,
                    CreatedAt = wnow w\<rparr> in
              andThen (InsertBucket b) (\<lambda>_.
              attempt (CreateBucketDirectory (storage s) name) (\<lambda>made. case made of
                Inl e \<Rightarrow> attempt (DeleteBucket name) (\<lambda>_. fail e)
              | Inr u \<Rightarrow> ret (writeJSON StatusCreated
                  (CredentialsBody name accessKey secretKey (CreatedAt b) description)))) w)))"

definition listBuckets :: handler where
  "listBuckets r =
     andThen ListBuckets (\<lambda>buckets.
     ret (writeJSON StatusOK (BucketsBody (map (\<lambda>b. (Name b, CreatedAt b, Description b)) buckets))))"

definition requireBucket :: "string \<Rightarrow> Bucket action" where
  "requireBucket name =
     andThen (GetBucket name) (\<lambda>b. case b of None \<Rightarrow> fail (noSuchBucket name) | Some b \<Rightarrow> ret b)"

definition deleteBucket :: "Server \<Rightarrow> handler" where
  "deleteBucket s r =
     (let name = pvName r in
      andThen (requireBucket name) (\<lambda>_.
      andThen (IsBucketEmpty (storage s) name) (\<lambda>empty.
      if \<not> empty then
        fail (conflict ''BucketNotEmpty'' (''Bucket '' @ [CHR 0x27] @ name @ [CHR 0x27] @ '' is not empty''))
      else andThen (DeleteBucket name) (\<lambda>_.
        andThen (RemoveBucketDirectory (storage s) name) (\<lambda>_.
        ret (writeHeader StatusNoContent))))))"

definition rotateBucketKey :: "Server \<Rightarrow> handler" where
  "rotateBucketKey s r =
     andThen (requireBucket (pvName r)) (\<lambda>b.
     let accessKey = GenerateAccessKey (rndAccess (rEntropy r));
         secretKey = GenerateSecretKey (rndSecret (rEntropy r)) in
     andThen (UpdateBucketKeys (Name b) accessKey
         (EncryptSecret (crypto s) (rndNonce (rEntropy r)) secretKey)) (\<lambda>_.
     ret (writeJSON StatusOK (CredentialsBody (Name b) accessKey secretKey (CreatedAt b) (Description b)))))"

definition reindexBucket :: "Server \<Rightarrow> handler" where
  "reindexBucket s r =
     andThen (requireBucket (pvName r)) (\<lambda>b.
     andThen (ReindexBucket (storage s) (Name b) True) (\<lambda>n.
     ret (writeJSON StatusOK (IndexedBody (Name b) n))))"

section \<open>Object routes\<close>

definition authedBucket :: "request \<Rightarrow> authInfo go_result" where
  "authedBucket r =
     (case rAuth r of
        Some a \<Rightarrow> if Name (aBucket a) = pvBucket r then Inr a else
          Inl (ApiErr \<lparr>Status = StatusUnauthorized, Code = ''Unauthorized'',
            Message = ''Request was not authenticated for bucket '' @ [CHR 0x27] @ pvBucket r @ [CHR 0x27]\<rparr>)
      | None \<Rightarrow>
          Inl (ApiErr \<lparr>Status = StatusUnauthorized, Code = ''Unauthorized'',
            Message = ''Request was not authenticated for bucket '' @ [CHR 0x27] @ pvBucket r @ [CHR 0x27]\<rparr>))"

definition dquote :: "string \<Rightarrow> string" where
  "dquote s = [CHR 0x22] @ s @ [CHR 0x22]"

definition putObject :: "Server \<Rightarrow> handler" where
  "putObject s r =
     andThen (lift_result (authedBucket r)) (\<lambda>a.
     let public = EqualFold (HeaderGet r ''X-S3bender-Public'') ''true'' in
     andThen (PutObject (storage s) (rndTemps (rEntropy r)) (Name (aBucket a)) (pvKey r) (rBody r)
         (HeaderGet r ''Content-Type'') public) (\<lambda>etag.
     ret (setHeader ''ETag'' (dquote etag) (writeHeader StatusOK))))"

text \<open>
  \<open>time.Until(time.Unix(exp, 0))\<close> in nanoseconds: the seconds since year 1 wrap at 64 bits, and the
  difference saturates.
\<close>

definition time_until :: "int64 \<Rightarrow> int \<Rightarrow> int" where
  "time_until exp now =
     (let d = sint (exp + 62135596800) * 1000000000 - (now + 62135596800 * 1000000000)
      in max (- (2 ^ 63)) (min (2 ^ 63 - 1) d))"

definition presignCacheCap :: int where "presignCacheCap = 300000000000"

text \<open>\<open>int64(d.Seconds())\<close>: truncation towards zero.\<close>

definition whole_seconds :: "int \<Rightarrow> int" where
  "whole_seconds d = (if d < 0 then - ((- d) div 1000000000) else d div 1000000000)"

definition cacheControl :: "authInfo \<Rightarrow> int \<Rightarrow> string" where
  "cacheControl a now =
     (if viaPublic a then ''public, no-cache''
      else if 0 < sint (presignExpires a) then
        ''private, max-age='' @ format_int (whole_seconds (min (time_until (presignExpires a) now) presignCacheCap))
      else ''private, no-cache'')"

definition getObject :: "Server \<Rightarrow> handler" where
  "getObject s r =
     andThen (lift_result (authedBucket r)) (\<lambda>a.
     andThen (OpenObject (storage s) (Name (aBucket a)) (pvKey r)) (\<lambda>(f, obj).
     (\<lambda>w. ret \<lparr>rsStatus = StatusOK,
          rsHeader = [(''Content-Type'', ContentType obj), (''ETag'', dquote (ETag obj)),
            (''X-S3bender-Public'', FormatBool (Public obj)), (''Cache-Control'', cacheControl a (wnow w))],
          rsBody = ServeContent (LastModified obj) f\<rparr> w)))"

definition deleteObject :: "Server \<Rightarrow> handler" where
  "deleteObject s r =
     andThen (lift_result (authedBucket r)) (\<lambda>a.
     andThen (DeleteObject (storage s) (Name (aBucket a)) (pvKey r)) (\<lambda>_.
     ret (writeHeader StatusNoContent)))"

definition listObjects :: "Server \<Rightarrow> handler" where
  "listObjects s r =
     andThen (lift_result (authedBucket r)) (\<lambda>a.
     let q = ParseQuery (rRawQuery r); v = QueryGet q ''limit'' in
     andThen (if v = [] then ret MaxListLimit
       else (case ParseInt v of
               Some n \<Rightarrow> ret (sint n)
             | None \<Rightarrow> fail (badRequest ''InvalidRequest''
                 (''The value '' @ [CHR 0x27] @ v @ [CHR 0x27] @ '' is not valid for limit.'')))) (\<lambda>limit.
     andThen (ListObjects (storage s) (Name (aBucket a)) (QueryGet q ''prefix'') limit (QueryGet q ''cursor'')) (\<lambda>resp.
     ret (writeJSON StatusOK (ListBody resp)))))"

definition bucketStats :: handler where
  "bucketStats r =
     andThen (lift_result (authedBucket r)) (\<lambda>a.
     andThen (Stats (Name (aBucket a)) (QueryGet (ParseQuery (rRawQuery r)) ''prefix'')) (\<lambda>st.
     ret (writeJSON StatusOK (StatsBody st))))"

definition acl_schema :: schema where
  "acl_schema = [(''public'', KBool)]"

definition setACL :: "Server \<Rightarrow> handler" where
  "setACL s r =
     andThen (lift_result (authedBucket r)) (\<lambda>a.
     andThen (lift_result (decodeJSON acl_schema r)) (\<lambda>req.
     andThen (SetPublic (storage s) (Name (aBucket a)) (pvKey r) (get_bool acl_schema ''public'' req)) (\<lambda>_.
     ret (writeHeader StatusOK))))"

section \<open>Presigned URLs\<close>

definition presign_schema :: schema where
  "presign_schema = [(''key'', KString), (''method'', KString), (''expiresInSeconds'', KInt64)]"

definition object_route :: "string \<Rightarrow> string \<Rightarrow> string" where
  "object_route bucket key = ''/buckets/'' @ bucket @ ''/objects/'' @ key"

text \<open>\<open>s.cfg.PublicBaseURL\<close>, or the scheme and host of the request.\<close>

definition base_url :: "Server \<Rightarrow> request \<Rightarrow> string" where
  "base_url s r =
     (let u = PublicBaseURL (cfg s) in
      if TrimSpace u = [] then (if rTLS r then ''https'' else ''http'') @ ''://'' @ rHost r else u)"

definition presigned_query :: "string \<Rightarrow> int64 \<Rightarrow> string \<Rightarrow> string" where
  "presigned_query accessKey expires signature =
     ''AccessKey='' @ escapeDataString accessKey @ ''&Expires='' @ FormatInt expires @ ''&Signature='' @ signature"

definition escaped_path :: "string \<Rightarrow> string" where
  "escaped_path path = join_with [slash] (map escapeDataString (split_on slash path))"

definition presign :: "Server \<Rightarrow> handler" where
  "presign s r =
     andThen (lift_result (authedBucket r)) (\<lambda>a.
     andThen (lift_result (decodeJSON presign_schema r)) (\<lambda>req.
     let key = get_string presign_schema ''key'' req; mth = get_string presign_schema ''method'' req;
         secs = get_int64 presign_schema ''expiresInSeconds'' req in
     if TrimSpace key = [] then fail (badRequest ''InvalidRequest'' ''The Key field is required.'')
     else if mth = [] then fail (badRequest ''InvalidRequest'' ''The Method field is required.'')
     else if mth \<noteq> ''GET'' \<and> mth \<noteq> ''PUT'' then fail (badRequest ''InvalidRequest'' ''must be GET or PUT'')
     else if sint secs < 1 \<or> 604800 < sint secs then
       fail (badRequest ''InvalidRequest'' ''The field ExpiresInSeconds must be between 1 and 604800.'')
     else if sint (MaxPresignExpirySeconds (cfg s)) < sint secs then
       fail (badRequest ''InvalidExpiry''
         (''expiresInSeconds may not exceed '' @ FormatInt (MaxPresignExpirySeconds (cfg s))))
     else andThen (lift_result (DecryptSecret (crypto s) (EncryptedSecretKey (aBucket a)))) (\<lambda>secret.
       (\<lambda>w. let path = object_route (Name (aBucket a)) key;
             expires = now_unix w + secs;
             signature = Sign secret (StringToSign mth path expires);
             url = TrimRightChar (base_url s r) slash @ escaped_path path
               @ ''?'' @ presigned_query (AccessKey (aBucket a)) expires signature
         in ret (writeJSON StatusOK (PresignBody url mth expires)) w))))"

end
