(* ===== verification/Router.thy ===== *)
theory Router
  imports Handlers
begin

text \<open>
  \<open>server.go\<close>: the router, the dispatcher that turns a handler's error into a response, the static
  console, and the whole pipeline.  \<open>recoverPanics\<close> passes every request on unchanged: no definition
  of the model panics.
\<close>

section \<open>Dispatch\<close>

definition routeNotFound :: "world \<Rightarrow> response \<times> world" where
  "routeNotFound = writeError StatusNotFound ''NotFound'' ''No such route''"

text \<open>
  The routes of a path, by method.  The \<open>Allow\<close> header lists them in the order given here; Go's map
  iteration yields some order.
\<close>

definition dispatch :: "(string \<times> handler) list \<Rightarrow> http" where
  "dispatch routes r w =
     (case map_of routes (rMethod r) of
        None \<Rightarrow>
          (case writeError StatusMethodNotAllowed ''MethodNotAllowed'' (rMethod r @ '' is not allowed on this route'') w of
             (rs, w') \<Rightarrow> (setHeader ''Allow'' (join_with '', '' (map fst routes)) rs, w'))
      | Some h \<Rightarrow>
          (case h r w of
             (Inr rs, w') \<Rightarrow> (rs, w')
           | (Inl e, w') \<Rightarrow>
               (case as_APIError e of
                  Some ae \<Rightarrow> writeError (Status ae) (Code ae) (Message ae) w'
                | None \<Rightarrow> internalError w')))"

text \<open>\<open>fs.ValidPath\<close>.\<close>

definition ValidPath :: "string \<Rightarrow> bool" where
  "ValidPath name \<longleftrightarrow> valid_utf8 name \<and>
     (name = ''.'' \<or> list_all (\<lambda>c. c \<noteq> [] \<and> c \<noteq> ''.'' \<and> c \<noteq> ''..'') (split_on slash name))"

definition serveStatic :: "Server \<Rightarrow> int \<Rightarrow> bool \<Rightarrow> http" where
  "serveStatic s startTime serveConsole r w =
     (let n0 = TrimPrefix (rPath r) ''/''; name = (if n0 = [] then ''index.html'' else n0) in
      case console s name of
        Some data \<Rightarrow>
          if \<not> ValidPath name then routeNotFound w
          else if \<not> serveConsole then writeError StatusNotFound ''NotFound'' ''No such route on this port'' w
          else if rMethod r \<noteq> ''GET'' \<and> rMethod r \<noteq> ''HEAD'' then
            (case writeError StatusMethodNotAllowed ''MethodNotAllowed'' (rMethod r @ '' is not allowed on this route'') w of
               (rs, w') \<Rightarrow> (setHeader ''Allow'' ''GET, HEAD'' rs, w'))
          else (\<lparr>rsStatus = StatusOK, rsHeader = [(''Cache-Control'', ''no-cache'')], rsBody = ServeContent startTime data\<rparr>, w)
      | None \<Rightarrow> routeNotFound w)"

section \<open>Routing\<close>

definition route_admin :: "Server \<Rightarrow> http" where
  "route_admin s r w =
     (case cut_at slash (TrimPrefix (rPath r) ''/admin/buckets/'') of
        (name, action, _) \<Rightarrow>
          if name = [] then routeNotFound w
          else let r' = r\<lparr>pvName := name\<rparr> in
            if action = [] then dispatch [(''DELETE'', deleteBucket s)] r' w
            else if action = ''rotate'' then dispatch [(''POST'', rotateBucketKey s)] r' w
            else if action = ''reindex'' then dispatch [(''POST'', reindexBucket s)] r' w
            else routeNotFound w)"

definition route_bucket :: "Server \<Rightarrow> http" where
  "route_bucket s r w =
     (case cut_at slash (TrimPrefix (rPath r) ''/buckets/'') of
        (bucket, rest, _) \<Rightarrow>
          if bucket = [] then routeNotFound w
          else let r' = r\<lparr>pvBucket := bucket\<rparr> in
            if rest = ''objects'' then dispatch [(''GET'', listObjects s)] r' w
            else if rest = ''stats'' then dispatch [(''GET'', bucketStats)] r' w
            else if rest = ''presign'' then dispatch [(''POST'', presign s)] r' w
            else if HasPrefix rest ''objects/'' then
              dispatch [(''GET'', getObject s), (''HEAD'', getObject s), (''PUT'', putObject s), (''DELETE'', deleteObject s)]
                (r'\<lparr>pvKey := TrimPrefix rest ''objects/''\<rparr>) w
            else if HasPrefix rest ''acl/'' then
              dispatch [(''PUT'', setACL s)] (r'\<lparr>pvKey := TrimPrefix rest ''acl/''\<rparr>) w
            else routeNotFound w)"

definition router :: "Server \<Rightarrow> int \<Rightarrow> bool \<Rightarrow> http" where
  "router s startTime serveConsole r w =
     (let p = rPath r in
      if p = ''/healthz'' then dispatch [(''GET'', health)] r w
      else if p = ''/admin/buckets'' then dispatch [(''GET'', listBuckets), (''POST'', createBucket s)] r w
      else if HasPrefix p ''/admin/buckets/'' then route_admin s r w
      else if HasPrefix p ''/buckets/'' then route_bucket s r w
      else serveStatic s startTime serveConsole r w)"

text \<open>\<open>Server.Handler\<close>.  A request comes in without anything attached to it.\<close>

definition Handler :: "Server \<Rightarrow> int \<Rightarrow> bool \<Rightarrow> http" where
  "Handler s startTime serveConsole r =
     adminAuth s (bucketAuth s (router s startTime serveConsole)) (r\<lparr>rAuth := None\<rparr>)"

text \<open>
  \<open>recoverPanics\<close>, the outermost middleware, on handlers that may panic: an aborted connection stays aborted, and
  any other panic is answered as an internal error.  No definition of the model panics, so that \<open>Handler\<close> is what
  it wraps.
\<close>

datatype panic = ErrAbortHandler | PanicValue string

type_synonym panicking = "request \<Rightarrow> world \<Rightarrow> (panic + response) \<times> world"

definition recoverPanics :: "panicking \<Rightarrow> panicking" where
  "recoverPanics nxt r w = (case nxt r w of
     (Inl ErrAbortHandler, w') \<Rightarrow> (Inl ErrAbortHandler, w')
   | (Inl (PanicValue v), w') \<Rightarrow> (case internalError w' of (rsp, w'') \<Rightarrow> (Inr rsp, w''))
   | (Inr rsp, w') \<Rightarrow> (Inr rsp, w'))"

lemma recoverPanics_Handler:
  "recoverPanics (\<lambda>r w. map_prod Inr id (Handler s t0 fe r w)) r w = map_prod Inr id (Handler s t0 fe r w)"
  by (cases "Handler s t0 fe r w") (simp add: recoverPanics_def)

section \<open>Construction and background work\<close>

text \<open>
  \<open>OpenStore\<close>: the directory of the database file, the three \<open>CREATE ... IF NOT EXISTS\<close> statements
  and the \<open>ADD COLUMN\<close> migration.  The tables of the model are there from the start, so the
  statements leave them as they are; each of them can fail.  That the statements themselves do this to
  a database file of any earlier version is shown in SchemaLaws.
\<close>

definition OpenStore :: "string \<Rightarrow> string \<Rightarrow> unit action" where
  "OpenStore cwd path =
     andThen (os_MkdirAll (Dir_of (Abs cwd path))) (\<lambda>_.
     andThen (for_each (\<lambda>ddl. db_exec (\<lambda>d. d)) [0, 1, 2 :: nat]) (\<lambda>_.
     db_exec (\<lambda>d. d)))"

definition New :: "string \<Rightarrow> Config \<Rightarrow> (string \<Rightarrow> string option) \<Rightarrow> Server action" where
  "New cwd c consoleFS =
     andThen (lift_result (NewCrypto (MasterKey c))) (\<lambda>cr.
     andThen (OpenStore cwd (DBPath c)) (\<lambda>_.
     andThen (NewStorage cwd (StorageRoot c)) (\<lambda>st.
     ret \<lparr>cfg = c, storage = st, crypto = cr, console = consoleFS\<rparr>)))"

text \<open>\<open>ReindexAll\<close>: one bucket's failure does not stop the others.\<close>

definition ReindexAll :: "Server \<Rightarrow> unit action" where
  "ReindexAll s =
     attempt ListBuckets (\<lambda>r. case r of
       Inl e \<Rightarrow> ret ()
     | Inr buckets \<Rightarrow>
         andThen (for_each (\<lambda>b. attempt (ReindexBucket (storage s) (Name b) False) (\<lambda>_. ret ())) buckets) (\<lambda>_. ret ()))"

end
