(* ===== verification/AuthLaws.thy ===== *)
theory AuthLaws
  imports Router StorageFaults
begin

text \<open>
  What the authentication middleware promises.  \<open>grants\<close> states, without the code's control flow,
  when a request to a bucket is to be let through; the lemmas show that \<open>bucketAuth\<close> calls the next
  handler exactly then, and that a request it stops changes nothing.
\<close>

section \<open>Paths\<close>

lemma newline_slash [simp]: "newline \<noteq> slash"
  by (simp add: newline_def slash_def)

lemma bucketPathRe_Some:
  "bucketPathRe p = Some n \<longleftrightarrow>
     (\<exists>t. p = ''/buckets/'' @ n @ t \<and> n \<noteq> [] \<and> slash \<notin> set n \<and> (t = [] \<or> hd t = slash) \<and> newline \<notin> set t)"
proof
  assume h: "bucketPathRe p = Some n"
  then obtain rest where p: "p = ''/buckets/'' @ rest" by (auto simp: bucketPathRe_def prefix_def split: if_splits)
  from h p have n: "n = takeWhile (\<lambda>c. c \<noteq> slash) rest" "n \<noteq> []" "newline \<notin> set (dropWhile (\<lambda>c. c \<noteq> slash) rest)"
    by (auto simp: bucketPathRe_def Let_def split: if_splits)
  show "\<exists>t. p = ''/buckets/'' @ n @ t \<and> n \<noteq> [] \<and> slash \<notin> set n \<and> (t = [] \<or> hd t = slash) \<and> newline \<notin> set t"
  proof (intro exI conjI)
    show "p = ''/buckets/'' @ n @ dropWhile (\<lambda>c. c \<noteq> slash) rest" by (simp add: p n(1))
    show "slash \<notin> set n" using n(1) by (auto dest: set_takeWhileD)
    show "dropWhile (\<lambda>c. c \<noteq> slash) rest = [] \<or> hd (dropWhile (\<lambda>c. c \<noteq> slash) rest) = slash"
      using hd_dropWhile [of "\<lambda>c. c \<noteq> slash" rest] by blast
  qed (use n in auto)
next
  assume "\<exists>t. p = ''/buckets/'' @ n @ t \<and> n \<noteq> [] \<and> slash \<notin> set n \<and> (t = [] \<or> hd t = slash) \<and> newline \<notin> set t"
  then obtain t where t: "p = ''/buckets/'' @ n @ t" "n \<noteq> []" "slash \<notin> set n" "t = [] \<or> hd t = slash" "newline \<notin> set t"
    by blast
  have all: "\<forall>c\<in>set n. c \<noteq> slash" using t(3) by auto
  have "takeWhile (\<lambda>c. c \<noteq> slash) (n @ t) = n \<and> dropWhile (\<lambda>c. c \<noteq> slash) (n @ t) = t"
    using t(4) all by (cases t) (simp_all add: takeWhile_append_stop dropWhile_append_stop takeWhile_eq_all_conv)
  then show "bucketPathRe p = Some n" using t by (simp add: bucketPathRe_def)
qed

lemma objectPathRe_bucketPathRe:
  "objectPathRe p = Some (n, k) \<Longrightarrow> bucketPathRe p = Some n"
  by (auto simp: objectPathRe_def bucketPathRe_def Let_def newline_def prefix_def split: if_splits)

lemma objectPathRe_route:
  "objectPathRe p = Some (n, k) \<longleftrightarrow> p = object_route n k \<and> n \<noteq> [] \<and> slash \<notin> set n \<and> k \<noteq> [] \<and> newline \<notin> set k"
proof
  assume h: "objectPathRe p = Some (n, k)"
  then have "bucketPathRe p = Some n" by (rule objectPathRe_bucketPathRe)
  then obtain t where t: "p = ''/buckets/'' @ n @ t" "n \<noteq> []" "slash \<notin> set n" "t = [] \<or> hd t = slash"
    by (auto simp: bucketPathRe_Some)
  have all: "\<forall>c\<in>set n. c \<noteq> slash" using t(3) by auto
  have "dropWhile (\<lambda>c. c \<noteq> slash) (n @ t) = t"
    using t(4) all by (cases t) (simp_all add: dropWhile_append_stop)
  with h t(1) have "HasPrefix t ''/objects/''" "k = drop 9 t" "k \<noteq> []" "newline \<notin> set k"
    by (auto simp: objectPathRe_def Let_def split: if_splits)
  with t show "p = object_route n k \<and> n \<noteq> [] \<and> slash \<notin> set n \<and> k \<noteq> [] \<and> newline \<notin> set k"
    by (auto simp: object_route_def prefix_def)
next
  assume h: "p = object_route n k \<and> n \<noteq> [] \<and> slash \<notin> set n \<and> k \<noteq> [] \<and> newline \<notin> set k"
  then have all: "\<forall>c\<in>set n. c \<noteq> slash" by auto
  have p: "p = ''/buckets/'' @ n @ slash # ''objects/'' @ k" using h by (simp add: object_route_def slash_def)
  have "takeWhile (\<lambda>c. c \<noteq> slash) (n @ slash # ''objects/'' @ k) = n"
    "dropWhile (\<lambda>c. c \<noteq> slash) (n @ slash # ''objects/'' @ k) = slash # ''objects/'' @ k"
    using all by (simp_all add: takeWhile_append_stop dropWhile_append_stop)
  then show "objectPathRe p = Some (n, k)" using conjunct2 [OF h] unfolding p by (simp add: objectPathRe_def slash_def Let_def)
qed

section \<open>When a request is to be let through\<close>

text \<open>An object is public when its row says so, or, without a row, when its sidecar does.\<close>

definition object_public :: "fpath \<Rightarrow> string \<Rightarrow> string \<Rightarrow> world \<Rightarrow> bool" where
  "object_public rs b k w \<longleftrightarrow> key_ok k \<and>
     (case sel_object b k (wdb w) of
        Some r \<Rightarrow> oPublic r | None \<Rightarrow> mPublic (meta_on_disk (wfs w) (side_path rs b k)))"

abbreviation req_query :: "request \<Rightarrow> (string \<times> string) list" where
  "req_query r \<equiv> ParseQuery (rRawQuery r)"

abbreviation req_match :: "request \<Rightarrow> header_match option" where
  "req_match r \<equiv> authHeaderRe (TrimSpace (HeaderGet r ''Authorization''))"

definition presigned_form :: "request \<Rightarrow> bool" where
  "presigned_form r \<longleftrightarrow> QueryHas (req_query r) ''AccessKey'' \<and> QueryHas (req_query r) ''Expires'' \<and>
     QueryHas (req_query r) ''Signature''"

text \<open>The bucket the request's access key belongs to, if it is the bucket of the path, and its secret.\<close>

definition credential :: "Server \<Rightarrow> request \<Rightarrow> string \<Rightarrow> world \<Rightarrow> Bucket \<Rightarrow> string \<Rightarrow> bool" where
  "credential s r name w b secret \<longleftrightarrow>
     presented_key (req_query r) (req_match r) \<noteq> [] \<and>
     sel_bucket_by_key (presented_key (req_query r) (req_match r)) (wdb w) = Some b \<and> Name b = name \<and>
     DecryptSecret (crypto s) (EncryptedSecretKey b) = Inr secret"

inductive grants :: "fpath \<Rightarrow> Server \<Rightarrow> request \<Rightarrow> string \<Rightarrow> world \<Rightarrow> authInfo \<Rightarrow> bool"
  for rs :: fpath and s :: Server and r :: request and name :: string and w :: world
where
  by_public:
    "rMethod r = ''GET'' \<or> rMethod r = ''HEAD'' \<Longrightarrow> rPath r = object_route name key \<Longrightarrow> key \<noteq> [] \<Longrightarrow>
     newline \<notin> set key \<Longrightarrow> sel_bucket name (wdb w) = Some b \<Longrightarrow> object_public rs name key w \<Longrightarrow>
     grants rs s r name w \<lparr>aBucket = b, viaPublic = True, presignExpires = 0\<rparr>"
| by_presigned:
    "presigned_form r \<Longrightarrow> rMethod r = ''GET'' \<or> rMethod r = ''PUT'' \<or> rMethod r = ''HEAD'' \<Longrightarrow>
     credential s r name w b secret \<Longrightarrow> ParseInt (QueryGet (req_query r) ''Expires'') = Some e \<Longrightarrow>
     sint (now_unix w) \<le> sint e \<Longrightarrow>
     QueryGet (req_query r) ''Signature'' = Sign secret (StringToSign (rMethod r) (rPath r) e) \<Longrightarrow>
     grants rs s r name w \<lparr>aBucket = b, viaPublic = False, presignExpires = e\<rparr>"
| by_header:
    "\<not> presigned_form r \<Longrightarrow> credential s r name w b secret \<Longrightarrow> req_match r = Some hm \<Longrightarrow>
     ParseInt (hmTimestamp hm) = Some ts \<Longrightarrow>
     sint (if sint (now_unix w - ts) < 0 then - (now_unix w - ts) else now_unix w - ts)
       \<le> sint (ClockSkewSeconds (cfg s)) \<Longrightarrow>
     hmSignature hm = Sign secret (StringToSign (rMethod r) (rPath r) ts) \<Longrightarrow>
     grants rs s r name w \<lparr>aBucket = b, viaPublic = False, presignExpires = 0\<rparr>"

inductive_cases grantsE: "grants rs s r name w a"

inductive_simps grants_public: "grants rs s r name w \<lparr>aBucket = b, viaPublic = True, presignExpires = e\<rparr>"

section \<open>Reads under faults\<close>

text \<open>What a lookup of the middleware returns, if it does not fail, is what is in the state.\<close>

abbreviation same_state :: "world \<Rightarrow> world \<Rightarrow> bool" where
  "same_state w w' \<equiv> wfs w' = wfs w \<and> wdb w' = wdb w \<and> wnow w' = wnow w"

lemma db_query_same: "db_query f w = (r, w') \<Longrightarrow> same_state w w' \<and> (r = Inr (f (wdb w)) \<or> r = Inl DbErr)"
  by (auto simp: db_query_def db_call_def split: prod.splits fault.splits sum.splits dest!: next_fault_state)

lemma os_query_same: "os_query f w = (r, w') \<Longrightarrow> same_state w w'"
  by (auto simp: os_query_def os_call_def split: prod.splits fault.splits sum.splits dest!: next_fault_state)

lemma os_ReadFile_Inr: "os_ReadFile p w = (Inr d, w') \<Longrightarrow> fs_read (wfs w) (path_comps p) = Inr d"
  by (auto simp: os_ReadFile_def os_query_def os_call_def split: prod.splits fault.splits sum.splits
      dest!: next_fault_state)

lemma readMeta_same:
  assumes "storage_at rs s" "bucket_ok b" "key_clean k" "readMeta s b k w = (Inr m, w')"
  shows "same_state w w'" and "mPublic m \<Longrightarrow> m = meta_on_disk (wfs w) (side_path rs b k)"
proof -
  obtain r where r: "os_ReadFile (metaPath s b k) w = (r, w')"
    and m: "m = (case r of Inl e \<Rightarrow> no_meta | Inr d \<Rightarrow> parse_sidecar d)"
    using assms(4) by (auto simp: readMeta_def attempt_def ret_def split: prod.splits)
  from r show "same_state w w'" unfolding os_ReadFile_def by (rule os_query_same)
  assume "mPublic m"
  with m obtain d where d: "r = Inr d" "m = parse_sidecar d"
    by (auto simp: no_meta_def split: sum.splits)
  with r have "fs_read (wfs w) (side_path rs b k) = Inr d"
    using os_ReadFile_Inr side_comps [OF assms(1-3)] by metis
  with d(2) show "m = meta_on_disk (wfs w) (side_path rs b k)"
    by (auto simp: fs_read_Inr meta_on_disk_def)
qed

lemma IsPublic_same:
  assumes st: "storage_at rs s" "bucket_ok b" and h: "IsPublic s b k w = (r, w')"
  shows "same_state w w'" and "r = Inr True \<Longrightarrow> object_public rs b k w"
proof -
  have "same_state w w' \<and> (r = Inr True \<longrightarrow> object_public rs b k w)"
  proof (cases "key_ok k")
    case False
    then have "IsPublic s b k w = (Inr False, w)"
      using resolve_error [OF st False] by (auto simp: IsPublic_def ret_def)
    with h show ?thesis by auto
  next
    case True
    obtain q v where q: "ObjectPublic b k w = (q, v)" by force
    then have qs: "same_state w v" "q = Inr (map_option oPublic (sel_object b k (wdb w))) \<or> q = Inl DbErr"
      using db_query_same unfolding ObjectPublic_def by blast+
    show ?thesis
    proof (cases "q = Inr None")
      case False
      with h q qs True show ?thesis
        by (auto simp: IsPublic_def resolve_ok [OF st] attempt_def ret_def object_public_def
            split: sum.splits option.splits)
    next
      case none: True
      obtain m v' where m: "readMeta s b k v = (Inr m, v')"
        by (cases "os_ReadFile (metaPath s b k) v") (auto simp: readMeta_def attempt_def ret_def)
      note ms = readMeta_same [OF st key_ok_clean [OF True] m]
      have "r = Inr (mPublic m)" "w' = v'"
        using h q none m True by (auto simp: IsPublic_def resolve_ok [OF st] attempt_def ret_def andThen_def)
      with ms qs none True show ?thesis by (auto simp: object_public_def split: option.splits)
    qed
  qed
  then show "same_state w w'" and "r = Inr True \<Longrightarrow> object_public rs b k w" by blast+
qed

section \<open>The middleware\<close>

definition names_ok :: "database \<Rightarrow> bool" where
  "names_ok d \<longleftrightarrow> (\<forall>b\<in>set (tblBuckets d). bucket_ok (Name b))"

lemma names_okD: "names_ok d \<Longrightarrow> sel_bucket n d = Some b \<Longrightarrow> bucket_ok n \<and> Name b = n"
  using sel_bucket_NameD by (fastforce simp: names_ok_def)

lemma GetBucket_same: "GetBucket n w = (r, w') \<Longrightarrow> same_state w w' \<and> (r = Inr (sel_bucket n (wdb w)) \<or> r = Inl DbErr)"
  unfolding GetBucket_def by (rule db_query_same)

lemma BucketByAccessKey_same:
  "BucketByAccessKey n w = (r, w') \<Longrightarrow> same_state w w' \<and> (r = Inr (sel_bucket_by_key n (wdb w)) \<or> r = Inl DbErr)"
  unfolding BucketByAccessKey_def by (rule db_query_same)

lemma public_bypass_sound:
  assumes st: "storage_at rs (storage s)" and nm: "names_ok (wdb w)"
    and path: "bucketPathRe (rPath r) = Some name" and h: "public_bypass s r name w = (ob, w')"
  shows "same_state w w'"
    and "ob = Some b \<Longrightarrow> grants rs s r name w \<lparr>aBucket = b, viaPublic = True, presignExpires = 0\<rparr>"
proof -
  have "same_state w w' \<and> (ob = Some b \<longrightarrow> grants rs s r name w \<lparr>aBucket = b, viaPublic = True, presignExpires = 0\<rparr>)"
  proof (cases "(rMethod r = ''GET'' \<or> rMethod r = ''HEAD'') \<and> objectPathRe (rPath r) \<noteq> None")
    case False
    with h have "ob = None \<and> w' = w"
      by (cases "objectPathRe (rPath r)") (auto simp: public_bypass_def split: if_splits)
    then show ?thesis by simp
  next
    case True
    then obtain n key where o: "objectPathRe (rPath r) = Some (n, key)" by auto
    then have nn: "n = name" using path objectPathRe_bucketPathRe by fastforce
    obtain q v where q: "GetBucket name w = (q, v)" by force
    note qs = GetBucket_same [OF q]
    show ?thesis
    proof (cases "\<exists>b. q = Inr (Some b)")
      case False
      with h True o q qs show ?thesis
        by (auto simp: public_bypass_def split: sum.splits option.splits)
    next
      case True': True
      then obtain b' where b': "q = Inr (Some b')" by blast
      with qs have sb: "sel_bucket name (wdb w) = Some b'" by auto
      note bok = names_okD [OF nm sb]
      obtain p v' where p: "IsPublic (storage s) name key v = (p, v')" by force
      note ps = IsPublic_same [OF st conjunct1 [OF bok] p]
      have res: "ob = (if p = Inr True then Some b' else None)" "w' = v'"
        using h True o q b' bok p by (auto simp: public_bypass_def split: sum.splits bool.splits)
      have pub: "object_public rs name key v \<Longrightarrow> object_public rs name key w"
        using qs by (auto simp: object_public_def split: option.splits)
      show ?thesis
        using res ps qs True o sb nn objectPathRe_route [of "rPath r" name key] pub
        by (auto intro!: grants.by_public split: if_splits)
    qed
  qed
  then show "same_state w w'"
    and "ob = Some b \<Longrightarrow> grants rs s r name w \<lparr>aBucket = b, viaPublic = True, presignExpires = 0\<rparr>" by blast+
qed

lemma public_bypass_quiet:
  assumes "storage_at rs (storage s)" "names_ok (wdb w)" "bucketPathRe (rPath r) = Some name" "wfaults w = []"
    and "public_bypass s r name w = (None, w')"
  shows "w' = w \<and> \<not> grants rs s r name w \<lparr>aBucket = b, viaPublic = True, presignExpires = e\<rparr>"
proof -
  have "\<not> grants rs s r name w \<lparr>aBucket = b, viaPublic = True, presignExpires = e\<rparr>"
  proof
    assume "grants rs s r name w \<lparr>aBucket = b, viaPublic = True, presignExpires = e\<rparr>"
    then obtain key where g: "rMethod r = ''GET'' \<or> rMethod r = ''HEAD''" "rPath r = object_route name key" "key \<noteq> []"
      "newline \<notin> set key" "sel_bucket name (wdb w) = Some b" "object_public rs name key w"
      by (auto elim: grantsE)
    have "name \<noteq> [] \<and> slash \<notin> set name" using assms(3) by (auto simp: bucketPathRe_Some)
    then have "objectPathRe (rPath r) = Some (name, key)" using g(2-4) by (simp add: objectPathRe_route)
    with g assms names_okD [OF assms(2) g(5)] show False
      by (simp add: public_bypass_def store_quiet IsPublic_quiet object_public_def split: if_splits)
  qed
  moreover have "w' = w"
    using assms names_okD [OF assms(2), of name]
    by (auto simp: public_bypass_def store_quiet IsPublic_quiet split: if_splits option.splits bool.splits)
  ultimately show ?thesis by blast
qed

lemma check_signature_grants:
  assumes "credential s r name w b secret"
    and "check_signature s r (now_unix w) (req_query r) (req_match r) secret = (e, True)"
  shows "grants rs s r name w \<lparr>aBucket = b, viaPublic = False, presignExpires = e\<rparr>"
proof (cases "presigned_form r")
  case True
  with assms show ?thesis
    by (auto simp: check_signature_def presigned_form_def verifyPresigned_def SignatureMatches_def
        constant_time_compare_iff [simplified] split: if_splits option.splits intro!: grants.by_presigned)
next
  case False
  with assms(2) have e: "e = 0" "verifyHeader (now_unix w) (rMethod r) (rPath r) secret (req_match r) (ClockSkewSeconds (cfg s))"
    by (auto simp: check_signature_def presigned_form_def)
  from e(2) obtain hm ts where "req_match r = Some hm" "ParseInt (hmTimestamp hm) = Some ts"
    "sint (if sint (now_unix w - ts) < 0 then - (now_unix w - ts) else now_unix w - ts) \<le> sint (ClockSkewSeconds (cfg s))"
    "hmSignature hm = Sign secret (StringToSign (rMethod r) (rPath r) ts)"
    by (auto simp: verifyHeader_def Let_def SignatureMatches_def constant_time_compare_iff [simplified] not_less
        split: option.splits if_splits)
  then show ?thesis unfolding e(1) by (rule grants.by_header [OF False assms(1)])
qed

lemma credential_stopped:
  assumes "credential s r name w b secret"
    and "check_signature s r (now_unix w) (req_query r) (req_match r) secret = (e, False)"
  shows "\<not> (\<exists>b e. grants rs s r name w \<lparr>aBucket = b, viaPublic = False, presignExpires = e\<rparr>)"
proof
  assume "\<exists>b e. grants rs s r name w \<lparr>aBucket = b, viaPublic = False, presignExpires = e\<rparr>"
  then obtain b' e' where "grants rs s r name w \<lparr>aBucket = b', viaPublic = False, presignExpires = e'\<rparr>" by blast
  then show False
    using assms
    by cases (auto simp: credential_def check_signature_def presigned_form_def verifyPresigned_def verifyHeader_def
        Let_def SignatureMatches_def constant_time_compare_iff [simplified] split: if_splits)
qed

lemma no_credential:
  "\<nexists>b secret. credential s r name w b secret \<Longrightarrow>
     \<not> grants rs s r name w \<lparr>aBucket = b, viaPublic = False, presignExpires = e\<rparr>"
  by (auto elim: grantsE)

text \<open>
  The middleware either hands the request on with an identity it is entitled to, or answers 401, 403
  or 500 itself; neither changes the state.  Without faults it hands on exactly the entitled ones.
\<close>

lemma bucketAuth_outcome:
  assumes st: "storage_at rs (storage s)" and nm: "names_ok (wdb w)"
    and path: "bucketPathRe (rPath r) = Some name"
  shows "(\<exists>a w1. same_state w w1 \<and> grants rs s r name w a \<and>
            (\<forall>nxt. bucketAuth s nxt r w = nxt (r\<lparr>rAuth := Some a\<rparr>) w1)) \<or>
         (\<exists>rsp w1. same_state w w1 \<and> rsStatus rsp \<in> {401, 403, 500} \<and>
            (\<forall>nxt. bucketAuth s nxt r w = (rsp, w1)) \<and> (wfaults w = [] \<longrightarrow> (\<nexists>a. grants rs s r name w a)))"
proof -
  obtain ob w1 where pb: "public_bypass s r name w = (ob, w1)" by force
  note pbs = public_bypass_sound [OF st nm path pb]
  show ?thesis
  proof (cases ob)
    case (Some b)
    have "\<forall>nxt. bucketAuth s nxt r w = nxt (r\<lparr>rAuth := Some \<lparr>aBucket = b, viaPublic = True, presignExpires = 0\<rparr>\<rparr>) w1"
      using pb Some by (simp add: bucketAuth_def path)
    with pbs Some show ?thesis by blast
  next
    case None
    let ?q = "req_query r" and ?hm = "req_match r"
    define ak where "ak = presented_key ?q ?hm"
    obtain found w2 where f: "lookup_key ak w1 = (found, w2)" by force
    have fs: "same_state w w2" "found = Inr (if ak = [] then None else sel_bucket_by_key ak (wdb w)) \<or> found = Inl DbErr"
      using f pbs(1) BucketByAccessKey_same [of ak w1 found w2] by (auto simp: lookup_key_def ret_def split: if_splits)
    have quiet: "w2 = w \<and> found = Inr (if ak = [] then None else sel_bucket_by_key ak (wdb w)) \<and>
        (\<forall>b e. \<not> grants rs s r name w \<lparr>aBucket = b, viaPublic = True, presignExpires = e\<rparr>)" if "wfaults w = []"
      using public_bypass_quiet [OF st nm path that pb [unfolded None]] f that
      by (auto simp: store_quiet lookup_key_def ret_def split: if_splits)
    have none: "\<nexists>a. grants rs s r name w a"
      if "wfaults w = []" "\<forall>b e. \<not> grants rs s r name w \<lparr>aBucket = b, viaPublic = False, presignExpires = e\<rparr>"
    proof
      assume "\<exists>a. grants rs s r name w a"
      then obtain a where a: "grants rs s r name w a" by blast
      then have "a = \<lparr>aBucket = aBucket a, viaPublic = viaPublic a, presignExpires = presignExpires a\<rparr>" by simp
      with a quiet [OF that(1)] that(2) show False by (cases "viaPublic a") metis+
    qed
    have cred_found: "found = Inr (Some b) \<and> Name b = name \<and> DecryptSecret (crypto s) (EncryptedSecretKey b) = Inr secret"
      if "wfaults w = []" "credential s r name w b secret" for b secret
      using quiet [OF that(1)] that(2) by (simp add: credential_def flip: ak_def)
    have run: "bucketAuth s nxt r w = (case found of
          Inl e \<Rightarrow> internalError w2
        | Inr None \<Rightarrow> deny_key name w2
        | Inr (Some b) \<Rightarrow> if Name b \<noteq> name then deny_key name w2 else check_credentials s nxt ?q ?hm b r w2)" for nxt
      using f by (simp add: bucketAuth_def path pb None Let_def ak_def split: sum.splits option.splits)
    consider (fail) e where "found = Inl e" | (nokey) "found = Inr None"
      | (other) b where "found = Inr (Some b)" "Name b \<noteq> name"
      | (nosecret) b e where "found = Inr (Some b)" "Name b = name" "DecryptSecret (crypto s) (EncryptedSecretKey b) = Inl e"
      | (secret) b secret where "found = Inr (Some b)" "Name b = name" "DecryptSecret (crypto s) (EncryptedSecretKey b) = Inr secret"
      by (metis old.sum.exhaust option.exhaust)
    then show ?thesis
    proof cases
      case fail
      then have "\<forall>nxt. bucketAuth s nxt r w = internalError w2"
        using run by (simp add: check_credentials_def)
      moreover have "wfaults w \<noteq> []" using quiet fail by auto
      ultimately show ?thesis
        using fs(1) by (intro disjI2) (auto simp: internalError_def writeError_def writeJSON_def status_defs)
    next
      case nokey
      then have "\<forall>nxt. bucketAuth s nxt r w = deny_key name w2"
        using run by (simp add: check_credentials_def)
      moreover have "\<nexists>b secret. credential s r name w b secret" if "wfaults w = []"
        using cred_found [OF that] nokey by fastforce
      ultimately show ?thesis
        using fs(1) none no_credential
        by (intro disjI2 exI conjI) (auto simp: deny_key_def writeError_def writeJSON_def status_defs)
    next
      case other
      then have "\<forall>nxt. bucketAuth s nxt r w = deny_key name w2"
        using run by (simp add: check_credentials_def)
      moreover have "\<nexists>b secret. credential s r name w b secret" if "wfaults w = []"
        using cred_found [OF that] other by fastforce
      ultimately show ?thesis
        using fs(1) none no_credential
        by (intro disjI2 exI conjI) (auto simp: deny_key_def writeError_def writeJSON_def status_defs)
    next
      case nosecret
      then have "\<forall>nxt. bucketAuth s nxt r w = internalError w2"
        using run by (simp add: check_credentials_def)
      moreover have "\<nexists>b secret. credential s r name w b secret" if "wfaults w = []"
        using cred_found [OF that] nosecret by fastforce
      ultimately show ?thesis
        using fs(1) none no_credential
        by (intro disjI2 exI conjI) (auto simp: internalError_def writeError_def writeJSON_def status_defs)
    next
      case secret
      have cred: "credential s r name w b secret"
        using fs(2) secret by (auto simp: credential_def ak_def [symmetric] split: if_splits)
      obtain e ok where chk: "check_signature s r (now_unix w2) ?q ?hm secret = (e, ok)" by force
      have now: "now_unix w2 = now_unix w" using fs(1) by (simp add: now_unix_def)
      show ?thesis
      proof (cases ok)
        case True
        then have "\<forall>nxt. bucketAuth s nxt r w = nxt (r\<lparr>rAuth := Some \<lparr>aBucket = b, viaPublic = False, presignExpires = e\<rparr>\<rparr>) w2"
          using run chk secret by (simp add: check_credentials_def)
        with fs(1) check_signature_grants [OF cred] chk True show ?thesis by (metis now)
      next
        case False
        then have "\<forall>nxt. bucketAuth s nxt r w = writeError StatusForbidden ''SignatureMismatch''
            ''Request signature is invalid, expired, or malformed'' w2"
          using run chk secret by (simp add: check_credentials_def)
        moreover have "rsStatus (fst (writeError StatusForbidden ''SignatureMismatch''
            ''Request signature is invalid, expired, or malformed'' w2)) = 403"
          "snd (writeError StatusForbidden ''SignatureMismatch''
            ''Request signature is invalid, expired, or malformed'' w2) = w2"
          by (simp_all add: writeError_def writeJSON_def status_defs)
        moreover have "\<nexists>a. grants rs s r name w a" if "wfaults w = []"
          using none [OF that] credential_stopped [OF cred, of e] chk False now by auto
        ultimately show ?thesis
          using fs(1) by (intro disjI2) (metis insert_iff prod.collapse)
      qed
    qed
  qed
qed

end
