(* ===== verification/ServerLaws.thy ===== *)
theory ServerLaws
  imports AuthLaws
begin

text \<open>
  The pipeline as a whole: what reaches which handler with which identity, what a request without an
  identity can do (nothing), presigned URLs, key rotation, and the invariants every request keeps.
\<close>

section \<open>Identities\<close>

lemma grants_bucket:
  "grants rs s r name w a \<Longrightarrow> Name (aBucket a) = name \<and> aBucket a \<in> set (tblBuckets (wdb w))"
  by (auto elim!: grantsE simp: credential_def dest: sel_bucket_NameD sel_bucket_by_keyD)

lemma grants_public_route:
  "grants rs s r name w a \<Longrightarrow> viaPublic a \<Longrightarrow>
     \<exists>key. rPath r = object_route name key \<and> (rMethod r = ''GET'' \<or> rMethod r = ''HEAD'') \<and> object_public rs name key w"
  by (auto elim!: grantsE)

section \<open>Routes below /buckets\<close>

lemma authedBucket_none: "rAuth r = None \<Longrightarrow>
    \<exists>msg. authedBucket r = Inl (ApiErr \<lparr>Status = StatusUnauthorized, Code = ''Unauthorized'', Message = msg\<rparr>)"
  by (simp add: authedBucket_def)

lemmas object_handlers =
  getObject_def putObject_def deleteObject_def listObjects_def bucketStats_def presign_def setACL_def

lemma dispatch_unauthed:
  assumes "\<And>m h. map_of routes m = Some h \<Longrightarrow> \<exists>k. h r = andThen (lift_result (authedBucket r)) k"
    and "rAuth r = None"
  shows "\<exists>rsp. dispatch routes r w = (rsp, w) \<and> rsStatus rsp \<in> {401, 405}"
proof (cases "map_of routes (rMethod r)")
  case None
  then show ?thesis by (simp add: dispatch_def writeError_def writeJSON_def setHeader_def status_defs)
next
  case (Some h)
  then obtain k where k: "h r = andThen (lift_result (authedBucket r)) k" using assms(1) by blast
  obtain msg where "authedBucket r = Inl (ApiErr \<lparr>Status = StatusUnauthorized, Code = ''Unauthorized'', Message = msg\<rparr>)"
    using authedBucket_none [OF assms(2)] by blast
  then have "h r w = (Inl (ApiErr \<lparr>Status = StatusUnauthorized, Code = ''Unauthorized'', Message = msg\<rparr>), w)"
    by (simp add: k andThen_def lift_result_def)
  with Some show ?thesis by (simp add: dispatch_def writeError_def writeJSON_def status_defs)
qed

lemma handlers_check_first:
  "\<exists>k. getObject s r = andThen (lift_result (authedBucket r)) k"
  "\<exists>k. putObject s r = andThen (lift_result (authedBucket r)) k"
  "\<exists>k. deleteObject s r = andThen (lift_result (authedBucket r)) k"
  "\<exists>k. listObjects s r = andThen (lift_result (authedBucket r)) k"
  "\<exists>k. bucketStats r = andThen (lift_result (authedBucket r)) k"
  "\<exists>k. presign s r = andThen (lift_result (authedBucket r)) k"
  "\<exists>k. setACL s r = andThen (lift_result (authedBucket r)) k"
  unfolding object_handlers by (rule exI, rule refl)+

lemma route_bucket_unauthed:
  assumes "rAuth r = None"
  shows "\<exists>rsp. route_bucket s r w = (rsp, w) \<and> rsStatus rsp \<in> {401, 404, 405}"
proof -
  obtain bucket rest f where c: "cut_at slash (TrimPrefix (rPath r) ''/buckets/'') = (bucket, rest, f)"
    by (metis prod_cases3)
  have d: "\<exists>rsp. dispatch routes r' w = (rsp, w) \<and> rsStatus rsp \<in> {401, 404, 405}"
    if "rAuth r' = None" "\<And>m h. map_of routes m = Some h \<Longrightarrow> \<exists>k. h r' = andThen (lift_result (authedBucket r')) k"
    for routes r'
  proof -
    have "\<exists>rsp. dispatch routes r' w = (rsp, w) \<and> rsStatus rsp \<in> {401, 405}"
      by (rule dispatch_unauthed) (erule that(2), rule that(1))
    then show ?thesis by blast
  qed
  have nf: "\<exists>rsp. routeNotFound w = (rsp, w) \<and> rsStatus rsp \<in> {401, 404, 405}"
    by (simp add: routeNotFound_def writeError_def writeJSON_def status_defs)
  let ?r = "r\<lparr>pvBucket := bucket\<rparr>"
  let ?o = "\<lambda>k. r\<lparr>pvBucket := bucket, pvKey := k\<rparr>"
  have "\<exists>rsp. dispatch [(''GET'', listObjects s)] ?r w = (rsp, w) \<and> rsStatus rsp \<in> {401, 404, 405}"
    "\<exists>rsp. dispatch [(''GET'', bucketStats)] ?r w = (rsp, w) \<and> rsStatus rsp \<in> {401, 404, 405}"
    "\<exists>rsp. dispatch [(''POST'', presign s)] ?r w = (rsp, w) \<and> rsStatus rsp \<in> {401, 404, 405}"
    "\<exists>rsp. dispatch [(''PUT'', setACL s)] (?o k) w = (rsp, w) \<and> rsStatus rsp \<in> {401, 404, 405}"
    "\<exists>rsp. dispatch [(''GET'', getObject s), (''HEAD'', getObject s), (''PUT'', putObject s), (''DELETE'', deleteObject s)]
        (?o k) w = (rsp, w) \<and> rsStatus rsp \<in> {401, 404, 405}" for k
    by (rule d; use assms handlers_check_first in \<open>auto split: if_splits\<close>)+
  then show ?thesis
    unfolding route_bucket_def c prod.case Let_def using nf by (simp only: split: if_split) simp
qed

lemma buckets_prefix_router:
  "HasPrefix (rPath r) ''/buckets/'' \<Longrightarrow> router s st srv r w = route_bucket s r w"
  by (auto simp: router_def Let_def prefix_def)

lemma buckets_not_admin: "HasPrefix p ''/buckets/'' \<Longrightarrow> \<not> admin_path p"
  by (auto simp: admin_path_def prefix_def)

lemma bucketPathRe_prefix: "bucketPathRe p = Some n \<Longrightarrow> HasPrefix p ''/buckets/''"
  by (auto simp: bucketPathRe_Some)

text \<open>
  A request to a bucket that nothing entitles is answered with an error and changes nothing, whatever
  its method and path, and whether or not the regular expressions recognise the path.
\<close>

lemma unauthenticated_harmless:
  assumes st: "storage_at rs (storage s)" and nm: "names_ok (wdb w)" and fresh: "rAuth r = None"
    and path: "HasPrefix (rPath r) ''/buckets/''"
    and no: "\<And>name a. bucketPathRe (rPath r) = Some name \<Longrightarrow> \<not> grants rs s r name w a"
  shows "\<exists>rsp w'. Handler s t0 srv r w = (rsp, w') \<and> same_state w w' \<and> rsStatus rsp \<in> {401, 403, 404, 405, 500}"
proof -
  have r: "r\<lparr>rAuth := None\<rparr> = r" using fresh by simp
  have h: "Handler s t0 srv r w = bucketAuth s (router s t0 srv) r w"
    using buckets_not_admin [OF path] by (simp add: Handler_def adminAuth_def r)
  show ?thesis
  proof (cases "bucketPathRe (rPath r)")
    case None
    then have "Handler s t0 srv r w = route_bucket s r w"
      by (simp add: h bucketAuth_def buckets_prefix_router [OF path])
    then show ?thesis using route_bucket_unauthed [OF fresh, of s w] by auto
  next
    case (Some name)
    then obtain rsp w1 where "same_state w w1" "rsStatus rsp \<in> {401, 403, 500}" "bucketAuth s (router s t0 srv) r w = (rsp, w1)"
      using bucketAuth_outcome [OF st nm Some] no by blast
    then show ?thesis by (auto simp: h)
  qed
qed

text \<open>A granted request reaches the router with its identity.\<close>

lemma granted_reaches:
  assumes st: "storage_at rs (storage s)" and nm: "names_ok (wdb w)" and fresh: "rAuth r = None"
    and path: "bucketPathRe (rPath r) = Some name" and g: "grants rs s r name w a" and q: "wfaults w = []"
  shows "\<exists>a' w1. same_state w w1 \<and> grants rs s r name w a' \<and>
     Handler s t0 srv r w = route_bucket s (r\<lparr>rAuth := Some a'\<rparr>) w1"
proof -
  have r: "r\<lparr>rAuth := None\<rparr> = r" using fresh by simp
  have pre: "HasPrefix (rPath r) ''/buckets/''" using path by (rule bucketPathRe_prefix)
  have h: "Handler s t0 srv r w = bucketAuth s (router s t0 srv) r w"
    using buckets_not_admin [OF pre] by (simp add: Handler_def adminAuth_def r)
  obtain a' w1 where "same_state w w1" "grants rs s r name w a'"
    "bucketAuth s (router s t0 srv) r w = router s t0 srv (r\<lparr>rAuth := Some a'\<rparr>) w1"
    using bucketAuth_outcome [OF st nm path] g q by blast
  then show ?thesis using buckets_prefix_router [of "r\<lparr>rAuth := Some a'\<rparr>"] pre h by auto
qed

text \<open>The route of an object path, with the bucket and the key the middleware saw.\<close>

lemma cut_object_route:
  "slash \<notin> set n \<Longrightarrow> n \<noteq> [] \<Longrightarrow>
     cut_at slash (TrimPrefix (object_route n k) ''/buckets/'') = (n, ''objects/'' @ k, True)"
  using cut_at_append [of slash n "''objects/'' @ k"]
  by (simp add: object_route_def TrimPrefix_def slash_def)

lemma route_object:
  assumes "rPath r = object_route n k" "slash \<notin> set n" "n \<noteq> []"
  shows "route_bucket s r w =
     dispatch [(''GET'', getObject s), (''HEAD'', getObject s), (''PUT'', putObject s), (''DELETE'', deleteObject s)]
       (r\<lparr>pvBucket := n, pvKey := k\<rparr>) w"
  unfolding route_bucket_def assms(1) cut_object_route [OF assms(2,3)]
  by (simp add: Let_def TrimPrefix_def assms(3))

end
