(* ===== verification/AdminLaws.thy ===== *)
theory AdminLaws
  imports ServerLaws
begin

text \<open>
  The admin routes: the guard in front of them, key rotation, creating and deleting a bucket.
\<close>

section \<open>The guard\<close>

text \<open>The request carries the configured key, which is not blank.\<close>

definition admin_ok :: "Server \<Rightarrow> request \<Rightarrow> bool" where
  "admin_ok s r \<longleftrightarrow> TrimSpace (AdminAPIKey (cfg s)) \<noteq> [] \<and>
     (\<exists>others. map_of (rHeader r) ''X-Admin-Api-Key'' = Some (AdminAPIKey (cfg s) # others))"

lemma adminAuth_guard:
  assumes "admin_path (rPath r)"
  shows "admin_ok s r \<Longrightarrow> adminAuth s nxt r w = nxt r w"
    and "\<not> admin_ok s r \<Longrightarrow> \<exists>rsp. adminAuth s nxt r w = (rsp, w) \<and> rsStatus rsp \<in> {401, 500}"
proof -
  show "admin_ok s r \<Longrightarrow> adminAuth s nxt r w = nxt r w"
    using assms by (auto simp: admin_ok_def adminAuth_def constant_time_compare_iff [simplified])
  show "\<not> admin_ok s r \<Longrightarrow> \<exists>rsp. adminAuth s nxt r w = (rsp, w) \<and> rsStatus rsp \<in> {401, 500}"
    using assms
    by (auto simp: admin_ok_def adminAuth_def constant_time_compare_iff [simplified] writeError_def writeJSON_def status_defs
        split: option.splits list.splits)
qed

lemma admin_not_bucket: "admin_path p \<Longrightarrow> bucketPathRe p = None"
  by (auto simp: admin_path_def bucketPathRe_def prefix_def)

lemma admin_pipeline:
  assumes "admin_path (rPath r)" and "rAuth r = None"
  shows "admin_ok s r \<Longrightarrow> Handler s t0 srv r w = router s t0 srv r w"
    and "\<not> admin_ok s r \<Longrightarrow> \<exists>rsp. Handler s t0 srv r w = (rsp, w) \<and> rsStatus rsp \<in> {401, 500}"
proof -
  have r: "r\<lparr>rAuth := None\<rparr> = r" using assms(2) by simp
  show "admin_ok s r \<Longrightarrow> Handler s t0 srv r w = router s t0 srv r w"
    using assms by (simp add: Handler_def r adminAuth_guard bucketAuth_def admin_not_bucket)
  show "\<not> admin_ok s r \<Longrightarrow> \<exists>rsp. Handler s t0 srv r w = (rsp, w) \<and> rsStatus rsp \<in> {401, 500}"
    using adminAuth_guard(2) [OF assms(1)] by (simp add: Handler_def r)
qed

section \<open>Buckets by name\<close>

lemma requireBucket_Inr:
  "requireBucket n w = (Inr b, w') \<Longrightarrow> same_state w w' \<and> sel_bucket n (wdb w) = Some b"
  by (auto simp: requireBucket_def andThen_def ret_def fail_def split: prod.splits sum.splits option.splits
      dest!: GetBucket_same)

lemma requireBucket_Inl: "requireBucket n w = (Inl e, w') \<Longrightarrow> same_state w w'"
  by (auto simp: requireBucket_def andThen_def ret_def fail_def split: prod.splits sum.splits option.splits
      dest!: GetBucket_same)

section \<open>Rotation\<close>

lemma UpdateBucketKeys_outcome:
  "UpdateBucketKeys n ak es w = (res, w') \<Longrightarrow>
     wfs w' = wfs w \<and> (case res of Inl e \<Rightarrow> wdb w' = wdb w | Inr u \<Rightarrow> upd_bucket_keys n ak es (wdb w) = Some (wdb w'))"
  by (auto simp: UpdateBucketKeys_def db_call_def split: prod.splits fault.splits sum.splits option.splits
      dest!: next_fault_state)

lemma find_map_other: "(\<And>x. P (f x) \<longleftrightarrow> P x) \<Longrightarrow> (\<And>x. P x \<Longrightarrow> f x = x) \<Longrightarrow> find P (map f xs) = find P xs"
  by (induction xs) auto

lemma upd_bucket_keys_objects: "upd_bucket_keys n ak es d = Some d' \<Longrightarrow> tblObjects d' = tblObjects d"
  by (auto simp: upd_bucket_keys_def split: if_splits)

lemma upd_bucket_keys_lookup:
  assumes wf: "db_wf d" and b: "sel_bucket n d = Some b" and u: "upd_bucket_keys n ak es d = Some d'"
  shows "sel_bucket_by_key ak d' = Some (b\<lparr>AccessKey := ak, EncryptedSecretKey := es\<rparr>)"
    and "AccessKey b \<noteq> ak \<Longrightarrow> sel_bucket_by_key (AccessKey b) d' = None"
    and "m \<noteq> n \<Longrightarrow> sel_bucket m d' = sel_bucket m d"
proof -
  let ?f = "\<lambda>x. if Name x = n then x\<lparr>AccessKey := ak, EncryptedSecretKey := es\<rparr> else x"
  have d': "d' = d\<lparr>tblBuckets := map ?f (tblBuckets d)\<rparr>" using u by (auto simp: upd_bucket_keys_def split: if_splits)
  have bm: "b \<in> set (tblBuckets d)" "Name b = n" using b sel_bucket_NameD by auto
  have wf': "db_wf d'" using wf u by (rule upd_bucket_keys_wf)
  have "?f b \<in> ?f ` set (tblBuckets d)" using bm(1) by (rule imageI)
  then have "?f b \<in> set (tblBuckets d')" by (simp add: d')
  then show "sel_bucket_by_key ak d' = Some (b\<lparr>AccessKey := ak, EncryptedSecretKey := es\<rparr>)"
    using bm(2) by (simp add: sel_bucket_by_key_Some [OF wf'])
  have inj: "x \<in> set (tblBuckets d) \<Longrightarrow> AccessKey x = AccessKey b \<Longrightarrow> x = b" for x
    using wf bm(1) by (auto simp: db_wf_def distinct_map inj_on_def)
  show "sel_bucket_by_key (AccessKey b) d' = None" if "AccessKey b \<noteq> ak"
    using that inj bm(2) unfolding sel_bucket_by_key_def d' by (auto simp: find_None_iff split: if_splits)
  show "m \<noteq> n \<Longrightarrow> sel_bucket m d' = sel_bucket m d"
    unfolding sel_bucket_def d' by (auto intro!: find_map_other)
qed

lemma upd_bucket_keys_row:
  assumes "db_wf d" "sel_bucket n d = Some b" "upd_bucket_keys n ak es d = Some d'"
  shows "tblBuckets d' =
    map (\<lambda>x. if Name x = n then b\<lparr>AccessKey := ak, EncryptedSecretKey := es\<rparr> else x) (tblBuckets d)"
proof -
  have "x = b" if "x \<in> set (tblBuckets d)" "Name x = n" for x
    using assms(1,2) that sel_bucket_NameD [of n d b] by (auto simp: db_wf_def distinct_map inj_on_def)
  with assms(3) show ?thesis by (auto simp: upd_bucket_keys_def split: if_splits)
qed

lemma rotate_outcome:
  assumes "rotateBucketKey s r w = (res, w')" and "db_ok w"
  shows "wfs w' = wfs w \<and> tblObjects (wdb w') = tblObjects (wdb w)"
    and "res = Inl e \<Longrightarrow> wdb w' = wdb w"
    and "res = Inr rsp \<Longrightarrow> \<exists>b ak es. sel_bucket (pvName r) (wdb w) = Some b \<and>
      rsp = writeJSON StatusOK (CredentialsBody (Name b) ak (GenerateSecretKey (rndSecret (rEntropy r))) (CreatedAt b) (Description b)) \<and>
      ak = GenerateAccessKey (rndAccess (rEntropy r)) \<and>
      DecryptSecret (crypto s) es = Inr (GenerateSecretKey (rndSecret (rEntropy r))) \<and>
      upd_bucket_keys (pvName r) ak es (wdb w) = Some (wdb w')"
proof -
  have "wfs w' = wfs w \<and> tblObjects (wdb w') = tblObjects (wdb w) \<and> (\<forall>e. res = Inl e \<longrightarrow> wdb w' = wdb w) \<and>
    (\<forall>rsp. res = Inr rsp \<longrightarrow> (\<exists>b ak es. sel_bucket (pvName r) (wdb w) = Some b \<and>
      rsp = writeJSON StatusOK (CredentialsBody (Name b) ak (GenerateSecretKey (rndSecret (rEntropy r))) (CreatedAt b) (Description b)) \<and>
      ak = GenerateAccessKey (rndAccess (rEntropy r)) \<and>
      DecryptSecret (crypto s) es = Inr (GenerateSecretKey (rndSecret (rEntropy r))) \<and>
      upd_bucket_keys (pvName r) ak es (wdb w) = Some (wdb w')))"
  proof (cases "requireBucket (pvName r) w")
    case (Pair q v)
    show ?thesis
    proof (cases q)
      case (Inl e)
      then show ?thesis
        using assms(1) Pair requireBucket_Inl [of "pvName r" w e v] by (auto simp: rotateBucketKey_def andThen_def)
    next
      case (Inr b)
      let ?ak = "GenerateAccessKey (rndAccess (rEntropy r))" and ?sk = "GenerateSecretKey (rndSecret (rEntropy r))"
      let ?es = "EncryptSecret (crypto s) (rndNonce (rEntropy r)) ?sk"
      have b: "same_state w v" "sel_bucket (pvName r) (wdb w) = Some b"
        using Pair Inr requireBucket_Inr by blast+
      have n: "Name b = pvName r" using b(2) sel_bucket_NameD by blast
      obtain q2 v2 where u: "UpdateBucketKeys (Name b) ?ak ?es v = (q2, v2)" by force
      note uo = UpdateBucketKeys_outcome [OF u]
      have res: "w' = v2" "res = (case q2 of Inl e \<Rightarrow> Inl e | Inr u \<Rightarrow>
          Inr (writeJSON StatusOK (CredentialsBody (Name b) ?ak ?sk (CreatedAt b) (Description b))))"
        using assms(1) Pair Inr u by (auto simp: rotateBucketKey_def andThen_def ret_def Let_def split: sum.splits)
      have "tblObjects (wdb v2) = tblObjects (wdb w)"
        using uo b(1) by (auto dest: upd_bucket_keys_objects split: sum.splits)
      moreover have "DecryptSecret (crypto s) ?es = Inr ?sk" by (rule decrypt_encrypt)
      ultimately show ?thesis using res uo b n by (auto split: sum.splits)
    qed
  qed
  then show "wfs w' = wfs w \<and> tblObjects (wdb w') = tblObjects (wdb w)"
    and "res = Inl e \<Longrightarrow> wdb w' = wdb w"
    and "res = Inr rsp \<Longrightarrow> \<exists>b ak es. sel_bucket (pvName r) (wdb w) = Some b \<and>
      rsp = writeJSON StatusOK (CredentialsBody (Name b) ak (GenerateSecretKey (rndSecret (rEntropy r))) (CreatedAt b) (Description b)) \<and>
      ak = GenerateAccessKey (rndAccess (rEntropy r)) \<and>
      DecryptSecret (crypto s) es = Inr (GenerateSecretKey (rndSecret (rEntropy r))) \<and>
      upd_bucket_keys (pvName r) ak es (wdb w) = Some (wdb w')" by blast+
qed

section \<open>Bucket names\<close>

lemma bucketNameRe_chars:
  assumes "bucketNameRe n" and "c \<in> set n"
  shows "lower_alnum c \<or> c = CHR ''-''"
proof (cases "length n = 1")
  case True
  then obtain x where "n = [x]" by (auto simp: length_Suc_conv)
  with assms show ?thesis by (simp add: bucketNameRe_def)
next
  case False
  with assms(1) have h: "n \<noteq> []" "lower_alnum (hd n)" "3 \<le> length n" "lower_alnum (last n)"
    "list_all (\<lambda>c. lower_alnum c \<or> c = CHR ''-'') (butlast (tl n))"
    by (auto simp: bucketNameRe_def)
  then obtain x m where n: "n = x # m" "m \<noteq> []" by (cases n; cases "tl n") auto
  then have m: "m = butlast m @ [last m]" by simp
  have "c = x \<or> c \<in> set (butlast m) \<or> c = last m"
    using assms(2) n m by (metis Un_iff in_set_conv_decomp list.set_intros set_append set_ConsD empty_iff list.set(1))
  with h n show ?thesis by (auto simp: list_all_iff)
qed

lemma lower_alnum_not: "\<not> lower_alnum (CHR ''.'')" "\<not> lower_alnum slash" "\<not> lower_alnum (CHR 0x00)" "\<not> lower_alnum newline"
  by (simp_all add: lower_alnum_def is_digit_def slash_def newline_def)

lemma bucketNameRe_ok: "bucketNameRe n \<Longrightarrow> bucket_ok n \<and> newline \<notin> set n"
  using bucketNameRe_chars [of n "CHR ''.''"] bucketNameRe_chars [of n slash] bucketNameRe_chars [of n newline]
    lower_alnum_not
  by (auto simp: bucket_ok_def proper_comp_def dotdot_def slash_def newline_def bucketNameRe_def)

section \<open>Creating a bucket\<close>

lemma InsertBucket_outcome:
  "InsertBucket b w = (res, w') \<Longrightarrow>
     wfs w' = wfs w \<and> (case res of Inl e \<Rightarrow> wdb w' = wdb w | Inr u \<Rightarrow> ins_bucket b (wdb w) = Some (wdb w'))"
  by (auto simp: InsertBucket_def db_call_def split: prod.splits fault.splits sum.splits option.splits
      dest!: next_fault_state)

lemma create_undone:
  assumes "no_orphans d" and "sel_bucket (Name b) d = None" and "ins_bucket b d = Some d'"
  shows "del_bucket (Name b) (del_bucket_objects (Name b) d') = d"
proof -
  have b: "\<forall>x\<in>set (tblBuckets d). Name x \<noteq> Name b" using assms(2) by (auto simp: sel_bucket_def find_None_iff)
  have o: "\<forall>x\<in>set (tblObjects d). oBucket x \<noteq> Name b" using assms(1) b by (auto simp: no_orphans_def)
  have "d' = d\<lparr>tblBuckets := tblBuckets d @ [stored_bucket b]\<rparr>" using assms(3) by (simp add: ins_bucket_Some)
  then show ?thesis using b o by (simp add: del_bucket_def del_bucket_objects_def)
qed

lemma CreateBucketDirectory_Inr:
  assumes "storage_at rs s" "bucket_ok b" "CreateBucketDirectory s b w = (Inr u, w')" "fs_ok w"
  shows "fs_node (wfs w') (rs @ [b]) = Some Directory \<and> wdb w' = wdb w"
proof -
  have p: "proper (rs @ [b])" using assms(1,2) by (simp add: storage_at_def bucket_ok_def)
  have "fs_mkdir_all (wfs w) (rs @ [b]) = Inr (wfs w') \<and> wdb w' = wdb w"
    using assms(3) bucketDir_at [OF assms(1,2)] path_comps_abs [OF p]
    by (auto simp: CreateBucketDirectory_def os_MkdirAll_def os_update_def os_call_def
        split: prod.splits fault.splits sum.splits dest!: next_fault_state)
  then show ?thesis using fs_mkdir_all_node [of "wfs w" "rs @ [b]" "wfs w'"] assms(4) by auto
qed

text \<open>
  Creating a bucket.  If it succeeds, the bucket is there with its directory, and the answer carries
  the only copy of the secret its row can be decrypted to.  If it fails, nothing is left of it, except
  when undoing the insertion fails as well: then the row stays.
\<close>

definition created_bucket :: "Server \<Rightarrow> request \<Rightarrow> string \<Rightarrow> string option \<Rightarrow> int \<Rightarrow> Bucket" where
  "created_bucket s r name desc now =
     \<lparr>Name = name, Description = desc, AccessKey = GenerateAccessKey (rndAccess (rEntropy r)),
      EncryptedSecretKey = EncryptSecret (crypto s) (rndNonce (rEntropy r)) (GenerateSecretKey (rndSecret (rEntropy r))),
      CreatedAt = now\<rparr>"

definition finish_create :: "Server \<Rightarrow> request \<Rightarrow> Bucket \<Rightarrow> response action" where
  "finish_create s r b =
     andThen (InsertBucket b) (\<lambda>_.
     attempt (CreateBucketDirectory (storage s) (Name b)) (\<lambda>made. case made of
       Inl e \<Rightarrow> attempt (DeleteBucket (Name b)) (\<lambda>_. fail e)
     | Inr u \<Rightarrow> ret (writeJSON StatusCreated
         (CredentialsBody (Name b) (AccessKey b) (GenerateSecretKey (rndSecret (rEntropy r))) (CreatedAt b) (Description b)))))"

lemma createBucket_finish:
  assumes "createBucket s r w = (res, w')"
  shows "(\<exists>e. res = Inl e \<and> same_state w w') \<or>
    (\<exists>name desc w1. bucketNameRe name \<and> sel_bucket name (wdb w) = None \<and> same_state w w1 \<and>
       GetBucket name w = (Inr None, w1) \<and>
       finish_create s r (created_bucket s r name desc (wnow w)) w1 = (res, w'))"
proof (cases "decodeJSON create_schema r")
  case (Inl e)
  with assms show ?thesis by (auto simp: createBucket_def andThen_def lift_result_def)
next
  case (Inr req)
  let ?name = "get_string create_schema ''name'' req"
  obtain q v where g: "GetBucket ?name w = (q, v)" by force
  note gs = GetBucket_same [OF g]
  show ?thesis
  proof (cases "bucketNameRe ?name \<and> q = Inr None")
    case False
    then have "\<exists>e. res = Inl e \<and> (w' = w \<or> w' = v)"
      using assms Inr g gs
      by (auto simp: createBucket_def andThen_def lift_result_def fail_def Let_def split: sum.splits if_splits option.splits)
    with gs show ?thesis by auto
  next
    case True
    let ?desc = "get_ptr create_schema ''description'' req"
    let ?d = "case ?desc of Some d \<Rightarrow> if TrimSpace d \<noteq> [] then Some (TrimSpace d) else None | None \<Rightarrow> None"
    show ?thesis
    proof (cases "?name = [] \<or> (case ?desc of Some d \<Rightarrow> 200 < RuneCountInString d | None \<Rightarrow> False)")
      case bad: True
      have "createBucket s r w = (if ?name = [] then fail (badRequest ''InvalidRequest'' ''The Name field is required.'') w
          else fail (badRequest ''InvalidRequest'' ''must be 200 characters or fewer'') w)"
        using bad Inr True
        by (cases "?name = []") (simp_all add: createBucket_def andThen_def [of "lift_result x" for x] lift_result_def Let_def)
      then have "\<exists>e. res = Inl e \<and> w' = w"
        using assms by (auto simp: fail_def split: if_splits)
      then show ?thesis by auto
    next
      case False
      have g': "GetBucket ?name w = (Inr None, v)" using g True by simp
      have l: "lift_result (decodeJSON create_schema r) w = (Inr req, w)" by (simp add: lift_result_def Inr)
      have "createBucket s r w = finish_create s r (created_bucket s r ?name ?d (wnow v)) v"
        using True False
        by (simp add: createBucket_def finish_create_def created_bucket_def Let_def andThen_Inr [where m = "GetBucket ?name", OF g']
            andThen_Inr [where m = "lift_result (decodeJSON create_schema r)", OF l]
            cong del: sum.case_cong_weak)
      moreover have "sel_bucket ?name (wdb w) = None" "same_state w v" using gs True by auto
      ultimately show ?thesis using True assms g' by (intro disjI2 exI [of _ ?name] exI [of _ ?d] exI [of _ v]) simp
    qed
  qed
qed

lemma finish_create_created:
  assumes "finish_create s r b w = (Inr rsp, w')" and st: "storage_at rs (storage s)" "bucket_ok (Name b)" "fs_ok w"
  shows "ins_bucket b (wdb w) = Some (wdb w') \<and> fs_node (wfs w') (rs @ [Name b]) = Some Directory \<and>
    rsp = writeJSON StatusCreated
      (CredentialsBody (Name b) (AccessKey b) (GenerateSecretKey (rndSecret (rEntropy r))) (CreatedAt b) (Description b))"
proof -
  obtain u w1 where i: "InsertBucket b w = (Inr u, w1)"
    and rest: "attempt (CreateBucketDirectory (storage s) (Name b)) (\<lambda>made. case made of
       Inl e \<Rightarrow> attempt (DeleteBucket (Name b)) (\<lambda>_. fail e)
     | Inr u \<Rightarrow> ret (writeJSON StatusCreated
         (CredentialsBody (Name b) (AccessKey b) (GenerateSecretKey (rndSecret (rEntropy r))) (CreatedAt b) (Description b)))) w1
       = (Inr rsp, w')"
    using assms(1) unfolding finish_create_def by (rule andThen_InrE)
  from rest obtain u' where c: "CreateBucketDirectory (storage s) (Name b) w1 = (Inr u', w')"
    and rsp: "rsp = writeJSON StatusCreated
      (CredentialsBody (Name b) (AccessKey b) (GenerateSecretKey (rndSecret (rEntropy r))) (CreatedAt b) (Description b))"
    by (auto simp: attempt_def fail_def ret_def split: prod.splits sum.splits)
  note io = InsertBucket_outcome [OF i]
  have "fs_node (wfs w') (rs @ [Name b]) = Some Directory \<and> wdb w' = wdb w1"
    by (rule CreateBucketDirectory_Inr [OF st(1,2) c]) (use io st(3) in simp)
  with io rsp show ?thesis by simp
qed

lemma finish_create_failed:
  assumes "finish_create s r b w = (Inl e, w')"
    and "no_orphans (wdb w)" "sel_bucket (Name b) (wdb w) = None"
  shows "wdb w' = wdb w \<or> ins_bucket b (wdb w) = Some (wdb w') \<and>
    (\<exists>w1 w2 e'. InsertBucket b w = (Inr (), w1) \<and> CreateBucketDirectory (storage s) (Name b) w1 = (Inl e, w2) \<and>
       DeleteBucket (Name b) w2 = (Inl e', w'))"
proof -
  obtain q w1 where i: "InsertBucket b w = (q, w1)" by force
  note io = InsertBucket_outcome [OF i]
  show ?thesis
  proof (cases q)
    case Inl
    with i assms(1) io show ?thesis by (auto simp: finish_create_def andThen_def)
  next
    case (Inr u)
    obtain c w2 where c: "CreateBucketDirectory (storage s) (Name b) w1 = (c, w2)" by force
    have "keeps (\<lambda>w. wdb w = wdb w1) (CreateBucketDirectory (storage s) (Name b))"
      unfolding CreateBucketDirectory_def by (rule keeps_db_os_named)
    then have d2: "wdb w2 = wdb w1" using keepsD [of _ _ w1] c by fastforce
    obtain v w3 where v: "DeleteBucket (Name b) w2 = (v, w3)" by force
    have w': "w' = w3" "c = Inl e" using assms(1) i Inr c v
      by (auto simp: finish_create_def andThen_def attempt_def fail_def ret_def split: sum.splits)
    have ins: "ins_bucket b (wdb w) = Some (wdb w2)" using io Inr d2 by simp
    show ?thesis
    proof (cases v)
      case (Inl e')
      with DeleteBucket_atomic [OF v] ins w' i Inr c v show ?thesis by auto
    next
      case Done: (Inr u')
      with DeleteBucket_atomic [OF v] create_undone [OF assms(2,3) ins] w' show ?thesis by simp
    qed
  qed
qed

section \<open>Deleting a bucket\<close>

lemma no_children_below:
  assumes "fs_wf f" and "fs_node f p = None \<or> fs_children f p = []" and "strict_prefix p q"
  shows "fs_node f q = None"
proof (rule ccontr)
  assume "fs_node f q \<noteq> None"
  then obtain n where n: "fs_node f q = Some n" by blast
  obtain ys where "q = p @ ys" "ys \<noteq> []" using assms(3) by (auto simp: strict_prefix_def prefix_def)
  then obtain x xs where q: "q = (p @ [x]) @ xs" by (cases ys) auto
  have "prefix (p @ [x]) q" by (simp add: q)
  then have "fs_node f (p @ [x]) \<noteq> None"
    using fs_node_ancestor [OF assms(1) n, of "p @ [x]"] n by (cases "p @ [x] = q") auto
  then obtain m where m: "fs_node f (p @ [x]) = Some m" by blast
  have "fs_node f p = Some Directory" using fs_wfD(3) [OF assms(1) m] by simp
  moreover have "p @ [x] \<in> set (fs_children f p)"
    using m by (auto simp: fs_children_def fs_node_def dest!: map_of_SomeD intro!: image_eqI [of _ fst])
  ultimately show False using assms(2) by auto
qed

lemma IsBucketEmpty_True:
  assumes st: "storage_at rs s" "bucket_ok b" and h: "IsBucketEmpty s b w = (Inr True, w')" and wf: "fs_ok w"
    and q: "strict_prefix (rs @ [b]) q"
  shows "fs_node (wfs w) q = None"
proof -
  have p: "proper (rs @ [b])" using st by (simp add: storage_at_def bucket_ok_def)
  have pc: "path_comps (bucketDir s b) = rs @ [b]" using bucketDir_at [OF st] path_comps_abs [OF p] by simp
  have "fs_node (wfs w) (rs @ [b]) = None \<or> fs_children (wfs w) (rs @ [b]) = []"
    using h
    by (auto simp: IsBucketEmpty_def attempt_def andThen_def ret_def fail_def os_Stat_def os_Readdirnames1_def
        os_query_def os_call_def pc fs_stat_def is_not_exist_def
        split: prod.splits fault.splits sum.splits option.splits fnode.splits if_splits dest!: next_fault_state)
  then show ?thesis by (rule no_children_below [OF wf _ q])
qed

text \<open>
  A bucket is deleted only when nothing is stored below its directory, and whatever happens no file of
  the storage changes.
\<close>

lemma keeps_requireBucket [keeps_intros]: "keeps (\<lambda>w. P (wfs w)) (requireBucket n)"
  unfolding requireBucket_def by (intro keeps_intros)

lemma deleteBucket_frame:
  assumes st: "storage_at rs (storage s)" "bucket_ok (pvName r)" and q: "q \<noteq> rs @ [pvName r]"
  shows "keeps (\<lambda>w. file_at (wfs w) q = x) (deleteBucket s r)"
proof -
  have p: "proper (rs @ [pvName r])" using st by (simp add: storage_at_def bucket_ok_def)
  have pc: "path_comps (bucketDir (storage s) (pvName r)) = rs @ [pvName r]"
    using bucketDir_at [OF st] path_comps_abs [OF p] by simp
  show ?thesis
    unfolding deleteBucket_def Let_def RemoveBucketDirectory_def
    by (intro keeps_intros keeps_file_removeIfExists) (use pc q in auto)
qed

lemma deleteBucket_done:
  assumes st: "storage_at rs (storage s)" "bucket_ok (pvName r)" and h: "deleteBucket s r w = (Inr rsp, w')"
    and ok: "fs_ok w"
  shows "rsStatus rsp = 204" and "sel_bucket (pvName r) (wdb w) \<noteq> None"
    and "strict_prefix (rs @ [pvName r]) q \<Longrightarrow> fs_node (wfs w) q = None"
    and "wdb w' = del_bucket (pvName r) (del_bucket_objects (pvName r) (wdb w))"
    and "fs_node (wfs w') (rs @ [pvName r]) = None"
proof -
  let ?n = "pvName r"
  have p: "proper (rs @ [?n])" using st by (simp add: storage_at_def bucket_ok_def)
  have pc: "path_comps (bucketDir (storage s) ?n) = rs @ [?n]"
    using bucketDir_at [OF st] path_comps_abs [OF p] by simp
  obtain b w1 where 1: "requireBucket ?n w = (Inr b, w1)"
    and 2: "andThen (IsBucketEmpty (storage s) ?n) (\<lambda>empty.
      if \<not> empty then
        fail (conflict ''BucketNotEmpty'' (''Bucket '' @ [CHR 0x27] @ ?n @ [CHR 0x27] @ '' is not empty''))
      else andThen (DeleteBucket ?n) (\<lambda>_.
        andThen (RemoveBucketDirectory (storage s) ?n) (\<lambda>_. ret (writeHeader StatusNoContent)))) w1 = (Inr rsp, w')"
    using h unfolding deleteBucket_def Let_def by (rule andThen_InrE)
  note b = requireBucket_Inr [OF 1]
  from 2 obtain e w2 where 3: "IsBucketEmpty (storage s) ?n w1 = (Inr e, w2)"
    and 4: "(if \<not> e then
        fail (conflict ''BucketNotEmpty'' (''Bucket '' @ [CHR 0x27] @ ?n @ [CHR 0x27] @ '' is not empty''))
      else andThen (DeleteBucket ?n) (\<lambda>_.
        andThen (RemoveBucketDirectory (storage s) ?n) (\<lambda>_. ret (writeHeader StatusNoContent)))) w2 = (Inr rsp, w')"
    by (rule andThen_InrE)
  from 4 have e: "e" by (auto simp: fail_def split: if_splits)
  with 4 have "andThen (DeleteBucket ?n) (\<lambda>_.
        andThen (RemoveBucketDirectory (storage s) ?n) (\<lambda>_. ret (writeHeader StatusNoContent))) w2 = (Inr rsp, w')" by simp
  then obtain u w3 where 5: "DeleteBucket ?n w2 = (Inr u, w3)"
    and 6: "andThen (RemoveBucketDirectory (storage s) ?n) (\<lambda>_. ret (writeHeader StatusNoContent)) w3 = (Inr rsp, w')"
    by (rule andThen_InrE)
  from 6 obtain v where 7: "RemoveBucketDirectory (storage s) ?n w3 = (Inr v, w')" and rsp: "rsp = writeHeader StatusNoContent"
    by (elim andThen_InrE) (auto simp: ret_def)
  have "keeps (\<lambda>w. wdb w = wdb w1) (IsBucketEmpty (storage s) ?n)"
    unfolding IsBucketEmpty_def by (intro keeps_intros)
  then have db2: "wdb w2 = wdb w1" using keepsD [of _ _ w1] 3 by fastforce
  have "keeps (\<lambda>w. wdb w = wdb w3) (RemoveBucketDirectory (storage s) ?n)"
    unfolding RemoveBucketDirectory_def removeIfExists_def by (intro keeps_intros)
  then have db4: "wdb w' = wdb w3" using keepsD [of _ _ w3] 7 by fastforce
  have ok3: "fs_ok w3"
    using keepsD [OF keeps_fs_storage(10), of w1 "storage s" ?n] keepsD [OF keeps_fs_store(6) [of fs_wf ?n], of w2] 3 5 b ok
    by simp
  show "rsStatus rsp = 204" by (simp add: rsp writeHeader_def status_defs)
  show "sel_bucket ?n (wdb w) \<noteq> None" using b by simp
  show "fs_node (wfs w) q = None" if "strict_prefix (rs @ [?n]) q"
    using IsBucketEmpty_True [OF st _ _ that, of w1 w2] 3 e b ok by simp
  show "wdb w' = del_bucket ?n (del_bucket_objects ?n (wdb w))"
    using DeleteBucket_atomic [OF 5] db2 db4 b by simp
  show "fs_node (wfs w') (rs @ [?n]) = None"
    using removeIfExists_Inr(1) [OF 7 [unfolded RemoveBucketDirectory_def] ok3] by (simp add: pc)
qed

end
