(* ===== verification/Pipeline.thy ===== *)
theory Pipeline
  imports AdminLaws
begin

text \<open>
  The pipeline as a whole: what every handler keeps, the middleware and the router keep, and with them every
  state the server reaches.  The locale \<open>request_invariant\<close> states what an invariant of the handlers is; its
  lemmas carry it through dispatch, routing and authentication once for all invariants.
\<close>

section \<open>Requests and steps\<close>

definition handlers :: "Server \<Rightarrow> handler list" where
  "handlers s = [health, listBuckets, createBucket s, deleteBucket s, rotateBucketKey s, reindexBucket s,
     putObject s, getObject s, deleteObject s, listObjects s, bucketStats, setACL s, presign s]"

text \<open>The bucket a request was let in for exists.\<close>

definition identified :: "request \<Rightarrow> Bucket list \<Rightarrow> bool" where
  "identified r bs \<longleftrightarrow> (\<forall>a. rAuth r = Some a \<longrightarrow> Name (aBucket a) \<in> Name ` set bs)"

text \<open>The random part of a temporary name is a number in decimal.\<close>

definition entropy_ok :: "request \<Rightarrow> bool" where
  "entropy_ok r \<longleftrightarrow> (\<forall>t\<in>set (rndTemps (rEntropy r)). slash \<notin> set t)"

text \<open>
  One step of the server: a request handled to its end, a background pass, time passing, or the environment
  deciding which of the next calls will fail.
\<close>

inductive server_step :: "Server \<Rightarrow> world \<Rightarrow> world \<Rightarrow> bool" for s :: Server where
  request: "entropy_ok r \<Longrightarrow> Handler s t0 srv r w = (rsp, w') \<Longrightarrow> server_step s w w'"
| reindex: "ReindexAll s w = (res, w') \<Longrightarrow> server_step s w w'"
| tick: "t \<ge> wnow w \<Longrightarrow> server_step s w (w\<lparr>wnow := t\<rparr>)"
| faults: "server_step s w (w\<lparr>wfaults := fs\<rparr>)"

inductive_cases server_stepE: "server_step s w w'"

inductive server_reaches :: "Server \<Rightarrow> world \<Rightarrow> world \<Rightarrow> bool" for s :: Server where
  start: "server_reaches s w w"
| next_step: "server_reaches s w w1 \<Longrightarrow> server_step s w1 w2 \<Longrightarrow> server_reaches s w w2"

section \<open>Invariants of the handlers\<close>

locale request_invariant =
  fixes P :: "world \<Rightarrow> bool"
  assumes stored: "\<And>w w'. P w \<Longrightarrow> wfs w' = wfs w \<Longrightarrow> wdb w' = wdb w \<Longrightarrow> P w'"
    and names: "\<And>w. P w \<Longrightarrow> names_ok (wdb w)"
    and handler: "\<And>rs s r w h. storage_at rs (storage s) \<Longrightarrow> entropy_ok r \<Longrightarrow> identified r (tblBuckets (wdb w)) \<Longrightarrow>
      h \<in> set (handlers s) \<Longrightarrow> P w \<Longrightarrow> P (snd (h r w))"
    and pass: "\<And>rs s w. storage_at rs (storage s) \<Longrightarrow> P w \<Longrightarrow> P (snd (ReindexAll s w))"
begin

lemma dispatch_inv:
  assumes "storage_at rs (storage s)" "entropy_ok r" "identified r (tblBuckets (wdb w))" "P w"
    and "snd ` set routes \<subseteq> set (handlers s)"
  shows "P (snd (dispatch routes r w))"
proof (cases "map_of routes (rMethod r)")
  case (Some h)
  then have "h \<in> snd ` set routes" by (metis image_eqI map_of_SomeD snd_conv)
  then have "P (snd (h r w))" using handler assms by blast
  with Some show ?thesis
    by (cases "h r w") (auto simp: dispatch_def internalError_def writeError_def split: sum.splits option.splits)
qed (use assms(4) in \<open>simp add: dispatch_def writeError_def\<close>)

lemma router_inv:
  assumes "storage_at rs (storage s)" "entropy_ok r" "identified r (tblBuckets (wdb w))" "P w"
  shows "P (snd (router s t0 srv r w))"
proof -
  have d: "P (snd (dispatch routes r' w))"
    if "rAuth r' = rAuth r" "rEntropy r' = rEntropy r" "snd ` set routes \<subseteq> set (handlers s)" for routes r'
    by (rule dispatch_inv [OF assms(1) _ _ assms(4) that(3)]) (use assms(2,3) that in \<open>simp_all add: entropy_ok_def identified_def\<close>)
  have nf: "P (snd (routeNotFound w))" using assms(4) by (simp add: routeNotFound_def writeError_def)
  obtain a1 c1 f1 where 1: "cut_at slash (TrimPrefix (rPath r) ''/admin/buckets/'') = (a1, c1, f1)" by (metis prod_cases3)
  have ra: "P (snd (route_admin s r w))"
    unfolding route_admin_def 1 prod.case Let_def using d nf
    by (simp only: split: if_split) (simp add: handlers_def)
  obtain a2 c2 f2 where 2: "cut_at slash (TrimPrefix (rPath r) ''/buckets/'') = (a2, c2, f2)" by (metis prod_cases3)
  have rb: "P (snd (route_bucket s r w))"
    unfolding route_bucket_def 2 prod.case Let_def using d nf
    by (simp only: split: if_split) (simp add: handlers_def)
  show ?thesis
    unfolding router_def Let_def using d ra rb nf assms(4)
    by (simp only: split: if_split) (auto simp: handlers_def serveStatic_def Let_def writeError_def split: option.split)
qed

text \<open>The middleware changes nothing itself.\<close>

lemma bucketAuth_inv:
  assumes "storage_at rs (storage s)" "entropy_ok r" "rAuth r = None" "P w"
  shows "P (snd (bucketAuth s (router s t0 srv) r w))"
proof (cases "bucketPathRe (rPath r)")
  case None
  then show ?thesis using router_inv [OF assms(1,2) _ assms(4)] assms(3) by (simp add: bucketAuth_def identified_def)
next
  case (Some name)
  from bucketAuth_outcome [OF assms(1) names [OF assms(4)] Some]
  consider a w1 where "same_state w w1" "grants rs s r name w a"
      "bucketAuth s (router s t0 srv) r w = router s t0 srv (r\<lparr>rAuth := Some a\<rparr>) w1"
    | rsp w1 where "same_state w w1" "bucketAuth s (router s t0 srv) r w = (rsp, w1)" by blast
  then show ?thesis
  proof cases
    case 1
    have "identified (r\<lparr>rAuth := Some a\<rparr>) (tblBuckets (wdb w1))"
      using grants_bucket [OF 1(2)] 1(1) by (auto simp: identified_def)
    moreover have "P w1" using assms(4) 1(1) stored by blast
    ultimately show ?thesis using router_inv [OF assms(1), of "r\<lparr>rAuth := Some a\<rparr>"] assms(2) 1(3) by (simp add: entropy_ok_def)
  next
    case 2
    then show ?thesis using assms(4) stored by (metis snd_conv)
  qed
qed

lemma Handler_inv:
  assumes "storage_at rs (storage s)" "entropy_ok r" "P w"
  shows "P (snd (Handler s t0 srv r w))"
proof -
  have "P (snd (bucketAuth s (router s t0 srv) (r\<lparr>rAuth := None\<rparr>) w))"
    by (rule bucketAuth_inv [OF assms(1) _ _ assms(3)]) (use assms(2) in \<open>simp_all add: entropy_ok_def\<close>)
  then show ?thesis
    using assms(3) by (auto simp: Handler_def adminAuth_def writeError_def split: option.splits list.splits)
qed

lemma step_inv:
  assumes "storage_at rs (storage s)" "server_step s w w'" "P w"
  shows "P w'"
  using assms(2)
proof cases
  case request
  then show ?thesis using Handler_inv [OF assms(1) _ assms(3)] by (metis snd_conv)
next
  case reindex
  then show ?thesis using pass [OF assms(1,3)] by (metis snd_conv)
qed (use assms(3) stored in auto)

lemma reaches_inv:
  "server_reaches s w w' \<Longrightarrow> storage_at rs (storage s) \<Longrightarrow> P w \<Longrightarrow> P w'"
  by (induction rule: server_reaches.induct) (auto intro: step_inv)

end

end
