(* ===== verification/TreeNames.thy ===== *)
theory TreeNames
  imports StorageIndex
begin

text \<open>
  Every path the storage layer hands to the file system is a cleaned absolute one, so no name in the tree is
  empty, \<open>.\<close> or \<open>..\<close>: that the names of the tree stay proper is an invariant of all operations, for keys and
  bucket names of any kind.
\<close>

section \<open>Cleaned paths\<close>

lemma Clean_path_rooted: "p \<noteq> [] \<Longrightarrow> hd p = slash \<Longrightarrow> \<exists>cs. proper cs \<and> Clean p = abs_path cs"
  using Clean_rooted [of "tl p"] by (cases p) auto

lemma Join_rooted:
  assumes "a \<noteq> []" "hd a = slash"
  shows "\<exists>cs. proper cs \<and> Join (a # xs) = abs_path cs"
proof -
  have "join_with [slash] (a # xs) \<noteq> []" "hd (join_with [slash] (a # xs)) = slash"
    using assms by (cases xs; cases a; simp)+
  then show ?thesis using assms Clean_path_rooted by (simp add: Join_def)
qed

text \<open>A path as the storage layer builds it.\<close>

definition clean_path :: "string \<Rightarrow> bool" where
  "clean_path p \<longleftrightarrow> (\<exists>cs. proper cs \<and> p = abs_path cs)"

lemma clean_path_comps: "clean_path p \<Longrightarrow> proper (path_comps p)"
  by (auto simp: clean_path_def)

lemma clean_Dir_of: "clean_path p \<Longrightarrow> clean_path (Dir_of p)"
proof -
  assume "clean_path p"
  then obtain x where p: "p = slash # x" by (auto simp: clean_path_def abs_path_def)
  let ?d = "rev (dropWhile (\<lambda>c. c \<noteq> slash) (rev p))"
  have "?d \<noteq> []" by (simp add: p)
  moreover have "prefix ?d p" by (metis suffix_dropWhile suffix_to_prefix rev_rev_ident)
  then have "hd ?d = slash" using p \<open>?d \<noteq> []\<close> by (cases ?d) (auto simp: prefix_def)
  ultimately show ?thesis using Clean_path_rooted by (simp add: Dir_of_def clean_path_def)
qed

lemma clean_Join: "clean_path a \<Longrightarrow> clean_path (Join (a # xs))"
  using Join_rooted [of a xs] by (auto simp: clean_path_def)

lemma clean_storage_paths:
  assumes "storage_at rs s"
  shows "clean_path (bucketDir s b)" "clean_path (metaPath s b k)" "clean_path (Join [metaRoot s, b])"
    "ResolveObjectPath s b k = Inr p \<Longrightarrow> clean_path p"
proof -
  have "proper rs" "root s = abs_path rs" and m: "metaRoot s = abs_path (rs @ [''.meta''])" using assms by (simp_all add: storage_at_def)
  moreover have "proper_comp ''.meta''" by (simp add: proper_comp_def dotdot_def slash_def)
  ultimately have r: "clean_path (root s)" "clean_path (metaRoot s)"
    unfolding clean_path_def by (metis proper_simps(1-3))+
  show b: "clean_path (bucketDir s b)" and "clean_path (metaPath s b k)" "clean_path (Join [metaRoot s, b])"
    unfolding bucketDir_def metaPath_def by (intro clean_Join r)+
  show "ResolveObjectPath s b k = Inr p \<Longrightarrow> clean_path p"
    by (auto simp: ResolveObjectPath_def Let_def clean_Join b split: if_splits)
qed

section \<open>System calls\<close>

abbreviation tree_ok :: "world \<Rightarrow> bool" where "tree_ok w \<equiv> fs_names (wfs w)"

lemma fs_names_update: "proper p \<Longrightarrow> fs_names f \<Longrightarrow> fs_names (AList.update p n f)"
  by (auto simp: fs_names_def dom_update)

lemma fs_names_delete: "fs_names f \<Longrightarrow> fs_names (AList.delete p f)"
  by (auto simp: fs_names_def AList.delete_eq)

lemma proper_prefix: "proper p \<Longrightarrow> prefix q p \<Longrightarrow> proper q"
  by (auto simp: prefix_def)

lemma fs_names_mkdir:
  assumes "fs_mkdir_all f p = Inr g" "proper p" "fs_names f"
  shows "fs_names g"
proof -
  have "\<forall>q\<in>set qs. proper q \<Longrightarrow> fs_names f \<Longrightarrow>
      fs_names (fold (\<lambda>q g. if fs_node g q = None then AList.update q Directory g else g) qs f)" for qs
    by (induction qs arbitrary: f) (simp_all add: fs_names_update)
  moreover have "\<forall>q\<in>set (prefixes p). proper q" using assms(2) proper_prefix by simp
  ultimately show ?thesis using assms by (auto simp: fs_mkdir_all_def split: if_splits)
qed

lemma temp_comps:
  assumes "clean_path d" "slash \<notin> set r"
  shows "proper (path_comps (d @ slash # temp_name r))"
proof -
  obtain cs where cs: "proper cs" "d = abs_path cs" using assms(1) by (auto simp: clean_path_def)
  have n: "slash \<notin> set (temp_name r)" using assms(2) by (simp add: temp_name_def slash_def)
  have p: "proper_comp (temp_name r)" using n by (simp add: proper_comp_def dotdot_def temp_name_def)
  show ?thesis
  proof (cases cs)
    case Nil
    then have "split_on slash (d @ slash # temp_name r) = [[], [], temp_name r]"
      using cs(2) n by (simp add: abs_path_def split_on_no_sep)
    then show ?thesis using p by (simp add: path_comps_def)
  next
    case (Cons c cs')
    then have "split_on slash (d @ slash # temp_name r) = [] # cs @ [temp_name r]"
      using split_abs_path_append [OF cs(1), of "temp_name r"] cs(2) n by (simp add: split_on_no_sep)
    then show ?thesis using cs(1) p by (simp add: path_comps_def proper_def)
  qed
qed

named_theorems names_intros

lemma keeps_names_calls [names_intros]:
  "proper (path_comps p) \<Longrightarrow> keeps tree_ok (os_MkdirAll p)" "keeps tree_ok (os_Remove p)"
  "proper (path_comps p) \<Longrightarrow> keeps tree_ok (os_WriteFile p d)" "proper (path_comps q) \<Longrightarrow> keeps tree_ok (os_Rename p q)"
  "clean_path p \<Longrightarrow> \<forall>r\<in>set rs. slash \<notin> set r \<Longrightarrow> keeps tree_ok (os_CreateTemp p rs)"
proof -
  show "keeps tree_ok (os_MkdirAll p)" if "proper (path_comps p)"
    unfolding os_MkdirAll_def by (rule keeps_os_update) (use that fs_names_mkdir in blast)
  show "keeps tree_ok (os_Remove p)"
    unfolding os_Remove_def
    by (rule keeps_os_update) (auto simp: fs_remove_def fs_names_delete split: sum.splits fnode.splits if_splits)
  show "keeps tree_ok (os_Rename p q)" if "proper (path_comps q)"
    unfolding os_Rename_def
    by (rule keeps_os_update) (use that in
      \<open>auto simp: fs_rename_def fs_names_delete fs_names_update split: sum.splits fnode.splits if_splits option.splits\<close>)
  have w: "fs_write f (path_comps p) x t = Inr g \<Longrightarrow> proper (path_comps p) \<Longrightarrow> fs_names f \<Longrightarrow> fs_names g" for f x t g
    by (auto simp: fs_write_def fs_names_update split: option.splits if_splits)
  show "keeps tree_ok (os_WriteFile p d)" if "proper (path_comps p)"
    unfolding keeps_def os_WriteFile_def
    by (auto split: prod.splits fault.splits sum.splits dest!: next_fault_state intro: w [OF _ that])
  show "keeps tree_ok (os_CreateTemp p rs)" if p: "clean_path p" and r: "\<forall>r\<in>set rs. slash \<notin> set r"
    unfolding keeps_def os_CreateTemp_def os_call_def
    using temp_comps [OF p] r
    by (auto split: prod.splits fault.splits sum.splits option.splits if_splits dest!: next_fault_state create_temp_Inr
        simp: fs_create_excl_def intro!: fs_names_update)
qed

lemma os_CreateTemp_path:
  assumes "os_CreateTemp d rs w = (Inr p, w')" "clean_path d" "\<forall>r\<in>set rs. slash \<notin> set r"
  shows "proper (path_comps p)"
  using assms temp_comps
  by (auto simp: os_CreateTemp_def os_call_def split: prod.splits fault.splits sum.splits dest!: create_temp_Inr)

section \<open>Operations\<close>

lemma keeps_names_sidecar:
  assumes "storage_at rs s"
  shows "keeps tree_ok (writeMeta s b k ct pub e)" "keeps tree_ok (indexFromDisk s b k p)"
proof -
  show w: "keeps tree_ok (writeMeta s b k ct pub e)" for ct pub e
    unfolding writeMeta_def removeIfExists_def Let_def
    by (intro keeps_intros names_intros clean_path_comps clean_Dir_of clean_storage_paths [OF assms])
  show "keeps tree_ok (indexFromDisk s b k p)"
    unfolding indexFromDisk_def computeETag_def readMeta_def by (intro keeps_intros w)
qed

lemma keeps_names_PutObject:
  assumes st: "storage_at rs s" and r: "\<forall>r\<in>set rnds. slash \<notin> set r"
  shows "keeps tree_ok (PutObject s rnds b k bd ct pub)"
  unfolding PutObject_def
proof (rule keeps_andThen_from [OF keeps_lift])
  fix v target v'
  assume "lift_result (ResolveObjectPath s b k) v = (Inr target, v')"
  then have t: "clean_path target" using clean_storage_paths(4) [OF st, of b k target] by (simp add: lift_result_def)
  note d = clean_Dir_of [OF t]
  show "keeps tree_ok (andThen (os_MkdirAll (Dir_of target)) (\<lambda>_.
     andThen (os_CreateTemp (Dir_of target) rnds) (\<lambda>tmp.
     deferred (os_Remove tmp) (
       andThen (copy_body tmp bd) (\<lambda>_.
       andThen os_Close (\<lambda>_.
       andThen (os_Rename tmp target) (\<lambda>_.
       let etag = etag_of (bData bd); ct = sanitizeContentType ct in
       andThen (writeMeta s b k ct pub (Some etag)) (\<lambda>_.
       andThen (os_Stat target) (\<lambda>info.
       andThen (UpsertObject
           \<lparr>oBucket = b, oKey = k, oSize = node_size info, oLastModified = node_mtime info,
            oETag = Some etag, oContentType = ct, oPublic = pub\<rparr>) (\<lambda>_.
       ret etag))))))))))"
    unfolding copy_body_def os_Close_def Let_def
    by (rule keeps_andThen, rule names_intros, rule clean_path_comps [OF d],
        rule keeps_andThen_from, rule names_intros, rule d, rule r, drule os_CreateTemp_path [OF _ d r])
      (intro keeps_intros names_intros clean_path_comps [OF t] keeps_names_sidecar [OF st])
qed

lemma keeps_names_storage:
  assumes st: "storage_at rs s"
  shows "keeps tree_ok (OpenObject s b k)" "keeps tree_ok (SetPublic s b k pub)" "keeps tree_ok (DeleteObject s b k)"
    "keeps tree_ok (reindex_file s b force ex fl)"
    "keeps tree_ok (ReindexBucket s b force)" "keeps tree_ok (ListObjects s b pfx l cursor)"
    "keeps tree_ok (CreateBucketDirectory s b)" "keeps tree_ok (RemoveBucketDirectory s b)"
proof -
  note side = keeps_names_sidecar [OF st]
  show "keeps tree_ok (OpenObject s b k)" "keeps tree_ok (SetPublic s b k pub)"
    unfolding OpenObject_def statIndexed_def SetPublic_def computeETag_def readMeta_def isFile_def
    by (intro keeps_intros side)+
  show "keeps tree_ok (DeleteObject s b k)" "keeps tree_ok (RemoveBucketDirectory s b)"
    unfolding DeleteObject_def RemoveBucketDirectory_def removeIfExists_def removeEmptyParents_def Let_def
    by (intro keeps_intros names_intros)+
  show "keeps tree_ok (CreateBucketDirectory s b)"
    unfolding CreateBucketDirectory_def by (intro names_intros clean_path_comps clean_storage_paths [OF st])
  have f: "keeps tree_ok (reindex_file s b force ex fl)" for ex fl force
    unfolding reindex_file_def ctx_Err_def Let_def by (intro keeps_intros side)
  then show "keeps tree_ok (reindex_file s b force ex fl)" .
  have r: "keeps tree_ok (ReindexBucket s b force)" for force
    unfolding ReindexBucket_def isDir_def walkObjectFiles_def Let_def by (intro keeps_intros f)
  then show "keeps tree_ok (ReindexBucket s b force)" .
  show "keeps tree_ok (ListObjects s b pfx l cursor)"
    unfolding ListObjects_def hasObjectFiles_def isDir_def walkObjectFiles_def Let_def by (intro keeps_intros r)
qed

end
