(* ===== verification/Invariants.thy ===== *)
theory Invariants
  imports Pipeline TreeNames
begin

text \<open>
  What every request leaves in order, whatever it asks for and whatever fails: the file tree and the names in
  it, the keys of the tables, the names of the buckets.  The invariant is an instance of
  \<open>request_invariant\<close>, so it holds in every state the server reaches.
\<close>

section \<open>The bucket table\<close>

text \<open>The predicate is a constant, so that the rules for database predicates apply to it.\<close>

definition buckets_are :: "Bucket list \<Rightarrow> database \<Rightarrow> bool" where
  "buckets_are bs d \<longleftrightarrow> tblBuckets d = bs"

lemma keeps_buckets_exec [keeps_intros]:
  "keeps (\<lambda>w. buckets_are bs (wdb w)) (db_exec (del_bucket_objects n))"
  "keeps (\<lambda>w. buckets_are bs (wdb w)) (db_exec (ups_object r))"
  "keeps (\<lambda>w. buckets_are bs (wdb w)) (db_exec (upd_etag b k e))"
  "keeps (\<lambda>w. buckets_are bs (wdb w)) (db_exec (del_object b k))"
  by (rule keeps_db_exec; simp add: buckets_are_def)+

lemma keeps_buckets_store [keeps_intros]:
  "keeps (\<lambda>w. buckets_are bs (wdb w)) (UpsertObject r)" "keeps (\<lambda>w. buckets_are bs (wdb w)) (SetObjectETag b k e)"
  "keeps (\<lambda>w. buckets_are bs (wdb w)) (DeleteObjectRow b k)"
  "keeps (\<lambda>w. buckets_are bs (wdb w)) (ApplyIndexChanges b us ds)"
  unfolding UpsertObject_def SetObjectETag_def DeleteObjectRow_def ApplyIndexChanges_def
  by (intro keeps_intros)+

lemma keeps_buckets_DeleteBucketObjects [keeps_intros]:
  "keeps (\<lambda>w. buckets_are bs (wdb w)) (DeleteBucketObjects b)"
  unfolding DeleteBucketObjects_def by (rule keeps_db_call) (auto simp: buckets_are_def)

lemma keeps_buckets_storage [keeps_intros]:
  "keeps (\<lambda>w. buckets_are bs (wdb w)) (PutObject s rnds b k body ct pub)"
  "keeps (\<lambda>w. buckets_are bs (wdb w)) (OpenObject s b k)"
  "keeps (\<lambda>w. buckets_are bs (wdb w)) (SetPublic s b k pub)"
  "keeps (\<lambda>w. buckets_are bs (wdb w)) (DeleteObject s b k)"
  "keeps (\<lambda>w. buckets_are bs (wdb w)) (ReindexBucket s b force)"
  "keeps (\<lambda>w. buckets_are bs (wdb w)) (ListObjects s b pfx l cursor)"
  unfolding storage_operations storage_helpers Let_def
  by (intro keeps_intros allI impI)+

lemma keeps_names:
  assumes "\<And>bs. keeps (\<lambda>w. buckets_are bs (wdb w)) m"
  shows "keeps (\<lambda>w. names_ok (wdb w)) m"
  unfolding keeps_def
proof (intro allI impI)
  fix w :: world
  assume "names_ok (wdb w)"
  moreover have "tblBuckets (wdb (snd (m w))) = tblBuckets (wdb w)"
    using keepsD [OF assms [of "tblBuckets (wdb w)"], of w] by (simp add: buckets_are_def)
  ultimately show "names_ok (wdb (snd (m w)))" by (simp add: names_ok_def)
qed

section \<open>The invariant\<close>

definition server_inv :: "world \<Rightarrow> bool" where
  "server_inv w \<longleftrightarrow> fs_ok w \<and> db_ok w \<and> names_ok (wdb w)"

lemma keeps_server_inv:
  "keeps fs_ok m \<Longrightarrow> keeps db_ok m \<Longrightarrow> keeps (\<lambda>w. names_ok (wdb w)) m \<Longrightarrow> keeps server_inv m"
  by (auto simp: keeps_def server_inv_def)

lemma keeps_inv_storage:
  "keeps server_inv (PutObject s rnds b k body ct pub)" "keeps server_inv (OpenObject s b k)"
  "keeps server_inv (SetPublic s b k pub)" "keeps server_inv (DeleteObject s b k)"
  "keeps server_inv (ReindexBucket s b force)" "keeps server_inv (ListObjects s b pfx l cursor)"
  by (intro keeps_server_inv keeps_names keeps_intros)+

text \<open>Creating, renewing and deleting a bucket.\<close>

lemma keeps_names_buckets:
  "bucket_ok (Name b) \<Longrightarrow> keeps (\<lambda>w. names_ok (wdb w)) (InsertBucket b)"
  "keeps (\<lambda>w. names_ok (wdb w)) (UpdateBucketKeys n ak es)"
  "keeps (\<lambda>w. names_ok (wdb w)) (DeleteBucket n)"
proof -
  show "keeps (\<lambda>w. names_ok (wdb w)) (InsertBucket b)" if "bucket_ok (Name b)"
    unfolding InsertBucket_def
    by (rule keeps_db_call) (use that in \<open>auto simp: names_ok_def ins_bucket_Some split: option.splits\<close>)
  show "keeps (\<lambda>w. names_ok (wdb w)) (UpdateBucketKeys n ak es)"
    unfolding UpdateBucketKeys_def
    by (rule keeps_db_call) (auto simp: names_ok_def upd_bucket_keys_def split: option.splits if_splits)
  have "keeps (\<lambda>w. names_ok (wdb w)) (db_exec (del_bucket n))" "keeps (\<lambda>w. names_ok (wdb w)) (db_exec (del_bucket_objects n))"
    by (rule keeps_db_exec; simp add: names_ok_def del_bucket_def)+
  then show "keeps (\<lambda>w. names_ok (wdb w)) (DeleteBucket n)"
    unfolding DeleteBucket_def by (intro keeps_intros)
qed

lemma keeps_inv_buckets:
  "bucket_ok (Name b) \<Longrightarrow> keeps server_inv (InsertBucket b)"
  "keeps server_inv (UpdateBucketKeys n ak es)" "keeps server_inv (DeleteBucket n)"
  by (intro keeps_server_inv keeps_names_buckets keeps_intros; assumption)+

lemma keeps_inv_fs:
  "keeps fs_ok m \<Longrightarrow> (\<And>P. keeps (\<lambda>w. P (wdb w)) m) \<Longrightarrow> keeps server_inv m"
  by (rule keeps_server_inv) auto

lemma keeps_inv_reads:
  "keeps server_inv (GetBucket n)" "keeps server_inv ListBuckets" "keeps server_inv (Stats b p)"
  "keeps server_inv (BucketByAccessKey n)"
  by (rule keeps_inv_fs; intro keeps_intros)+

lemma keeps_inv_directories:
  "keeps server_inv (CreateBucketDirectory s b)" "keeps server_inv (RemoveBucketDirectory s b)"
  "keeps server_inv (IsBucketEmpty s b)"
  by (rule keeps_inv_fs; (unfold storage_helpers)?; intro keeps_intros)+

lemma keeps_inv_requireBucket: "keeps server_inv (requireBucket n)"
  unfolding requireBucket_def by (intro keeps_intros keeps_inv_reads)

section \<open>Handlers\<close>

lemma keeps_ret_now: "keeps P (\<lambda>w. ret (f w) w)"
  by (simp add: keeps_def ret_def)

lemma keeps_case_prod: "(\<And>a b. keeps P (f a b)) \<Longrightarrow> keeps P (case p of (a, b) \<Rightarrow> f a b)"
  by (cases p) simp

lemma keeps_inv_createBucket: "keeps server_inv (createBucket s r)"
  unfolding keeps_def
proof (intro allI impI)
  fix w
  assume inv: "server_inv w"
  obtain res w' where run: "createBucket s r w = (res, w')" by force
  from createBucket_finish [OF run]
  show "server_inv (snd (createBucket s r w))"
  proof (elim disjE exE conjE)
    fix e
    assume "wfs w' = wfs w" "wdb w' = wdb w"
    with inv run show ?thesis by (simp add: server_inv_def)
  next
    fix name desc w1
    assume n: "bucketNameRe name" and w1: "wfs w1 = wfs w" "wdb w1 = wdb w"
      and fin: "finish_create s r (created_bucket s r name desc (wnow w)) w1 = (res, w')"
    have "bucket_ok (Name (created_bucket s r name desc (wnow w)))"
      using bucketNameRe_ok [OF n] by (simp add: created_bucket_def)
    then have "keeps server_inv (finish_create s r (created_bucket s r name desc (wnow w)))"
      unfolding finish_create_def by (intro keeps_intros keeps_inv_buckets keeps_inv_directories)
    then have "server_inv (snd (finish_create s r (created_bucket s r name desc (wnow w)) w1))"
      by (rule keepsD) (use inv w1 in \<open>simp add: server_inv_def\<close>)
    then show ?thesis using run fin by simp
  qed
qed

lemmas keeps_inv_calls =
  keeps_inv_requireBucket keeps_inv_reads keeps_inv_buckets(2,3) keeps_inv_directories keeps_inv_storage

lemma keeps_inv_admin_handlers:
  "keeps server_inv (health r)" "keeps server_inv (listBuckets r)" "keeps server_inv (deleteBucket s r)"
  "keeps server_inv (rotateBucketKey s r)" "keeps server_inv (reindexBucket s r)"
  unfolding health_def listBuckets_def deleteBucket_def rotateBucketKey_def reindexBucket_def Let_def
  by (intro keeps_intros keeps_inv_calls)+

lemma keeps_inv_object_handlers:
  "keeps server_inv (putObject s r)" "keeps server_inv (getObject s r)" "keeps server_inv (deleteObject s r)"
  "keeps server_inv (listObjects s r)" "keeps server_inv (bucketStats r)" "keeps server_inv (setACL s r)"
  "keeps server_inv (presign s r)"
  unfolding object_handlers Let_def
  by (intro keeps_intros keeps_inv_calls keeps_ret_now keeps_case_prod)+

section \<open>Names in the tree\<close>

lemma keeps_tree_createBucket:
  assumes "storage_at rs (storage s)"
  shows "keeps tree_ok (createBucket s r)"
  unfolding keeps_def
proof (intro allI impI)
  fix w
  assume t: "tree_ok w"
  obtain res w' where run: "createBucket s r w = (res, w')" by force
  have fin: "keeps tree_ok (finish_create s r b)" for b
    unfolding finish_create_def by (intro keeps_intros keeps_names_storage [OF assms])
  from createBucket_finish [OF run] show "tree_ok (snd (createBucket s r w))"
    using t run keepsD [OF fin] by (elim disjE exE conjE) (simp, metis snd_conv)
qed

lemma keeps_tree_ok:
  assumes st: "storage_at rs (storage s)" and r: "entropy_ok r" and h: "h \<in> set (handlers s)"
  shows "keeps tree_ok (h r)"
proof -
  note calls = keeps_names_storage [OF st] keeps_names_PutObject [OF st, of "rndTemps (rEntropy r)"]
  have bucket: "keeps tree_ok (requireBucket n)" "keeps tree_ok (IsBucketEmpty (storage s) n)" for n
    unfolding requireBucket_def IsBucketEmpty_def by (intro keeps_intros)+
  have "keeps tree_ok (health r)" "keeps tree_ok (listBuckets r)" "keeps tree_ok (deleteBucket s r)"
    "keeps tree_ok (rotateBucketKey s r)" "keeps tree_ok (reindexBucket s r)"
    unfolding health_def listBuckets_def deleteBucket_def rotateBucketKey_def reindexBucket_def Let_def
    by (intro keeps_intros bucket calls)+
  moreover have "keeps tree_ok (createBucket s r)"
    using st by (rule keeps_tree_createBucket)
  moreover have "keeps tree_ok (putObject s r)"
    unfolding putObject_def Let_def by (intro keeps_intros calls) (use r in \<open>simp add: entropy_ok_def\<close>)
  moreover have "keeps tree_ok (getObject s r)" "keeps tree_ok (deleteObject s r)"
    "keeps tree_ok (listObjects s r)" "keeps tree_ok (bucketStats r)" "keeps tree_ok (setACL s r)" "keeps tree_ok (presign s r)"
    unfolding object_handlers Let_def
    by (intro keeps_intros keeps_ret_now keeps_case_prod calls)+
  ultimately show ?thesis using h by (auto simp: handlers_def)
qed

section \<open>The invariant of all requests\<close>

definition tree_inv :: "world \<Rightarrow> bool" where
  "tree_inv w \<longleftrightarrow> server_inv w \<and> fs_names (wfs w)"

lemma keeps_inv_handlers: "h \<in> set (handlers s) \<Longrightarrow> keeps server_inv (h r)"
  using keeps_inv_admin_handlers keeps_inv_object_handlers keeps_inv_createBucket by (auto simp: handlers_def)

lemma keeps_inv_ReindexAll:
  "keeps server_inv (ReindexAll s)" "storage_at rs (storage s) \<Longrightarrow> keeps tree_ok (ReindexAll s)"
  unfolding ReindexAll_def by (intro keeps_intros keeps_inv_calls keeps_names_storage; assumption)+

interpretation inv: request_invariant tree_inv
proof
  show "tree_inv w \<Longrightarrow> wfs w' = wfs w \<Longrightarrow> wdb w' = wdb w \<Longrightarrow> tree_inv w'" for w w'
    by (simp add: tree_inv_def server_inv_def)
  show "tree_inv w \<Longrightarrow> names_ok (wdb w)" for w by (simp add: tree_inv_def server_inv_def)
  show "tree_inv (snd (h r w))"
    if "storage_at rs (storage s)" "entropy_ok r" "h \<in> set (handlers s)" "tree_inv w" for rs s r w h
    using keepsD [OF keeps_inv_handlers [OF that(3)]] keepsD [OF keeps_tree_ok [OF that(1-3)]] that(4)
    by (simp add: tree_inv_def)
  show "tree_inv (snd (ReindexAll s w))" if "storage_at rs (storage s)" "tree_inv w" for rs s w
    using keepsD [OF keeps_inv_ReindexAll(1)] keepsD [OF keeps_inv_ReindexAll(2) [OF that(1)]] that(2)
    by (simp add: tree_inv_def)
qed

end
