(* ===== verification/PresignLaws.thy ===== *)
theory PresignLaws
  imports ServerLaws
begin

text \<open>
  Presigned URLs: the query and the path that \<open>presign\<close> writes are read back by \<open>net/url\<close> as the
  values they were made of, and the URL it mints is granted until it expires, and not later.
\<close>

section \<open>The query and the path of a URL\<close>

text \<open>A query written as \<open>key=escaped value\<close> pairs parses to the pairs.\<close>

definition query_string :: "(string \<times> string) list \<Rightarrow> string" where
  "query_string kvs = join_with ''&'' (map (\<lambda>(k, v). k @ CHR ''='' # escapeDataString v) kvs)"

definition query_name :: "string \<Rightarrow> bool" where
  "query_name k \<longleftrightarrow> k \<noteq> [] \<and> (\<forall>c\<in>set k. unreserved c)"

lemma query_name_notin: "query_name k \<Longrightarrow> \<not> unreserved c \<Longrightarrow> c \<notin> set k"
  by (auto simp: query_name_def)

lemma escape_notin: "\<not> escaped_char c \<Longrightarrow> c \<notin> set (escapeDataString v)"
  using escape_chars by blast

lemma not_escaped [simp]:
  "\<not> escaped_char (CHR ''&'')" "\<not> escaped_char (CHR '';'')" "\<not> escaped_char (CHR ''='')" "\<not> escaped_char slash"
  by (simp_all add: escaped_char_def slash_def)

lemma parse_pair_field:
  assumes "query_name k"
  shows "parse_pair (k @ CHR ''='' # escapeDataString v) = Some (k, v)"
proof -
  have "cut_at (CHR ''='') (k @ CHR ''='' # escapeDataString v) = (k, escapeDataString v, True)"
    by (rule cut_at_append) (simp add: query_name_notin [OF assms])
  moreover have "QueryUnescape k = Some k"
    using unescape_escape(1) [of k] escape_unreserved [of k] assms by (simp add: query_name_def)
  ultimately show ?thesis
    by (simp add: parse_pair_def query_name_notin [OF assms] escape_notin unescape_escape)
qed

lemma ParseQuery_string:
  assumes "kvs \<noteq> []" and "\<forall>(k, v)\<in>set kvs. query_name k"
  shows "ParseQuery (query_string kvs) = kvs"
proof -
  let ?f = "\<lambda>(k, v). k @ CHR ''='' # escapeDataString v"
  have "split_on (CHR ''&'') (query_string kvs) = map ?f kvs"
    unfolding query_string_def
    by (rule split_join) (use assms in \<open>auto simp: query_name_notin escape_notin\<close>)
  moreover have "List.map_filter parse_pair (map ?f kvs) = kvs"
    using assms(2) by (induction kvs) (auto simp: List.map_filter_def parse_pair_field)
  ultimately show ?thesis by (simp add: ParseQuery_def)
qed

lemma unreserved_int_char: "int_char c \<Longrightarrow> unreserved c"
  by (auto simp: int_char_def is_digit_def unreserved_def)

lemma unreserved_lower_hex: "is_lower_hex c \<Longrightarrow> unreserved c"
  by (auto simp: is_lower_hex_def is_digit_def unreserved_def)

lemma presigned_query_string:
  assumes "\<forall>c\<in>set sig. unreserved c"
  shows "presigned_query ak e sig = query_string [(''AccessKey'', ak), (''Expires'', FormatInt e), (''Signature'', sig)]"
proof -
  have "escapeDataString (FormatInt e) = FormatInt e"
    by (rule escape_unreserved) (auto intro: unreserved_int_char FormatInt_chars)
  then show ?thesis
    using escape_unreserved [OF assms] by (simp add: presigned_query_def query_string_def)
qed

lemma Sign_unreserved: "\<forall>c\<in>set (Sign k s). unreserved c"
  by (auto intro: unreserved_lower_hex hmac_sig.sign_chars)

lemma ParseQuery_presigned:
  "ParseQuery (presigned_query ak e (Sign k s)) =
     [(''AccessKey'', ak), (''Expires'', FormatInt e), (''Signature'', Sign k s)]"
  unfolding presigned_query_string [OF Sign_unreserved]
  by (rule ParseQuery_string) (simp_all add: query_name_def unreserved_def)

lemma PathUnescape_escaped: "PathUnescape (escaped_path p) = Some p"
proof -
  have "PathUnescape (join_with [slash] (map escapeDataString cs)) = Some (join_with [slash] cs)" if "cs \<noteq> []" for cs
    using that
  proof (induction cs)
    case (Cons c cs)
    then show ?case
      by (cases "cs = []") (simp_all add: unescape_escape join_with_Cons PathUnescape_slash)
  qed simp
  from this [of "split_on slash p"] show ?thesis by (simp add: escaped_path_def)
qed

text \<open>Every byte of the escaped path and query is safe in a request line.\<close>

lemma join_escaped_chars: "c \<in> set (join_with [slash] (map escapeDataString cs)) \<Longrightarrow> escaped_char c \<or> c = slash"
proof (induction cs)
  case (Cons x xs)
  then show ?case by (cases "xs = []") (auto simp: join_with_Cons dest: escape_chars)
qed simp

lemma escaped_path_chars: "c \<in> set (escaped_path p) \<Longrightarrow> escaped_char c \<or> c = slash"
  unfolding escaped_path_def by (rule join_escaped_chars)

section \<open>Minting\<close>

text \<open>
  The request a client makes of a URL that starts with the base the server wrote: what follows is
  the path, percent-decoded, and the query.
\<close>

definition follows_url :: "string \<Rightarrow> string \<Rightarrow> request \<Rightarrow> bool" where
  "follows_url base url r \<longleftrightarrow>
     (\<exists>p. url = base @ p @ CHR ''?'' # rRawQuery r \<and> CHR ''?'' \<notin> set p \<and> PathUnescape p = Some (rPath r))"

definition signed_url :: "string \<Rightarrow> Bucket \<Rightarrow> string \<Rightarrow> string \<Rightarrow> string \<Rightarrow> int64 \<Rightarrow> string" where
  "signed_url base b secret mth key e =
     base @ escaped_path (object_route (Name b) key) @ ''?'' @
       presigned_query (AccessKey b) e (Sign secret (StringToSign mth (object_route (Name b) key) e))"

lemma follows_signed_url:
  assumes "follows_url base (signed_url base b secret mth key e) r"
  shows "rPath r = object_route (Name b) key"
    and "rRawQuery r = presigned_query (AccessKey b) e (Sign secret (StringToSign mth (object_route (Name b) key) e))"
proof -
  let ?path = "object_route (Name b) key"
  let ?q = "presigned_query (AccessKey b) e (Sign secret (StringToSign mth ?path e))"
  obtain p where p: "escaped_path ?path @ CHR ''?'' # ?q = p @ CHR ''?'' # rRawQuery r" "CHR ''?'' \<notin> set p"
    "PathUnescape p = Some (rPath r)"
    using assms by (auto simp: follows_url_def signed_url_def)
  have "CHR ''?'' \<notin> set (escaped_path ?path)"
    using escaped_path_chars [of "CHR ''?''" ?path] by (auto simp: escaped_char_def slash_def)
  then have "escaped_path ?path = p \<and> ?q = rRawQuery r" using first_segment_unique [OF p(1)] p(2) by blast
  then show "rPath r = ?path" "rRawQuery r = ?q" using p(3) PathUnescape_escaped [of ?path] by auto
qed

text \<open>What a presign request may be answered with.\<close>

definition minted ::
  "Server \<Rightarrow> request \<Rightarrow> world \<Rightarrow> response \<Rightarrow> authInfo \<Rightarrow> string \<Rightarrow> string \<Rightarrow> string \<Rightarrow> int64 \<Rightarrow> bool" where
  "minted s r w rsp a secret key mth secs \<longleftrightarrow>
     rAuth r = Some a \<and> Name (aBucket a) = pvBucket r \<and> TrimSpace key \<noteq> [] \<and> mth \<in> {''GET'', ''PUT''} \<and>
     1 \<le> sint secs \<and> sint secs \<le> 604800 \<and> sint secs \<le> sint (MaxPresignExpirySeconds (cfg s)) \<and>
     DecryptSecret (crypto s) (EncryptedSecretKey (aBucket a)) = Inr secret \<and>
     rsp = writeJSON StatusOK (PresignBody
       (signed_url (TrimRightChar (base_url s r) slash) (aBucket a) secret mth key (now_unix w + secs))
       mth (now_unix w + secs))"

text \<open>The route decides on the request alone and changes nothing.\<close>

lemma presign_pure: "presign s r w = (res, w') \<Longrightarrow> w' = w"
  by (auto simp: presign_def andThen_def lift_result_def fail_def ret_def Let_def split: sum.splits if_splits)

lemma presign_minted:
  assumes "presign s r w = (Inr rsp, w')"
  shows "\<exists>a req secret. decodeJSON presign_schema r = Inr req \<and>
    minted s r w rsp a secret (get_string presign_schema ''key'' req) (get_string presign_schema ''method'' req)
      (get_int64 presign_schema ''expiresInSeconds'' req)"
  using assms
  by (auto simp: presign_def minted_def andThen_def lift_result_def fail_def ret_def authedBucket_def Let_def
      signed_url_def split: sum.splits if_splits option.splits)

section \<open>Following a presigned URL\<close>

text \<open>What the middleware reads from a request that follows a signed URL.\<close>

lemma signed_url_query:
  assumes "follows_url base (signed_url base b secret mth key e) r"
  shows "presigned_form r" and "presented_key (req_query r) (req_match r) = AccessKey b"
    and "QueryGet (req_query r) ''Expires'' = FormatInt e"
    and "QueryGet (req_query r) ''Signature'' = Sign secret (StringToSign mth (rPath r) e)"
proof -
  note q = follows_signed_url [OF assms]
  have pq: "req_query r = [(''AccessKey'', AccessKey b), (''Expires'', FormatInt e),
      (''Signature'', Sign secret (StringToSign mth (rPath r) e))]"
    unfolding q by (rule ParseQuery_presigned)
  show "presigned_form r" "presented_key (req_query r) (req_match r) = AccessKey b"
    "QueryGet (req_query r) ''Expires'' = FormatInt e"
    "QueryGet (req_query r) ''Signature'' = Sign secret (StringToSign mth (rPath r) e)"
    unfolding presigned_form_def presented_key_def pq by (simp_all add: QueryHas_def QueryGet_def)
qed

text \<open>
  Whoever follows the URL with the method it was minted for is let through until it expires.  After
  that, the URL gives nothing.
\<close>

lemma signed_url_identity:
  assumes "follows_url base (signed_url base b secret mth key e) r"
    and "sel_bucket_by_key (AccessKey b) (wdb w) = Some b"
    and "grants rs s r name w a" "\<not> viaPublic a"
  shows "aBucket a = b \<and> presignExpires a = e \<and> sint (now_unix w) \<le> sint e"
  using assms(3)
proof cases
  case by_public
  with assms(4) show ?thesis by simp
next
  case (by_presigned b' secret' e')
  with assms(2) signed_url_query [OF assms(1)] show ?thesis
    by (auto simp: credential_def ParseInt_FormatInt)
next
  case by_header
  with signed_url_query(1) [OF assms(1)] show ?thesis by simp
qed

lemma signed_url_granted:
  assumes f: "follows_url base (signed_url base b secret mth key e) r" and m: "rMethod r = mth" "mth \<in> {''GET'', ''PUT''}"
    and b: "sel_bucket_by_key (AccessKey b) (wdb w) = Some b" "AccessKey b \<noteq> []"
      "DecryptSecret (crypto s) (EncryptedSecretKey b) = Inr secret"
  shows "grants rs s r (Name b) w \<lparr>aBucket = b, viaPublic = False, presignExpires = x\<rparr> \<longleftrightarrow>
    x = e \<and> sint (now_unix w) \<le> sint e"
proof
  assume "grants rs s r (Name b) w \<lparr>aBucket = b, viaPublic = False, presignExpires = x\<rparr>"
  from signed_url_identity [OF f b(1) this] show "x = e \<and> sint (now_unix w) \<le> sint e" by simp
next
  note q = signed_url_query [OF f]
  assume x: "x = e \<and> sint (now_unix w) \<le> sint e"
  have c: "credential s r (Name b) w b secret" using b q(2) by (simp add: credential_def)
  have "grants rs s r (Name b) w \<lparr>aBucket = b, viaPublic = False, presignExpires = e\<rparr>"
    by (rule grants.by_presigned [OF q(1) _ c]) (use q m x in \<open>auto simp: ParseInt_FormatInt\<close>)
  with x show "grants rs s r (Name b) w \<lparr>aBucket = b, viaPublic = False, presignExpires = x\<rparr>" by simp
qed

text \<open>The bucket of an object path is the one it was built from.\<close>

lemma bucketPathRe_object_route:
  "bucketPathRe (object_route n k) = Some m \<Longrightarrow> slash \<notin> set n \<Longrightarrow> m = n"
proof -
  assume h: "bucketPathRe (object_route n k) = Some m" "slash \<notin> set n"
  then have all: "\<forall>c\<in>set n. c \<noteq> slash" by auto
  have "object_route n k = ''/buckets/'' @ n @ slash # ''objects/'' @ k" by (simp add: object_route_def slash_def)
  moreover have "takeWhile (\<lambda>c. c \<noteq> slash) (n @ slash # ''objects/'' @ k) = n"
    using all by (simp add: takeWhile_append_stop)
  ultimately show "m = n" using h(1) by (simp add: bucketPathRe_def Let_def split: if_splits)
qed

end
