(* ===== verification/StorageRefine.thy ===== *)
theory StorageRefine
  imports StorageFaults StorageIndex
begin

text \<open>
  What a bucket promises, as a map from object names to bytes, and the proof that the storage layer
  implements it under any faults: an upload is one update or none, a deletion one removal or none, and
  nothing else changes the map.  Temporary files are not part of it.
\<close>

section \<open>The abstract store\<close>

type_synonym object_map = "string \<Rightarrow> fpath \<Rightarrow> string option"

definition store_put :: "string \<Rightarrow> fpath \<Rightarrow> string \<Rightarrow> object_map \<Rightarrow> object_map" where
  "store_put b cs d S = S(b := (S b)(cs \<mapsto> d))"

definition store_delete :: "string \<Rightarrow> fpath \<Rightarrow> object_map \<Rightarrow> object_map" where
  "store_delete b cs S = S(b := (S b)(cs := None))"

text \<open>The map a file system represents.\<close>

definition visible :: "string \<Rightarrow> fpath \<Rightarrow> bool" where
  "visible b cs \<longleftrightarrow> bucket_ok b \<and> cs \<noteq> [] \<and> \<not> HasPrefix (last cs) ''.upload-''"

definition stored_objects :: "fpath \<Rightarrow> fsys \<Rightarrow> object_map" where
  "stored_objects rs f b cs = (if visible b cs then map_option fst (file_at f (rs @ b # cs)) else None)"

definition key_visible :: "string \<Rightarrow> bool" where
  "key_visible k \<longleftrightarrow> \<not> HasPrefix (last (key_comps k)) ''.upload-''"

lemma temp_prefix: "HasPrefix (temp_name r) ''.upload-''"
  by (simp add: temp_name_def)

lemma visible_key: "bucket_ok b \<Longrightarrow> key_ok k \<Longrightarrow> key_visible k \<Longrightarrow> visible b (key_comps k)"
  by (simp add: visible_def key_visible_def key_ok_def)

lemma visible_temps: "key_visible k \<Longrightarrow> \<forall>r\<in>set rnds. slash \<notin> set r \<Longrightarrow> temps_ok k rnds"
  unfolding temps_ok_def key_visible_def using temp_prefix by metis

lemma stored_objects_cong:
  assumes "\<And>b cs. visible b cs \<Longrightarrow> file_at g (rs @ b # cs) = file_at f (rs @ b # cs)"
  shows "stored_objects rs g = stored_objects rs f"
  using assms by (auto simp: stored_objects_def fun_eq_iff)

text \<open>What keeps every visible file keeps the map.\<close>

lemma keeps_stored_objects:
  assumes "\<And>b cs x. visible b cs \<Longrightarrow> keeps (\<lambda>w. file_at (wfs w) (rs @ b # cs) = x) m" and "m w = (r, w')"
  shows "stored_objects rs (wfs w') = stored_objects rs (wfs w)"
proof (rule stored_objects_cong)
  fix b cs
  assume "visible b cs"
  from keepsD [OF assms(1) [OF this, of "file_at (wfs w) (rs @ b # cs)"], of w] assms(2)
  show "file_at (wfs w') (rs @ b # cs) = file_at (wfs w) (rs @ b # cs)" by simp
qed

lemma triple_case:
  "triple P m Q E \<Longrightarrow> P w \<Longrightarrow> m w = (res, w') \<Longrightarrow> (case res of Inl e \<Rightarrow> E w' | Inr x \<Rightarrow> Q x w')"
  by (cases res) (auto dest: tripleD)

section \<open>Uploads\<close>

lemma put_others:
  assumes st: "storage_at rs s" "bucket_ok b" and r: "\<forall>r\<in>set rnds. slash \<notin> set r" and kv: "key_visible k"
    and run: "PutObject s rnds b k bd ct pub w = (res, w')" and v: "visible b' cs" and ne: "(b', cs) \<noteq> (b, key_comps k)"
  shows "file_at (wfs w') (rs @ b' # cs) = file_at (wfs w) (rs @ b' # cs)"
proof -
  have b': "bucket_ok b'" "cs \<noteq> []" "\<not> HasPrefix (last cs) ''.upload-''" using v by (simp_all add: visible_def)
  have "keeps (\<lambda>w. file_at (wfs w) (rs @ b' # cs) = x) (PutObject s rnds b k bd ct pub)" for x
  proof (rule PutObject_frame [OF st visible_temps [OF kv r]])
    show "rs @ b' # cs \<noteq> obj_path rs b k" using ne by auto
    show "rs @ b' # cs \<noteq> side_path rs b k" using b'(1) by (auto simp: bucket_ok_def)
    have "last (rs @ b' # cs) = last cs" using b'(2) by simp
    then show "\<forall>r\<in>set rnds. rs @ b' # cs \<noteq> butlast (obj_path rs b k) @ [temp_name r]"
      using b'(3) temp_prefix by (metis last_snoc)
  qed
  from keepsD [OF this, of w "file_at (wfs w) (rs @ b' # cs)"] run show ?thesis by simp
qed

lemma put_refines:
  assumes st: "storage_at rs s" "bucket_ok b" "key_ok k" and r: "\<forall>r\<in>set rnds. slash \<notin> set r" and kv: "key_visible k"
    and run: "PutObject s rnds b k bd ct pub w = (res, w')"
  shows "res = Inr e \<Longrightarrow> stored_objects rs (wfs w') = store_put b (key_comps k) (bData bd) (stored_objects rs (wfs w))"
    and "res = Inl err \<Longrightarrow> stored_objects rs (wfs w') \<in>
      {stored_objects rs (wfs w), store_put b (key_comps k) (bData bd) (stored_objects rs (wfs w))}"
    and "bErr bd = Some err \<Longrightarrow> stored_objects rs (wfs w') = stored_objects rs (wfs w)"
proof -
  let ?cs = "key_comps k"
  note others = put_others [OF st(1,2) r kv run]
  have v: "visible b ?cs" using st kv by (simp add: visible_key)
  have same: "stored_objects rs (wfs w') = stored_objects rs (wfs w)"
    if "file_at (wfs w') (obj_path rs b k) = file_at (wfs w) (obj_path rs b k)"
    by (rule stored_objects_cong) (use others that in fastforce)
  have put: "stored_objects rs (wfs w') = store_put b ?cs (bData bd) (stored_objects rs (wfs w))"
    if "file_at (wfs w') (obj_path rs b k) = Some (bData bd, t)" for t
  proof (intro ext)
    fix b' cs
    show "stored_objects rs (wfs w') b' cs = store_put b ?cs (bData bd) (stored_objects rs (wfs w)) b' cs"
      using others [of b' cs] that v by (cases "(b', cs) = (b, ?cs)") (auto simp: stored_objects_def store_put_def)
  qed
  have at: "at_file (obj_path rs b k) (file_at (wfs w) (obj_path rs b k)) (wnow w) w" by (simp add: at_file_def)
  note out = triple_case [OF PutObject_atomic [OF st visible_temps [OF kv r]] at run]
  show "res = Inr e \<Longrightarrow> stored_objects rs (wfs w') = store_put b ?cs (bData bd) (stored_objects rs (wfs w))"
    using out put by (auto simp: put_done_def)
  show "res = Inl err \<Longrightarrow> stored_objects rs (wfs w') \<in>
      {stored_objects rs (wfs w), store_put b ?cs (bData bd) (stored_objects rs (wfs w))}"
    using out put same by auto
  show "bErr bd = Some err \<Longrightarrow> stored_objects rs (wfs w') = stored_objects rs (wfs w)"
    using out same by (cases res) auto
qed

section \<open>Deletions\<close>

lemma delete_refines:
  assumes st: "storage_at rs s" "bucket_ok b" "key_ok k" and ok: "fs_ok w"
    and run: "DeleteObject s b k w = (res, w')"
  shows "res = Inr u \<Longrightarrow> stored_objects rs (wfs w') = store_delete b (key_comps k) (stored_objects rs (wfs w))"
    and "res = Inl err \<Longrightarrow> stored_objects rs (wfs w') \<in>
      {stored_objects rs (wfs w), store_delete b (key_comps k) (stored_objects rs (wfs w))}"
proof -
  let ?cs = "key_comps k"
  define J where "J = (\<lambda>q w'. fs_ok w' \<and> (file_at (wfs w') q = file_at (wfs w) q \<or>
      (q = obj_path rs b k \<or> q = side_path rs b k) \<and> file_at (wfs w') q = None))"
  have out: "case res of Inr u \<Rightarrow> J q w' \<and> file_at (wfs w') (obj_path rs b k) = None \<and>
        file_at (wfs w') (side_path rs b k) = None \<and> sel_object b k (wdb w') = None | Inl e \<Rightarrow> J q w'" for q
    unfolding J_def
    using triple_case [OF DeleteObject_outcome [OF st, where q = q and x = "file_at (wfs w) q"] _ run] ok by simp
  have J: "J q w'" for q using out [of q] by (cases res) auto
  have others: "file_at (wfs w') (rs @ b' # cs) = file_at (wfs w) (rs @ b' # cs)"
    if "visible b' cs" "(b', cs) \<noteq> (b, ?cs)" for b' cs
    using J [of "rs @ b' # cs"] that by (auto simp: J_def visible_def bucket_ok_def)
  have same: "stored_objects rs (wfs w') = stored_objects rs (wfs w)"
    if "file_at (wfs w') (obj_path rs b k) = file_at (wfs w) (obj_path rs b k)"
    by (rule stored_objects_cong) (use others that in fastforce)
  have del: "stored_objects rs (wfs w') = store_delete b ?cs (stored_objects rs (wfs w))"
    if "file_at (wfs w') (obj_path rs b k) = None"
  proof (intro ext)
    fix b' cs
    show "stored_objects rs (wfs w') b' cs = store_delete b ?cs (stored_objects rs (wfs w)) b' cs"
      using others [of b' cs] that by (cases "(b', cs) = (b, ?cs)") (auto simp: stored_objects_def store_delete_def)
  qed
  show "res = Inr u \<Longrightarrow> stored_objects rs (wfs w') = store_delete b ?cs (stored_objects rs (wfs w))"
    using out [of "[]"] del by simp
  show "res = Inl err \<Longrightarrow> stored_objects rs (wfs w') \<in>
      {stored_objects rs (wfs w), store_delete b ?cs (stored_objects rs (wfs w))}"
    using J [of "obj_path rs b k"] del same by (auto simp: J_def)
qed

section \<open>Reads\<close>

lemma open_refines:
  assumes st: "storage_at rs s" "bucket_ok b" and run: "OpenObject s b k w = (res, w')"
  shows "stored_objects rs (wfs w') = stored_objects rs (wfs w)"
    and "res = Inr (d, m) \<Longrightarrow> key_visible k \<Longrightarrow> stored_objects rs (wfs w) b (key_comps k) = Some d"
proof -
  show "stored_objects rs (wfs w') = stored_objects rs (wfs w)"
    by (rule keeps_stored_objects [OF OpenObject_frame [OF st] run]) (auto simp: visible_def bucket_ok_def)
  assume r: "res = Inr (d, m)" and kv: "key_visible k"
  show "stored_objects rs (wfs w) b (key_comps k) = Some d"
  proof (cases "key_ok k")
    case False
    then have "\<exists>e. OpenObject s b k w = (Inl e, w)" using invalid_key [OF st False, of w] by blast
    with r run show ?thesis by auto
  next
    case True
    have pc: "path_comps (abs_path (obj_path rs b k)) = obj_path rs b k"
      using obj_path_proper [OF st key_ok_clean [OF True]] by simp
    obtain n v where n: "os_Stat (abs_path (obj_path rs b k)) w = (n, v)" by force
    with run r have "\<exists>t. n = Inr (File d t)"
      by (auto simp: OpenObject_def resolve_ok [OF st True] attempt_def fail_def ret_def lift_result_def os_query_def os_call_def
          split: sum.splits fnode.splits prod.splits fault.splits if_splits elim!: andThen_InrE)
    with n obtain t where "fs_node (wfs w) (obj_path rs b k) = Some (File d t)"
      using os_Stat_Inr pc by metis
    then show ?thesis using visible_key [OF st(2) True kv] by (simp add: stored_objects_def file_at_def)
  qed
qed

lemma set_public_refines:
  assumes st: "storage_at rs s" "bucket_ok b" and run: "SetPublic s b k pub w = (res, w')"
  shows "stored_objects rs (wfs w') = stored_objects rs (wfs w)"
  by (rule keeps_stored_objects [OF SetPublic_frame [OF st] run]) (auto simp: visible_def bucket_ok_def)

section \<open>Visibility changes that succeed\<close>

lemma SetPublic_ok:
  assumes st: "storage_at rs s" "bucket_ok b" "key_ok k" and q: "wfaults w = []" "fs_ok w"
    and there: "fs_node (wfs w) (obj_path rs b k) = Some (File d t)"
    and m: "mETag (meta_on_disk (wfs w) (side_path rs b k)) = Some e" and wr: "writable (wfs w) (side_path rs b k)"
    and row: "sel_object b k (wdb w) = Some r"
  obtains g where
    "SetPublic s b k pub w = (Inr (), w\<lparr>wfs := g, wdb := ups_object (r\<lparr>oPublic := pub\<rparr>) (wdb w)\<rparr>)"
    "written (wfs w) (side_path rs b k)
       (marshalMeta \<lparr>mContentType = sanitizeContentTypePtr (mContentType (meta_on_disk (wfs w) (side_path rs b k))),
          mPublic = pub, mETag = Some e\<rparr>) (wnow w) g"
proof -
  let ?m = "meta_on_disk (wfs w) (side_path rs b k)"
  have kc: "key_clean k" using st(3) by simp
  obtain g where g: "writeMeta s b k (mContentType ?m) pub (Some e) w = (Inr (), w\<lparr>wfs := g\<rparr>)"
    "written (wfs w) (side_path rs b k)
       (marshalMeta \<lparr>mContentType = sanitizeContentTypePtr (mContentType ?m), mPublic = pub, mETag = Some e\<rparr>) (wnow w) g"
    by (rule writeMeta_ok [OF st(1,2) kc q wr])
  have pc: "path_comps (abs_path (obj_path rs b k)) = obj_path rs b k" using obj_path_proper [OF st(1,2) kc] by simp
  have q': "wfaults (w\<lparr>wfs := g\<rparr>) = []" using q by simp
  have "SetPublic s b k pub w = (Inr (), w\<lparr>wfs := g, wdb := ups_object (r\<lparr>oPublic := pub\<rparr>) (wdb w)\<rparr>)"
    using g(1) m there row
    by (simp add: SetPublic_def resolve_ok [OF st] lift_result_def andThen_def helpers_quiet [OF q(1)] pc
        readMeta_quiet [OF st(1,2) kc q(1)] store_quiet [OF q'] ret_def)
  then show thesis using g(2) by (rule that)
qed

end
