(* ===== verification/AccessLaws.thy ===== *)
theory AccessLaws
  imports Invariants PresignLaws StorageRefine
begin

text \<open>
  Access in detail: what an anonymous reader can reach, which signed headers are accepted and for how long,
  and how long a presigned response may be cached.
\<close>

section \<open>Anonymous reads\<close>

definition row_is :: "string \<Rightarrow> string \<Rightarrow> ObjectRow option \<Rightarrow> database \<Rightarrow> bool" where
  "row_is b k x d \<longleftrightarrow> sel_object b k d = x"

lemma keeps_row_exec:
  "row_id r \<noteq> (b, k) \<Longrightarrow> keeps (\<lambda>w. row_is b k x (wdb w)) (UpsertObject r)"
  "(b', k') \<noteq> (b, k) \<Longrightarrow> keeps (\<lambda>w. row_is b k x (wdb w)) (SetObjectETag b' k' e)"
  unfolding UpsertObject_def SetObjectETag_def
  by (rule keeps_db_exec; auto simp: row_is_def sel_object_ups sel_object_upd_etag)+

lemma keeps_db_indexFromDisk [keeps_intros]: "keeps (\<lambda>w. P (wdb w)) (indexFromDisk s b k p)"
  unfolding indexFromDisk_def storage_helpers Let_def by (intro keeps_intros)

lemma statIndexed_other_rows:
  assumes ne: "(b, k) \<noteq> (b', k')"
  shows "keeps (\<lambda>w. row_is b' k' x (wdb w)) (statIndexed s b k p)"
proof -
  have none: "keeps (\<lambda>w. row_is b' k' x (wdb w))
      (andThen (indexFromDisk s b k p) (\<lambda>row. andThen (UpsertObject row) (\<lambda>_. ret (summaryOf row))))"
  proof (rule keeps_triple, rule triple_andThen)
    show "triple (\<lambda>w. row_is b' k' x (wdb w)) (indexFromDisk s b k p)
        (\<lambda>row w. row_is b' k' x (wdb w) \<and> row_id row = (b, k)) (\<lambda>w. row_is b' k' x (wdb w))"
      by (rule triple_keeps_post) (auto intro: keeps_db_indexFromDisk dest: indexFromDisk_id)
    show "triple (\<lambda>w. row_is b' k' x (wdb w) \<and> row_id row = (b, k))
        (andThen (UpsertObject row) (\<lambda>_. ret (summaryOf row)))
        (\<lambda>_ w. row_is b' k' x (wdb w)) (\<lambda>w. row_is b' k' x (wdb w))" for row
    proof (rule triple_pure_pre)
      assume "row_id row = (b, k)"
      then have "keeps (\<lambda>w. row_is b' k' x (wdb w)) (andThen (UpsertObject row) (\<lambda>_. ret (summaryOf row)))"
        using ne by (intro keeps_intros keeps_row_exec) simp
      then show "triple (\<lambda>w. row_is b' k' x (wdb w)) (andThen (UpsertObject row) (\<lambda>_. ret (summaryOf row)))
          (\<lambda>_ w. row_is b' k' x (wdb w)) (\<lambda>w. row_is b' k' x (wdb w))"
        by (rule triple_keeps)
    qed
  qed
  show ?thesis
    unfolding statIndexed_def storage_helpers
    by (intro keeps_intros keeps_row_exec none [unfolded storage_helpers] ne)
qed

lemma OpenObject_other_rows:
  "(b, k) \<noteq> (b', k') \<Longrightarrow> keeps (\<lambda>w. row_is b' k' x (wdb w)) (OpenObject s b k)"
  unfolding OpenObject_def by (intro keeps_intros statIndexed_other_rows)

lemma andThen_lift:
  "andThen (lift_result (Inr a)) k = k a" "andThen (lift_result (Inl e)) k = fail e"
  by (rule ext, simp add: andThen_def lift_result_def fail_def)+

lemma authedBucket_cases:
  "rAuth r = Some a \<Longrightarrow> authedBucket r = Inr a \<and> Name (aBucket a) = pvBucket r \<or> (\<exists>e. authedBucket r = Inl e)"
  by (simp add: authedBucket_def)

lemma keeps_getObject:
  assumes "keeps P (OpenObject (storage s) (Name (aBucket a)) (pvKey r))" and "rAuth r = Some a"
  shows "keeps P (getObject s r)"
proof -
  consider "authedBucket r = Inr a" | e where "authedBucket r = Inl e" using authedBucket_cases [OF assms(2)] by blast
  then show ?thesis
  proof cases
    case 1
    then show ?thesis
      unfolding getObject_def by (simp only: andThen_lift) (intro keeps_intros keeps_ret_now keeps_case_prod assms(1))
  next
    case 2
    then show ?thesis unfolding getObject_def by (simp only: andThen_lift) (rule keeps_fail)
  qed
qed

lemma getObject_body:
  assumes "getObject s r w = (Inr rsp, w')" and "rAuth r = Some a"
  shows "\<exists>d obj v. OpenObject (storage s) (Name (aBucket a)) (pvKey r) w = (Inr (d, obj), w') \<and>
    rsStatus rsp = 200 \<and> rsBody rsp = ServeContent (LastModified obj) d"
proof -
  consider "authedBucket r = Inr a" | e where "authedBucket r = Inl e" using authedBucket_cases [OF assms(2)] by blast
  then show ?thesis
    using assms(1)
    by cases (auto simp: getObject_def andThen_lift fail_def ret_def status_defs elim!: andThen_InrE)
qed

lemma dispatch_known:
  assumes "map_of routes (rMethod r) = Some h" and "dispatch routes r w = (rsp, w')"
  shows "\<exists>res. h r w = (res, w') \<and> (\<forall>x. res = Inr x \<longrightarrow> rsp = x) \<and> (\<forall>e. res = Inl e \<longrightarrow> (\<exists>c m t. rsBody rsp = ErrorBody c m t))"
  using assms
  by (cases "h r w")
    (auto simp: dispatch_def internalError_def writeError_def writeJSON_def split: sum.splits option.splits)

text \<open>
  What an anonymous request can do: read the one object its path names, if that is public.  It changes no
  bytes, no bucket, and no row but that object's.
\<close>

lemma public_request_reads:
  assumes st: "storage_at rs (storage s)" and nm: "names_ok (wdb w)" and path: "bucketPathRe (rPath r) = Some name"
    and g: "grants rs s r name w a" "viaPublic a" and run: "router s t0 srv (r\<lparr>rAuth := Some a\<rparr>) w = (rsp, w')"
  shows "\<exists>key. rPath r = object_route name key \<and> object_public rs name key w \<and>
    stored_objects rs (wfs w') = stored_objects rs (wfs w) \<and> tblBuckets (wdb w') = tblBuckets (wdb w) \<and>
    (\<forall>b k. (b, k) \<noteq> (name, key) \<longrightarrow> sel_object b k (wdb w') = sel_object b k (wdb w)) \<and>
    (\<forall>t d. rsBody rsp = ServeContent t d \<longrightarrow> key_visible key \<longrightarrow> stored_objects rs (wfs w) name (key_comps key) = Some d)"
proof -
  obtain key where key: "rPath r = object_route name key" "rMethod r = ''GET'' \<or> rMethod r = ''HEAD''"
    "object_public rs name key w"
    using grants_public_route [OF g] by blast
  have n: "slash \<notin> set name" "name \<noteq> []" using path by (auto simp: bucketPathRe_Some)
  have b: "Name (aBucket a) = name" "aBucket a \<in> set (tblBuckets (wdb w))" using grants_bucket [OF g(1)] by auto
  then have bo: "bucket_ok name" using nm by (auto simp: names_ok_def)
  let ?r = "r\<lparr>rAuth := Some a, pvBucket := name, pvKey := key\<rparr>"
  have "dispatch [(''GET'', getObject s), (''HEAD'', getObject s), (''PUT'', putObject s), (''DELETE'', deleteObject s)] ?r w = (rsp, w')"
    using run buckets_prefix_router [of "r\<lparr>rAuth := Some a\<rparr>" s t0 srv w] bucketPathRe_prefix [OF path]
      route_object [of "r\<lparr>rAuth := Some a\<rparr>" name key s w] key(1) n by simp
  from dispatch_known [OF _ this, of "getObject s"] key(2)
  obtain res where res: "getObject s ?r w = (res, w')" "\<And>x. res = Inr x \<Longrightarrow> rsp = x"
    "\<And>e. res = Inl e \<Longrightarrow> \<exists>c m t. rsBody rsp = ErrorBody c m t"
    by auto
  have kp: "keeps P (getObject s ?r)" if "keeps P (OpenObject (storage s) name key)" for P
    by (rule keeps_getObject [of _ _ a]) (use that b in simp_all)
  have "stored_objects rs (wfs w') = stored_objects rs (wfs w)"
    by (rule keeps_stored_objects [OF kp [OF OpenObject_frame [OF st bo]] res(1)]) (auto simp: visible_def bucket_ok_def)
  moreover have "tblBuckets (wdb w') = tblBuckets (wdb w)"
    using keepsD [OF kp [OF keeps_buckets_storage(2), of "tblBuckets (wdb w)"], of w] res(1) by (simp add: buckets_are_def)
  moreover have "sel_object b k (wdb w') = sel_object b k (wdb w)" if "(b, k) \<noteq> (name, key)" for b k
    using keepsD [OF kp [OF OpenObject_other_rows [of name key b k "sel_object b k (wdb w)"]], of w] res(1) that
    by (auto simp: row_is_def)
  moreover have "stored_objects rs (wfs w) name (key_comps key) = Some d"
    if "rsBody rsp = ServeContent t d" "key_visible key" for t d
  proof (cases res)
    case (Inl e)
    then show ?thesis using res(3) that(1) by auto
  next
    case (Inr x)
    with res(1) have "getObject s ?r w = (Inr x, w')" by simp
    from getObject_body [OF this, of a] obtain d' obj where
      "OpenObject (storage s) name key w = (Inr (d', obj), w')" "rsBody x = ServeContent (LastModified obj) d'"
      using b by auto
    with that res(2) [OF Inr] open_refines(2) [OF st bo, of key w "Inr (d', obj)" w' d' obj] show ?thesis by simp
  qed
  ultimately show ?thesis using key by blast
qed

section \<open>Signed headers\<close>

text \<open>The header a client writes.\<close>

definition client_header :: "string \<Rightarrow> int64 \<Rightarrow> string \<Rightarrow> string" where
  "client_header ak ts sig =
     ''S3BENDER-HMAC-SHA256 AccessKey='' @ ak @ '', Timestamp='' @ FormatInt ts @ '', Signature='' @ sig"

lemma re_field_value:
  assumes "v \<noteq> []" "CHR '','' \<notin> set v"
  shows "re_field label (label @ v @ '', '' @ rest) = Some (v, dropWhile re_space rest)"
proof -
  have all: "\<forall>c\<in>set v. c \<noteq> CHR '',''" using assms(2) by auto
  have "takeWhile (\<lambda>c. c \<noteq> CHR '','') (v @ CHR '','' # CHR '' '' # rest) = v"
    "dropWhile (\<lambda>c. c \<noteq> CHR '','') (v @ CHR '','' # CHR '' '' # rest) = CHR '','' # CHR '' '' # rest"
    using all by (simp_all add: takeWhile_append_stop dropWhile_append_stop)
  moreover have "re_space (CHR '' '')" by (simp add: re_space_def)
  ultimately show ?thesis using assms(1) by (simp add: re_field_def Let_def)
qed

lemma is_hex_lower: "is_lower_hex c \<Longrightarrow> is_hex c"
  by (auto simp: is_lower_hex_def is_digit_def is_hex_def hex_value_def Let_def)

lemma authHeaderRe_client:
  assumes ak: "ak \<noteq> []" "CHR '','' \<notin> set ak"
  shows "authHeaderRe (TrimSpace (client_header ak ts (Sign k p))) =
    Some \<lparr>hmAccessKey = ak, hmTimestamp = FormatInt ts, hmSignature = Sign k p\<rparr>"
proof -
  let ?sig = "Sign k p"
  have hex: "list_all is_lower_hex ?sig" by (auto simp: list_all_iff intro: hmac_sig.sign_chars)
  then have "is_lower_hex (last ?sig)" by (simp add: list_all_iff)
  then have "solid (last (client_header ak ts ?sig))"
    by (auto simp: client_header_def solid_def is_lower_hex_def is_digit_def)
  then have trim: "TrimSpace (client_header ak ts ?sig) = client_header ak ts ?sig"
    by (intro TrimSpace_id) (simp_all add: client_header_def solid_def)
  have ts: "CHR '','' \<notin> set (FormatInt ts)"
    using dec64.sep_notin [where x = ts and c = "CHR '',''"] by (simp add: int_char_def is_digit_def)
  have sp: "re_space (CHR '' '')" "\<not> re_space (CHR ''A'')" "\<not> re_space (CHR ''T'')" "\<not> re_space (CHR ''S'')"
    by (simp_all add: re_space_def)
  have 1: "re_field ''AccessKey='' (''AccessKey='' @ ak @ '', '' @ ''Timestamp='' @ FormatInt ts @ '', Signature='' @ ?sig) =
      Some (ak, ''Timestamp='' @ FormatInt ts @ '', Signature='' @ ?sig)"
    by (subst re_field_value [OF ak]) (simp add: sp)
  have 2: "re_field ''Timestamp='' (''Timestamp='' @ FormatInt ts @ '', '' @ ''Signature='' @ ?sig) =
      Some (FormatInt ts, ''Signature='' @ ?sig)"
    by (subst re_field_value [OF FormatInt_nonempty ts]) (simp add: sp)
  have "list_all is_hex ?sig" using hex by (auto simp: list_all_iff intro: is_hex_lower)
  then show ?thesis
    unfolding trim using 1 2 by (simp add: client_header_def authHeaderRe_def sp)
qed

text \<open>The distance of two clocks, as \<open>verifyHeader\<close> computes it on 64-bit integers.\<close>

definition clock_skew :: "int64 \<Rightarrow> int64 \<Rightarrow> int64" where
  "clock_skew now ts = (if sint (now - ts) < 0 then - (now - ts) else now - ts)"

lemma sint_word_of_int64: "- (2 ^ 63) \<le> i \<Longrightarrow> i < 2 ^ 63 \<Longrightarrow> sint (word_of_int i :: int64) = i"
  by (simp add: signed_of_int signed_take_bit_int_eq_self)

lemma clock_skew_distance:
  assumes "\<bar>sint now - sint ts\<bar> < 2 ^ 63"
  shows "sint (clock_skew now ts) = \<bar>sint now - sint ts\<bar>"
proof -
  have d: "now - ts = word_of_int (sint now - sint ts)" "- (now - ts) = word_of_int (- (sint now - sint ts))"
    by simp_all
  have "sint (now - ts) = sint now - sint ts" unfolding d(1) using assms by (intro sint_word_of_int64) auto
  moreover have "sint (- (now - ts)) = - (sint now - sint ts)" unfolding d(2) using assms by (intro sint_word_of_int64) auto
  ultimately show ?thesis by (simp add: clock_skew_def)
qed

text \<open>
  Further apart the subtraction wraps around; at exactly \<open>2^63\<close> seconds the absolute value overflows as well,
  to a negative number.
\<close>

lemma clock_skew_far:
  assumes "2 ^ 63 \<le> \<bar>sint now - sint ts\<bar>"
  shows "sint (clock_skew now ts) = (if \<bar>sint now - sint ts\<bar> = 2 ^ 63 then - (2 ^ 63) else 2 ^ 64 - \<bar>sint now - sint ts\<bar>)"
proof -
  define d where "d = sint now - sint ts"
  have r: "- (2 ^ 64) < d" "d < 2 ^ 64" using sint64_bounds [of now] sint64_bounds [of ts] by (simp_all add: d_def)
  have w: "now - ts = word_of_int d" by (simp add: d_def)
  have wrap: "(word_of_int d :: int64) = word_of_int (d - 2 ^ 64)" "(word_of_int d :: int64) = word_of_int (d + 2 ^ 64)"
    by (simp_all add: word_of_int_eq_iff take_bit_eq_mod)
  have neg: "sint (- (word_of_int i) :: int64) = - i" if "- (2 ^ 63) < i" "i < 2 ^ 63" for i
    using sint_word_of_int64 [of "- i"] that by simp
  consider "d = 2 ^ 63" | "d = - (2 ^ 63)" | "2 ^ 63 < d" | "d < - (2 ^ 63)" using assms by (fold d_def) linarith
  then show ?thesis
  proof cases
    case 1
    then have "now - ts = 0x8000000000000000" unfolding w by simp
    then show ?thesis using 1 by (simp add: clock_skew_def flip: d_def)
  next
    case 2
    then have "now - ts = 0x8000000000000000" unfolding w by simp
    then show ?thesis using 2 by (simp add: clock_skew_def flip: d_def)
  next
    case 3
    then have "sint (now - ts) = d - 2 ^ 64" unfolding w wrap(1) using r 3 by (intro sint_word_of_int64) simp_all
    moreover have "sint (- (now - ts)) = - (d - 2 ^ 64)" unfolding w wrap(1) using r 3 by (intro neg) simp_all
    ultimately show ?thesis using 3 r by (simp add: clock_skew_def flip: d_def)
  next
    case 4
    then have "sint (now - ts) = d + 2 ^ 64" unfolding w wrap(2) using r 4 by (intro sint_word_of_int64) simp_all
    then show ?thesis using 4 r by (simp add: clock_skew_def flip: d_def)
  qed
qed

lemma header_request_granted:
  assumes hdr: "HeaderGet r ''Authorization'' = client_header (AccessKey b) ts (Sign secret (StringToSign (rMethod r) (rPath r) ts))"
    and q: "\<not> QueryHas (req_query r) ''AccessKey''"
    and b: "sel_bucket_by_key (AccessKey b) (wdb w) = Some b" "AccessKey b \<noteq> []" "CHR '','' \<notin> set (AccessKey b)"
      "DecryptSecret (crypto s) (EncryptedSecretKey b) = Inr secret"
  shows "grants rs s r (Name b) w \<lparr>aBucket = b, viaPublic = False, presignExpires = 0\<rparr> \<longleftrightarrow>
    sint (clock_skew (now_unix w) ts) \<le> sint (ClockSkewSeconds (cfg s))"
proof -
  have m: "req_match r = Some \<lparr>hmAccessKey = AccessKey b, hmTimestamp = FormatInt ts,
      hmSignature = Sign secret (StringToSign (rMethod r) (rPath r) ts)\<rparr>"
    unfolding hdr by (rule authHeaderRe_client [OF b(2,3)])
  have np: "\<not> presigned_form r" using q by (simp add: presigned_form_def)
  have c: "credential s r (Name b) w b secret" using b q m by (simp add: credential_def presented_key_def)
  show ?thesis
  proof
    assume "grants rs s r (Name b) w \<lparr>aBucket = b, viaPublic = False, presignExpires = 0\<rparr>"
    then show "sint (clock_skew (now_unix w) ts) \<le> sint (ClockSkewSeconds (cfg s))"
      by (rule grantsE) (use np m in \<open>auto simp: clock_skew_def ParseInt_FormatInt\<close>)
  next
    assume "sint (clock_skew (now_unix w) ts) \<le> sint (ClockSkewSeconds (cfg s))"
    then show "grants rs s r (Name b) w \<lparr>aBucket = b, viaPublic = False, presignExpires = 0\<rparr>"
      by (intro grants.by_header [OF np c m]) (simp_all add: clock_skew_def ParseInt_FormatInt)
  qed
qed

section \<open>Caching\<close>

lemma whole_seconds_bounds:
  assumes "- 1000000000 < d"
  shows "0 \<le> whole_seconds d" and "whole_seconds d * 1000000000 \<le> max 0 d"
proof -
  have "d < 0 \<Longrightarrow> (- d) div 1000000000 = 0" using assms by (intro div_pos_pos_trivial) auto
  moreover have "d div 1000000000 * 1000000000 \<le> d" using div_mult_mod_eq [of d 1000000000] pos_mod_sign [of 1000000000 d] by linarith
  ultimately show "0 \<le> whole_seconds d" "whole_seconds d * 1000000000 \<le> max 0 d"
    by (auto simp: whole_seconds_def pos_imp_zdiv_nonneg_iff)
qed

lemma time_until_near:
  assumes "0 \<le> sint e" "sint e < 2 ^ 62" "0 \<le> now" "now < 2 ^ 62"
  shows "time_until e now = min (2 ^ 63 - 1) (sint e * 1000000000 - now)"
proof -
  have "e + 62135596800 = word_of_int (sint e + 62135596800)" by simp
  moreover have "sint (word_of_int (sint e + 62135596800) :: int64) = sint e + 62135596800"
    using assms by (intro sint_word_of_int64) auto
  ultimately have "sint (e + 62135596800) = sint e + 62135596800" by simp
  then show ?thesis using assms by (auto simp: time_until_def Let_def)
qed

lemma cacheControl_presigned:
  assumes a: "\<not> viaPublic a" "0 < sint (presignExpires a)" "sint (presignExpires a) < 2 ^ 62"
    and now: "0 \<le> now" "now < 2 ^ 62" "now div 1000000000 \<le> sint (presignExpires a)"
  shows "\<exists>n. cacheControl a now = ''private, max-age='' @ format_int n \<and> 0 \<le> n \<and> n \<le> 300 \<and>
    n * 1000000000 \<le> max 0 (sint (presignExpires a) * 1000000000 - now)"
proof -
  let ?d = "sint (presignExpires a) * 1000000000 - now"
  have "now < (now div 1000000000 + 1) * 1000000000"
    using div_mult_mod_eq [of now 1000000000] pos_mod_bound [of 1000000000 now] by (simp add: algebra_simps)
  also have "\<dots> \<le> (sint (presignExpires a) + 1) * 1000000000" using now(3) by simp
  finally have d: "- 1000000000 < ?d" by (simp add: algebra_simps)
  have t: "time_until (presignExpires a) now = min (2 ^ 63 - 1) ?d"
    using a now by (intro time_until_near) auto
  let ?m = "min (time_until (presignExpires a) now) presignCacheCap"
  have m: "- 1000000000 < ?m" "?m \<le> 300000000000" "?m \<le> ?d" using d by (auto simp: t presignCacheCap_def)
  note w = whole_seconds_bounds [OF m(1)]
  have "whole_seconds ?m \<le> 300" using w(2) m(2) by linarith
  moreover have "whole_seconds ?m * 1000000000 \<le> max 0 ?d" using w(2) m(3) by linarith
  ultimately show ?thesis using w(1) a(1,2) by (auto simp: cacheControl_def)
qed

end
