(* ===== verification/StorageTidy.thy ===== *)
theory StorageTidy
  imports StorageRefine AdminLaws
begin

text \<open>
  What \<open>removeEmptyParents\<close> is for: a bucket directory without empty directories below it stays so, hence
  deleting the last object leaves the bucket empty and it can be deleted itself.  The loop's fuel is shown to
  be enough on the way.
\<close>

section \<open>Directories without empty directories\<close>

definition empty_dir :: "fsys \<Rightarrow> fpath \<Rightarrow> bool" where
  "empty_dir f q \<longleftrightarrow> fs_node f q = Some Directory \<and> fs_children f q = []"

text \<open>Below \<open>d\<close> only the directories in \<open>Q\<close> may be empty.\<close>

definition tidy_but :: "fpath set \<Rightarrow> fsys \<Rightarrow> fpath \<Rightarrow> bool" where
  "tidy_but Q f d \<longleftrightarrow> (\<forall>q. strict_prefix d q \<longrightarrow> empty_dir f q \<longrightarrow> q \<in> Q)"

abbreviation tidy :: "fsys \<Rightarrow> fpath \<Rightarrow> bool" where
  "tidy \<equiv> tidy_but {}"

lemma empty_dir_iff: "empty_dir f q \<longleftrightarrow> fs_node f q = Some Directory \<and> (\<forall>c. fs_node f (q @ [c]) = None)"
proof -
  have "fs_children f q = [] \<longleftrightarrow> (\<forall>p. p \<notin> set (fs_children f q))" by (metis all_not_in_conv set_empty)
  also have "\<dots> \<longleftrightarrow> (\<forall>c. fs_node f (q @ [c]) = None)"
    by (simp add: fs_children_set) (metis append_butlast_last_id butlast_snoc snoc_eq_iff_butlast)
  finally show ?thesis by (simp add: empty_dir_def)
qed

lemma empty_dir_cong:
  "fs_node g q = fs_node f q \<Longrightarrow> (\<And>c. fs_node g (q @ [c]) = fs_node f (q @ [c])) \<Longrightarrow> empty_dir g q = empty_dir f q"
  by (simp add: empty_dir_iff)

text \<open>Removing a node can only empty its parent.\<close>

lemma empty_dir_remove:
  assumes "fs_remove f p = Inr g" and "empty_dir g q"
  shows "empty_dir f q \<or> p \<noteq> [] \<and> q = butlast p"
proof (cases "p \<noteq> [] \<and> q = butlast p")
  case False
  have "p \<noteq> []" using assms(1) by (simp add: fs_remove_Inr)
  with False have "q @ [c] \<noteq> p" for c by (metis butlast_snoc)
  moreover have "q \<noteq> p" using assms by (auto simp: empty_dir_def fs_remove_node)
  ultimately show ?thesis using assms(2) by (simp add: empty_dir_iff fs_remove_node [OF assms(1)])
qed simp

lemma tidy_remove:
  assumes "tidy_but Q f d" and "fs_remove f p = Inr g"
  shows "tidy_but (insert (butlast p) (Q - {p})) g d"
  using assms(1) empty_dir_remove [OF assms(2)] fs_remove_node [OF assms(2), of p]
  by (auto simp: tidy_but_def empty_dir_def)

lemma tidy_remove_elsewhere:
  assumes "tidy f d" and "fs_remove f p = Inr g" and "\<not> prefix d p"
  shows "tidy g d"
proof -
  have "\<not> strict_prefix d (butlast p)"
    using assms(3) prefix_order.trans [OF _ prefixeq_butlast [of p], of d] by (auto simp: strict_prefix_def)
  with tidy_remove [OF assms(1,2)] show ?thesis by (auto simp: tidy_but_def)
qed

section \<open>The loop\<close>

text \<open>
  On the directories below a boundary, \<open>length ds\<close> turns are enough: more fuel gives the same result, and
  afterwards none of them is empty if only the innermost was.
\<close>

lemma remove_parents_tidies:
  assumes "proper (bs @ ds)" "bs \<noteq> []" "length ds \<le> n" "wfaults w = []" "fs_ok w" "\<not> is_File (fs_node (wfs w) (bs @ ds))"
    and "tidy_but {bs @ ds} (wfs w) bs"
  shows "\<exists>g. remove_parents n (abs_path (bs @ ds)) (abs_path bs) w = (Inr (), w\<lparr>wfs := g\<rparr>) \<and> fs_wf g \<and> tidy g bs \<and>
    (\<forall>q. is_File (fs_node g q) = is_File (fs_node (wfs w) q)) \<and> fs_node g bs = fs_node (wfs w) bs"
  using assms(1,3-)
proof (induction ds arbitrary: n w rule: rev_induct)
  case Nil
  have "\<not> HasPrefix (abs_path bs) (abs_path bs @ [slash])" by (auto simp: prefix_def)
  then have "remove_parents n (abs_path bs) (abs_path bs) w = (Inr (), w)" by (cases n) (simp_all add: ret_def)
  moreover have "tidy (wfs w) bs" using Nil by (auto simp: tidy_but_def)
  ultimately show ?case using Nil by (intro exI [of _ "wfs w"]) simp
next
  case (snoc d ds)
  then obtain m where n: "n = Suc m" by (cases n) auto
  let ?p = "bs @ ds @ [d]"
  have guard: "abs_path ?p \<noteq> abs_path bs" "HasPrefix (abs_path ?p) (abs_path bs @ [slash])"
    using snoc.prems(1) assms(2) abs_path_prefix_iff [of bs "ds @ [d]"] by (auto simp: abs_path_inject)
  have comps: "path_comps (abs_path ?p) = ?p" by (rule path_comps_abs [OF snoc.prems(1)])
  have dir: "Dir_of (abs_path ?p) = abs_path (bs @ ds)"
    using Dir_of_abs [of "bs @ ds" d] snoc.prems(1) by simp
  show ?case
  proof (cases "fs_remove (wfs w) ?p")
    case (Inl e)
    then have "\<not> empty_dir (wfs w) ?p"
      by (auto simp: fs_remove_def empty_dir_def)
    then have "tidy (wfs w) bs" using snoc.prems(6) by (auto simp: tidy_but_def)
    with Inl show ?thesis
      using snoc.prems(4) by (intro exI [of _ "wfs w"]) (simp add: n guard attempt_def os_Remove_quiet [OF snoc.prems(3)] comps ret_def)
  next
    case (Inr g)
    have node: "fs_node (wfs w) ?p = Some Directory"
      using Inr snoc.prems(5) by (cases "fs_node (wfs w) ?p" rule: option.exhaust; simp add: fs_remove_Inr)
        (metis fnode.exhaust is_File.simps(1))
    have parent: "fs_node (wfs w) (bs @ ds) = Some Directory"
      using fs_node_ancestor [OF snoc.prems(4) node, of "bs @ ds"] by (simp add: strict_prefix_def)
    have b: "fs_node g bs = fs_node (wfs w) bs" using fs_remove_node [OF Inr] by simp
    have same: "is_File (fs_node g q) = is_File (fs_node (wfs w) q)" for q
      using node by (simp add: fs_remove_node [OF Inr])
    have "tidy_but {bs @ ds} g bs"
      using tidy_remove [OF snoc.prems(6) Inr] by (simp add: butlast_append)
    then obtain h where h: "remove_parents m (abs_path (bs @ ds)) (abs_path bs) (w\<lparr>wfs := g\<rparr>) = (Inr (), w\<lparr>wfs := h\<rparr>)"
      "fs_wf h" "tidy h bs" "\<forall>q. is_File (fs_node h q) = is_File (fs_node g q)" "fs_node h bs = fs_node g bs"
      using snoc.IH [of m "w\<lparr>wfs := g\<rparr>"] snoc.prems n parent same fs_remove_wf [OF snoc.prems(4) Inr] by auto
    then show ?thesis
      using same b
      by (intro exI [of _ h]) (simp add: n guard attempt_def os_Remove_quiet [OF snoc.prems(3)] comps Inr dir)
  qed
qed

text \<open>The loop beside a bucket: what it visits is below its boundary.\<close>

lemma remove_parents_elsewhere:
  assumes "proper (bs @ ds)" "bs \<noteq> []" "wfaults w = []" "fs_ok w" "tidy (wfs w) d" "\<not> prefix d (bs @ ds)"
  shows "\<exists>g. remove_parents n (abs_path (bs @ ds)) (abs_path bs) w = (Inr (), w\<lparr>wfs := g\<rparr>) \<and> fs_wf g \<and> tidy g d \<and>
    (\<forall>q. prefix d q \<longrightarrow> fs_node g q = fs_node (wfs w) q)"
  using assms(1,3-)
proof (induction n arbitrary: ds w)
  case (Suc n)
  show ?case
  proof (cases "ds = []")
    case True
    have "\<not> HasPrefix (abs_path bs) (abs_path bs @ [slash])" by (auto simp: prefix_def)
    then show ?thesis using Suc.prems True by (intro exI [of _ "wfs w"]) (simp add: ret_def)
  next
    case False
    then obtain es e where ds: "ds = es @ [e]" using rev_exhaust by blast
    let ?p = "bs @ es @ [e]"
    have guard: "abs_path ?p \<noteq> abs_path bs" "HasPrefix (abs_path ?p) (abs_path bs @ [slash])"
      using Suc.prems(1) assms(2) abs_path_prefix_iff [of bs "es @ [e]"] by (auto simp: abs_path_inject ds)
    have comps: "path_comps (abs_path ?p) = ?p" using path_comps_abs [OF Suc.prems(1)] by (simp add: ds)
    have dir: "Dir_of (abs_path ?p) = abs_path (bs @ es)"
      using Dir_of_abs [of "bs @ es" e] Suc.prems(1) by (simp add: ds)
    have np: "\<not> prefix d (bs @ es)"
      using Suc.prems(5) prefix_order.trans [of d "bs @ es" ?p] by (auto simp: ds)
    show ?thesis
    proof (cases "fs_remove (wfs w) ?p")
      case (Inl e)
      then show ?thesis using Suc.prems
        by (intro exI [of _ "wfs w"]) (simp add: ds guard attempt_def os_Remove_quiet [OF Suc.prems(2)] comps ret_def)
    next
      case (Inr g)
      have "tidy g d" using tidy_remove_elsewhere [OF Suc.prems(4) Inr] Suc.prems(5) by (simp add: ds)
      moreover have "\<forall>q. prefix d q \<longrightarrow> fs_node g q = fs_node (wfs w) q"
        using fs_remove_node [OF Inr] Suc.prems(5) by (auto simp: ds)
      ultimately show ?thesis
        using Suc.IH [of es "w\<lparr>wfs := g\<rparr>"] Suc.prems np fs_remove_wf [OF Suc.prems(3) Inr]
        by (auto simp: ds guard attempt_def os_Remove_quiet [OF Suc.prems(2)] comps Inr dir)
    qed
  qed
qed (auto simp: ret_def intro!: exI [of _ "wfs w" for w])

section \<open>Deletions\<close>

lemma length_abs_path: "length cs \<le> length (abs_path cs)"
proof -
  have "length cs \<le> Suc (length (join_with [slash] cs))" for cs :: "string list"
    by (induction "[slash]" cs rule: join_with.induct) auto
  then show ?thesis by (simp add: abs_path_def)
qed

lemma removeIfExists_quiet:
  assumes "wfaults w = []" and "removeIfExists (abs_path p) w = (Inr u, w')" and "proper p"
  shows "(\<exists>g. fs_remove (wfs w) p = Inr g \<and> w' = w\<lparr>wfs := g\<rparr>) \<or> w' = w"
  using assms(2) by (auto simp: removeIfExists_def attempt_def os_Remove_quiet [OF assms(1)] assms(3) ret_def fail_def
      split: sum.splits if_splits)

lemma delete_tidy:
  assumes st: "storage_at rs s" "bucket_ok b" "key_ok k" and q: "wfaults w = []" "fs_ok w"
    and t: "tidy (wfs w) (rs @ [b])" and h: "DeleteObject s b k w = (Inr u, w')"
  shows "tidy (wfs w') (rs @ [b]) \<and> fs_ok w' \<and> wfaults w' = [] \<and> fs_node (wfs w') (rs @ [b]) = fs_node (wfs w) (rs @ [b])"
proof -
  note sc = st(1,2) key_ok_clean [OF st(3)]
  obtain ds c where cs: "key_comps k = ds @ [c]" using key_ok_comps [OF sc(3)] rev_exhaust by blast
  let ?bs = "rs @ [b]" and ?p = "rs @ b # key_comps k"
  let ?ms = "rs @ [''.meta'', b]" and ?m = "rs @ ''.meta'' # b # key_comps k"
  have p: "?p = (?bs @ ds) @ [c]" "?m = (?ms @ ds) @ [c]" by (simp_all add: cs)
  have pr: "proper ?p" "proper ?m" using obj_path_proper [OF sc] by simp_all
  have np: "\<not> prefix ?bs ?m" "\<not> prefix ?bs (?ms @ ds)" using bucket_okD(2) [OF st(2)] by auto
  obtain w1 w2 w3 w4 where 1: "removeIfExists (abs_path ?p) w = (Inr (), w1)"
    and 2: "removeEmptyParents (Dir_of (abs_path ?p)) (abs_path ?bs) w1 = (Inr (), w2)"
    and 3: "removeIfExists (abs_path ?m) w2 = (Inr (), w3)"
    and 4: "removeEmptyParents (Dir_of (abs_path ?m)) (abs_path ?ms) w3 = (Inr (), w4)"
    and 5: "DeleteObjectRow b k w4 = (Inr u, w')"
    using h unfolding DeleteObject_def resolve_ok [OF st] Let_def metaPath_ok [OF sc] bucketDir_at [OF st(1,2)] metaDir_at [OF st(1,2)]
    by (auto simp: lift_result_def elim!: andThen_InrE)
  have ok1: "fs_ok w1" using keepsD [OF keeps_fs_ok_parents(2) q(2)] 1 by (metis snd_conv)
  have "\<not> is_File (fs_node (wfs w1) (?bs @ ds))"
    using removeIfExists_Inr(2) [OF 1 q(2)] pr(1) p(1) by (simp add: no_file_to_def)
  moreover have "tidy_but {?bs @ ds} (wfs w1) ?bs \<and> wfaults w1 = [] \<and> fs_node (wfs w1) ?bs = fs_node (wfs w) ?bs"
    using removeIfExists_quiet [OF q(1) 1 pr(1)] t tidy_remove [OF t, of ?p] q(1) p(1) cs
    by (auto simp: tidy_but_def butlast_append fs_remove_node)
  ultimately obtain g where 6: "w2 = w1\<lparr>wfs := g\<rparr>" "fs_wf g" "tidy g ?bs" "fs_node g ?bs = fs_node (wfs w) ?bs"
    and f1: "wfaults w1 = []"
    using remove_parents_tidies [of ?bs ds "length (abs_path (?bs @ ds))" w1] ok1 2 pr(1) length_abs_path [of "?bs @ ds"]
      Dir_of_abs [of "?bs @ ds" c] p(1)
    by (auto simp: removeEmptyParents_def)
  have ok3: "fs_ok w3" using keepsD [OF keeps_fs_ok_parents(2), of w2] 3 6 by (metis snd_conv world.select_convs(1) world.surjective world.update_convs(1))
  have f2: "wfaults w2 = []" using f1 6(1) by simp
  have t3: "tidy (wfs w3) ?bs \<and> wfaults w3 = [] \<and> fs_node (wfs w3) ?bs = fs_node (wfs w) ?bs"
    using removeIfExists_quiet [OF f2 3 pr(2)] 6 f2 tidy_remove_elsewhere [OF 6(3) _ np(1)] bucket_okD(2) [OF st(2)]
    by (auto simp: fs_remove_node)
  obtain h where 7: "w4 = w3\<lparr>wfs := h\<rparr>" "fs_wf h" "tidy h ?bs" "fs_node h ?bs = fs_node (wfs w3) ?bs"
    using remove_parents_elsewhere [of ?ms ds w3 ?bs "length (abs_path (?ms @ ds))"] t3 ok3 np(2) 4 pr(2)
      Dir_of_abs [of "?ms @ ds" c] p(2)
    by (auto simp: removeEmptyParents_def)
  then show ?thesis using 5 t3 by (auto simp: DeleteObjectRow_def db_exec_quiet)
qed

section \<open>Uploads\<close>

text \<open>A new file with the directories on the way to it leaves no directory empty.\<close>

lemma written_tidy:
  assumes "tidy f d" and "written f p x t g" and "p \<noteq> []"
  shows "tidy g d"
proof -
  have node: "fs_node g q = (if q = p then Some (File x t) else if prefix q (butlast p) then Some Directory else fs_node f q)" for q
    using assms(2) by (simp add: written_def)
  have "\<not> empty_dir g q" if below: "strict_prefix d q" for q
  proof
    assume e: "empty_dir g q"
    show False
    proof (cases "prefix q (butlast p)")
      case True
      then obtain r where r: "butlast p = q @ r" by (auto simp: prefix_def)
      obtain z where z: "p = q @ r @ [z]" using r append_butlast_last_id [OF assms(3)] by (metis append_assoc)
      define c where "c = hd (r @ [z])"
      have "prefix (q @ [c]) p" unfolding z by (cases r) (simp_all add: c_def)
      then have "q @ [c] = p \<or> prefix (q @ [c]) (butlast p)"
        using append_butlast_last_id [OF assms(3)] by (metis prefix_snoc)
      then have "fs_node g (q @ [c]) \<noteq> None" using node by auto
      with e show False by (simp add: empty_dir_iff)
    next
      case False
      have "q \<noteq> p" using e node [of q] by (auto simp: empty_dir_def)
      then have "empty_dir f q" using e False by (simp add: empty_dir_iff node) (metis option.distinct(1))
      with assms(1) below show False by (simp add: tidy_but_def)
    qed
  qed
  then show ?thesis by (simp add: tidy_but_def)
qed

lemma upload_tidy:
  assumes st: "storage_at rs s" "bucket_ok b" "key_ok k" and q: "wfaults w = []" "fs_ok w"
    and ready: "put_ready rs (wfs w) b k rnds" and t: "tidy (wfs w) (rs @ [b'])"
    and h: "PutObject s rnds b k \<lparr>bData = d, bErr = None\<rparr> ct pub w = (res, w')"
  shows "tidy (wfs w') (rs @ [b'])"
proof -
  obtain g f where "w' = w\<lparr>wfs := f, wdb := ups_object (uploaded_row b k d ct pub (wnow w)) (wdb w)\<rparr>"
    "written (wfs w) (obj_path rs b k) d (wnow w) g" "written g (side_path rs b k) (uploaded_meta d ct pub) (wnow w) f"
    using PutObject_ok [OF st q ready, of d ct pub] h by (metis prod.inject)
  then show ?thesis using written_tidy [OF written_tidy [OF t]] by simp
qed

section \<open>The emptied bucket\<close>

text \<open>Without files and without empty directories there is nothing.\<close>

lemma tidy_no_files:
  assumes "tidy f d" and none: "\<And>q. strict_prefix d q \<Longrightarrow> \<not> is_File (fs_node f q)" and "strict_prefix d q"
  shows "fs_node f q = None"
proof (rule ccontr)
  assume q: "fs_node f q \<noteq> None"
  let ?N = "{p \<in> set (map fst f). strict_prefix d p \<and> fs_node f p \<noteq> None}"
  have mem: "p \<in> ?N" if "strict_prefix d p" "fs_node f p \<noteq> None" for p
    using that fs_keys_node [of p f] by (auto simp: image_iff) force
  have fin: "finite ?N" by simp
  moreover have "?N \<noteq> {}" using mem [OF assms(3) q] by blast
  ultimately have "Max (length ` ?N) \<in> length ` ?N" by (intro Max_in) simp_all
  then obtain p where p: "p \<in> ?N" and max: "length p = Max (length ` ?N)" by (metis (no_types, lifting) imageE)
  have top: "length p' \<le> length p" if "p' \<in> ?N" for p'
    unfolding max by (rule Max_ge) (use fin that in simp_all)
  have "fs_node f p = Some Directory" using p none [of p] by (cases "fs_node f p"; cases "the (fs_node f p)") auto
  then obtain c where c: "fs_node f (p @ [c]) \<noteq> None"
    using assms(1) p by (fastforce simp: tidy_but_def empty_dir_iff)
  have "strict_prefix d (p @ [c])" using p by (auto simp: strict_prefix_def)
  from top [OF mem [OF this c]] show False by simp
qed

lemma bucketDir_comps: "storage_at rs s \<Longrightarrow> bucket_ok b \<Longrightarrow> path_comps (bucketDir s b) = rs @ [b]"
  unfolding bucketDir_at by (rule path_comps_abs) (simp add: storage_at_def bucket_ok_def)

lemma IsBucketEmpty_quiet:
  assumes st: "storage_at rs s" "bucket_ok b" and "wfaults w = []" "fs_node (wfs w) (rs @ [b]) = Some Directory"
    and "fs_children (wfs w) (rs @ [b]) = []"
  shows "IsBucketEmpty s b w = (Inr True, w)"
proof -
  note p = bucketDir_comps [OF st]
  have "os_Readdirnames1 (bucketDir s b) w = (Inr [], w)"
    using assms(3-5) by (simp add: os_Readdirnames1_def os_query_def os_call_def next_fault_def p)
  then show ?thesis
    using assms(3,4) by (simp add: IsBucketEmpty_def attempt_def os_Stat_quiet p andThen_def ret_def)
qed

text \<open>Deleting an existing bucket whose directory is empty succeeds when nothing fails.\<close>

lemma deleteBucket_ok:
  assumes st: "storage_at rs (storage s)" "bucket_ok (pvName r)" and "wfaults w = []"
    and "fs_node (wfs w) (rs @ [pvName r]) = Some Directory" "fs_children (wfs w) (rs @ [pvName r]) = []"
    and "sel_bucket (pvName r) (wdb w) = Some x"
  shows "\<exists>w'. deleteBucket s r w = (Inr (writeHeader StatusNoContent), w')"
proof -
  note p = bucketDir_comps [OF st]
  have rm: "fs_remove (wfs w) (rs @ [pvName r]) = Inr (AList.delete (rs @ [pvName r]) (wfs w))"
    using assms(4,5) by (simp add: fs_remove_Inr)
  have db: "DeleteBucket (pvName r) w = (Inr (), w\<lparr>wdb := del_bucket (pvName r) (del_bucket_objects (pvName r) (wdb w))\<rparr>)"
    using assms(3) by (rule DeleteBucket_quiet)
  show ?thesis
    using assms(3,6)
    by (simp add: deleteBucket_def Let_def requireBucket_def andThen_def store_quiet ret_def IsBucketEmpty_quiet [OF st assms(3-5)]
        db RemoveBucketDirectory_def removeIfExists_def attempt_def os_Remove_quiet p rm)
qed

lemma last_object_freed:
  assumes st: "storage_at rs s" "bucket_ok b" "key_ok k" and q: "wfaults w = []" "fs_ok w"
    and t: "tidy (wfs w) (rs @ [b])" and h: "DeleteObject s b k w = (Inr u, w')"
    and only: "\<And>cs. cs \<noteq> [] \<Longrightarrow> cs \<noteq> key_comps k \<Longrightarrow> file_at (wfs w) (rs @ b # cs) = None"
  shows "fs_children (wfs w') (rs @ [b]) = []"
proof -
  note d = delete_tidy [OF st q t h]
  have "file_at (wfs w') (rs @ b # cs) = None" if "cs \<noteq> []" for cs
    using triple_case [OF DeleteObject_outcome [OF st, where q = "rs @ b # cs" and x = "file_at (wfs w) (rs @ b # cs)"] _ h]
      q(2) only [OF that] by (cases "cs = key_comps k") auto
  then have "\<not> is_File (fs_node (wfs w') q)" if below: "strict_prefix (rs @ [b]) q" for q
  proof -
    obtain z zs where "q = (rs @ [b]) @ z # zs" using strict_prefixE' [OF below] by blast
    then have "q = rs @ b # z # zs" by simp
    with \<open>\<And>cs. cs \<noteq> [] \<Longrightarrow> file_at (wfs w') (rs @ b # cs) = None\<close> show ?thesis by (simp add: file_at_None)
  qed
  then have none: "fs_node (wfs w') q = None" if "strict_prefix (rs @ [b]) q" for q
    using tidy_no_files [of "wfs w'" "rs @ [b]"] d that by blast
  show ?thesis
  proof (rule ccontr)
    assume "fs_children (wfs w') (rs @ [b]) \<noteq> []"
    then obtain q where "q \<in> set (fs_children (wfs w') (rs @ [b]))" by (meson list.set_sel(1))
    then have "q \<noteq> []" "butlast q = rs @ [b]" "fs_node (wfs w') q \<noteq> None" by (simp_all add: fs_children_set)
    moreover from this have "strict_prefix (rs @ [b]) q"
      using prefixeq_butlast [of q] by (cases q rule: rev_cases) (auto simp: strict_prefix_def)
    ultimately show False using none by simp
  qed
qed

end
