(* ===== verification/SignedRequests.thy ===== *)
theory SignedRequests
  imports AccessLaws StorageTidy Invariants
begin

text \<open>
  Whole requests: what the pipeline of \<open>server.go\<close> and \<open>auth.go\<close> does with a request for one object that a
  client has signed in a header, down to the call of the storage layer.
\<close>

section \<open>Signed requests\<close>

text \<open>A request that carries a header made with the secret of a bucket, at a time within the clock skew.\<close>

definition signed_request :: "Server \<Rightarrow> Bucket \<Rightarrow> world \<Rightarrow> request \<Rightarrow> bool" where
  "signed_request s b w r \<longleftrightarrow> (\<exists>ts secret.
     HeaderGet r ''Authorization'' = client_header (AccessKey b) ts (Sign secret (StringToSign (rMethod r) (rPath r) ts)) \<and>
     DecryptSecret (crypto s) (EncryptedSecretKey b) = Inr secret \<and> \<not> QueryHas (req_query r) ''AccessKey'' \<and>
     sint (clock_skew (now_unix w) ts) \<le> sint (ClockSkewSeconds (cfg s)))"

text \<open>A bucket of the tables with the name and the access key \<open>createBucket\<close> gives.\<close>

definition live_bucket :: "world \<Rightarrow> Bucket \<Rightarrow> bool" where
  "live_bucket w b \<longleftrightarrow> db_ok w \<and> b \<in> set (tblBuckets (wdb w)) \<and> bucket_ok (Name b) \<and>
     AccessKey b \<noteq> [] \<and> CHR '','' \<notin> set (AccessKey b)"

lemma live_bucketD:
  assumes "live_bucket w b"
  shows "sel_bucket (Name b) (wdb w) = Some b" "sel_bucket_by_key (AccessKey b) (wdb w) = Some b"
    "bucket_ok (Name b)" "slash \<notin> set (Name b)" "Name b \<noteq> []"
  using assms by (auto simp: live_bucket_def sel_bucket_Some sel_bucket_by_key_Some bucket_ok_def proper_comp_def)

lemma signed_checked:
  assumes "signed_request s b w r" "live_bucket w b"
  shows "wfaults w = [] \<Longrightarrow> lookup_key (presented_key (req_query r) (req_match r)) w = (Inr (Some b), w)"
    and "check_credentials s nxt (req_query r) (req_match r) b r w =
      nxt (r\<lparr>rAuth := Some \<lparr>aBucket = b, viaPublic = False, presignExpires = 0\<rparr>\<rparr>) w"
proof -
  obtain ts secret where hdr: "HeaderGet r ''Authorization'' = client_header (AccessKey b) ts (Sign secret (StringToSign (rMethod r) (rPath r) ts))"
    and c: "DecryptSecret (crypto s) (EncryptedSecretKey b) = Inr secret" "\<not> QueryHas (req_query r) ''AccessKey''"
    and skew: "sint (clock_skew (now_unix w) ts) \<le> sint (ClockSkewSeconds (cfg s))"
    using assms(1) by (auto simp: signed_request_def)
  have ak: "AccessKey b \<noteq> []" "CHR '','' \<notin> set (AccessKey b)" using assms(2) by (simp_all add: live_bucket_def)
  have m: "req_match r = Some \<lparr>hmAccessKey = AccessKey b, hmTimestamp = FormatInt ts,
      hmSignature = Sign secret (StringToSign (rMethod r) (rPath r) ts)\<rparr>"
    unfolding hdr by (rule authHeaderRe_client [OF ak])
  show "lookup_key (presented_key (req_query r) (req_match r)) w = (Inr (Some b), w)" if "wfaults w = []"
    using c m ak live_bucketD [OF assms(2)] that by (simp add: lookup_key_def presented_key_def world_simps)
  show "check_credentials s nxt (req_query r) (req_match r) b r w =
      nxt (r\<lparr>rAuth := Some \<lparr>aBucket = b, viaPublic = False, presignExpires = 0\<rparr>\<rparr>) w"
    using c m skew
    by (simp add: check_credentials_def check_signature_def verifyHeader_def ParseInt_FormatInt Let_def
        clock_skew_def SignatureMatches_def constant_time_compare_iff [simplified])
qed

abbreviation object_request :: "request \<Rightarrow> Bucket \<Rightarrow> string \<Rightarrow> bool \<Rightarrow> request" where
  "object_request r b k pub \<equiv>
     r\<lparr>rAuth := Some \<lparr>aBucket = b, viaPublic = pub, presignExpires = 0\<rparr>, pvBucket := Name b, pvKey := k\<rparr>"

lemma Handler_signed:
  assumes st: "storage_at rs (storage s)" and b: "live_bucket w b" and q: "wfaults w = []"
    and p: "rPath r = object_route (Name b) k" "k \<noteq> []" "newline \<notin> set k" and sg: "signed_request s b w r"
  shows "Handler s t0 fe r w =
    dispatch [(''GET'', getObject s), (''HEAD'', getObject s), (''PUT'', putObject s), (''DELETE'', deleteObject s)]
      (object_request r b k (rMethod r \<in> {''GET'', ''HEAD''} \<and> object_public rs (Name b) k w)) w"
proof -
  let ?r = "r\<lparr>rAuth := None\<rparr>"
  note b' = live_bucketD [OF b]
  have path: "objectPathRe (rPath r) = Some (Name b, k)" using p b' by (simp add: objectPathRe_route)
  then have bp: "bucketPathRe (rPath r) = Some (Name b)" by (rule objectPathRe_bucketPathRe)
  have "signed_request s b w ?r" using sg by (simp add: signed_request_def HeaderGet_def)
  note ck = signed_checked(1) [OF this b q] signed_checked(2) [OF this b]
  have byp: "public_bypass s ?r (Name b) w = ((if rMethod r \<in> {''GET'', ''HEAD''} \<and> object_public rs (Name b) k w then Some b else None), w)"
    using path b'(1) IsPublic_quiet [OF st b'(3) q, of k] q
    by (auto simp: public_bypass_def object_public_def world_simps split: option.splits)
  have "bucketAuth s nxt ?r w = nxt (r\<lparr>rAuth := Some \<lparr>aBucket = b,
      viaPublic = (rMethod r \<in> {''GET'', ''HEAD''} \<and> object_public rs (Name b) k w), presignExpires = 0\<rparr>\<rparr>) w" for nxt
    using bp byp ck by (auto simp: bucketAuth_def Let_def)
  moreover have "HasPrefix (rPath r) ''/buckets/''" by (rule bucketPathRe_prefix [OF bp])
  ultimately show ?thesis
    using p(1) b' by (simp add: Handler_def adminAuth_def buckets_not_admin buckets_prefix_router route_object)
qed

text \<open>When calls may fail, a signed upload reaches its handler, or the lookup of the key has failed.\<close>

lemma signed_put_runs:
  assumes b: "live_bucket w b" and p: "rMethod r = ''PUT''" "rPath r = object_route (Name b) k" "k \<noteq> []" "newline \<notin> set k"
    and sg: "signed_request s b w r"
  shows "\<exists>w0. same_state w w0 \<and> (Handler s t0 fe r w = internalError w0 \<or>
    Handler s t0 fe r w =
      dispatch [(''GET'', getObject s), (''HEAD'', getObject s), (''PUT'', putObject s), (''DELETE'', deleteObject s)]
        (object_request r b k False) w0)"
proof -
  let ?r = "r\<lparr>rAuth := None\<rparr>"
  note b' = live_bucketD [OF b]
  have path: "objectPathRe (rPath r) = Some (Name b, k)" using p b' by (simp add: objectPathRe_route)
  then have bp: "bucketPathRe (rPath r) = Some (Name b)" by (rule objectPathRe_bucketPathRe)
  have byp: "public_bypass s ?r (Name b) w = (None, w)" using p(1) by (simp add: public_bypass_def)
  obtain q w0 where look: "lookup_key (presented_key (req_query ?r) (req_match ?r)) w = (q, w0)" by force
  have sg0: "signed_request s b (v\<lparr>wfaults := []\<rparr>) ?r" "live_bucket (v\<lparr>wfaults := []\<rparr>) b" if "same_state w v" for v
    using sg b that by (simp_all add: signed_request_def HeaderGet_def now_unix_def live_bucket_def)
  have quiet: "lookup_key (presented_key (req_query ?r) (req_match ?r)) (w\<lparr>wfaults := []\<rparr>) = (Inr (Some b), w\<lparr>wfaults := []\<rparr>)"
    using signed_checked(1) [OF sg0] by simp
  have same: "same_state w w0 \<and> (q = Inr (Some b) \<or> (\<exists>e. q = Inl e))"
    using look quiet by (auto simp: lookup_key_def ret_def store_quiet dest!: BucketByAccessKey_same split: if_splits)
  have chk: "check_credentials s nxt (req_query ?r) (req_match ?r) b ?r w0 =
      nxt (r\<lparr>rAuth := Some \<lparr>aBucket = b, viaPublic = False, presignExpires = 0\<rparr>\<rparr>) w0" for nxt
    using signed_checked(2) [of s b w0 ?r] sg b same by (simp add: signed_request_def HeaderGet_def now_unix_def live_bucket_def)
  have "bucketAuth s nxt ?r w = (case q of Inl e \<Rightarrow> internalError w0
      | Inr x \<Rightarrow> nxt (r\<lparr>rAuth := Some \<lparr>aBucket = b, viaPublic = False, presignExpires = 0\<rparr>\<rparr>) w0)" for nxt
    using bp byp look same chk by (auto simp: bucketAuth_def Let_def)
  moreover have "HasPrefix (rPath r) ''/buckets/''" by (rule bucketPathRe_prefix [OF bp])
  ultimately show ?thesis using same p(2) b'
    by (intro exI [of _ w0]) (auto simp: Handler_def adminAuth_def buckets_not_admin buckets_prefix_router route_object split: sum.splits)
qed

text \<open>A request that follows a presigned URL.\<close>

lemma Handler_presigned:
  assumes st: "storage_at rs (storage s)" and b: "live_bucket w b" and q: "wfaults w = []"
    and f: "follows_url base (signed_url base b secret mth key e) r" "rMethod r = mth" "mth \<in> {''GET'', ''PUT''}"
    and c: "DecryptSecret (crypto s) (EncryptedSecretKey b) = Inr secret" and k: "key \<noteq> []" "newline \<notin> set key"
  defines "pub \<equiv> mth = ''GET'' \<and> object_public rs (Name b) key w"
  shows "Handler s t0 fe r w =
    (if pub \<or> sint (now_unix w) \<le> sint e
     then dispatch [(''GET'', getObject s), (''HEAD'', getObject s), (''PUT'', putObject s), (''DELETE'', deleteObject s)]
       (r\<lparr>rAuth := Some \<lparr>aBucket = b, viaPublic = pub, presignExpires = (if pub then 0 else e)\<rparr>, pvBucket := Name b, pvKey := key\<rparr>) w
     else writeError StatusForbidden ''SignatureMismatch'' ''Request signature is invalid, expired, or malformed'' w)"
proof -
  let ?r = "r\<lparr>rAuth := None\<rparr>"
  note b' = live_bucketD [OF b]
  have ak: "AccessKey b \<noteq> []" using b by (simp add: live_bucket_def)
  have p: "rPath r = object_route (Name b) key" by (rule follows_signed_url(1) [OF f(1)])
  then have path: "objectPathRe (rPath r) = Some (Name b, key)" using k b' by (simp add: objectPathRe_route)
  then have bp: "bucketPathRe (rPath r) = Some (Name b)" by (rule objectPathRe_bucketPathRe)
  have byp: "public_bypass s ?r (Name b) w = ((if pub then Some b else None), w)"
    using path b'(1) IsPublic_quiet [OF st b'(3) q, of key] q f(2,3)
    by (auto simp: public_bypass_def object_public_def pub_def world_simps split: option.splits)
  note sq = signed_url_query [OF f(1)]
  have look: "lookup_key (presented_key (req_query ?r) (req_match ?r)) w = (Inr (Some b), w)"
    using sq(2) ak b'(2) q by (simp add: lookup_key_def world_simps HeaderGet_def)
  have chk: "check_credentials s nxt (req_query ?r) (req_match ?r) b ?r w =
      (if sint (now_unix w) \<le> sint e then nxt (r\<lparr>rAuth := Some \<lparr>aBucket = b, viaPublic = False, presignExpires = e\<rparr>\<rparr>) w
       else writeError StatusForbidden ''SignatureMismatch'' ''Request signature is invalid, expired, or malformed'' w)" for nxt
    using sq(1,3,4) f(2,3) c
    by (auto simp: check_credentials_def check_signature_def verifyPresigned_def presigned_form_def ParseInt_FormatInt
        SignatureMatches_def constant_time_compare_iff [simplified] not_less)
  have "bucketAuth s nxt ?r w = (if pub then nxt (r\<lparr>rAuth := Some \<lparr>aBucket = b, viaPublic = True, presignExpires = 0\<rparr>\<rparr>) w
      else check_credentials s nxt (req_query ?r) (req_match ?r) b ?r w)" for nxt
    using bp byp look by (auto simp: bucketAuth_def Let_def)
  moreover have "HasPrefix (rPath r) ''/buckets/''" by (rule bucketPathRe_prefix [OF bp])
  ultimately show ?thesis
    using p b' chk by (auto simp: Handler_def adminAuth_def buckets_not_admin buckets_prefix_router route_object)
qed

text \<open>The regular expressions do not match across a newline, so a URL to such a key has no identity.\<close>

lemma Handler_newline:
  assumes p: "rPath r = object_route n key" "slash \<notin> set n" "n \<noteq> []" "newline \<in> set key"
    and m: "rMethod r \<in> {''GET'', ''PUT''}"
  shows "\<exists>rsp. Handler s t0 fe r w = (rsp, w) \<and> rsStatus rsp = 401"
proof -
  have all: "\<forall>c\<in>set n. c \<noteq> slash" using p(2) by auto
  have "rPath r = ''/buckets/'' @ n @ slash # ''objects/'' @ key" by (simp add: p(1) object_route_def slash_def)
  then have "bucketPathRe (rPath r) = None"
    using p(3,4) all by (simp add: bucketPathRe_def Let_def takeWhile_append_stop dropWhile_append_stop)
  moreover have "HasPrefix (rPath r) ''/buckets/''" by (simp add: p(1) object_route_def)
  ultimately have "Handler s t0 fe r w =
      dispatch [(''GET'', getObject s), (''HEAD'', getObject s), (''PUT'', putObject s), (''DELETE'', deleteObject s)]
        (r\<lparr>rAuth := None, pvBucket := n, pvKey := key\<rparr>) w"
    using p by (simp add: Handler_def adminAuth_def buckets_not_admin bucketAuth_def buckets_prefix_router route_object)
  then show ?thesis using m
    by (auto simp: dispatch_def getObject_def putObject_def authedBucket_def andThen_lift fail_def writeError_def writeJSON_def status_defs)
qed

section \<open>The object routes\<close>

lemma getObject_run:
  assumes "OpenObject (storage s) (Name b) k w = (Inr (d, obj), w)"
  shows "getObject s (object_request r b k pub) w =
    (Inr \<lparr>rsStatus = StatusOK,
      rsHeader = [(''Content-Type'', ContentType obj), (''ETag'', dquote (ETag obj)),
        (''X-S3bender-Public'', FormatBool (Public obj)),
        (''Cache-Control'', if pub then ''public, no-cache'' else ''private, no-cache'')],
      rsBody = ServeContent (LastModified obj) d\<rparr>, w)"
  using assms by (simp add: getObject_def authedBucket_def andThen_lift andThen_def ret_def cacheControl_def)

lemma putObject_run:
  assumes "PutObject (storage s) (rndTemps (rEntropy r)) (Name b) k (rBody r) (HeaderGet r ''Content-Type'')
      (EqualFold (HeaderGet r ''X-S3bender-Public'') ''true'') w = (Inr etag, w')"
  shows "putObject s (object_request r b k pub) w = (Inr (setHeader ''ETag'' (dquote etag) (writeHeader StatusOK)), w')"
  using assms by (simp add: putObject_def authedBucket_def andThen_lift andThen_def ret_def Let_def HeaderGet_def)

text \<open>What a reader of an object is sent: the bytes, and what the last upload and visibility change recorded.\<close>

definition served :: "string \<Rightarrow> string option \<Rightarrow> bool \<Rightarrow> int \<Rightarrow> response" where
  "served d ct pub t =
     \<lparr>rsStatus = StatusOK,
      rsHeader = [(''Content-Type'', case ct of Some c \<Rightarrow> c | None \<Rightarrow> defaultContentType), (''ETag'', dquote (etag_of d)),
        (''X-S3bender-Public'', FormatBool pub), (''Cache-Control'', if pub then ''public, no-cache'' else ''private, no-cache'')],
      rsBody = ServeContent (db_time t) d\<rparr>"

lemma put_then_get:
  assumes st: "storage_at rs (storage s)" and q: "wfaults w = []" "fs_ok w" and b: "live_bucket w b"
    and k: "key_ok k" "newline \<notin> set k"
    and put: "rMethod p = ''PUT''" "rPath p = object_route (Name b) k" "rBody p = \<lparr>bData = d, bErr = None\<rparr>"
      "put_ready rs (wfs w) (Name b) k (rndTemps (rEntropy p))" "signed_request s b w p"
    and get: "rMethod g \<in> {''GET'', ''HEAD''}" "rPath g = object_route (Name b) k" "signed_request s b (w\<lparr>wnow := t\<rparr>) g"
  defines "pub \<equiv> EqualFold (HeaderGet p ''X-S3bender-Public'') ''true''"
  obtains w1 where
    "Handler s t0 fe p w = (setHeader ''ETag'' (dquote (etag_of d)) (writeHeader StatusOK), w1)"
    "Handler s t0 fe' g (w1\<lparr>wnow := t\<rparr>) =
      (served d (sanitizeContentType (HeaderGet p ''Content-Type'')) pub (wnow w), w1\<lparr>wnow := t\<rparr>)"
    "live_bucket w1 b" "wfaults w1 = []" "wnow w1 = wnow w"
proof -
  let ?ct = "HeaderGet p ''Content-Type''"
  note b' = live_bucketD [OF b]
  have kn: "k \<noteq> []" using k(1) by (auto simp: key_ok_def)
  let ?row = "uploaded_row (Name b) k d ?ct pub (wnow w)"
  obtain f h where run: "PutObject (storage s) (rndTemps (rEntropy p)) (Name b) k (rBody p) ?ct pub w =
       (Inr (etag_of d), w\<lparr>wfs := h, wdb := ups_object ?row (wdb w)\<rparr>)"
    and wr: "written (wfs w) (obj_path rs (Name b) k) d (wnow w) f"
      "written f (side_path rs (Name b) k) (uploaded_meta d ?ct pub) (wnow w) h"
    unfolding put(3) by (rule PutObject_ok [OF st b'(3) k(1) q put(4)])
  let ?w1 = "w\<lparr>wfs := h, wdb := ups_object ?row (wdb w)\<rparr>" let ?w2 = "?w1\<lparr>wnow := t\<rparr>"
  have "Handler s t0 fe p w = (setHeader ''ETag'' (dquote (etag_of d)) (writeHeader StatusOK), ?w1)"
    using Handler_signed [OF st b q(1) put(2) kn k(2) put(5), of t0 fe] put(1)
      putObject_run [OF run [unfolded pub_def], where pub = False] by (simp add: dispatch_def pub_def)
  moreover have "Handler s t0 fe' g ?w2 = (served d (sanitizeContentType ?ct) pub (wnow w), ?w2)"
  proof -
    have b2: "live_bucket ?w2 b" using b by (simp add: live_bucket_def ups_object_wf other_table)
    have sg: "signed_request s b ?w2 g" using get(3) by (simp add: signed_request_def now_unix_def)
    have n: "fs_node (wfs ?w2) (obj_path rs (Name b) k) = Some (File d (wnow w))"
      using uploaded_node [OF b'(3) k(1) wr] by simp
    have row: "sel_object (Name b) k (wdb ?w2) = Some (stored_row ?row)"
      by (simp add: sel_object_ups uploaded_row_def)
    have "OpenObject (storage s) (Name b) k ?w2 = (Inr (d, summaryOf (stored_row ?row)), ?w2)"
      by (rule OpenObject_indexed [OF st b'(3) k(1) _ n row, of "etag_of d"]) (simp_all add: uploaded_row_def q)
    note get_run = getObject_run [OF this, where r = g and pub = pub]
    have "object_public rs (Name b) k ?w2 = pub" using row k(1) by (simp add: object_public_def uploaded_row_def)
    then show ?thesis
      using Handler_signed [OF st b2 _ get(2) kn k(2) sg, of t0 fe'] get(1) get_run q
      by (auto simp: dispatch_def served_def summaryOf_def uploaded_row_def)
  qed
  moreover have "live_bucket ?w1 b" using b by (simp add: live_bucket_def ups_object_wf other_table)
  moreover have "wfaults ?w1 = []" "wnow ?w1 = wnow w" using q by simp_all
  ultimately show ?thesis by (rule that)
qed

lemma getObject_error:
  assumes "OpenObject (storage s) (Name b) k w = (Inl e, w)"
  shows "getObject s (object_request r b k pub) w = (Inl e, w)"
  using assms by (simp add: getObject_def authedBucket_def andThen_lift andThen_def)

lemma deleteObject_run:
  "deleteObject s (object_request r b k pub) w = (case DeleteObject (storage s) (Name b) k w of
     (Inr u, w') \<Rightarrow> (Inr (writeHeader StatusNoContent), w') | (Inl e, w') \<Rightarrow> (Inl e, w'))"
  by (simp add: deleteObject_def authedBucket_def andThen_lift andThen_def ret_def split: prod.splits sum.splits)

text \<open>Where an object was removed nothing is left that makes opening it fail otherwise than with \<open>NoSuchKey\<close>.\<close>

lemma deleted_missing:
  assumes st: "storage_at rs s" "bucket_ok b" "key_ok k" and w: "fs_ok w" "fs_node (wfs w) (obj_path rs b k) = Some (File d m)"
    and run: "DeleteObject s b k w = (Inr (), w')"
  shows "fs_node (wfs w') (obj_path rs b k) = Some Directory \<or>
    fs_node (wfs w') (obj_path rs b k) = None \<and> \<not> file_above (wfs w') (obj_path rs b k)"
proof -
  let ?p = "obj_path rs b k"
  have del: "fs_ok w'" "file_at (wfs w') ?p = None" "file_at (wfs w') q = file_at (wfs w) q \<or> file_at (wfs w') q = None" for q
    using triple_case [OF DeleteObject_outcome [OF st, where q = q and x = "file_at (wfs w) q"] _ run] w(1) by auto
  have "\<not> is_File (fs_node (wfs w') q)" if "prefix q ?p" for q
  proof
    assume f: "is_File (fs_node (wfs w') q)"
    then have "q \<noteq> ?p" using del(2) by (auto simp: file_at_None)
    moreover have "is_File (fs_node (wfs w) q)" using f del(3) [of q] by (auto simp: is_File_iff file_at_def split: option.splits fnode.splits)
    moreover have "fs_node (wfs w) q = Some Directory"
      using fs_node_ancestor [OF w(1) w(2)] that \<open>q \<noteq> ?p\<close> by (auto simp: strict_prefix_def)
    ultimately show False by simp
  qed
  then show ?thesis using del(1,2) file_above_iff [OF del(1)]
    by (cases "fs_node (wfs w') ?p") (auto simp: file_at_None is_File_iff, metis fnode.exhaust)
qed

lemma delete_then_get:
  assumes st: "storage_at rs (storage s)" and q: "wfaults w = []" "server_inv w" and b: "live_bucket w b"
    and k: "key_ok k" "newline \<notin> set k" and stored: "fs_node (wfs w) (obj_path rs (Name b) k) = Some (File d m)"
    and del: "rMethod x = ''DELETE''" "rPath x = object_route (Name b) k" "signed_request s b w x"
      "Handler s t0 fe x w = (rsp, w1)" "rsBody rsp = Empty"
    and get: "rMethod g \<in> {''GET'', ''HEAD''}" "rPath g = object_route (Name b) k" "signed_request s b (w\<lparr>wnow := t\<rparr>) g"
  defines "w2 \<equiv> w1\<lparr>wnow := t, wfaults := []\<rparr>"
  shows "rsp = writeHeader StatusNoContent" and "\<exists>msg. Handler s t0 fe' g w2 =
    (writeJSON StatusNotFound (ErrorBody ''NoSuchKey'' msg t), w2)"
proof -
  note b' = live_bucketD [OF b]
  have kn: "k \<noteq> []" using k(1) by (auto simp: key_ok_def)
  have run: "DeleteObject (storage s) (Name b) k w = (Inr (), w1) \<and> rsp = writeHeader StatusNoContent"
    using Handler_signed [OF st b q(1) del(2) kn k(2) del(3), of t0 fe] del(1,4,5)
    by (auto simp: dispatch_def deleteObject_run writeError_def writeJSON_def internalError_def split: sum.splits prod.splits option.splits)
  then show "rsp = writeHeader StatusNoContent" by simp
  have inv: "server_inv w1" using keepsD [OF keeps_inv_storage(4) q(2)] run by (metis snd_conv)
  have "tblBuckets (wdb w1) = tblBuckets (wdb w)"
    using keepsD [OF keeps_buckets_storage(4) [of "tblBuckets (wdb w)"], of w "storage s" "Name b" k] run
    by (simp add: buckets_are_def)
  then have b2: "live_bucket w2 b" using b inv by (simp add: live_bucket_def w2_def server_inv_def)
  have sg: "signed_request s b w2 g" using get(3) by (simp add: signed_request_def now_unix_def w2_def)
  have "OpenObject (storage s) (Name b) k w2 = (Inl (noSuchKey (Name b) k), w2)"
    using deleted_missing [OF st b'(3) k(1) _ stored] run q(2)
    by (intro OpenObject_missing [OF st b'(3) k(1)]) (auto simp: w2_def server_inv_def)
  from getObject_error [OF this] show "\<exists>msg. Handler s t0 fe' g w2 = (writeJSON StatusNotFound (ErrorBody ''NoSuchKey'' msg t), w2)"
    using Handler_signed [OF st b2 _ get(2) kn k(2) sg, of t0 fe'] get(1)
    by (auto simp: dispatch_def noSuchKey_def notFound_def writeError_def w2_def)
qed

end
