(* ===== verification/ServerExamples.thy ===== *)
theory ServerExamples
  imports Examples SignedRequests
begin

text \<open>A configured server over the example state, and requests to it.\<close>

definition ex_config :: Config where
  "ex_config =
     \<lparr>APIPort = 9000, FrontendPort = 3000, StorageRoot = ''/data'', DBPath = ''/data/s3bender.db'',
      AdminAPIKey = ''admin-key'', MasterKey = [], PublicBaseURL = ''https://s3.example'', ClockSkewSeconds = 300,
      MaxPresignExpirySeconds = 604800\<rparr>"

definition ex_server :: Server where
  "ex_server = \<lparr>cfg = ex_config, storage = ex_storage, crypto = ex_crypto, console = (\<lambda>_. None)\<rparr>"

definition ex_request :: "string \<Rightarrow> string \<Rightarrow> request" where
  "ex_request mth path =
     \<lparr>rMethod = mth, rPath = path, rRawQuery = [], rHeader = [], rBody = \<lparr>bData = [], bErr = None\<rparr>,
      rHost = ''localhost'', rTLS = False, rEntropy = \<lparr>rndAccess = ''r'', rndSecret = ''s'', rndNonce = ''n'', rndTemps = [''1'']\<rparr>,
      rAuth = None, pvName = [], pvBucket = [], pvKey = []\<rparr>"

lemma ex_server_simps [simp]:
  "storage ex_server = ex_storage" "crypto ex_server = ex_crypto" "cfg ex_server = ex_config"
  "AdminAPIKey ex_config = ''admin-key''" "ClockSkewSeconds ex_config = 300" "MaxPresignExpirySeconds ex_config = 604800"
  "PublicBaseURL ex_config = ''https://s3.example''"
  by (simp_all add: ex_server_def ex_config_def)

lemma ex_request_simps [simp]:
  "rMethod (ex_request m p) = m" "rPath (ex_request m p) = p" "rRawQuery (ex_request m p) = []" "rHeader (ex_request m p) = []"
  "rAuth (ex_request m p) = None" "pvName (ex_request m p) = []"
  by (simp_all add: ex_request_def)

lemma ex_names_ok: "names_ok ex_db"
  using ex_bucket_ok by (simp add: names_ok_def ex_db_def)

lemma ex_inv: "server_inv ex_world"
  by (simp add: server_inv_def ex_fs_wf ex_db_wf ex_names_ok)

lemma ex_now_unix [simp]: "now_unix ex_world = 1"
  by (simp add: now_unix_def)

text \<open>The private object of the example and the request that asks for it without credentials.\<close>

lemma ex_private: "\<not> object_public [''data''] ''photos'' ''a/x.txt'' ex_world"
  by (simp add: object_public_def ex_row_def)

lemma ex_path: "bucketPathRe ''/buckets/photos/objects/a/x.txt'' = Some ''photos''"
  "objectPathRe ''/buckets/photos/objects/a/x.txt'' = Some (''photos'', ''a/x.txt'')"
  by code_simp+

lemma object_route_inject: "object_route n k = object_route n k' \<longleftrightarrow> k = k'"
  by (simp add: object_route_def)

lemma ex_no_credentials: "rRawQuery r = [] \<Longrightarrow> rHeader r = [] \<Longrightarrow> presented_key (req_query r) (req_match r) = []"
  by (simp add: presented_key_def ParseQuery_def parse_pair_def List.map_filter_def QueryHas_def HeaderGet_def authHeaderRe_def)

lemma ex_not_granted:
  assumes "rPath r = ''/buckets/photos/objects/a/x.txt''" "rRawQuery r = []" "rHeader r = []"
  shows "\<not> grants [''data''] ex_server r ''photos'' ex_world a"
proof
  assume "grants [''data''] ex_server r ''photos'' ex_world a"
  then show False
  proof cases
    case (by_public key b)
    have "rPath r = object_route ''photos'' ''a/x.txt''" using assms(1) by (simp add: object_route_def)
    with by_public show False using ex_private by (simp add: object_route_inject)
  qed (use ex_no_credentials [OF assms(2,3)] in \<open>simp_all add: credential_def\<close>)
qed

section \<open>Request bodies\<close>

definition ex_presign_body :: string where
  "ex_presign_body = ''{'' @ json_name ''key'' @ json_quote ''a/x.txt'' @ '','' @ json_name ''method'' @ json_quote ''GET''
     @ '','' @ json_name ''expiresInSeconds'' @ ''60}''"

definition ex_presign_fields :: "(string \<times> json) list" where
  "ex_presign_fields = [(''key'', JStr ''a/x.txt''), (''method'', JStr ''GET''), (''expiresInSeconds'', JNum ''60'')]"

lemma ex_names:
  "json_str (''key'' @ quote_char # r) = Some (''key'', r)" "json_str (''method'' @ quote_char # r) = Some (''method'', r)"
  "json_str (''expiresInSeconds'' @ quote_char # r) = Some (''expiresInSeconds'', r)"
  "json_str (''name'' @ quote_char # r) = Some (''name'', r)"
  by (simp_all add: json_str_plain quote_char_def backslash_def) (simp_all flip: quote_char_def)

lemma ex_value_60: "json_value (Suc n) d ''60}'' = Some (JNum ''60'', ''}'')"
  by (simp add: skip_ws_stop json_space_def json_number_def Let_def num_int_def num_frac_def num_exp_def span_digits_def
      quote_char_def is_digit_def)

lemma ex_ascii: "utf8_sanitize ''a/x.txt'' = ''a/x.txt''" "utf8_sanitize ''GET'' = ''GET''" "utf8_sanitize ''videos'' = ''videos''"
  by (rule utf8_sanitize_ascii; simp)+

lemma ex_presign_value: "json_value (Suc (Suc (Suc (Suc (Suc n))))) (Suc d) ex_presign_body = Some (JObj ex_presign_fields, [])"
proof -
  have 3: "json_members (Suc (Suc n)) d (quote_char # ''expiresInSeconds'' @ quote_char # CHR '':'' # ''60}'')
      = Some ([(''expiresInSeconds'', JNum ''60'')], [])"
    by (rule members_last [OF ex_names(3) ex_value_60])
  have 2: "json_members (Suc (Suc (Suc n))) d (quote_char # ''method'' @ quote_char # CHR '':'' # json_quote ''GET''
      @ CHR '','' # quote_char # ''expiresInSeconds'' @ quote_char # CHR '':'' # ''60}'')
      = Some ([(''method'', JStr ''GET''), (''expiresInSeconds'', JNum ''60'')], [])"
    using members_more [OF ex_names(2) value_string [of _ _ "''GET''"]] 3 ex_ascii by (simp add: json_quote_def del: json_members.simps)
  have 1: "json_members (Suc (Suc (Suc (Suc n)))) d (quote_char # ''key'' @ quote_char # CHR '':'' # json_quote ''a/x.txt''
      @ CHR '','' # quote_char # ''method'' @ quote_char # CHR '':'' # json_quote ''GET''
      @ CHR '','' # quote_char # ''expiresInSeconds'' @ quote_char # CHR '':'' # ''60}'')
      = Some (ex_presign_fields, [])"
    using members_more [OF ex_names(1) value_string [of _ _ "''a/x.txt''"]] 2 ex_ascii
    by (simp add: json_quote_def ex_presign_fields_def del: json_members.simps)
  show ?thesis
    unfolding ex_presign_body_def json_name_def using value_object [OF 1 [simplified append_Cons append_Nil]]
    by (simp del: json_value.simps)
qed

lemma ex_presign_unmarshal: "unmarshal presign_schema ex_presign_body = Inr ex_presign_fields"
proof -
  let ?n = "2 * length ex_presign_body + 2"
  have "5 \<le> ?n" by (simp add: ex_presign_body_def json_name_def)
  then have "?n = Suc (Suc (Suc (Suc (Suc (?n - 5)))))" by linarith
  then have "json_value ?n (Suc 9999) ex_presign_body = Some (JObj ex_presign_fields, [])"
    using ex_presign_value [of "?n - 5" 9999] by metis
  then have "json_parse ex_presign_body = Some (JObj ex_presign_fields)" by (simp add: json_parse_def skip_ws_def)
  moreover have "ParseInt ''60'' = Some 60"
    by (simp add: ParseInt_def parse_digits_def digits_value_def is_digit_def)
  ultimately show ?thesis
    by (simp add: unmarshal_def misfit_def ex_presign_fields_def field_of_def presign_schema_def)
qed

lemma ex_escapes: "json_escape ''a/x.txt'' = ''a/x.txt''" "json_escape ''GET'' = ''GET''" "json_escape ''videos'' = ''videos''"
  by (simp_all add: json_escape.simps(2) escape_ascii_def quote_char_def backslash_def)

definition ex_presign_request :: request where
  "ex_presign_request = (ex_request ''POST'' ''/buckets/photos/presign'')
     \<lparr>rBody := \<lparr>bData = ex_presign_body, bErr = None\<rparr>,
      rAuth := Some \<lparr>aBucket = ex_bucket, viaPublic = False, presignExpires = 0\<rparr>, pvBucket := ''photos''\<rparr>"

lemma ex_presign_decode: "decodeJSON presign_schema ex_presign_request = Inr ex_presign_fields"
proof -
  have "length ex_presign_body = 54"
    by (simp add: ex_presign_body_def json_name_def json_quote_def ex_escapes)
  moreover have "TrimSpace ex_presign_body \<noteq> []"
    by (rule TrimSpace_not_blank [of "CHR ''}''"]) (simp_all add: ex_presign_body_def solid_def)
  ultimately show ?thesis
    by (simp add: decodeJSON_def ex_presign_request_def maxJSONBody_def ex_presign_unmarshal Let_def)
qed

lemma ex_presign_values:
  "get_string presign_schema ''key'' ex_presign_fields = ''a/x.txt''"
  "get_string presign_schema ''method'' ex_presign_fields = ''GET''"
  "get_int64 presign_schema ''expiresInSeconds'' ex_presign_fields = 60"
proof -
  have "ParseInt ''60'' = Some 60" by (simp add: ParseInt_def parse_digits_def digits_value_def is_digit_def)
  then show "get_string presign_schema ''key'' ex_presign_fields = ''a/x.txt''"
  "get_string presign_schema ''method'' ex_presign_fields = ''GET''"
  "get_int64 presign_schema ''expiresInSeconds'' ex_presign_fields = 60"
    by (simp_all add: get_string_def get_int64_def field_values_def ex_presign_fields_def presign_schema_def field_of_def)
qed

lemma ex_presign_run:
  "presign ex_server ex_presign_request ex_world =
     (Inr (writeJSON StatusOK (PresignBody (signed_url ''https://s3.example'' ex_bucket ''s3cr3t'' ''GET'' ''a/x.txt'' 61) ''GET'' 61)), ex_world)"
proof -
  have a: "authedBucket ex_presign_request = Inr \<lparr>aBucket = ex_bucket, viaPublic = False, presignExpires = 0\<rparr>"
    by (simp add: authedBucket_def ex_presign_request_def)
  have "TrimSpace ''https://s3.example'' \<noteq> []" and k: "TrimSpace ''a/x.txt'' \<noteq> []"
    by (rule TrimSpace_not_blank [of "CHR ''e''"] TrimSpace_not_blank [of "CHR ''a''"]; simp add: solid_def)+
  then have u: "TrimRightChar (base_url ex_server ex_presign_request) slash = ''https://s3.example''"
    by (simp add: base_url_def TrimRightChar_def slash_def)
  show ?thesis
    using u k by (simp add: presign_def andThen_lift a ex_presign_decode ex_presign_values Let_def ret_def signed_url_def)
qed

text \<open>The request that follows the URL.\<close>

definition ex_follow :: request where
  "ex_follow = (ex_request ''GET'' ''/buckets/photos/objects/a/x.txt'')
     \<lparr>rRawQuery := presigned_query ''AK1'' 61
        (Sign ''s3cr3t'' (StringToSign ''GET'' ''/buckets/photos/objects/a/x.txt'' 61))\<rparr>"

lemma ex_follows: "follows_url ''https://s3.example'' (signed_url ''https://s3.example'' ex_bucket ''s3cr3t'' ''GET'' ''a/x.txt'' 61) ex_follow"
proof -
  let ?p = "''/buckets/photos/objects/a/x.txt''"
  have r: "object_route ''photos'' ''a/x.txt'' = ?p" by (simp add: object_route_def)
  have "CHR ''?'' \<notin> set (escaped_path ?p)"
    using escaped_path_chars [of "CHR ''?''" ?p] by (auto simp: escaped_char_def slash_def)
  then show ?thesis
    by (auto simp: follows_url_def signed_url_def ex_follow_def r PathUnescape_escaped intro!: exI [of _ "escaped_path ?p"])
qed

lemma ex_live_bucket: "live_bucket ex_world ex_bucket"
proof -
  have "ex_bucket \<in> set (tblBuckets ex_db)" by (simp add: ex_db_def)
  then show ?thesis using ex_bucket_ok ex_db_wf by (simp add: live_bucket_def)
qed

section \<open>A successful creation and a successful deletion\<close>

definition ex_create_body :: string where
  "ex_create_body = ''{'' @ json_name ''name'' @ json_quote ''videos'' @ ''}''"

definition ex_create_request :: request where
  "ex_create_request = (ex_request ''POST'' ''/admin/buckets'')\<lparr>rBody := \<lparr>bData = ex_create_body, bErr = None\<rparr>\<rparr>"

lemma ex_create_decode: "decodeJSON create_schema ex_create_request = Inr [(''name'', JStr ''videos'')]"
proof -
  have l: "length ex_create_body = 17"
    by (simp add: ex_create_body_def json_name_def json_quote_def ex_escapes)
  have t: "TrimSpace ex_create_body \<noteq> []"
    by (rule TrimSpace_not_blank [of "CHR ''}''"]) (simp_all add: ex_create_body_def solid_def)
  have "json_members (Suc (Suc n)) d (quote_char # ''name'' @ quote_char # CHR '':'' # json_quote ''videos'' @ ''}'')
      = Some ([(''name'', JStr ''videos'')], [])" for n d
    using members_last [OF ex_names(4) value_string [of _ _ "''videos''"]] ex_ascii
    by (simp add: json_quote_def del: json_members.simps)
  from value_object [OF this [simplified append_Cons append_Nil]]
  have v: "json_value (Suc (Suc (Suc n))) (Suc d) ex_create_body = Some (JObj [(''name'', JStr ''videos'')], [])" for n d
    by (simp add: ex_create_body_def json_name_def del: json_value.simps)
  have "2 * length ex_create_body + 2 = Suc (Suc (Suc 33))" by (simp add: l)
  then have "json_parse ex_create_body = Some (JObj [(''name'', JStr ''videos'')])"
    using v [of 33 9999] by (simp add: json_parse_def skip_ws_def del: json_value.simps)
  then show ?thesis using l t
    by (simp add: decodeJSON_def ex_create_request_def maxJSONBody_def Let_def unmarshal_def misfit_def field_of_def create_schema_def)
qed

lemma ex_create_run:
  "\<exists>rsp w'. createBucket ex_server ex_create_request ex_world = (Inr rsp, w')"
proof -
  have v: "get_string create_schema ''name'' [(''name'', JStr ''videos'')] = ''videos''"
    "get_ptr create_schema ''description'' [(''name'', JStr ''videos'')] = None"
    by (simp_all add: get_string_def get_ptr_def field_values_def create_schema_def field_of_def)
  have n: "bucketNameRe ''videos''" by code_simp
  have k: "GenerateAccessKey x \<noteq> ''AK1''" for x using access_key_format [of x] by auto
  have k': "''AK1'' \<noteq> GenerateAccessKey x" for x by (rule not_sym) (rule k)
  have dir: "bucketDir ex_storage ''videos'' = ''/data/videos''" by code_simp
  have mk: "\<exists>g. fs_mkdir_all ex_fs (path_comps ''/data/videos'') = Inr g"
    by (rule fs_mkdir_all_ok) code_simp
  show ?thesis
    using k k' mk
    by (auto simp: createBucket_def ex_create_decode andThen_def lift_result_def v n store_quiet Let_def
        InsertBucket_quiet ins_bucket_def attempt_def CreateBucketDirectory_def dir os_MkdirAll_quiet ret_def
        sel_bucket_def ex_db_def split: sum.splits)
qed

definition ex_empty_world :: world where
  "ex_empty_world =
     \<lparr>wfs = [([''data''], Directory), ([''data'', ''.meta''], Directory), ([''data'', ''photos''], Directory)],
      wdb = \<lparr>tblBuckets = [\<lparr>Name = ''photos'', Description = None, AccessKey = ''AK1'', EncryptedSecretKey = [],
        CreatedAt = 0\<rparr>], tblObjects = []\<rparr>, wnow = 0, wfaults = []\<rparr>"

lemma ex_delete_run:
  "deleteBucket ex_server ((ex_request ''DELETE'' ''/admin/buckets/photos'')\<lparr>pvName := ''photos''\<rparr>) ex_empty_world =
    (Inr (writeHeader StatusNoContent), ex_empty_world\<lparr>wfs := [([''data''], Directory), ([''data'', ''.meta''], Directory)],
       wdb := \<lparr>tblBuckets = [], tblObjects = []\<rparr>\<rparr>)"
  by code_simp

definition ex_start_config :: Config where
  "ex_start_config = ex_config\<lparr>MasterKey := replicate 43 (CHR ''A'') @ ''=''\<rparr>"

lemma ex_start_run: "case fst (New ''/srv'' ex_start_config (\<lambda>_. None) ex_empty_world) of Inr s \<Rightarrow> True | Inl e \<Rightarrow> False"
  by code_simp

text \<open>The same server with one object in the bucket.\<close>

definition ex_one_world :: world where
  "ex_one_world = ex_empty_world\<lparr>wfs := wfs ex_empty_world @
     [([''data'', ''photos'', ''a''], Directory), ([''data'', ''photos'', ''a'', ''x.txt''], File ''hi'' 0)]\<rparr>"

lemma ex_one_delete:
  "fst (DeleteObject ex_storage ''photos'' ''a/x.txt'' ex_one_world) = Inr ()"
  by code_simp

lemma ex_one_node:
  "fs_node (wfs ex_one_world) q =
     (if q \<in> {[], [''data''], [''data'', ''.meta''], [''data'', ''photos''], [''data'', ''photos'', ''a'']} then Some Directory
      else if q = [''data'', ''photos'', ''a'', ''x.txt''] then Some (File ''hi'' 0) else None)"
  by (simp add: fs_node_def ex_one_world_def ex_empty_world_def)

lemma ex_one_tidy: "tidy (wfs ex_one_world) [''data'', ''photos'']"
proof -
  have "\<not> empty_dir (wfs ex_one_world) [''data'', ''photos'', ''a'']"
    unfolding empty_dir_iff ex_one_node by (auto intro!: exI [of _ "''x.txt''"])
  then show ?thesis
    unfolding tidy_but_def empty_dir_def ex_one_node by (auto simp: strict_prefix_def split: if_splits)
qed

lemma ex_one_wf: "fs_wf (wfs ex_one_world)"
  by code_simp

end
