(* ===== verification/JsonFuel.thy ===== *)
theory JsonFuel
  imports Json
begin

text \<open>
  The fuel of the JSON decoder is enough: every call that returns has consumed input, so from
  \<open>2 * length s + 2\<close> units on the answer no longer depends on the fuel, and a document that
  \<open>json_parse\<close> refuses is refused with any amount of it.
\<close>

section \<open>Every value consumes input\<close>

lemma skip_ws_le: "length (skip_ws s) \<le> length s"
  by (simp add: skip_ws_def length_dropWhile_le)

lemma skip_ws_Cons: "skip_ws s = c # cs \<Longrightarrow> length cs < length s"
  using skip_ws_le [of s] by simp

lemma cons_result_SomeD: "cons_result a r = Some (s, t) \<Longrightarrow> \<exists>s'. r = Some (s', t)"
  by (auto simp: cons_result_def)

lemma json_str_shrinks: "json_str s = Some (a, t) \<Longrightarrow> length t < length s"
proof (induction s arbitrary: a rule: json_str.induct)
  case (2 c cs)
  have u: "length (snd (unescape_u u r1)) < length cs" if "cs = e # r" "hex4 r = Some (u, r1)" for e r u r1
    using unescape_u_shrinks [of u r1] hex4_shrinks [OF that(2)] by (simp add: that(1))
  have d: "length (drop (snd (decode_rune (c # cs))) (c # cs)) \<le> length cs"
    using decode_rune_shrinks [of "c # cs"] by simp
  from 2 u d show ?case
    by (fastforce simp: json_str.simps(2) split: if_splits list.splits option.splits dest!: cons_result_SomeD)
qed simp

lemma json_number_shrinks: "json_number s = Some (a, t) \<Longrightarrow> length t < length s"
proof -
  have i: "length b < length z" if "num_int z = Some (x, b)" for z x b
    using that length_dropWhile_le [of is_digit "tl z"]
    by (auto simp: num_int_def span_digits_def split: list.splits if_splits)
  have f: "length b \<le> length z" if "num_frac z = Some (x, b)" for z x b
    using that length_dropWhile_le [of is_digit "tl z"]
    by (auto simp: num_frac_def span_digits_def split: list.splits if_splits)
  have e: "length b \<le> length z" if "num_exp z = Some (x, b)" for z x b
  proof (cases z)
    case (Cons c cs)
    have "length (dropWhile is_digit (drop n cs)) \<le> length cs" for n
      using length_dropWhile_le [of is_digit "drop n cs"] by simp
    with that Cons show ?thesis
      by (fastforce simp: num_exp_def span_digits_def Let_def split: if_splits intro: le_SucI)
  qed (use that in \<open>simp add: num_exp_def\<close>)
  show "json_number s = Some (a, t) \<Longrightarrow> length t < length s"
    by (fastforce simp: json_number_def Let_def split: option.splits dest!: i f e)
qed

lemma keyword_shrinks: "keyword w v s = Some (x, t) \<Longrightarrow> w \<noteq> [] \<Longrightarrow> length t < length s"
  by (auto simp: keyword_def prefix_def split: if_splits)

lemma json_shrinks:
  "json_value n d s = Some (v, t) \<Longrightarrow> length t < length s"
  "json_elements n d s = Some (vs, t) \<Longrightarrow> length t < length s"
  "json_members n d s = Some (ms, t) \<Longrightarrow> length t < length s"
proof (induction n d s and n d s and n d s arbitrary: v t and vs t and ms t
    rule: json_value_json_elements_json_members.induct)
  case (2 n d s)
  then show ?case
    using skip_ws_Cons [of s]
    by (fastforce split: list.splits if_splits dest!: json_str_shrinks json_number_shrinks keyword_shrinks
        dest: skip_ws_Cons)
next
  case (4 n d s)
  then show ?case
    by (fastforce split: option.splits list.splits if_splits dest: skip_ws_Cons)
next
  case (6 n d s)
  then show ?case
    by (fastforce split: option.splits list.splits if_splits dest: skip_ws_Cons dest!: json_str_shrinks)
qed simp_all

section \<open>More fuel changes nothing\<close>

lemma json_fuel:
  "2 * length s + 2 \<le> n \<Longrightarrow> json_value (n + k) d s = json_value n d s"
  "2 * length s + 3 \<le> n \<Longrightarrow> json_elements (n + k) d s = json_elements n d s"
  "2 * length s + 3 \<le> n \<Longrightarrow> json_members (n + k) d s = json_members n d s"
proof (induction n d s and n d s and n d s rule: json_value_json_elements_json_members.induct)
  case (2 n d s)
  have cs: "2 * length cs + 3 \<le> n" if "skip_ws s = c # cs" for c cs
    using skip_ws_Cons [OF that] "2.prems" by linarith
  show ?case
  proof (cases "skip_ws s")
    case (Cons c cs)
    then show ?thesis using "2.IH" cs [OF Cons] by (simp split: list.split)
  qed simp
next
  case (4 n d s)
  have v: "json_value (n + k) d s = json_value n d s" using 4 by simp
  show ?case
  proof (cases "json_value n d s")
    case (Some p)
    obtain x s1 where p: "p = (x, s1)" by force
    have "2 * length cs + 3 \<le> n" if "skip_ws s1 = c # cs" for c cs
      using skip_ws_Cons [OF that] json_shrinks(1) [OF Some [unfolded p]] "4.prems" by linarith
    then show ?thesis using v Some p "4.IH"(2) by (auto split: list.split)
  qed (simp add: v)
next
  case (6 n d s)
  show ?case
  proof (cases "skip_ws s")
    case (Cons q s0)
    show ?thesis
    proof (cases "json_str s0")
      case (Some p)
      obtain key s1 where p: "p = (key, s1)" by force
      have l1: "length s1 < length s0" "length s0 < length s"
        using json_str_shrinks [OF Some [unfolded p]] skip_ws_Cons [OF Cons] by simp_all
      show ?thesis
      proof (cases "skip_ws s1")
        case l2: (Cons c s2)
        have b: "2 * length s2 + 2 \<le> n" using skip_ws_Cons [OF l2] l1 "6.prems" by linarith
        have m: "2 * length s4 + 3 \<le> n" if "json_value n d s2 = Some (v, s3)" "skip_ws s3 = e # s4" for v s3 e s4
          using skip_ws_Cons [OF that(2)] json_shrinks(1) [OF that(1)] skip_ws_Cons [OF l2] l1 "6.prems" by linarith
        show ?thesis
          using 6(1) 6(2) Cons Some p l2 b m by (auto split: option.split list.split)
      qed (simp add: Cons Some p)
    qed (simp add: Cons)
  qed simp
qed simp_all

text \<open>A parse with any larger amount of fuel is the parse of \<open>json_parse\<close>.\<close>

lemma json_parse_fuel:
  assumes "2 * length s + 2 \<le> n"
  shows "json_parse s =
    (case json_value n 10000 s of
       Some (v, r) \<Rightarrow> if skip_ws r = [] then Some v else None | None \<Rightarrow> None)"
proof -
  obtain k where n: "n = 2 * length s + 2 + k" using le_Suc_ex [OF assms] by blast
  show ?thesis unfolding json_parse_def n json_fuel(1) [OF le_refl] ..
qed

end
