(* ===== verification/FormatProperties.thy ===== *)
theory FormatProperties
  imports ServerExamples JsonFuel
begin

text \<open>
  Properties of the formats the server reads and writes: sealed secrets, keys, signatures, numbers,
  percent-encoding, sidecar files, configuration.
\<close>

section \<open>Secrets and signatures\<close>

text \<open>
  C37.  A secret sealed by \<open>EncryptSecret\<close> is recovered by \<open>DecryptSecret\<close> with the same master key,
  whatever nonce was drawn.
\<close>

theorem secrets_recovered: "DecryptSecret c (EncryptSecret c rnd secret) = Inr secret"
  by (rule decrypt_encrypt)

text \<open>
  \<open>DecryptSecret\<close> accepts nothing but the base64 text of a nonce and of what sealing the returned
  secret under it yields: a stored secret that was altered is refused, never turned into another one.
\<close>

theorem only_sealed_secrets:
  assumes "DecryptSecret c encoded = Inr secret"
  shows "\<exists>nonce. length nonce = gcm_nonce_size \<and> StdDecode encoded = Some (nonce @ aead_seal c nonce secret)"
  by (rule decrypt_only_sealed [OF assms])

theorem only_sealed_secrets_witness:
  "\<exists>nonce. length nonce = gcm_nonce_size \<and>
     StdDecode (EncryptedSecretKey ex_bucket) = Some (nonce @ aead_seal ex_crypto nonce ''s3cr3t'')"
  by (rule only_sealed_secrets) simp

text \<open>
  Access keys are the letters \<open>AK\<close> and 22 characters that need no escaping in a URL or a header;
  two of them are equal only when the 16 random bytes are.
\<close>

theorem access_keys_distinct:
  "length (GenerateAccessKey q) = 24 \<and> HasPrefix (GenerateAccessKey q) ''AK'' \<and>
   escapeDataString (GenerateAccessKey q) = GenerateAccessKey q \<and>
   (GenerateAccessKey q = GenerateAccessKey r \<longleftrightarrow> rand_bytes 16 q = rand_bytes 16 r)"
proof -
  have "GenerateAccessKey q = GenerateAccessKey (rand_bytes 16 q)" for q
    by (simp add: GenerateAccessKey_def randomBase64URL_def)
  then have "GenerateAccessKey q = GenerateAccessKey r \<longleftrightarrow> rand_bytes 16 q = rand_bytes 16 r"
    using generated_keys_inject(1) [of "rand_bytes 16 q" "rand_bytes 16 r"] by simp
  then show ?thesis using access_key_format [of q] escape_unreserved [of "GenerateAccessKey q"] by blast
qed

text \<open>
  What is signed determines the request: two methods without a newline, paths and times are
  signed as the same text only if they are the same, whatever bytes the paths contain.
\<close>

theorem signed_text_unambiguous:
  assumes "newline \<notin> set m" and "newline \<notin> set m'"
  shows "StringToSign m p t = StringToSign m' p' t' \<longleftrightarrow> m = m' \<and> p = p' \<and> t = t'"
  by (rule string_to_sign_inject [OF assms])

theorem signed_text_unambiguous_witness:
  "StringToSign ''GET'' ''/buckets/a/objects/k'' 5 \<noteq> StringToSign ''PUT'' ''/buckets/a/objects/k'' 5"
  using signed_text_unambiguous [of "''GET''" "''PUT''" "''/buckets/a/objects/k''" 5 "''/buckets/a/objects/k''" 5]
  by (simp add: newline_def)

section \<open>Texts\<close>

text \<open>
  Percent-encoding loses nothing and leaves nothing to interpret: both decoders of \<open>net/url\<close>
  return the original bytes, and the text has only unreserved characters and percent signs.
\<close>

theorem percent_encoding_exact:
  "QueryUnescape (escapeDataString s) = Some s \<and> PathUnescape (escapeDataString s) = Some s \<and>
   list_all escaped_char (escapeDataString s)"
  by (auto simp: unescape_escape list_all_iff intro: escape_chars)

section \<open>Sidecar files\<close>

text \<open>
  A sidecar makes an object public only by saying so: the file must be a JSON object with a member
  for \<open>Public\<close> that is \<open>true\<close>.  A legacy sidecar, a bare content type, never does.
\<close>

theorem public_only_if_written:
  assumes "mPublic (parse_sidecar data)"
  shows "\<exists>ms. json_parse (TrimSpace data) = Some (JObj ms) \<and> JBool True \<in> set (field_values meta_schema ''Public'' ms)"
  using parse_sidecar_public [OF assms] by blast

theorem public_only_if_written_witness:
  "\<exists>ms. json_parse (TrimSpace (marshalMeta (no_meta\<lparr>mPublic := True\<rparr>))) = Some (JObj ms) \<and>
     JBool True \<in> set (field_values meta_schema ''Public'' ms)"
  by (rule public_only_if_written) (simp add: parse_marshal)

text \<open>
  A content type that is stored and served has no control character, so it cannot end a header
  line, and it is not blank.
\<close>

theorem content_type_safe:
  assumes "sanitizeContentType ct = Some s"
  shows "s = ct \<and> TrimSpace s \<noteq> [] \<and> RuneCountInString s \<le> 255 \<and> list_all (\<lambda>c. 32 \<le> byte_of c \<and> byte_of c \<noteq> 127) s"
  using sanitizeContentType_Some [OF assms] sanitized_no_control_byte [OF assms] by (auto simp: list_all_iff)

theorem content_type_safe_witness:
  "list_all (\<lambda>c. 32 \<le> byte_of c \<and> byte_of c \<noteq> 127) ''text/html; charset=utf-8''"
proof -
  have "sanitizeContentType ''text/html; charset=utf-8'' = Some ''text/html; charset=utf-8''" by code_simp
  then show ?thesis using content_type_safe by blast
qed

section \<open>Timestamps\<close>

lemma nat_digits_step:
  "n < 10 \<Longrightarrow> nat_digits n = [digit_char n]"
  "10 \<le> n \<Longrightarrow> nat_digits n = nat_digits (n div 10) @ [digit_char (n mod 10)]"
  by (subst nat_digits.simps; simp)+

lemma digit_char_table:
  "digit_char 0 = CHR ''0''" "digit_char (Suc 0) = CHR ''1''" "digit_char 2 = CHR ''2''" "digit_char 3 = CHR ''3''"
  "digit_char 4 = CHR ''4''" "digit_char 5 = CHR ''5''" "digit_char 6 = CHR ''6''" "digit_char 7 = CHR ''7''"
  "digit_char 8 = CHR ''8''" "digit_char 9 = CHR ''9''"
  by code_simp+

text \<open>
  A timestamp column keeps an instant down to 100 ns in the years 0 to 9999, and any other instant
  comes back as the zero time.  The other two formats a row may hold, those of the previous
  implementation, are read back as well.
\<close>

theorem timestamps_kept:
  "parseDBTime (formatDBTime t) =
     (if - 62167219200 * 10 ^ 9 \<le> t \<and> t < 253402300800 * 10 ^ 9 then t div 100 * 100 else zero_time) \<and>
   (- 62167219200 * 10 ^ 9 \<le> t \<and> t < 253402300800 * 10 ^ 9 \<longrightarrow>
     parseDBTime (Format RFC3339Nano t) = t \<and> parseDBTime (Format no_zone_layout t) = t div 100 * 100)"
proof -
  have "four_digit_years t \<longleftrightarrow> - 62167219200 * 10 ^ 9 \<le> t \<and> t < 253402300800 * 10 ^ 9"
    by (simp add: four_digit_years_def)
  moreover note db_time_eq [of t, unfolded db_time_def]
  moreover have "four_digit_years t \<Longrightarrow> parseDBTime (Format RFC3339Nano t) = t"
    "four_digit_years t \<Longrightarrow> parseDBTime (Format no_zone_layout t) = t div 100 * 100"
    unfolding four_digit_years_iff using readable [of t] by blast+
  ultimately show ?thesis by (cases "four_digit_years t") auto
qed

theorem timestamps_kept_witness:
  "parseDBTime ''2023-11-14T22:13:20.123456789Z'' = 1700000000123456789 \<and>
   parseDBTime ''2023-11-14 22:13:20.1234567'' = 1700000000123456700"
proof -
  have f: "fields_of 1700000000123456789 = \<lparr>fYear = 2023, fMonth = 11, fDay = 14, fHour = 22, fMinute = 13, fSecond = 20,
      fNanos = 123456789, fOffset = 0\<rparr>"
    by code_simp
  have "Format RFC3339Nano 1700000000123456789 = ''2023-11-14T22:13:20.123456789Z''"
    "Format no_zone_layout 1700000000123456789 = ''2023-11-14 22:13:20.1234567''"
    by (simp_all add: Format_def RFC3339Nano_def no_zone_layout_def date_chunks_def clock_chunks_def f pad_digits_def
        format_frac_def TrimRightChar_def nat_digits_step digit_char_table)
  then show ?thesis using timestamps_kept [of 1700000000123456789] by simp
qed

end
