(* ===== verification/StorageList.thy ===== *)
theory StorageList
  imports StorageIndex StorageFaults
begin

text \<open>
  Listing: one page of the index, and what a client gets that follows the cursors.  The interface
  \<open>key_pages\<close> states what a page is; its client is a crawl that asks for page after page.
\<close>

section \<open>Following cursors\<close>

text \<open>
  A crawl asks for one row more than it keeps, as \<open>ListObjects\<close> does, and goes on from the last row it
  kept.  Its fuel is a number of pages.
\<close>

fun crawl :: "(string \<Rightarrow> nat \<Rightarrow> 'row list) \<Rightarrow> ('row \<Rightarrow> string) \<Rightarrow> nat \<Rightarrow> nat \<Rightarrow> string \<Rightarrow> 'row list option" where
  "crawl page key lim 0 c = None"
| "crawl page key lim (Suc n) c =
     (let rows = page c (lim + 1) in
      if lim < length rows
      then map_option (\<lambda>rest. take lim rows @ rest) (crawl page key lim n (key (rows ! (lim - 1))))
      else Some rows)"

lemma filter_after_nth:
  fixes key :: "'row \<Rightarrow> string"
  assumes "sorted (map key rs)" "distinct (map key rs)" "i < length rs"
  shows "filter (\<lambda>r. key (rs ! i) < key r) rs = drop (Suc i) rs"
proof -
  have s: "sorted_wrt (<) (map key rs)" using assms(1,2) by (simp add: strict_sorted_iff)
  have split: "rs = take (Suc i) rs @ drop (Suc i) rs" by simp
  have "filter (\<lambda>r. key (rs ! i) < key r) (take (Suc i) rs) = []"
  proof -
    have "key (rs ! j) \<le> key (rs ! i)" if "j \<le> i" for j
      using sorted_nth_mono [OF assms(1), of j i] assms(3) that by simp
    then show ?thesis using assms(3) by (auto simp: filter_empty_conv set_conv_nth less_Suc_eq_le leD)
  qed
  moreover have "filter (\<lambda>r. key (rs ! i) < key r) (drop (Suc i) rs) = drop (Suc i) rs"
  proof -
    have "key (rs ! i) < key (rs ! j)" if "i < j" "j < length rs" for j
      using sorted_wrt_nth_less [OF s that(1)] that assms(3) by simp
    then show ?thesis by (auto simp: filter_id_conv set_conv_nth)
  qed
  ultimately show ?thesis using split by (metis append_Nil filter_append)
qed

locale key_pages =
  fixes wf :: "'db \<Rightarrow> bool"
    and rows :: "'db \<Rightarrow> 'row list"
    and key :: "'row \<Rightarrow> string"
    and page :: "string \<Rightarrow> nat \<Rightarrow> 'db \<Rightarrow> 'row list"
  assumes ordered: "wf d \<Longrightarrow> sorted (map key (rows d))" "wf d \<Longrightarrow> distinct (map key (rows d))"
    and page_take: "page c n d = take n (filter (\<lambda>r. c < key r) (rows d))"
begin

text \<open>The rows after the last one of a page are the rest of the listing.\<close>

lemma rest_after_page:
  assumes "wf d" "0 < lim" "lim < length (page c (lim + 1) d)"
  defines "after \<equiv> filter (\<lambda>r. c < key r) (rows d)" and "c' \<equiv> key (page c (lim + 1) d ! (lim - 1))"
  shows "filter (\<lambda>r. c' < key r) (rows d) = drop lim after" and "c < c'"
proof -
  have l: "lim < length after" using assms(3) by (simp add: page_take after_def)
  have c': "c' = key (after ! (lim - 1))" using assms(2) by (simp add: c'_def page_take after_def)
  have "after ! (lim - 1) \<in> set after" using l by simp
  then show lt: "c < c'" by (auto simp: c' after_def)
  have "filter (\<lambda>r. c' < key r) (rows d) = filter (\<lambda>r. c' < key r) after"
    unfolding after_def filter_filter by (rule filter_cong) (use lt in auto)
  also have "\<dots> = drop (Suc (lim - 1)) after"
    unfolding c' by (rule filter_after_nth)
      (use l ordered [OF assms(1)] in \<open>auto simp: after_def sorted_filter distinct_map inj_on_def\<close>)
  finally show "filter (\<lambda>r. c' < key r) (rows d) = drop lim after" using assms(2) by simp
qed

text \<open>The crawl ends, and returns every row after its cursor once, in key order.\<close>

lemma crawl_complete:
  assumes "wf d" "0 < lim" "length (filter (\<lambda>r. c < key r) (rows d)) < fuel"
  shows "crawl (\<lambda>c n. page c n d) key lim fuel c = Some (filter (\<lambda>r. c < key r) (rows d))"
  using assms(3)
proof (induction fuel arbitrary: c)
  case (Suc n)
  let ?after = "filter (\<lambda>r. c < key r) (rows d)" and ?p = "page c (lim + 1) d"
  show ?case
  proof (cases "lim < length ?p")
    case False
    then have "?p = ?after" by (simp add: page_take)
    with False show ?thesis by (simp add: Let_def)
  next
    case True
    note rest = rest_after_page [OF assms(1,2) True]
    have "length (drop lim ?after) < n" using Suc.prems assms(2) True by (simp add: page_take)
    then have "crawl (\<lambda>c n. page c n d) key lim n (key (?p ! (lim - 1))) = Some (drop lim ?after)"
      using Suc.IH [of "key (?p ! (lim - 1))"] rest(1) by simp
    moreover have "take lim ?p = take lim ?after" by (simp add: page_take min_def)
    ultimately show ?thesis using True by (simp add: Let_def)
  qed
qed simp

end

text \<open>The index provides such pages.\<close>

lemma matching_rows_ordered:
  "sorted (map oKey (matching_rows b p d))" "db_wf d \<Longrightarrow> distinct (map oKey (matching_rows b p d))"
proof -
  show "sorted (map oKey (matching_rows b p d))" by (simp add: matching_rows_def)
  assume "db_wf d"
  then have "distinct (map oKey (filter (\<lambda>r. prefix_filter p (oKey r)) (bucket_rows b d)))"
    by (auto simp: db_wf_def bucket_rows_def distinct_map inj_on_def)
  then show "distinct (map oKey (matching_rows b p d))"
    by (simp add: matching_rows_def distinct_map)
qed

interpretation listing: key_pages db_wf "matching_rows b p" oKey "sel_page b p" for b p
proof unfold_locales
  show "sel_page b p c n d = take n (filter (\<lambda>r. c < oKey r) (matching_rows b p d))" for c n d
    by (simp add: sel_page_def matching_rows_def filter_sort conj_commute)
qed (simp_all add: matching_rows_ordered)

section \<open>One page\<close>

definition list_limit :: "int \<Rightarrow> nat" where
  "list_limit limit = nat (min (max limit 1) MaxListLimit)"

lemma list_limit_bounds: "0 < list_limit limit" "list_limit limit \<le> 1000"
  by (simp_all add: list_limit_def MaxListLimit_def)

definition page_response :: "nat \<Rightarrow> ObjectRow list \<Rightarrow> ListObjectsResponse" where
  "page_response lim rows =
     (let page = take lim rows in
      \<lparr>lObjects = map summaryOf page, IsTruncated = lim < length rows,
       NextCursor = (if lim < length rows then Some (oKey (rows ! (lim - 1))) else None),
       KeyCount = length page\<rparr>)"

lemma ListObjects_page:
  assumes "wfaults w = []" and "cursor \<noteq> [] \<or> pfx \<noteq> [] \<or> bucket_rows b (wdb w) \<noteq> []"
  shows "ListObjects s b pfx limit cursor w =
    (Inr (page_response (list_limit limit) (sel_page b pfx cursor (list_limit limit + 1) (wdb w))), w)"
proof -
  have "(if cursor = [] \<and> pfx = []
      then andThen (HasObjects b) (\<lambda>has.
        if has then ret ()
        else andThen (hasObjectFiles (bucketDir s b)) (\<lambda>files.
          if files then andThen (ReindexBucket s b False) (\<lambda>_. ret ()) else ret ()))
      else ret ()) w = (Inr (), w)"
    using assms by (auto simp: andThen_def store_quiet ret_def)
  then show ?thesis
    by (simp add: ListObjects_def Let_def andThen_Inr andThen_def store_quiet [OF assms(1)] ret_def
        page_response_def list_limit_def)
qed

text \<open>Whatever fails on the way, an answer is a page of the index as it is then.\<close>

lemma ListObjects_Inr:
  assumes "ListObjects s b pfx limit cursor w = (Inr resp, w')"
  shows "resp = page_response (list_limit limit) (sel_page b pfx cursor (list_limit limit + 1) (wdb w'))"
proof -
  let ?l = "list_limit limit"
  obtain v rows where rows: "ListObjectRows b pfx cursor (?l + 1) v = (Inr rows, w')"
    and resp: "resp = page_response ?l rows"
    using assms unfolding ListObjects_def Let_def page_response_def list_limit_def
    by (elim andThen_InrE) (auto simp: ret_def)
  have "rows = sel_page b pfx cursor (?l + 1) (wdb w')"
    using db_query_Inr [OF rows [unfolded ListObjectRows_def]] by simp
  with resp show ?thesis by simp
qed

text \<open>A page is one row longer than its limit at most, so its last row decides whether there are more.\<close>

lemma page_response_parts:
  "lObjects (page_response lim rows) = map summaryOf (take lim rows)"
  "NextCursor (page_response lim rows) = (if lim < length rows then Some (oKey (rows ! (lim - 1))) else None)"
  by (simp_all add: page_response_def)

section \<open>The whole listing\<close>

text \<open>A client that follows \<open>nextCursor\<close> until there is none, through \<open>n\<close> requests at most.\<close>

fun list_all_pages :: "Storage \<Rightarrow> string \<Rightarrow> string \<Rightarrow> int \<Rightarrow> nat \<Rightarrow> string \<Rightarrow> ObjectSummary list action" where
  "list_all_pages s b pfx limit 0 cursor = fail (PlainErr ''too many pages'')"
| "list_all_pages s b pfx limit (Suc n) cursor =
     andThen (ListObjects s b pfx limit cursor) (\<lambda>resp.
     case NextCursor resp of
       None \<Rightarrow> ret (lObjects resp)
     | Some next \<Rightarrow> andThen (list_all_pages s b pfx limit n next) (\<lambda>rest. ret (lObjects resp @ rest)))"

lemma list_all_crawl:
  assumes q: "wfaults w = []" and ne: "bucket_rows b (wdb w) \<noteq> []"
  shows "crawl (\<lambda>c n. sel_page b pfx c n (wdb w)) oKey (list_limit limit) n cursor = Some rows \<Longrightarrow>
     list_all_pages s b pfx limit n cursor w = (Inr (map summaryOf rows), w)"
proof (induction n arbitrary: cursor rows)
  case (Suc n)
  let ?l = "list_limit limit"
  define p where "p = sel_page b pfx cursor (?l + 1) (wdb w)"
  define nxt where "nxt = oKey (p ! (?l - 1))"
  have one: "ListObjects s b pfx limit cursor w = (Inr (page_response ?l p), w)"
    using q ne by (simp add: ListObjects_page p_def)
  have run: "list_all_pages s b pfx limit (Suc n) cursor w =
      (if ?l < length p
       then andThen (list_all_pages s b pfx limit n nxt) (\<lambda>rest. ret (map summaryOf (take ?l p) @ rest)) w
       else (Inr (map summaryOf (take ?l p)), w))"
    by (simp add: andThen_Inr [where m = "ListObjects s b pfx limit cursor", OF one] page_response_parts ret_def nxt_def)
  show ?case
  proof (cases "?l < length p")
    case False
    with Suc.prems have "rows = p" by (simp add: Let_def p_def split: if_splits)
    with run False show ?thesis by simp
  next
    case True
    with Suc.prems obtain rest where
      "crawl (\<lambda>c n. sel_page b pfx c n (wdb w)) oKey ?l n nxt = Some rest" "rows = take ?l p @ rest"
      by (auto simp: Let_def p_def nxt_def split: if_splits)
    with run True Suc.IH show ?thesis by (simp add: andThen_def ret_def)
  qed
qed simp

lemma filter_all_keys:
  assumes "\<forall>r\<in>set (bucket_rows b d). oKey r \<noteq> []"
  shows "filter (\<lambda>r. [] < oKey r) (matching_rows b pfx d) = matching_rows b pfx d"
  using assms by (auto simp: filter_id_conv matching_rows_def neq_Nil_conv)

lemma list_all_complete:
  assumes "wfaults w = []" "db_ok w" "bucket_rows b (wdb w) \<noteq> []" "\<forall>r\<in>set (bucket_rows b (wdb w)). oKey r \<noteq> []"
    and "length (bucket_rows b (wdb w)) < n"
  shows "list_all_pages s b pfx limit n [] w = (Inr (map summaryOf (matching_rows b pfx (wdb w))), w)"
proof -
  have "length (matching_rows b pfx (wdb w)) \<le> length (bucket_rows b (wdb w))"
    by (simp add: matching_rows_def)
  with assms(5) have "length (filter (\<lambda>r. [] < oKey r) (matching_rows b pfx (wdb w))) < n"
    by (simp add: filter_all_keys [OF assms(4)])
  from listing.crawl_complete [OF assms(2) list_limit_bounds(1) this, of limit]
  show ?thesis
    unfolding filter_all_keys [OF assms(4)] by (rule list_all_crawl [OF assms(1,3)])
qed

section \<open>Self-healing\<close>

text \<open>
  The first page of a bucket that has files but no rows rebuilds the index before it is read.
\<close>

lemma ListObjects_heals:
  assumes st: "storage_at rs s" "bucket_ok b" and q: "wfaults w = []" "fs_ok w"
    and names: "fs_names (wfs w)" and dir: "fs_node (wfs w) (rs @ [b]) = Some Directory"
    and ready: "\<And>cs. object_file rs (wfs w) b cs \<Longrightarrow> side_ready rs (wfs w) b cs"
    and rows: "bucket_rows b (wdb w) = []" and files: "bucket_files rs (wfs w) b \<noteq> []"
  obtains w' where "ListObjects s b [] limit [] w =
      (Inr (page_response (list_limit limit) (sel_page b [] [] (list_limit limit + 1) (wdb w'))), w')"
    "index_synced rs (wfs w') b (wdb w')"
proof -
  obtain g where g: "ReindexBucket s b False w = (Inr (length (pass_upserts rs (wfs w) b False (wdb w)) +
        length (pass_deletes rs (wfs w) b (wdb w))),
      w\<lparr>wfs := g, wdb := fold (del_object b) (pass_deletes rs (wfs w) b (wdb w))
        (fold ups_object (pass_upserts rs (wfs w) b False (wdb w)) (wdb w))\<rparr>)"
    and same: "same_but_sides rs (wfs w) b (bucket_files rs (wfs w) b) g"
    by (rule ReindexBucket_quiet [OF st q names dir ready])
  define w' where "w' = w\<lparr>wfs := g, wdb := fold (del_object b) (pass_deletes rs (wfs w) b (wdb w))
        (fold ups_object (pass_upserts rs (wfs w) b False (wdb w)) (wdb w))\<rparr>"
  have p: "proper (rs @ [b])" using st by (simp add: storage_at_def bucket_ok_def)
  have pc: "path_comps (bucketDir s b) = rs @ [b]" using bucketDir_at [OF st] path_comps_abs [OF p] by simp
  have "hasObjectFiles (bucketDir s b) w = (Inr True, w)"
    using q(1) dir files
    by (auto simp: hasObjectFiles_def helpers_quiet andThen_def attempt_def ret_def walkObjectFiles_def os_query_def
        os_call_def next_fault_def pc fs_stat_def bucket_files_def)
  then have "(andThen (HasObjects b) (\<lambda>has.
        if has then ret ()
        else andThen (hasObjectFiles (bucketDir s b)) (\<lambda>files.
          if files then andThen (ReindexBucket s b False) (\<lambda>_. ret ()) else ret ()))) w = (Inr (), w')"
    using g rows by (simp add: andThen_def store_quiet [OF q(1)] ret_def w'_def)
  moreover have "wfaults w' = []" by (simp add: w'_def q)
  ultimately have "ListObjects s b [] limit [] w =
      (Inr (page_response (list_limit limit) (sel_page b [] [] (list_limit limit + 1) (wdb w'))), w')"
    by (simp add: ListObjects_def Let_def andThen_Inr andThen_def store_quiet ret_def page_response_def list_limit_def)
  moreover have "index_synced rs (wfs w') b (wdb w')"
    unfolding w'_def using synced_after_pass [OF dir names st(2) same] by simp
  ultimately show thesis by (rule that)
qed

end
