(* ===== verification/StorageProperties.thy ===== *)
theory StorageProperties
  imports StorageRefine StorageList ServerExamples "HOL-Library.Multiset"
begin

text \<open>
  Properties of the object layer: where objects live, what an upload, a deletion, a visibility change and
  a reindex leave behind under any faults, and what a listing returns.
\<close>

section \<open>Where objects live\<close>

text \<open>
  C3.  Path confinement.  For a bucket name that is one path component, \<open>ResolveObjectPath\<close> accepts exactly
  the keys that are not blank, do not start with a slash, contain neither \<open>..\<close> nor NUL and name at least one
  component, and it maps them below the bucket's directory: every component after it is a proper name.
\<close>

theorem object_paths_confined:
  assumes "storage_at rs s" and "bucket_ok b"
  shows "ResolveObjectPath s b k = Inr p \<longleftrightarrow>
    key_ok k \<and> p = abs_path (rs @ b # key_comps k) \<and> key_comps k \<noteq> [] \<and> proper (rs @ b # key_comps k)"
proof (cases "key_ok k")
  case True
  then show ?thesis
    using resolve_iff [OF assms, of k p] obj_path_proper [OF assms key_ok_clean [OF True]] key_ok_comps [OF key_ok_clean [OF True]]
    by auto
qed (simp add: resolve_iff [OF assms])

theorem object_paths_confined_witness:
  "ResolveObjectPath ex_storage ''photos'' ''a/x.txt'' = Inr ''/data/photos/a/x.txt'' \<and>
   ResolveObjectPath ex_storage ''photos'' ''../etc/passwd'' \<noteq> Inr ''/data/etc/passwd''"
proof -
  have "proper [''data'', ''photos'', ''a'', ''x.txt'']" by code_simp
  then show ?thesis
    using object_paths_confined [OF ex_storage_at ex_bucket_ok, of "''a/x.txt''" "''/data/photos/a/x.txt''"]
      object_paths_confined [OF ex_storage_at ex_bucket_ok, of "''../etc/passwd''" "''/data/etc/passwd''"]
      ex_key_ok(1) ex_key_bad
    by (simp add: abs_path_def slash_def)
qed

text \<open>
  C28.  A key the resolver refuses is answered with 400 \<open>InvalidKey\<close> by every object operation, before
  anything is touched.
\<close>

theorem refused_keys_touch_nothing:
  assumes "storage_at rs s" and "bucket_ok b" and "\<not> key_ok k"
  shows "\<exists>msg. OpenObject s b k w = (Inl (badRequest ''InvalidKey'' msg), w) \<and>
    PutObject s rnds b k body ct pub w = (Inl (badRequest ''InvalidKey'' msg), w) \<and>
    SetPublic s b k pub w = (Inl (badRequest ''InvalidKey'' msg), w) \<and>
    DeleteObject s b k w = (Inl (badRequest ''InvalidKey'' msg), w)"
  by (rule invalid_key [OF assms])

theorem refused_keys_touch_nothing_witness:
  "\<exists>msg. DeleteObject ex_storage ''photos'' ''../etc/passwd'' ex_world = (Inl (badRequest ''InvalidKey'' msg), ex_world)"
  using refused_keys_touch_nothing [OF ex_storage_at ex_bucket_ok ex_key_bad, of ex_world] by blast

section \<open>Uploads\<close>

text \<open>
  C4.  An upload is atomic.  Whatever fails, the buckets hold afterwards what they held before, or that
  with the new bytes under the key; if the upload reports success it is the latter, and if the body could
  not be read to its end it is the former.  No other object of any bucket changes, and no partial object
  is ever visible.
\<close>

theorem upload_atomic:
  assumes "storage_at rs s" "bucket_ok b" "key_ok k" "key_visible k" and "\<forall>r\<in>set rnds. slash \<notin> set r"
    and "PutObject s rnds b k body ct pub w = (res, w')"
  shows "case res of
      Inr e \<Rightarrow> stored_objects rs (wfs w') = store_put b (key_comps k) (bData body) (stored_objects rs (wfs w))
    | Inl e \<Rightarrow> stored_objects rs (wfs w') = stored_objects rs (wfs w) \<or>
        bErr body = None \<and> stored_objects rs (wfs w') = store_put b (key_comps k) (bData body) (stored_objects rs (wfs w))"
proof (cases res)
  case (Inl e)
  with put_refines(2) [OF assms(1-3,5,4,6)] put_refines(3) [OF assms(1-3,5,4,6)] show ?thesis
    by (cases "bErr body") auto
next
  case (Inr e)
  with put_refines(1) [OF assms(1-3,5,4,6)] show ?thesis by simp
qed

lemma ex_key_visible: "key_visible ''b.txt''" "key_visible ''a/x.txt''"
  by (simp_all add: key_visible_def)

theorem upload_atomic_witness:
  "stored_objects [''data''] (wfs (snd (PutObject ex_storage [''1''] ''photos'' ''b.txt''
      \<lparr>bData = ''hey'', bErr = Some (PlainErr ''unexpected EOF'')\<rparr> [] False ex_world_faulty))) =
   stored_objects [''data''] ex_fs"
proof -
  let ?b = "\<lparr>bData = ''hey'', bErr = Some (PlainErr ''unexpected EOF'')\<rparr>"
  obtain res w' where run: "PutObject ex_storage [''1''] ''photos'' ''b.txt'' ?b [] False ex_world_faulty = (res, w')"
    by force
  have "\<nexists>e. res = Inr e"
    using triple_case [OF PutObject_atomic [OF ex_storage_at ex_bucket_ok ex_key_ok(2) ex_temps_ok, of
          "file_at (wfs ex_world_faulty) (obj_path [''data''] ''photos'' ''b.txt'')" "wnow ex_world_faulty"], of ex_world_faulty ?b "[]" False res w']
      run by (auto simp: at_file_def)
  then show ?thesis
    using upload_atomic [OF ex_storage_at ex_bucket_ok ex_key_ok(2) ex_key_visible(1) _ run] run
    by (cases res) (auto simp: slash_def split: if_splits)
qed

text \<open>
  What was uploaded is what is downloaded: when nothing fails an upload returns the MD5 of the body,
  and the object is then opened with exactly those bytes, that ETag, the sanitised content type and the
  visibility of the upload, which is also what the authentication bypass sees.
\<close>

theorem upload_then_download:
  assumes "storage_at rs s" "bucket_ok b" "key_ok k" and "wfaults w = []" "fs_ok w" and "put_ready rs (wfs w) b k rnds"
    and "PutObject s rnds b k \<lparr>bData = d, bErr = None\<rparr> ct pub w = (res, w')"
  shows "res = Inr (etag_of d) \<and>
    OpenObject s b k w' = (Inr (d, summaryOf (stored_row (uploaded_row b k d ct pub (wnow w)))), w') \<and>
    IsPublic s b k w' = (Inr pub, w')"
proof -
  obtain g h where run: "PutObject s rnds b k \<lparr>bData = d, bErr = None\<rparr> ct pub w =
       (Inr (etag_of d), w\<lparr>wfs := h, wdb := ups_object (uploaded_row b k d ct pub (wnow w)) (wdb w)\<rparr>)"
    and wr: "written (wfs w) (obj_path rs b k) d (wnow w) g" "written g (side_path rs b k) (uploaded_meta d ct pub) (wnow w) h"
    by (rule PutObject_ok [OF assms(1-6)])
  with assms(7) have w': "res = Inr (etag_of d)"
    "w' = w\<lparr>wfs := h, wdb := ups_object (uploaded_row b k d ct pub (wnow w)) (wdb w)\<rparr>" by simp_all
  have q: "wfaults w' = []" and n: "fs_node (wfs w') (obj_path rs b k) = Some (File d (wnow w))"
    using assms(4) uploaded_node [OF assms(2,3) wr] by (simp_all add: w')
  have row: "sel_object b k (wdb w') = Some (stored_row (uploaded_row b k d ct pub (wnow w)))"
    by (simp add: w' sel_object_ups uploaded_row_def)
  have "OpenObject s b k w' = (Inr (d, summaryOf (stored_row (uploaded_row b k d ct pub (wnow w)))), w')"
    by (rule OpenObject_indexed [OF assms(1-3) q n row, of "etag_of d"]) (simp add: uploaded_row_def)
  moreover have "IsPublic s b k w' = (Inr pub, w')"
    using IsPublic_quiet [OF assms(1,2) q, of k] row assms(3) by (simp add: uploaded_row_def)
  ultimately show ?thesis using w'(1) by blast
qed

theorem upload_then_download_witness:
  "fst (OpenObject ex_storage ''photos'' ''b.txt'' (snd (PutObject ex_storage [''1''] ''photos'' ''b.txt''
     \<lparr>bData = ''hey'', bErr = None\<rparr> ''text/plain'' True ex_world))) =
   Inr (''hey'', summaryOf (stored_row (uploaded_row ''photos'' ''b.txt'' ''hey'' ''text/plain'' True 1700000000)))"
proof -
  obtain res w' where run: "PutObject ex_storage [''1''] ''photos'' ''b.txt'' \<lparr>bData = ''hey'', bErr = None\<rparr>
      ''text/plain'' True ex_world = (res, w')" by force
  from upload_then_download [OF ex_storage_at ex_bucket_ok ex_key_ok(2) _ _ _ this]
  show ?thesis by (simp add: run ex_fs_wf ex_put_ready)
qed

section \<open>Deletions and reads\<close>

text \<open>
  C6.  Deletion.  Whatever fails, every file but the object and its sidecar is afterwards what it was, and these
  two are what they were or gone.  A deletion that reports success has removed both, and the row of the key and
  no other row of the index.  One that fails has not touched the database; it has changed no file at all if the
  object is still there, so it loses a sidecar only after the object it describes.
\<close>

theorem deletion_exact:
  assumes "storage_at rs s" "bucket_ok b" "key_ok k" "fs_ok w" and "DeleteObject s b k w = (res, w')"
  shows "(\<forall>q. file_at (wfs w') q = file_at (wfs w) q \<or>
        q \<in> {rs @ b # key_comps k, rs @ [''.meta'', b] @ key_comps k} \<and> file_at (wfs w') q = None) \<and>
    (case res of
      Inr u \<Rightarrow> stored_objects rs (wfs w') = store_delete b (key_comps k) (stored_objects rs (wfs w)) \<and>
        file_at (wfs w') (rs @ b # key_comps k) = None \<and> file_at (wfs w') (rs @ [''.meta'', b] @ key_comps k) = None \<and>
        wdb w' = (wdb w)\<lparr>tblObjects := filter (\<lambda>r. \<not> (oBucket r = b \<and> oKey r = k)) (tblObjects (wdb w))\<rparr>
    | Inl e \<Rightarrow> stored_objects rs (wfs w') \<in>
          {stored_objects rs (wfs w), store_delete b (key_comps k) (stored_objects rs (wfs w))} \<and>
        (file_at (wfs w') (rs @ b # key_comps k) \<noteq> None \<longrightarrow> (\<forall>q. file_at (wfs w') q = file_at (wfs w) q)) \<and> wdb w' = wdb w)"
proof -
  let ?p = "rs @ b # key_comps k" and ?m = "rs @ [''.meta'', b] @ key_comps k"
  have frame: "file_at (wfs w') q = file_at (wfs w) q \<or>
      q \<in> {rs @ b # key_comps k, rs @ [''.meta'', b] @ key_comps k} \<and> file_at (wfs w') q = None" for q
    using triple_case [OF DeleteObject_outcome [OF assms(1-3), where q = q and x = "file_at (wfs w) q"] _ assms(5)] assms(4)
    by (auto split: sum.splits)
  have rows: "case res of Inl e \<Rightarrow> wdb w' = wdb w | Inr u \<Rightarrow> wdb w' = del_object b k (wdb w)"
    using triple_case [OF DeleteObject_rows refl assms(5)] by simp
  show ?thesis
  proof (cases res)
    case (Inl e)
    have side: "file_at (wfs w') ?m = file_at (wfs w) ?m" if "file_at (wfs w') ?p \<noteq> None"
      using triple_case [OF DeleteObject_order [OF assms(1-3), of "file_at (wfs w) ?m"] _ assms(5)] that assms(4) Inl by simp
    have "file_at (wfs w') q = file_at (wfs w) q" if "file_at (wfs w') ?p \<noteq> None" for q
      using frame [of q] side [OF that] that by (cases "q = ?m"; cases "q = ?p") auto
    moreover have "wdb w' = wdb w" using rows Inl by simp
    ultimately show ?thesis unfolding Inl sum.case using frame delete_refines(2) [OF assms Inl] by blast
  next
    case (Inr u)
    have "file_at (wfs w') (rs @ b # key_comps k) = None" "file_at (wfs w') (rs @ [''.meta'', b] @ key_comps k) = None"
      using triple_case [OF DeleteObject_outcome [OF assms(1-3), where q = "[]" and x = "file_at (wfs w) []"] _ assms(5)]
        assms(4) Inr by simp_all
    moreover have "wdb w' = (wdb w)\<lparr>tblObjects := filter (\<lambda>r. \<not> (oBucket r = b \<and> oKey r = k)) (tblObjects (wdb w))\<rparr>"
      using rows Inr by (simp add: del_object_def)
    ultimately show ?thesis unfolding Inr sum.case using frame delete_refines(1) [OF assms Inr] by blast
  qed
qed

theorem deletion_exact_witness:
  "case DeleteObject ex_storage ''photos'' ''a/x.txt'' ex_world of (res, w') \<Rightarrow>
     stored_objects [''data''] (wfs w') \<in>
       {stored_objects [''data''] ex_fs, store_delete ''photos'' [''a'', ''x.txt''] (stored_objects [''data''] ex_fs)}"
proof -
  obtain res w' where run: "DeleteObject ex_storage ''photos'' ''a/x.txt'' ex_world = (res, w')" by force
  from deletion_exact [OF ex_storage_at ex_bucket_ok ex_key_ok(1) _ this]
  show ?thesis by (cases res) (simp_all add: run ex_fs_wf)
qed

text \<open>
  A download returns the stored bytes of the key, and neither it nor a visibility change touches the
  bytes of any object, whatever fails.
\<close>

theorem downloads_read_the_store:
  assumes "storage_at rs s" "bucket_ok b" "key_visible k"
    and "OpenObject s b k w = (res, w')" and "SetPublic s b k pub w = (res2, w2)"
  shows "stored_objects rs (wfs w') = stored_objects rs (wfs w) \<and>
    stored_objects rs (wfs w2) = stored_objects rs (wfs w) \<and>
    (case res of Inr (d, m) \<Rightarrow> stored_objects rs (wfs w) b (key_comps k) = Some d | Inl e \<Rightarrow> True)"
  using open_refines [OF assms(1,2,4)] set_public_refines [OF assms(1,2,5)] assms(3)
  by (auto split: sum.splits)

theorem downloads_read_the_store_witness:
  "stored_objects [''data''] ex_fs ''photos'' [''a'', ''x.txt''] = Some ''hi''"
proof -
  have n: "fs_node (wfs ex_world) (obj_path [''data''] ''photos'' ''a/x.txt'') = Some (File ''hi'' 0)"
    unfolding ex_world_simps ex_comps by code_simp
  have "OpenObject ex_storage ''photos'' ''a/x.txt'' ex_world = (Inr (''hi'', summaryOf ex_row), ex_world)"
    by (rule OpenObject_indexed [OF ex_storage_at ex_bucket_ok ex_key_ok(1) _ n, of ex_row ex_etag])
      (simp_all add: ex_row_def)
  from downloads_read_the_store [OF ex_storage_at ex_bucket_ok ex_key_visible(2) this surjective_pairing]
  show ?thesis by simp
qed

text \<open>
  Visibility.  A visibility change that reports success is what the index holds, and the check that
  lets anonymous readers in answers with it from then on.
\<close>

theorem visibility_recorded:
  assumes "storage_at rs s" "bucket_ok b" "key_ok k" and "SetPublic s b k pub w = (Inr u, w')"
    and "wfaults v = []" and "wdb v = wdb w'"
  shows "IsPublic s b k v = (Inr pub, v)"
proof -
  obtain r where "sel_object b k (wdb w') = Some r" "oPublic r = pub" using SetPublic_row [OF assms(4)] by blast
  then show ?thesis using IsPublic_quiet [OF assms(1,2,5), of k] assms(3,6) by simp
qed

theorem visibility_recorded_witness:
  "fst (IsPublic ex_storage ''photos'' ''a/x.txt''
     (snd (SetPublic ex_storage ''photos'' ''a/x.txt'' True ex_world))) = Inr True"
proof -
  let ?p = "[''data'', ''photos'', ''a'', ''x.txt'']" and ?s = "[''data'', ''.meta'', ''photos'', ''a'', ''x.txt'']"
  have n: "fs_node ex_fs ?p = Some (File ''hi'' 0)" "fs_node ex_fs ?s = Some (File ex_side 0)" "writable ex_fs ?s"
    by (simp_all add: fs_node_def ex_fs_def writable_def file_above_def)
  then have m: "mETag (meta_on_disk ex_fs ?s) = Some (utf8_sanitize ex_etag)"
    by (simp add: meta_on_disk_def ex_side_def parse_marshal)
  obtain g where "SetPublic ex_storage ''photos'' ''a/x.txt'' True ex_world =
      (Inr (), ex_world\<lparr>wfs := g, wdb := ups_object (ex_row\<lparr>oPublic := True\<rparr>) ex_db\<rparr>)"
    by (rule SetPublic_ok [OF ex_storage_at ex_bucket_ok ex_key_ok(1), of ex_world "''hi''" 0 "utf8_sanitize ex_etag" ex_row True])
      (use n m in \<open>simp_all add: ex_fs_wf\<close>)
  from visibility_recorded [OF ex_storage_at ex_bucket_ok ex_key_ok(1) this, of "snd (SetPublic ex_storage ''photos'' ''a/x.txt'' True ex_world)"] this
  show ?thesis by simp
qed

section \<open>Sidecars\<close>

text \<open>
  C39.  Sidecars.  When \<open>writeMeta\<close> reports success, whatever has failed before it, \<open>readMeta\<close> reads back what it was
  given: the flag exactly, the content type sanitised, and the texts with invalid UTF-8 replaced as \<open>json.Marshal\<close>
  replaces it.  With nothing to keep no file is left.  No file but the sidecar of that key has changed.
\<close>

theorem sidecar_round_trip:
  assumes "storage_at rs s" "bucket_ok b" "key_ok k" "fs_ok w" and "writeMeta s b k ct pub e w = (Inr u, w')"
  shows "readMeta s b k (w'\<lparr>wfaults := []\<rparr>) =
      (Inr \<lparr>mContentType = map_option utf8_sanitize (sanitizeContentTypePtr ct), mPublic = pub, mETag = map_option utf8_sanitize e\<rparr>,
       w'\<lparr>wfaults := []\<rparr>) \<and>
    (sanitizeContentTypePtr ct = None \<and> \<not> pub \<and> e = None \<longrightarrow> fs_node (wfs w') (rs @ [''.meta'', b] @ key_comps k) = None) \<and>
    (\<forall>q. q \<noteq> rs @ [''.meta'', b] @ key_comps k \<longrightarrow> file_at (wfs w') q = file_at (wfs w) q)"
proof -
  let ?m = "\<lparr>mContentType = sanitizeContentTypePtr ct, mPublic = pub, mETag = e\<rparr>"
  have k: "key_clean k" using assms(3) by simp
  have side: "side_path rs b k = rs @ [''.meta'', b] @ key_comps k" by simp
  have frame: "file_at (wfs w') q = file_at (wfs w) q" if "q \<noteq> side_path rs b k" for q
    using keepsD [OF keeps_file_writeMeta [OF assms(1,2) k that, of "file_at (wfs w) q" ct pub e], of w] assms(5) by simp
  have disk: "(if sanitizeContentTypePtr ct = None \<and> \<not> pub \<and> e = None then fs_node (wfs w') (side_path rs b k) = None
      else file_at (wfs w') (side_path rs b k) = Some (marshalMeta ?m, wnow w))"
  proof (cases "sanitizeContentTypePtr ct = None \<and> \<not> pub \<and> e = None")
    case True
    then have "removeIfExists (metaPath s b k) w = (Inr u, w')" using assms(5) by (simp add: writeMeta_def)
    from removeIfExists_Inr(1) [OF this assms(4)] show ?thesis using True by (simp add: side_comps [OF assms(1,2) k])
  next
    case False
    then obtain v where v: "os_MkdirAll (Dir_of (metaPath s b k)) w = (Inr (), v)"
      "os_WriteFile (metaPath s b k) (marshalMeta ?m) v = (Inr u, w')"
      using assms(5) by (auto simp: writeMeta_def Let_def andThen_def split: prod.splits sum.splits if_splits)
    have "wnow v = wnow w" using now_MkdirAll v(1) .
    with WriteFile_Inr [OF v(2)] False show ?thesis unfolding side_comps [OF assms(1,2) k] by auto
  qed
  have "meta_on_disk (wfs w') (side_path rs b k) =
      \<lparr>mContentType = map_option utf8_sanitize (sanitizeContentTypePtr ct), mPublic = pub, mETag = map_option utf8_sanitize e\<rparr>"
    using disk by (auto simp: meta_on_disk_def file_at_Some parse_marshal no_meta_def split: if_splits)
  then show ?thesis using readMeta_quiet [OF assms(1,2) k, of "w'\<lparr>wfaults := []\<rparr>"] disk frame unfolding side
    by (auto split: if_splits)
qed

theorem sidecar_round_trip_witness:
  "\<exists>w'. writeMeta ex_storage ''photos'' ''b.txt'' (Some ''text/plain'') True (Some ''e'') ex_world = (Inr (), w') \<and>
     fst (readMeta ex_storage ''photos'' ''b.txt'' (w'\<lparr>wfaults := []\<rparr>)) =
       Inr \<lparr>mContentType = Some ''text/plain'', mPublic = True, mETag = Some ''e''\<rparr>"
proof -
  have "writable ex_fs (side_path [''data''] ''photos'' ''b.txt'')" by code_simp
  then have wr: "writable (wfs ex_world) (side_path [''data''] ''photos'' ''b.txt'')" by (simp only: ex_world_simps)
  have wf: "fs_ok ex_world" using ex_fs_wf by simp
  obtain g where w: "writeMeta ex_storage ''photos'' ''b.txt'' (Some ''text/plain'') True (Some ''e'') ex_world =
      (Inr (), ex_world\<lparr>wfs := g\<rparr>)"
    by (rule writeMeta_ok [OF ex_storage_at ex_bucket_ok key_ok_clean [OF ex_key_ok(2)] ex_world_simps(4) wf wr])
  have ct: "sanitizeContentTypePtr (Some ''text/plain'') = Some ''text/plain''"
    unfolding sanitizeContentTypePtr_def option.case by code_simp
  have u: "utf8_sanitize ''text/plain'' = ''text/plain''" "utf8_sanitize ''e'' = ''e''"
    by (rule utf8_sanitize_ascii; simp)+
  note r = conjunct1 [OF sidecar_round_trip [OF ex_storage_at ex_bucket_ok ex_key_ok(2) wf w], unfolded ct option.map u]
  show ?thesis by (rule exI, rule conjI [OF w], unfold r fst_conv, rule refl)
qed

section \<open>The index\<close>

lemma ex_photos:
  "fs_node ex_fs ([''data''] @ [''photos'']) = Some Directory" "bucket_files [''data''] ex_fs ''photos'' = [[''a'', ''x.txt'']]"
  by code_simp+

lemma ex_object_file: "object_file [''data''] ex_fs ''photos'' cs \<longleftrightarrow> cs = [''a'', ''x.txt'']"
  using bucket_files_set [OF ex_photos(1), of cs] by (auto simp: ex_photos(2))

lemma ex_side_ready: "object_file [''data''] ex_fs ''photos'' cs \<Longrightarrow> side_ready [''data''] ex_fs ''photos'' cs"
proof -
  assume "object_file [''data''] ex_fs ''photos'' cs"
  moreover have "fs_node ex_fs [''data'', ''.meta'', ''photos'', ''a'', ''x.txt''] = Some (File ex_side 0)"
    by (simp add: fs_node_def ex_fs_def)
  ultimately show ?thesis
    by (simp add: ex_object_file side_ready_def side_of_def meta_on_disk_def ex_side_def parse_marshal)
qed

text \<open>
  C16.  A reindex makes the index mirror the disk: afterwards the bucket has a row for every object file and
  for nothing else, and no row of another bucket has changed.  A row that was up to date is kept, the others
  are taken from the file and its sidecar.
\<close>

theorem reindex_mirrors_disk:
  assumes "storage_at rs s" "bucket_ok b" and "wfaults w = []" "fs_ok w" "fs_names (wfs w)"
    and "fs_node (wfs w) (rs @ [b]) = Some Directory"
    and "\<And>cs. object_file rs (wfs w) b cs \<Longrightarrow> side_ready rs (wfs w) b cs"
    and "ReindexBucket s b force w = (res, w')"
  shows "(\<exists>n. res = Inr n) \<and> index_synced rs (wfs w') b (wdb w') \<and>
    sel_object b' k (wdb w') =
      (if b' \<noteq> b then sel_object b' k (wdb w)
       else if \<exists>cs. object_file rs (wfs w) b cs \<and> k = comp_key cs
       then pass_row rs (wfs w) b force (wdb w) (key_comps k) else None)"
proof -
  obtain g where g: "ReindexBucket s b force w =
      (Inr (length (pass_upserts rs (wfs w) b force (wdb w)) + length (pass_deletes rs (wfs w) b (wdb w))),
       w\<lparr>wfs := g, wdb := fold (del_object b) (pass_deletes rs (wfs w) b (wdb w))
         (fold ups_object (pass_upserts rs (wfs w) b force (wdb w)) (wdb w))\<rparr>)"
    and same: "same_but_sides rs (wfs w) b (bucket_files rs (wfs w) b) g"
    by (rule ReindexBucket_quiet [OF assms(1-7)])
  show ?thesis
    using assms(8) g pass_lookup [OF assms(6,5), where b' = b' and k = k and d = "wdb w" and force = force]
      synced_after_pass [OF assms(6,5,2) same, where d = "wdb w" and force = force] by auto
qed

theorem reindex_mirrors_disk_witness:
  "\<exists>w'. (\<exists>n. ReindexBucket ex_storage ''photos'' True (ex_world\<lparr>wdb := \<lparr>tblBuckets = [], tblObjects = []\<rparr>\<rparr>) = (Inr n, w')) \<and>
     index_synced [''data''] (wfs w') ''photos'' (wdb w')"
proof -
  let ?w = "ex_world\<lparr>wdb := \<lparr>tblBuckets = [], tblObjects = []\<rparr>\<rparr>"
  obtain res w' where run: "ReindexBucket ex_storage ''photos'' True ?w = (res, w')" by force
  from reindex_mirrors_disk [OF ex_storage_at ex_bucket_ok _ _ _ _ _ run]
  have "(\<exists>n. res = Inr n) \<and> index_synced [''data''] (wfs w') ''photos'' (wdb w')"
    using ex_fs_wf ex_fs_names ex_photos(1) ex_side_ready by simp
  with run show ?thesis by blast
qed

text \<open>
  A pass over an index that is up to date is idle: \<open>ReindexBucket\<close> without force reports no change
  and leaves database and disk as they are, so the pass at every start costs nothing once it has run.
\<close>

theorem reindex_idempotent:
  assumes "storage_at rs s" "bucket_ok b" "wfaults w = []" "fs_names (wfs w)"
    and "fs_node (wfs w) (rs @ [b]) = Some Directory" and "index_synced rs (wfs w) b (wdb w)"
  shows "ReindexBucket s b False w = (Inr 0, w)"
  by (rule reindex_synced [OF assms])

theorem reindex_idempotent_witness: "ReindexBucket ex_storage ''photos'' False ex_world = (Inr 0, ex_world)"
proof (rule reindex_idempotent [OF ex_storage_at ex_bucket_ok])
  have "fs_node ex_fs [''data'', ''photos'', ''a'', ''x.txt''] = Some (File ''hi'' 0)" by (simp add: fs_node_def ex_fs_def)
  moreover have "comp_key [''a'', ''x.txt''] = ''a/x.txt''" by code_simp
  ultimately show "index_synced [''data''] (wfs ex_world) ''photos'' (wdb ex_world)"
    by (auto simp: index_synced_def ex_object_file ex_row_def ex_db_def sel_object_def split: if_splits)
qed (use ex_fs_names ex_photos(1) in simp_all)

text \<open>
  Updates that span several statements are all or nothing: when \<open>ApplyIndexChanges\<close> or
  \<open>DeleteBucket\<close> fails, whichever statement failed, the database is what it was; when it succeeds every
  change has been made.
\<close>

theorem database_updates_atomic:
  "wdb (snd (ApplyIndexChanges b upserts deletes w)) =
     (case fst (ApplyIndexChanges b upserts deletes w) of
        Inl e \<Rightarrow> wdb w | Inr u \<Rightarrow> fold (del_object b) deletes (fold ups_object upserts (wdb w))) \<and>
   wdb (snd (DeleteBucket n w)) =
     (case fst (DeleteBucket n w) of Inl e \<Rightarrow> wdb w | Inr u \<Rightarrow> del_bucket n (del_bucket_objects n (wdb w)))"
  by (intro conjI ApplyIndexChanges_atomic DeleteBucket_atomic prod.collapse [symmetric])

section \<open>Directories\<close>

text \<open>
  C29.  No empty directories.  Without faults, neither a deletion nor an upload leaves an empty directory below
  the bucket's: \<open>DeleteObject\<close> removes the directories that its key had filled, however deep, and stops at the
  bucket.
\<close>

theorem directories_stay_tidy:
  assumes "storage_at rs s" "bucket_ok b" "key_ok k" and "wfaults w = []" "fs_ok w" and "tidy (wfs w) (rs @ [b])"
  shows "(DeleteObject s b k w = (Inr u, w') \<longrightarrow> tidy (wfs w') (rs @ [b])) \<and>
    (put_ready rs (wfs w) b k rnds \<longrightarrow>
       tidy (wfs (snd (PutObject s rnds b k \<lparr>bData = d, bErr = None\<rparr> ct pub w))) (rs @ [b]))"
  using delete_tidy [OF assms] upload_tidy [OF assms(1-5) _ assms(6) prod.collapse [symmetric]] by blast

theorem directories_stay_tidy_witness:
  "tidy (wfs (snd (DeleteObject ex_storage ''photos'' ''a/x.txt'' ex_one_world))) [''data'', ''photos'']"
proof -
  obtain w' where run: "DeleteObject ex_storage ''photos'' ''a/x.txt'' ex_one_world = (Inr (), w')"
    using ex_one_delete by (cases "DeleteObject ex_storage ''photos'' ''a/x.txt'' ex_one_world") simp
  have "wfaults ex_one_world = []" by (simp add: ex_one_world_def ex_empty_world_def)
  with directories_stay_tidy [OF ex_storage_at ex_bucket_ok ex_key_ok(1), of ex_one_world "()" w'] run ex_one_tidy ex_one_wf
  show ?thesis by simp
qed

section \<open>Listings\<close>

text \<open>
  A listing is complete and ordered: whatever the page limit, a client that follows \<open>nextCursor\<close> gets
  every object of the bucket whose key matches the prefix, once, in key order, and stops after at most as many
  pages as there are rows, plus one.
\<close>

theorem listing_complete:
  assumes "wfaults w = []" "db_ok w" and "bucket_rows b (wdb w) \<noteq> []" "\<forall>r\<in>set (bucket_rows b (wdb w)). oKey r \<noteq> []"
  shows "list_all_pages s b pfx limit (Suc (length (bucket_rows b (wdb w)))) [] w =
    (Inr (map summaryOf (matching_rows b pfx (wdb w))), w)"
  by (rule list_all_complete [OF assms]) simp

theorem listing_complete_witness:
  "list_all_pages ex_storage ''photos'' [] 1 2 [] ex_world = (Inr [summaryOf ex_row], ex_world)"
proof -
  have r: "bucket_rows ''photos'' ex_db = [ex_row]" by (simp add: bucket_rows_def ex_db_def ex_row_def)
  have m: "matching_rows ''photos'' [] ex_db = [ex_row]" by (simp add: matching_rows_def r prefix_filter_def)
  from listing_complete [of ex_world "''photos''" ex_storage "[]" 1] r m show ?thesis
    by (simp add: ex_db_wf ex_row_def numeral_2_eq_2)
qed

text \<open>
  A page is what it says: between 1 and 1000 keys at most, as the limit asks, in strictly ascending order,
  each after the cursor and starting with the prefix, and truncated only if a row was left out.
\<close>

theorem page_well_formed:
  assumes "db_ok w" and "ListObjects s b pfx limit cursor w = (Inr resp, w')"
  shows "\<exists>rows. lObjects resp = map summaryOf rows \<and> KeyCount resp = length rows \<and>
      int (length rows) \<le> min (max limit 1) 1000 \<and> sorted_wrt (<) (map oKey rows) \<and>
      list_all (\<lambda>r. r \<in> set (tblObjects (wdb w')) \<and> oBucket r = b \<and> cursor < oKey r \<and> HasPrefix (oKey r) pfx) rows \<and>
      (IsTruncated resp \<longleftrightarrow> length rows < length (filter (\<lambda>r. cursor < oKey r) (matching_rows b pfx (wdb w')))) \<and>
      NextCursor resp = (if IsTruncated resp then Some (oKey (last rows)) else None)"
proof -
  let ?after = "filter (\<lambda>r. cursor < oKey r) (matching_rows b pfx (wdb w'))" and ?l = "list_limit limit"
  let ?rows = "take ?l ?after"
  have wf: "db_wf (wdb w')" using keepsD [OF keeps_db_storage(7), of w] assms by (metis snd_conv)
  have l: "0 < ?l" "int ?l = min (max limit 1) 1000" by (simp_all add: list_limit_def MaxListLimit_def min_def max_def)
  have resp: "resp = page_response ?l (take (?l + 1) ?after)"
    using ListObjects_Inr [OF assms(2)] by (simp add: listing.page_take)
  have "sorted (map oKey ?after)" by (rule sorted_filter) (rule matching_rows_ordered(1))
  moreover have "distinct (map oKey ?after)"
    using matching_rows_ordered(2) [OF wf] by (auto simp: distinct_map inj_on_def)
  ultimately have "sorted_wrt (<) (map oKey ?rows)"
    by (simp add: strict_sorted_iff sorted_wrt_take flip: take_map)
  moreover have "list_all (\<lambda>r. r \<in> set (tblObjects (wdb w')) \<and> oBucket r = b \<and> cursor < oKey r \<and> HasPrefix (oKey r) pfx) ?rows"
    by (auto simp: list_all_iff matching_rows_def bucket_rows_def prefix_filter_sound dest!: in_set_takeD)
  moreover have "last ?rows = ?after ! (?l - 1)" if "?l < length ?after"
    using that l(1) last_conv_nth [of ?rows] by (cases "?rows = []") (simp_all add: min_def)
  ultimately show ?thesis
    using l by (intro exI [of _ ?rows]) (auto simp: resp page_response_def min_def)
qed

theorem page_well_formed_witness:
  "\<exists>resp. ListObjects ex_storage ''photos'' [] 0 [] ex_world = (Inr resp, ex_world) \<and> KeyCount resp \<le> 1"
proof -
  have "bucket_rows ''photos'' ex_db \<noteq> []" by (simp add: bucket_rows_def ex_db_def ex_row_def)
  then obtain resp where run: "ListObjects ex_storage ''photos'' [] 0 [] ex_world = (Inr resp, ex_world)"
    using ListObjects_page [of ex_world "[]" "[]" "''photos''" ex_storage 0] by simp
  from page_well_formed [OF _ run] have "KeyCount resp \<le> 1" by (auto simp: ex_db_wf)
  with run show ?thesis by blast
qed

text \<open>
  C30.  A listing is never silently empty: when the index has no row of a bucket whose directory holds
  object files, the first page rebuilds the index from the disk before it is read.
\<close>

theorem listing_self_heals:
  assumes "storage_at rs s" "bucket_ok b" "wfaults w = []" "fs_ok w" "fs_names (wfs w)"
    and "fs_node (wfs w) (rs @ [b]) = Some Directory"
    and "\<And>cs. object_file rs (wfs w) b cs \<Longrightarrow> side_ready rs (wfs w) b cs"
    and "bucket_rows b (wdb w) = []" "bucket_files rs (wfs w) b \<noteq> []"
  shows "\<exists>w'. ListObjects s b [] limit [] w =
      (Inr (page_response (list_limit limit) (sel_page b [] [] (list_limit limit + 1) (wdb w'))), w') \<and>
    index_synced rs (wfs w') b (wdb w')"
  using ListObjects_heals [OF assms] by metis

theorem listing_self_heals_witness:
  "\<exists>resp w'. ListObjects ex_storage ''photos'' [] 10 [] (ex_world\<lparr>wdb := \<lparr>tblBuckets = [], tblObjects = []\<rparr>\<rparr>) = (Inr resp, w') \<and>
     index_synced [''data''] (wfs w') ''photos'' (wdb w')"
  using listing_self_heals [OF ex_storage_at ex_bucket_ok, of "ex_world\<lparr>wdb := \<lparr>tblBuckets = [], tblObjects = []\<rparr>\<rparr>" 10]
    ex_fs_wf ex_fs_names ex_photos ex_side_ready
  by (fastforce simp: bucket_rows_def)

text \<open>
  The SQL prefix filter is the byte prefix: for keys without NUL and a prefix that does not end inside a
  character, a key passes if and only if it starts with the prefix.
\<close>

theorem prefix_filter_exact:
  assumes "CHR 0x00 \<notin> set k" and "drop (length p) k = [] \<or> \<not> is_cont (hd (drop (length p) k))"
  shows "prefix_filter p k \<longleftrightarrow> HasPrefix k p"
proof
  assume "HasPrefix k p"
  then have "k = p @ drop (length p) k" by (auto simp: prefix_def)
  with assms show "prefix_filter p k" by (intro prefix_filter_complete)
qed (rule prefix_filter_sound)

theorem prefix_filter_exact_witness: "prefix_filter ''a/'' ''a/x.txt'' \<and> \<not> prefix_filter ''A'' ''a/x.txt''"
  using prefix_filter_exact [of "''a/x.txt''" "''a/''"] prefix_filter_exact [of "''a/x.txt''" "''A''"]
  by (simp add: is_cont_def)

text \<open>
  C33.  The statistics agree with the listing: the number of objects and the total of the sizes are those of
  the rows a complete listing with the same prefix returns, and the objects that are not in a folder are the
  top-level files.
\<close>

theorem statistics_match_listing:
  assumes "wfaults w = []" and "Stats b pfx w = (Inr st, w')"
  shows "w' = w \<and> Objects st = int (length (matching_rows b pfx (wdb w))) \<and>
    TotalBytes st = sum_list (map oSize (matching_rows b pfx (wdb w))) \<and>
    TopLevelFiles st = int (length (filter (\<lambda>r. top_folder (oKey r) = None) (matching_rows b pfx (wdb w)))) \<and>
    TotalBytes st < 2 ^ 63"
proof -
  let ?rows = "filter (\<lambda>r. prefix_filter pfx (oKey r)) (bucket_rows b (wdb w))"
  have perm: "mset (matching_rows b pfx (wdb w)) = mset ?rows" by (simp add: matching_rows_def)
  have len: "length (matching_rows b pfx (wdb w)) = length ?rows" by (simp add: matching_rows_def)
  have sum: "sum_list (map oSize (matching_rows b pfx (wdb w))) = sum_list (map oSize ?rows)"
  proof -
    have m: "sum_list (map oSize rs) = sum_mset (image_mset oSize (mset rs))" for rs
      by (simp flip: sum_mset_sum_list)
    show ?thesis unfolding m perm ..
  qed
  have "top_folder k = None \<longleftrightarrow> sql_instr k (CHR ''/'') = 0" for k by (simp add: top_folder_def)
  then have files: "length (filter (\<lambda>r. top_folder (oKey r) = None) (matching_rows b pfx (wdb w))) =
      length (filter (\<lambda>r. sql_instr (oKey r) (CHR ''/'') = 0) ?rows)"
    by (simp add: matching_rows_def filter_sort del: filter_filter)
  show ?thesis
    using assms unfolding len sum files
    by (auto simp: Stats_quiet sel_stats_def Let_def split: if_splits)
qed

theorem statistics_match_listing_witness:
  "\<exists>st. Stats ''photos'' [] ex_world = (Inr st, ex_world) \<and> Objects st = 1"
proof -
  have r: "bucket_rows ''photos'' ex_db = [ex_row]" by (simp add: bucket_rows_def ex_db_def ex_row_def)
  then have m: "matching_rows ''photos'' [] ex_db = [ex_row]" by (simp add: matching_rows_def prefix_filter_def)
  obtain st where run: "Stats ''photos'' [] ex_world = (Inr st, ex_world)"
    by (simp add: Stats_quiet sel_stats_def r prefix_filter_def ex_row_def)
  from statistics_match_listing [OF _ run] m run show ?thesis by simp
qed

end
