(* ===== verification/ServerProperties.thy ===== *)
theory ServerProperties
  imports ServerExamples
begin

text \<open>
  Properties of the request pipeline: who is let in, what an entitled or an anonymous request can do, the
  life of presigned URLs and of keys, the admin routes, and the invariant of all requests.
\<close>

section \<open>Who is let in\<close>



text \<open>
  C1.  Without an identity a request can do nothing.  Whatever its method and its path below \<open>/buckets/\<close>, also
  one the regular expressions do not recognise, and whatever fails, it is answered with an error and neither
  files nor database change.
\<close>

theorem nothing_without_identity:
  assumes "storage_at rs (storage s)" "names_ok (wdb w)" "rAuth r = None" "HasPrefix (rPath r) ''/buckets/''"
    and "\<And>name a. bucketPathRe (rPath r) = Some name \<Longrightarrow> \<not> grants rs s r name w a"
  shows "\<exists>rsp w'. Handler s t0 srv r w = (rsp, w') \<and> same_state w w' \<and> rsStatus rsp \<in> {401, 403, 404, 405, 500}"
  by (rule unauthenticated_harmless [OF assms])

theorem nothing_without_identity_witness:
  "same_state ex_world (snd (Handler ex_server 0 False (ex_request ''DELETE'' ''/buckets/photos/objects/a/x.txt'') ex_world))"
  using nothing_without_identity [of "[''data'']" ex_server ex_world
      "ex_request ''DELETE'' ''/buckets/photos/objects/a/x.txt''" 0 False] ex_not_granted
  by (fastforce simp: ex_storage_at ex_names_ok ex_path)

text \<open>
  C23.  What the public can do is read.  A request let in because its object is public runs nothing but the
  download of exactly that object: it changes no bytes, no bucket and no row of another object, and what it
  serves are the stored bytes of that object.
\<close>

theorem public_access_reads_only:
  assumes "storage_at rs (storage s)" "names_ok (wdb w)" "bucketPathRe (rPath r) = Some name"
    and "grants rs s r name w a" "viaPublic a" and "router s t0 srv (r\<lparr>rAuth := Some a\<rparr>) w = (rsp, w')"
  shows "\<exists>key. rPath r = object_route name key \<and> object_public rs name key w \<and>
    stored_objects rs (wfs w') = stored_objects rs (wfs w) \<and> tblBuckets (wdb w') = tblBuckets (wdb w) \<and>
    (\<forall>b k. (b, k) \<noteq> (name, key) \<longrightarrow> sel_object b k (wdb w') = sel_object b k (wdb w)) \<and>
    (\<forall>t d. rsBody rsp = ServeContent t d \<longrightarrow> key_visible key \<longrightarrow> stored_objects rs (wfs w) name (key_comps key) = Some d)"
  by (rule public_request_reads [OF assms])

definition ex_public_world :: world where
  "ex_public_world = ex_world\<lparr>wdb := ups_object (ex_row\<lparr>oPublic := True\<rparr>) ex_db\<rparr>"

theorem public_access_reads_only_witness:
  "tblBuckets (wdb (snd (router ex_server 0 False ((ex_request ''GET'' ''/buckets/photos/objects/a/x.txt'')
      \<lparr>rAuth := Some \<lparr>aBucket = ex_bucket, viaPublic = True, presignExpires = 0\<rparr>\<rparr>) ex_public_world))) = [ex_bucket]"
proof -
  let ?r = "ex_request ''GET'' ''/buckets/photos/objects/a/x.txt''"
  let ?a = "\<lparr>aBucket = ex_bucket, viaPublic = True, presignExpires = 0\<rparr>"
  have w: "wdb ex_public_world = ups_object (ex_row\<lparr>oPublic := True\<rparr>) ex_db" by (simp add: ex_public_world_def)
  have row: "sel_object ''photos'' ''a/x.txt'' (wdb ex_public_world) = Some (stored_row (ex_row\<lparr>oPublic := True\<rparr>))"
    by (simp add: w sel_object_ups ex_row_def)
  have pub: "object_public [''data''] ''photos'' ''a/x.txt'' ex_public_world"
    using ex_key_ok(1) by (simp add: object_public_def row)
  have g: "grants [''data''] ex_server ?r ''photos'' ex_public_world ?a"
    using pub by (intro grants.by_public [where key = "''a/x.txt''"]) (simp_all add: object_route_def newline_def w)
  have nm: "names_ok (wdb ex_public_world)" using ex_names_ok by (simp add: w names_ok_def)
  obtain rsp w' where run: "router ex_server 0 False (?r\<lparr>rAuth := Some ?a\<rparr>) ex_public_world = (rsp, w')" by force
  have "tblBuckets (wdb w') = tblBuckets (wdb ex_public_world)"
    using public_access_reads_only [OF _ nm _ g _ run] by (auto simp: ex_storage_at ex_path)
  then show ?thesis by (simp add: run w ex_db_def)
qed

section \<open>Presigned URLs\<close>

text \<open>
  C21.  A minted URL works, for what it was minted for and as long as it says.  \<open>presign\<close> changes nothing; the
  method and the key of its URL are those of the request body, and its expiry is the requested number of seconds
  away, between one second and the configured maximum.  A request that follows it with its method, while the
  bucket keeps its row, is let through by the whole pipeline to the object route of exactly that key until the
  expiry, with the expiry in its identity, and after that is answered 403, unless it reads a public object.  A
  URL to a key with a newline is answered 401, since the regular expressions of the middleware do not match it.
\<close>

theorem presigned_url_works:
  assumes "storage_at rs (storage s)" "presign s r w = (Inr rsp, w')" "rsBody rsp = PresignBody url mth e" "rAuth r = Some a"
    and "follows_url (TrimRightChar (base_url s r) slash) url r'" "rMethod r' = mth"
    and "live_bucket v (aBucket a)" "wfaults v = []"
  shows "w' = w \<and> (\<exists>req. decodeJSON presign_schema r = Inr req \<and>
    (let key = get_string presign_schema ''key'' req; secs = get_int64 presign_schema ''expiresInSeconds'' req;
         pub = mth = ''GET'' \<and> object_public rs (pvBucket r) key v in
     mth = get_string presign_schema ''method'' req \<and> e = now_unix w + secs \<and>
     1 \<le> sint secs \<and> sint secs \<le> min 604800 (sint (MaxPresignExpirySeconds (cfg s))) \<and>
     rPath r' = object_route (pvBucket r) key \<and>
     (if newline \<in> set key then \<exists>rsp. Handler s t0 fe r' v = (rsp, v) \<and> rsStatus rsp = 401
      else if pub \<or> sint (now_unix v) \<le> sint e then
        Handler s t0 fe r' v =
          dispatch [(''GET'', getObject s), (''HEAD'', getObject s), (''PUT'', putObject s), (''DELETE'', deleteObject s)]
            (r'\<lparr>rAuth := Some \<lparr>aBucket = aBucket a, viaPublic = pub, presignExpires = (if pub then 0 else e)\<rparr>,
               pvBucket := pvBucket r, pvKey := key\<rparr>) v
      else \<exists>rsp. Handler s t0 fe r' v = (rsp, v) \<and> rsStatus rsp = 403)))"
proof -
  obtain secret key secs req where req: "decodeJSON presign_schema r = Inr req" "key = get_string presign_schema ''key'' req"
    "mth = get_string presign_schema ''method'' req" "secs = get_int64 presign_schema ''expiresInSeconds'' req"
    and "minted s r w rsp a secret key mth secs"
    using presign_minted [OF assms(2)] assms(3,4) by (auto simp: minted_def writeJSON_def)
  then have m: "Name (aBucket a) = pvBucket r" "mth \<in> {''GET'', ''PUT''}" "TrimSpace key \<noteq> []" "1 \<le> sint secs" "sint secs \<le> 604800"
    "sint secs \<le> sint (MaxPresignExpirySeconds (cfg s))"
    "DecryptSecret (crypto s) (EncryptedSecretKey (aBucket a)) = Inr secret" "e = now_unix w + secs"
    "url = signed_url (TrimRightChar (base_url s r) slash) (aBucket a) secret mth key e"
    using assms(3,4) by (auto simp: minted_def writeJSON_def)
  note f = assms(5) [unfolded m(9)]
  have p: "rPath r' = object_route (pvBucket r) key" using follows_signed_url(1) [OF f] m(1) by simp
  have kn: "key \<noteq> []" using m(3) by auto
  note h = Handler_presigned [OF assms(1,7,8) f assms(6) m(2,7) kn, of t0 fe, unfolded m(1)]
  have nl: "\<exists>rsp. Handler s t0 fe r' v = (rsp, v) \<and> rsStatus rsp = 401" if "newline \<in> set key"
    using Handler_newline [OF p _ _ that] live_bucketD [OF assms(7)] assms(6) m(1,2) by simp
  show ?thesis
    using presign_pure [OF assms(2)] req(1) nl h p m(4-6,8) unfolding req(2,3,4) [symmetric] Let_def
    by (intro conjI exI [of _ req]) (auto simp: req(2-4) [symmetric] writeError_def writeJSON_def status_defs)
qed

theorem presigned_url_works_witness:
  "Handler ex_server 0 False ex_follow ex_world =
     dispatch [(''GET'', getObject ex_server), (''HEAD'', getObject ex_server), (''PUT'', putObject ex_server), (''DELETE'', deleteObject ex_server)]
       (ex_follow\<lparr>rAuth := Some \<lparr>aBucket = ex_bucket, viaPublic = False, presignExpires = 61\<rparr>, pvBucket := ''photos'',
          pvKey := ''a/x.txt''\<rparr>) ex_world"
proof -
  have "TrimSpace ''https://s3.example'' \<noteq> []"
    by (rule TrimSpace_not_blank [of "CHR ''e''"]) (simp_all add: solid_def)
  then have u: "TrimRightChar (base_url ex_server ex_presign_request) slash = ''https://s3.example''"
    by (simp add: base_url_def TrimRightChar_def slash_def)
  have r: "rAuth ex_presign_request = Some \<lparr>aBucket = ex_bucket, viaPublic = False, presignExpires = 0\<rparr>"
    "pvBucket ex_presign_request = ''photos''" "rMethod ex_follow = ''GET''"
    by (simp_all add: ex_presign_request_def ex_follow_def)
  have t: "sint (now_unix ex_world) \<le> sint (61 :: int64)" "newline \<notin> set ''a/x.txt''" by (simp_all add: now_unix_def newline_def)
  from presigned_url_works [OF _ ex_presign_run _ r(1) _ r(3), where rs = "[''data'']" and v = ex_world and e = 61
      and url = "signed_url ''https://s3.example'' ex_bucket ''s3cr3t'' ''GET'' ''a/x.txt'' 61" and fe = False and ?t0.0 = 0] t ex_private
  show ?thesis
    by (simp add: u ex_follows r(2) writeJSON_def ex_storage_at ex_live_bucket ex_presign_decode ex_presign_values Let_def)
qed

text \<open>
  C22.  An expired URL gives nothing.  Once its expiry has passed, a URL to an object that is not public, or to
  upload, is answered with an error by the whole pipeline, and no state changes.
\<close>

theorem expired_url_refused:
  assumes "storage_at rs (storage s)" "names_ok (wdb v)" "rAuth r = None"
    and "follows_url base (signed_url base b secret mth key e) r" "rMethod r = mth" "mth = ''PUT'' \<or> mth = ''GET'' \<and> \<not> object_public rs (Name b) key v"
    and "sel_bucket_by_key (AccessKey b) (wdb v) = Some b" "AccessKey b \<noteq> []"
      "DecryptSecret (crypto s) (EncryptedSecretKey b) = Inr secret"
    and "sint e < sint (now_unix v)"
  shows "\<exists>rsp v'. Handler s t0 srv r v = (rsp, v') \<and> same_state v v' \<and> rsStatus rsp \<in> {401, 403, 404, 405, 500}"
proof (rule unauthenticated_harmless [OF assms(1-3)])
  have path: "rPath r = object_route (Name b) key" by (rule follows_signed_url(1) [OF assms(4)])
  then show "HasPrefix (rPath r) ''/buckets/''" by (simp add: object_route_def)
  have "b \<in> set (tblBuckets (wdb v))" using assms(7) sel_bucket_by_keyD by blast
  then have b: "slash \<notin> set (Name b)" using assms(2) by (auto simp: names_ok_def bucket_ok_def proper_comp_def)
  show "\<not> grants rs s r name v a" if "bucketPathRe (rPath r) = Some name" for name a
  proof
    assume g: "grants rs s r name v a"
    have n: "name = Name b" using bucketPathRe_object_route [of "Name b" key name] that path b by simp
    show False
    proof (cases "viaPublic a")
      case True
      with g obtain k where "rPath r = object_route name k" "rMethod r = ''GET'' \<or> rMethod r = ''HEAD''" "object_public rs name k v"
        using grants_public_route by blast
      then show False using path n assms(5,6) by (auto simp: object_route_inject)
    next
      case False
      with signed_url_identity [OF assms(4,7) g] assms(10) show False by simp
    qed
  qed
qed

theorem expired_url_refused_witness:
  "same_state (ex_world\<lparr>wnow := 100000000000\<rparr>) (snd (Handler ex_server 0 False ex_follow (ex_world\<lparr>wnow := 100000000000\<rparr>)))"
proof -
  let ?v = "ex_world\<lparr>wnow := 100000000000\<rparr>"
  have "\<not> object_public [''data''] ''photos'' ''a/x.txt'' ?v" using ex_private by (simp add: object_public_def)
  from expired_url_refused [OF _ _ _ ex_follows, of "[''data'']" ex_server ?v 0 False] this
  show ?thesis
    by (fastforce simp: ex_storage_at ex_names_ok ex_follow_def now_unix_def)
qed

text \<open>
  A presigned response is not cached past its URL.  The \<open>max-age\<close> of a response to a presigned request is a
  number of seconds from 0 to 300 that ends no later than the expiry.
\<close>

theorem cache_ends_with_url:
  assumes "\<not> viaPublic a" "0 < sint (presignExpires a)" "sint (presignExpires a) < 2 ^ 62"
    and "0 \<le> now" "now < 2 ^ 62" "now div 1000000000 \<le> sint (presignExpires a)"
  shows "\<exists>n. cacheControl a now = ''private, max-age='' @ format_int n \<and> 0 \<le> n \<and> n \<le> 300 \<and>
    n * 1000000000 \<le> max 0 (sint (presignExpires a) * 1000000000 - now)"
  by (rule cacheControl_presigned [OF assms])

theorem cache_ends_with_url_witness:
  "\<exists>n. cacheControl \<lparr>aBucket = ex_bucket, viaPublic = False, presignExpires = 61\<rparr> 1700000000 =
     ''private, max-age='' @ format_int n \<and> 0 \<le> n \<and> n * 1000000000 \<le> 59300000000"
  using cache_ends_with_url [of "\<lparr>aBucket = ex_bucket, viaPublic = False, presignExpires = 61\<rparr>" 1700000000]
  by (auto simp: max_def)

section \<open>Signed headers\<close>

text \<open>
  A client that signs its header is let in exactly within the clock window: with the header written for the
  bucket's key, the method, the path and a time, the request has the bucket's identity if and only if the
  difference of the clocks, computed on 64 bits, is at most the configured skew.
\<close>

theorem signed_header_accepted:
  assumes "HeaderGet r ''Authorization'' = client_header (AccessKey b) ts (Sign secret (StringToSign (rMethod r) (rPath r) ts))"
    and "\<not> QueryHas (req_query r) ''AccessKey''"
    and "sel_bucket_by_key (AccessKey b) (wdb w) = Some b" "AccessKey b \<noteq> []" "CHR '','' \<notin> set (AccessKey b)"
      "DecryptSecret (crypto s) (EncryptedSecretKey b) = Inr secret"
  shows "grants rs s r (Name b) w \<lparr>aBucket = b, viaPublic = False, presignExpires = 0\<rparr> \<longleftrightarrow>
    sint (clock_skew (now_unix w) ts) \<le> sint (ClockSkewSeconds (cfg s))"
  by (rule header_request_granted [OF assms])

theorem signed_header_accepted_witness:
  "grants [''data''] ex_server ((ex_request ''DELETE'' ''/buckets/photos/objects/a/x.txt'')
      \<lparr>rHeader := [(''Authorization'', [client_header ''AK1'' 200
         (Sign ''s3cr3t'' (StringToSign ''DELETE'' ''/buckets/photos/objects/a/x.txt'' 200))])]\<rparr>)
     ''photos'' ex_world \<lparr>aBucket = ex_bucket, viaPublic = False, presignExpires = 0\<rparr>"
proof -
  let ?r = "(ex_request ''DELETE'' ''/buckets/photos/objects/a/x.txt'')
      \<lparr>rHeader := [(''Authorization'', [client_header ''AK1'' 200
         (Sign ''s3cr3t'' (StringToSign ''DELETE'' ''/buckets/photos/objects/a/x.txt'' 200))])]\<rparr>"
  have "\<not> QueryHas (req_query ?r) ''AccessKey''"
    by (simp add: ParseQuery_def parse_pair_def List.map_filter_def QueryHas_def)
  moreover have "sint (clock_skew 1 200) \<le> 300" by (simp add: clock_skew_def)
  ultimately show ?thesis
    using signed_header_accepted [of ?r ex_bucket 200 "''s3cr3t''" ex_world ex_server "[''data'']"]
    by (simp add: HeaderGet_def)
qed

text \<open>
  C34.  The clock window.  \<open>verifyHeader\<close> accepts a header if and only if it parses, its signature is the one of the
  request at its timestamp, and the skew fits the window.  The skew is the distance of the two clocks as long as
  that is less than \<open>2^63\<close> seconds; beyond, the 64-bit arithmetic makes it smaller again, and at exactly \<open>2^63\<close> it
  is negative, so that the header passes every window that is not.
\<close>

theorem clock_window:
  "verifyHeader now mth path secret m window \<longleftrightarrow>
    (\<exists>hm ts. m = Some hm \<and> ParseInt (hmTimestamp hm) = Some ts \<and>
       hmSignature hm = Sign secret (StringToSign mth path ts) \<and>
       (let d = \<bar>sint now - sint ts\<bar> in
        if d < 2 ^ 63 then d else if d = 2 ^ 63 then - (2 ^ 63) else 2 ^ 64 - d) \<le> sint window)"
proof -
  have skew: "(let d = now - ts; k = (if sint d < 0 then - d else d) in P k) \<longleftrightarrow> P (clock_skew now ts)" for P ts
    by (simp add: clock_skew_def Let_def)
  have val: "sint (clock_skew now ts) = (let d = \<bar>sint now - sint ts\<bar> in
      if d < 2 ^ 63 then d else if d = 2 ^ 63 then - (2 ^ 63) else 2 ^ 64 - d)" for ts
    using clock_skew_distance [of now ts] clock_skew_far [of now ts] by (simp add: Let_def not_less)
  have sig: "SignatureMatches a b \<longleftrightarrow> b = a" for a b
    using constant_time_compare_iff [of a b] by (auto simp: SignatureMatches_def)
  have gen: "(if a < x then False else S) \<longleftrightarrow> S \<and> x \<le> a" for a x :: int and S by auto
  have opt: "(case m of None \<Rightarrow> False | Some hm \<Rightarrow> case f hm of None \<Rightarrow> False | Some ts \<Rightarrow> P hm ts) \<longleftrightarrow>
      (\<exists>hm ts. m = Some hm \<and> f hm = Some ts \<and> P hm ts)" for f :: "header_match \<Rightarrow> int64 option" and P
    by (auto split: option.splits)
  show ?thesis unfolding verifyHeader_def skew val sig gen opt by (rule refl)
qed

section \<open>The admin routes\<close>

text \<open>
  C24.  The admin key guards every admin route.  A request below \<open>/admin\<close> reaches the router if and only if it
  carries the configured key and that is not blank; otherwise it is answered 401 or 500 and nothing changes.
\<close>

theorem admin_routes_guarded:
  assumes "admin_path (rPath r)" "rAuth r = None"
  shows "if admin_ok s r then Handler s t0 srv r w = router s t0 srv r w
    else \<exists>rsp. Handler s t0 srv r w = (rsp, w) \<and> rsStatus rsp \<in> {401, 500}"
  using admin_pipeline [OF assms] by simp

theorem admin_routes_guarded_witness:
  "snd (Handler ex_server 0 False (ex_request ''DELETE'' ''/admin/buckets/photos'') ex_world) = ex_world"
proof -
  let ?r = "ex_request ''DELETE'' ''/admin/buckets/photos''"
  have "\<not> admin_ok ex_server ?r" by (simp add: admin_ok_def)
  moreover have "admin_path (rPath ?r)" by (simp add: admin_path_def)
  ultimately show ?thesis using admin_routes_guarded [of ?r ex_server 0 False ex_world] by auto
qed

text \<open>
  C25.  Rotation.  Whatever fails, rotating a bucket's key touches no file and no object row.  If it reports
  success, the returned access key belongs to the bucket and its stored secret decrypts to the returned one;
  the old access key, unless drawn again, belongs to no bucket, so no request that presents it has a
  credential; and the bucket's row in place, with nothing but its two key columns replaced, is all that has
  changed in the table of buckets.
\<close>

theorem rotation_replaces_key:
  assumes "db_ok w" "sel_bucket (pvName r) (wdb w) = Some b" "rotateBucketKey s r w = (res, w')"
  shows "wfs w' = wfs w \<and> tblObjects (wdb w') = tblObjects (wdb w) \<and>
    (case res of
       Inl e \<Rightarrow> wdb w' = wdb w
     | Inr rsp \<Rightarrow>
         (\<exists>ak secret b'. rsBody rsp = CredentialsBody (pvName r) ak secret (CreatedAt b) (Description b) \<and>
            sel_bucket_by_key ak (wdb w') = Some b' \<and> Name b' = pvName r \<and>
            DecryptSecret (crypto s) (EncryptedSecretKey b') = Inr secret \<and>
            b' = b\<lparr>AccessKey := ak, EncryptedSecretKey := EncryptedSecretKey b'\<rparr> \<and>
            tblBuckets (wdb w') = map (\<lambda>x. if Name x = pvName r then b' else x) (tblBuckets (wdb w)) \<and>
            (AccessKey b \<noteq> ak \<longrightarrow> presented_key (req_query r') (req_match r') = AccessKey b \<longrightarrow>
               \<not> credential s r' name w' x sec)) \<and>
         (m \<noteq> pvName r \<longrightarrow> sel_bucket m (wdb w') = sel_bucket m (wdb w)))"
proof (cases res)
  case (Inl e)
  with rotate_outcome(1,2) [OF assms(3,1)] show ?thesis by simp
next
  case (Inr rsp)
  from rotate_outcome(3) [OF assms(3,1) Inr] assms(2) obtain ak es where
    h: "rsp = writeJSON StatusOK (CredentialsBody (Name b) ak (GenerateSecretKey (rndSecret (rEntropy r))) (CreatedAt b) (Description b))"
    "DecryptSecret (crypto s) es = Inr (GenerateSecretKey (rndSecret (rEntropy r)))"
    "upd_bucket_keys (pvName r) ak es (wdb w) = Some (wdb w')" by auto
  note l = upd_bucket_keys_lookup [OF assms(1,2) h(3)]
  have n: "Name b = pvName r" using assms(2) sel_bucket_NameD by blast
  have "\<not> credential s r' name w' x sec"
    if "AccessKey b \<noteq> ak" "presented_key (req_query r') (req_match r') = AccessKey b"
    using l(2) that by (simp add: credential_def)
  moreover have "rsBody rsp = CredentialsBody (pvName r) ak (GenerateSecretKey (rndSecret (rEntropy r))) (CreatedAt b) (Description b)"
    by (simp add: h(1) n writeJSON_def)
  ultimately show ?thesis
    using rotate_outcome(1) [OF assms(3,1)] l(1,3) h(2) n Inr upd_bucket_keys_row [OF assms(1,2) h(3)]
    by (auto intro!: exI [of _ "b\<lparr>AccessKey := ak, EncryptedSecretKey := es\<rparr>"])
qed

theorem rotation_replaces_key_witness:
  "tblObjects (wdb (snd (rotateBucketKey ex_server ((ex_request ''POST'' ''/admin/buckets/photos/rotate'')\<lparr>pvName := ''photos''\<rparr>) ex_world))) = [ex_row]"
proof -
  let ?r = "(ex_request ''POST'' ''/admin/buckets/photos/rotate'')\<lparr>pvName := ''photos''\<rparr>"
  obtain res w' where run: "rotateBucketKey ex_server ?r ex_world = (res, w')" by force
  from rotation_replaces_key [OF _ _ this, of ex_bucket] show ?thesis
    by (simp add: run ex_db_wf) (simp add: ex_db_def)
qed

text \<open>
  C26.  Creating a bucket is all or nothing as far as the disk allows.  If it succeeds the name is a valid one that
  was free, the bucket has its row, its directory and a secret that decrypts to the returned one.  If it fails
  the database is as before, except when, after the calls before it, making the directory failed and then the
  rollback itself, the deletion of the bucket, failed too: then the bucket's row is left, and the state is the
  one that deletion ended in.
\<close>

theorem bucket_creation:
  assumes "storage_at rs (storage s)" "fs_ok w" "db_ok w" "no_orphans (wdb w)" and "createBucket s r w = (res, w')"
  shows "case res of
      Inr rsp \<Rightarrow> \<exists>b secret. bucketNameRe (Name b) \<and> sel_bucket (Name b) (wdb w) = None \<and>
        sel_bucket (Name b) (wdb w') = Some (stored_bucket b) \<and> fs_node (wfs w') (rs @ [Name b]) = Some Directory \<and>
        DecryptSecret (crypto s) (EncryptedSecretKey b) = Inr secret \<and> rsStatus rsp = 201 \<and>
        rsBody rsp = CredentialsBody (Name b) (AccessKey b) secret (CreatedAt b) (Description b)
    | Inl e \<Rightarrow> wdb w' = wdb w \<or>
        (\<exists>b w1 w2 w3 e'. bucketNameRe (Name b) \<and> ins_bucket b (wdb w) = Some (wdb w') \<and>
           GetBucket (Name b) w = (Inr None, w1) \<and> InsertBucket b w1 = (Inr (), w2) \<and>
           CreateBucketDirectory (storage s) (Name b) w2 = (Inl e, w3) \<and> DeleteBucket (Name b) w3 = (Inl e', w'))"
  using createBucket_finish [OF assms(5)]
proof (elim disjE exE conjE)
  fix name desc w1
  define b where "b = created_bucket s r name desc (wnow w)"
  assume n: "bucketNameRe name" "sel_bucket name (wdb w) = None" and w1: "wfs w1 = wfs w" "wdb w1 = wdb w"
    and get: "GetBucket name w = (Inr None, w1)"
    and fin: "finish_create s r (created_bucket s r name desc (wnow w)) w1 = (res, w')"
  have b: "Name b = name" "DecryptSecret (crypto s) (EncryptedSecretKey b) = Inr (GenerateSecretKey (rndSecret (rEntropy r)))"
    by (simp_all add: b_def created_bucket_def decrypt_encrypt)
  show ?thesis
  proof (cases res)
    case (Inl e)
    with finish_create_failed [of s r b w1 e w'] fin n(2) w1 assms(4) b(1)
    have "wdb w' = wdb w \<or> ins_bucket b (wdb w) = Some (wdb w') \<and>
      (\<exists>w2 w3 e'. InsertBucket b w1 = (Inr (), w2) \<and> CreateBucketDirectory (storage s) (Name b) w2 = (Inl e, w3) \<and>
         DeleteBucket (Name b) w3 = (Inl e', w'))" by (simp add: b_def)
    with n(1) b(1) get Inl show ?thesis by auto
  next
    case (Inr rsp)
    from finish_create_created [of s r b w1 rsp w' rs] fin Inr assms(1,2) bucketNameRe_ok [OF n(1)] b w1
    have c: "ins_bucket b (wdb w) = Some (wdb w')" "fs_node (wfs w') (rs @ [name]) = Some Directory"
      "rsp = writeJSON StatusCreated
        (CredentialsBody name (AccessKey b) (GenerateSecretKey (rndSecret (rEntropy r))) (CreatedAt b) (Description b))"
      by (auto simp: b_def)
    have "stored_bucket b \<in> set (tblBuckets (wdb w'))" using c(1) by (auto simp: ins_bucket_Some)
    then have "sel_bucket name (wdb w') = Some (stored_bucket b)"
      using ins_bucket_wf [OF assms(3) c(1)] b(1) by (simp add: sel_bucket_Some)
    with n b c(2,3) Inr show ?thesis by (auto intro!: exI [of _ b] simp: writeJSON_def status_defs)
  qed
qed auto

theorem bucket_creation_witness:
  "\<exists>b rsp w'. createBucket ex_server ex_create_request ex_world = (Inr rsp, w') \<and> rsStatus rsp = 201 \<and>
     bucketNameRe (Name b) \<and> sel_bucket (Name b) (wdb w') = Some (stored_bucket b)"
proof -
  obtain rsp w' where run: "createBucket ex_server ex_create_request ex_world = (Inr rsp, w')" using ex_create_run by blast
  then show ?thesis
    using bucket_creation [OF _ _ _ _ run, of "[''data'']"] ex_fs_wf ex_db_wf
    by (auto simp: ex_storage_at no_orphans_def ex_db_def ex_row_def)
qed

text \<open>
  C27.  Deleting a bucket never deletes an object: whatever fails, every bucket holds afterwards what it held
  before.  If it succeeds the bucket existed and nothing was stored in its directory, and its row, the rows of
  its objects and the directory are gone.
\<close>

theorem bucket_deletion:
  assumes "storage_at rs (storage s)" "bucket_ok (pvName r)" "fs_ok w" and "deleteBucket s r w = (res, w')"
  shows "stored_objects rs (wfs w') = stored_objects rs (wfs w) \<and>
    (res = Inr rsp \<longrightarrow> rsStatus rsp = 204 \<and> sel_bucket (pvName r) (wdb w) \<noteq> None \<and>
       (\<forall>q. strict_prefix (rs @ [pvName r]) q \<longrightarrow> fs_node (wfs w) q = None) \<and>
       fs_node (wfs w') (rs @ [pvName r]) = None \<and>
       wdb w' = del_bucket (pvName r) (del_bucket_objects (pvName r) (wdb w)))"
proof -
  have "keeps (\<lambda>w. file_at (wfs w) (rs @ b # cs) = x) (deleteBucket s r)" if "visible b cs" for b cs x
    by (rule deleteBucket_frame [OF assms(1,2)]) (use that in \<open>simp add: visible_def\<close>)
  then have "stored_objects rs (wfs w') = stored_objects rs (wfs w)" using assms(4) by (rule keeps_stored_objects)
  then show ?thesis using deleteBucket_done [OF assms(1,2) _ assms(3)] assms(4) by auto
qed

theorem bucket_deletion_witness:
  "fs_node (wfs (snd (deleteBucket ex_server ((ex_request ''DELETE'' ''/admin/buckets/photos'')\<lparr>pvName := ''photos''\<rparr>)
     ex_empty_world))) [''data'', ''photos''] = None"
proof -
  have wf: "fs_wf (wfs ex_empty_world)" by code_simp
  from bucket_deletion [OF _ _ wf ex_delete_run, of "[''data'']" "writeHeader StatusNoContent"] show ?thesis
    by (simp add: ex_storage_at ex_bucket_ok ex_delete_run)
qed

text \<open>
  C31.  A bucket that has lost its last object can be deleted.  Without faults, and as long as the bucket's
  directory has no empty directories below it, deleting the only object leaves nothing behind that would make
  the bucket look used: deleting the bucket then succeeds.
\<close>

theorem emptied_bucket_deletable:
  assumes "storage_at rs (storage s)" "bucket_ok (pvName r)" "key_ok k" and "wfaults w = []" "fs_ok w"
    and "fs_node (wfs w) (rs @ [pvName r]) = Some Directory" "tidy (wfs w) (rs @ [pvName r])"
    and "\<And>cs. cs \<noteq> [] \<Longrightarrow> cs \<noteq> key_comps k \<Longrightarrow> file_at (wfs w) (rs @ pvName r # cs) = None"
    and "sel_bucket (pvName r) (wdb w) = Some b" and "DeleteObject (storage s) (pvName r) k w = (Inr u, w')"
  shows "\<exists>w2. deleteBucket s r w' = (Inr (writeHeader StatusNoContent), w2)"
proof (rule deleteBucket_ok [OF assms(1,2)])
  note d = delete_tidy [OF assms(1-5,7,10)]
  show "wfaults w' = []" "fs_node (wfs w') (rs @ [pvName r]) = Some Directory" using d assms(6) by simp_all
  show "fs_children (wfs w') (rs @ [pvName r]) = []" by (rule last_object_freed [OF assms(1-5,7,10,8)])
  have "buckets_are (tblBuckets (wdb w)) (wdb (snd (DeleteObject (storage s) (pvName r) k w)))"
    by (rule keepsD [OF keeps_buckets_storage(4)]) (simp add: buckets_are_def)
  then show "sel_bucket (pvName r) (wdb w') = Some b"
    using assms(9,10) by (simp add: buckets_are_def sel_bucket_def)
qed

theorem emptied_bucket_deletable_witness:
  "\<exists>w2. deleteBucket ex_server ((ex_request ''DELETE'' ''/admin/buckets/photos'')\<lparr>pvName := ''photos''\<rparr>)
     (snd (DeleteObject ex_storage ''photos'' ''a/x.txt'' ex_one_world)) = (Inr (writeHeader StatusNoContent), w2)"
proof -
  let ?r = "(ex_request ''DELETE'' ''/admin/buckets/photos'')\<lparr>pvName := ''photos''\<rparr>"
  obtain w' where run: "DeleteObject ex_storage ''photos'' ''a/x.txt'' ex_one_world = (Inr (), w')"
    using ex_one_delete by (cases "DeleteObject ex_storage ''photos'' ''a/x.txt'' ex_one_world") simp
  have only: "file_at (wfs ex_one_world) ([''data''] @ ''photos'' # cs) = None" if "cs \<noteq> [''a'', ''x.txt'']" for cs
    using that by (simp add: file_at_None ex_one_node)
  have b: "sel_bucket ''photos'' (wdb ex_one_world) = Some (hd (tblBuckets (wdb ex_empty_world)))"
    by (simp add: ex_one_world_def ex_empty_world_def sel_bucket_def)
  have q: "wfaults ex_one_world = []" by (simp add: ex_one_world_def ex_empty_world_def)
  have "\<exists>w2. deleteBucket ex_server ?r w' = (Inr (writeHeader StatusNoContent), w2)"
    by (rule emptied_bucket_deletable [of "[''data'']" ex_server ?r "''a/x.txt''" ex_one_world])
      (use run only b q ex_one_tidy in \<open>simp_all add: ex_storage_at ex_bucket_ok ex_key_ok ex_one_wf ex_one_node\<close>)
  then show ?thesis by (simp add: run)
qed

end
