(* ===== verification/Wire.thy ===== *)
theory Wire
  imports JsonFuel Http
begin

text \<open>
  The text of the answers: \<open>json.NewEncoder(w).Encode\<close> on the values the handlers give to \<open>writeJSON\<close>, and
  what a client that decodes the text gets back.
\<close>

section \<open>Printing JSON\<close>

text \<open>The encoder on values: no blanks, strings escaped as in \<open>json_quote\<close>, the members of an object in order.\<close>

fun json_text :: "json \<Rightarrow> string" where
  "json_text JNull = ''null''"
| "json_text (JBool b) = json_bool b"
| "json_text (JNum n) = n"
| "json_text (JStr s) = json_quote s"
| "json_text (JArr vs) = ''['' @ join_with '','' (map json_text vs) @ '']''"
| "json_text (JObj ms) = ''{'' @ join_with '','' (map (\<lambda>(k, v). json_quote k @ '':'' @ json_text v) ms) @ ''}''"

text \<open>A value as a client sees it: the strings, cut into runes, are valid UTF-8.\<close>

fun utf8_json :: "json \<Rightarrow> json" where
  "utf8_json (JStr s) = JStr (utf8_sanitize s)"
| "utf8_json (JArr vs) = JArr (map utf8_json vs)"
| "utf8_json (JObj ms) = JObj (map (\<lambda>(k, v). (utf8_sanitize k, utf8_json v)) ms)"
| "utf8_json v = v"

text \<open>Values whose numbers are integers, nested at most \<open>d\<close> deep.\<close>

fun json_fits :: "nat \<Rightarrow> json \<Rightarrow> bool" where
  "json_fits d (JNum n) \<longleftrightarrow> (\<exists>i. n = format_int i)"
| "json_fits d (JArr vs) \<longleftrightarrow> 0 < d \<and> (\<forall>v\<in>set vs. json_fits (d - 1) v)"
| "json_fits d (JObj ms) \<longleftrightarrow> 0 < d \<and> (\<forall>m\<in>set ms. json_fits (d - 1) (snd m))"
| "json_fits d _ \<longleftrightarrow> True"

section \<open>Numbers\<close>

text \<open>What follows a number in a document.\<close>

definition follows_number :: "string \<Rightarrow> bool" where
  "follows_number r \<longleftrightarrow> r = [] \<or> \<not> is_digit (hd r) \<and> hd r \<notin> {CHR ''.'', CHR ''e'', CHR ''E''}"

lemma nat_digits_zero: "nat_digits 0 = ''0''"
  by (simp add: nat_digits.simps digit_char_def char_eqI)

lemma nat_digits_first: "0 < n \<Longrightarrow> hd (nat_digits n) \<noteq> CHR ''0''"
proof (induction n rule: nat_digits.induct)
  case (1 n)
  show ?case
  proof (cases "n < 10")
    case True
    have "byte_of (digit_char n) = 48 + n" using True by (simp add: digit_char_def)
    then have "digit_char n \<noteq> CHR ''0''" using 1(2) by auto
    then show ?thesis using True by (simp add: nat_digits.simps [of n])
  next
    case False
    then have "hd (nat_digits (n div 10)) \<noteq> CHR ''0''" using 1(1) by simp
    then show ?thesis using False by (simp add: nat_digits.simps [of n])
  qed
qed

lemma num_int_digits:
  assumes "follows_number r"
  shows "num_int (nat_digits n @ r) = Some (nat_digits n, r)"
proof (cases "n = 0")
  case True
  then show ?thesis by (simp add: nat_digits_zero num_int_def)
next
  case False
  then obtain c cs where c: "nat_digits n = c # cs" "c \<noteq> CHR ''0''"
    using nat_digits_first [of n] nat_digits_nonempty [of n] by (cases "nat_digits n") auto
  have d: "is_digit x" if "x \<in> set (c # cs)" for x using nat_digits_digits that unfolding c(1) [symmetric] .
  have "takeWhile is_digit ((c # cs) @ r) = c # cs" "dropWhile is_digit ((c # cs) @ r) = r"
    using d assms by (cases r; auto simp: follows_number_def takeWhile_append dropWhile_append)+
  then show ?thesis using c d by (simp add: num_int_def span_digits_def)
qed

lemma json_number_int:
  assumes "follows_number r"
  shows "json_number (format_int i @ r) = Some (format_int i, r)"
proof -
  have f: "num_frac r = Some ([], r)" "num_exp r = Some ([], r)"
    using assms by (cases r; simp add: num_frac_def num_exp_def follows_number_def)+
  have sign: "takeWhile (\<lambda>x. x = CHR ''-'') (take 1 (nat_digits n @ r)) = []" for n
    using hd_nat_digits(1) [of n] nat_digits_nonempty [of n] by (cases "nat_digits n") auto
  show ?thesis
  proof (cases "i < 0")
    case True
    then show ?thesis using num_int_digits [OF assms, of "nat (- i)"] f by (simp add: json_number_def format_int_def Let_def)
  next
    case False
    then show ?thesis using num_int_digits [OF assms, of "nat i"] f sign [of "nat i"]
      by (simp add: json_number_def format_int_def Let_def)
  qed
qed

section \<open>Reading back what was printed\<close>

text \<open>With enough fuel, which a document need not exhaust.\<close>

definition reads :: "nat \<Rightarrow> json \<Rightarrow> bool" where
  "reads d v \<longleftrightarrow> (\<forall>r. follows_number r \<longrightarrow> (\<exists>N. \<forall>k. json_value (N + k) d (json_text v @ r) = Some (utf8_json v, r)))"

lemma readsI: "(\<And>n r. follows_number r \<Longrightarrow> json_value (Suc n) d (json_text v @ r) = Some (utf8_json v, r)) \<Longrightarrow> reads d v"
  unfolding reads_def by (metis add_Suc plus_1_eq_Suc)

lemma readsD: "reads d v \<Longrightarrow> follows_number r \<Longrightarrow> \<exists>N. \<forall>k. json_value (N + k) d (json_text v @ r) = Some (utf8_json v, r)"
  by (simp add: reads_def)

lemma follows_simps [simp]: "follows_number (CHR '','' # r)" "follows_number (CHR '']'' # r)" "follows_number (CHR ''}'' # r)"
  "follows_number []"
  by (simp_all add: follows_number_def is_digit_def)

lemma not_space_more [simp]: "\<not> json_space (CHR ''['')" "\<not> json_space (CHR '']'')"
  by (simp_all add: json_space_def)

lemma elements_read:
  assumes "\<forall>v\<in>set vs. reads d v" "vs \<noteq> []"
  shows "\<exists>N. \<forall>k. json_elements (N + k) d (join_with '','' (map json_text vs) @ CHR '']'' # r) = Some (map utf8_json vs, r)"
  using assms
proof (induction vs)
  case (Cons v vs)
  then have v: "reads d v" by simp
  show ?case
  proof (cases vs)
    case Nil
    obtain N where "json_value (N + k) d (json_text v @ CHR '']'' # r) = Some (utf8_json v, CHR '']'' # r)" for k
      using readsD [OF v, of "CHR '']'' # r"] by auto
    then have "json_elements (Suc N + k) d (json_text v @ CHR '']'' # r) = Some ([utf8_json v], r)" for k
      by (simp add: skip_ws_stop)
    then show ?thesis using Nil by (intro exI [of _ "Suc N"]) simp
  next
    case (Cons w ws)
    let ?rest = "join_with '','' (map json_text vs) @ CHR '']'' # r"
    obtain N where N: "json_value (N + k) d (json_text v @ CHR '','' # ?rest) = Some (utf8_json v, CHR '','' # ?rest)" for k
      using readsD [OF v, of "CHR '','' # ?rest"] by auto
    obtain M where M: "json_elements (M + k) d ?rest = Some (map utf8_json vs, r)" for k
      using Cons.IH Cons.prems Cons by auto
    have "json_elements (Suc (N + M) + k) d (json_text v @ CHR '','' # ?rest) = Some (map utf8_json (v # vs), r)" for k
      using N [of "M + k"] M [of "N + k"] by (simp add: skip_ws_stop add.assoc add.left_commute)
    then show ?thesis using Cons by (intro exI [of _ "Suc (N + M)"]) simp
  qed
qed simp

abbreviation member_text :: "string \<times> json \<Rightarrow> string" where
  "member_text m \<equiv> (case m of (k, v) \<Rightarrow> json_quote k @ '':'' @ json_text v)"

abbreviation utf8_member :: "string \<times> json \<Rightarrow> string \<times> json" where
  "utf8_member m \<equiv> (case m of (k, v) \<Rightarrow> (utf8_sanitize k, utf8_json v))"

lemma members_read:
  assumes "\<forall>m\<in>set ms. reads d (snd m)" "ms \<noteq> []"
  shows "\<exists>N. \<forall>k. json_members (N + k) d (join_with '','' (map member_text ms) @ CHR ''}'' # r) = Some (map utf8_member ms, r)"
  using assms
proof (induction ms)
  case (Cons m ms)
  obtain key v where m: "m = (key, v)" by (cases m)
  then have v: "reads d v" using Cons.prems by simp
  have key: "json_str (json_escape key @ quote_char # t) = Some (utf8_sanitize key, t)" for t by (rule json_str_escape)
  show ?case
  proof (cases ms)
    case Nil
    obtain N where "json_value (N + k) d (json_text v @ CHR ''}'' # r) = Some (utf8_json v, CHR ''}'' # r)" for k
      using readsD [OF v, of "CHR ''}'' # r"] by auto
    then have "json_members (Suc N + k) d (member_text m @ CHR ''}'' # r) = Some ([utf8_member m], r)" for k
      using members_last [OF key] by (simp add: m json_quote_def del: json_members.simps)
    then show ?thesis using Nil by (intro exI [of _ "Suc N"]) simp
  next
    case (Cons w ws)
    let ?rest = "join_with '','' (map member_text ms) @ CHR ''}'' # r"
    obtain N where N: "json_value (N + k) d (json_text v @ CHR '','' # ?rest) = Some (utf8_json v, CHR '','' # ?rest)" for k
      using readsD [OF v, of "CHR '','' # ?rest"] by auto
    obtain M where M: "json_members (M + k) d ?rest = Some (map utf8_member ms, r)" for k
      using Cons.IH Cons.prems Cons by auto
    have "json_members (Suc (N + M) + k) d (member_text m @ CHR '','' # ?rest) = Some (map utf8_member (m # ms), r)" for k
      using members_more [OF key N [of "M + k"]] M [of "N + k"]
      by (simp add: m json_quote_def add.assoc add.left_commute del: json_members.simps)
    then show ?thesis using Cons by (intro exI [of _ "Suc (N + M)"]) simp
  qed
qed simp

lemma json_bool_reads: "reads d (JBool b)"
  by (rule readsI) (simp only: json_text.simps utf8_json.simps value_bool)

lemma json_null_reads: "reads d JNull"
  by (rule readsI) (simp add: skip_ws_stop keyword_def quote_char_def)

lemma json_str_reads: "reads d (JStr t)"
  by (rule readsI) (simp only: json_text.simps utf8_json.simps json_quote_def append.simps append_assoc value_string)

lemma number_start: "\<exists>c cs. format_int i = c # cs \<and> (is_digit c \<or> c = CHR ''-'')"
  using nat_digits_digits nat_digits_nonempty
  by (cases "nat_digits (nat i)") (auto simp: format_int_def, metis list.set_intros(1) nat_digits_digits)

lemma json_int_reads: "reads d (JNum (format_int i))"
proof (rule readsI)
  fix n r
  assume r: "follows_number r"
  obtain c cs where c: "format_int i = c # cs" "is_digit c \<or> c = CHR ''-''" using number_start by blast
  then have "\<not> json_space c" "c \<notin> {CHR ''{'', CHR ''['', quote_char, CHR ''t'', CHR ''f'', CHR ''n''}"
    by (auto simp: json_space_def is_digit_def quote_char_def)
  then show "json_value (Suc n) d (json_text (JNum (format_int i)) @ r) = Some (utf8_json (JNum (format_int i)), r)"
    using json_number_int [OF r, of i] c(1) by (simp add: skip_ws_stop)
qed

lemma text_start: "json_fits d v \<Longrightarrow> \<exists>c cs. json_text v = c # cs \<and> \<not> json_space c \<and> c \<noteq> CHR '']''"
proof (cases v)
  case (JNum n)
  moreover assume "json_fits d v"
  ultimately obtain i where "n = format_int i" by auto
  then show ?thesis using JNum number_start [of i] by (auto simp: json_space_def is_digit_def)
qed (auto simp: json_bool_def json_quote_def json_space_def quote_char_def)

lemma array_reads:
  assumes "0 < d" "\<forall>v\<in>set vs. reads (d - 1) v" "\<forall>v\<in>set vs. json_fits (d - 1) v"
  shows "reads d (JArr vs)"
proof (cases vs)
  case Nil
  then show ?thesis using assms(1) by (intro readsI) (simp add: skip_ws_stop quote_char_def)
next
  case (Cons v ws)
  show ?thesis unfolding reads_def
  proof (intro allI impI)
    fix r
    let ?body = "join_with '','' (map json_text vs) @ CHR '']'' # r"
    obtain N where N: "json_elements (N + k) (d - 1) ?body = Some (map utf8_json vs, r)" for k
      using elements_read [OF assms(2), of r] Cons by auto
    obtain c cs where "json_text v = c # cs" "\<not> json_space c" "c \<noteq> CHR '']''" using text_start [of "d - 1" v] assms(3) Cons by auto
    then obtain t where "?body = c # t" using Cons by (cases ws) auto
    with \<open>\<not> json_space c\<close> \<open>c \<noteq> CHR '']''\<close> have "json_value (Suc N + k) d (CHR ''['' # ?body) = Some (JArr (map utf8_json vs), r)" for k
      using N [of k] assms(1) by (simp add: skip_ws_stop)
    then show "\<exists>N. \<forall>k. json_value (N + k) d (json_text (JArr vs) @ r) = Some (utf8_json (JArr vs), r)"
      by (intro exI [of _ "Suc N"]) simp
  qed
qed

lemma object_reads:
  assumes "0 < d" "\<forall>m\<in>set ms. reads (d - 1) (snd m)"
  shows "reads d (JObj ms)"
proof (cases ms)
  case Nil
  then show ?thesis using assms(1) by (intro readsI) (simp add: skip_ws_stop quote_char_def)
next
  case (Cons m ws)
  show ?thesis unfolding reads_def
  proof (intro allI impI)
    fix r
    let ?body = "join_with '','' (map member_text ms) @ CHR ''}'' # r"
    obtain N where N: "json_members (N + k) (d - 1) ?body = Some (map utf8_member ms, r)" for k
      using members_read [OF assms(2), of r] Cons by auto
    obtain t where t: "?body = quote_char # t" using Cons by (cases ws; cases m) (auto simp: json_quote_def)
    have "json_value (Suc (N + k)) (Suc (d - 1)) (CHR ''{'' # ?body) = Some (JObj (map utf8_member ms), r)" for k
      using value_object [of "N + k" "d - 1" t] N [of k] unfolding t by simp
    then show "\<exists>N. \<forall>k. json_value (N + k) d (json_text (JObj ms) @ r) = Some (utf8_json (JObj ms), r)"
      using assms(1) by (intro exI [of _ "Suc N"]) (simp del: json_value.simps)
  qed
qed

lemma json_reads: "json_fits d v \<Longrightarrow> reads d v"
proof (induction v arbitrary: d)
  case (JArr vs)
  then show ?case by (intro array_reads) auto
next
  case (JObj ms)
  have "reads (d - 1) (snd m)" if "m \<in> set ms" for m
    using JObj.IH [OF that, of "snd m" "d - 1"] JObj.prems that by (cases m) auto
  then show ?case using JObj.prems by (intro object_reads) auto
qed (auto intro: json_null_reads json_bool_reads json_str_reads json_int_reads)

text \<open>A document with the newline of the encoder behind it.\<close>

lemma json_parse_text:
  assumes "json_fits 10000 v"
  shows "json_parse (json_text v @ [CHR 0x0A]) = Some (utf8_json v)"
proof -
  let ?s = "json_text v @ [CHR 0x0A]"
  have "follows_number [CHR 0x0A]" by (simp add: follows_number_def is_digit_def)
  then obtain N where "json_value (N + (2 * length ?s + 2)) 10000 ?s = Some (utf8_json v, [CHR 0x0A])"
    using readsD [OF json_reads [OF assms]] by meson
  moreover have "skip_ws [CHR 0x0A] = []" by (simp add: skip_ws_def json_space_def)
  ultimately show ?thesis using json_parse_fuel [of ?s "N + (2 * length ?s + 2)"] by simp
qed

section \<open>The values of the answers\<close>

text \<open>
  \<open>time.Time.MarshalJSON\<close> of a time in UTC: RFC 3339 with up to nine digits of a second, and an error when
  the year does not have four digits.
\<close>

definition time_json :: "int \<Rightarrow> json option" where
  "time_json t = (if 0 \<le> fYear (fields_of t) \<and> fYear (fields_of t) \<le> 9999 then Some (JStr (Format RFC3339Nano t)) else None)"

definition opt_json :: "string option \<Rightarrow> json" where
  "opt_json x = (case x of None \<Rightarrow> JNull | Some s \<Rightarrow> JStr s)"

definition int_json :: "int \<Rightarrow> json" where
  "int_json i = JNum (format_int i)"

definition summary_json :: "ObjectSummary \<Rightarrow> json option" where
  "summary_json o1 = map_option (\<lambda>t. JObj [(''key'', JStr (Key o1)), (''size'', int_json (Size o1)), (''lastModified'', t),
     (''eTag'', JStr (ETag o1)), (''contentType'', JStr (ContentType o1)), (''public'', JBool (Public o1))])
     (time_json (LastModified o1))"

definition bucket_json :: "string \<times> int \<times> string option \<Rightarrow> json option" where
  "bucket_json b = (case b of (name, t, desc) \<Rightarrow>
     map_option (\<lambda>ts. JObj [(''name'', JStr name), (''createdAt'', ts), (''description'', opt_json desc)]) (time_json t))"

text \<open>
  The value handed to \<open>writeJSON\<close>: structs by their tags in order, maps sorted by key.  \<open>None\<close> is an answer
  without a JSON value, or one that cannot be encoded.
\<close>

fun payload_json :: "payload \<Rightarrow> json option" where
  "payload_json Empty = None"
| "payload_json (ServeContent t d) = None"
| "payload_json (ErrorBody c m t) =
     map_option (\<lambda>ts. JObj [(''code'', JStr c), (''message'', JStr m), (''timestamp'', ts)]) (time_json t)"
| "payload_json (HealthBody m) = Some (JObj [(''status'', JStr m)])"
| "payload_json (CredentialsBody n ak sk t desc) =
     map_option (\<lambda>ts. JObj [(''name'', JStr n), (''accessKey'', JStr ak), (''secretKey'', JStr sk), (''createdAt'', ts),
       (''description'', opt_json desc)]) (time_json t)"
| "payload_json (BucketsBody bs) = map_option JArr (those (map bucket_json bs))"
| "payload_json (IndexedBody b n) = Some (JObj [(''bucket'', JStr b), (''indexed'', int_json (int n))])"
| "payload_json (ListBody l) =
     map_option (\<lambda>os. JObj [(''objects'', JArr os), (''isTruncated'', JBool (IsTruncated l)),
       (''nextCursor'', opt_json (NextCursor l)), (''keyCount'', int_json (int (KeyCount l)))])
       (those (map summary_json (lObjects l)))"
| "payload_json (StatsBody st) =
     Some (JObj [(''objects'', int_json (Objects st)), (''totalBytes'', int_json (TotalBytes st)),
       (''topLevelFolders'', int_json (TopLevelFolders st)), (''topLevelFiles'', int_json (TopLevelFiles st))])"
| "payload_json (PresignBody u m e) =
     map_option (\<lambda>ts. JObj [(''expiresAt'', ts), (''method'', JStr m), (''url'', JStr u)])
       (time_json ((sint (e + 62135596800) - 62135596800) * 1000000000))"

text \<open>\<open>writeJSON\<close> drops the error of \<open>Encode\<close>, which then has written nothing.\<close>

definition wire_text :: "payload \<Rightarrow> string" where
  "wire_text p = (case payload_json p of Some v \<Rightarrow> json_text v @ [CHR 0x0A] | None \<Rightarrow> [])"

lemma fits_leaf [simp]: "json_fits d (opt_json x)" "json_fits d (int_json i)"
  by (auto simp: opt_json_def int_json_def split: option.split)

lemma fits_time: "time_json t = Some v \<Longrightarrow> json_fits d v"
  by (auto simp: time_json_def split: if_splits)

lemma fits_records: "summary_json s = Some v \<Longrightarrow> json_fits (Suc d) v" "bucket_json b = Some v \<Longrightarrow> json_fits (Suc d) v"
  by (auto simp: summary_json_def bucket_json_def fits_time split: prod.splits)

lemma fits_those:
  "(\<And>x v. f x = Some v \<Longrightarrow> json_fits d v) \<Longrightarrow> those (map f xs) = Some vs \<Longrightarrow> \<forall>v\<in>set vs. json_fits d v"
  by (induction xs arbitrary: vs) (auto split: option.splits)

lemma payload_fits: "payload_json p = Some v \<Longrightarrow> json_fits (Suc (Suc (Suc d))) v"
  using fits_those [of bucket_json "Suc (Suc d)", OF fits_records(2)] fits_those [of summary_json "Suc d", OF fits_records(1)]
  by (cases p) (auto simp: fits_time)

lemma wire_decodes: "payload_json p = Some v \<Longrightarrow> json_parse (wire_text p) = Some (utf8_json v)"
  using json_parse_text [of v] payload_fits [of p v 9997] by (simp add: wire_text_def)

section \<open>A client\<close>

text \<open>
  A client that decodes a listing into the fields it was printed from, as \<open>json.Unmarshal\<close> into the same
  struct would.
\<close>

definition read_string :: "json \<Rightarrow> string option" where
  "read_string v = (case v of JStr s \<Rightarrow> Some s | _ \<Rightarrow> None)"

definition read_int :: "json \<Rightarrow> int option" where
  "read_int v = (case v of
     JNum n \<Rightarrow> Some (if n \<noteq> [] \<and> hd n = CHR ''-'' then - int (digits_value (tl n)) else int (digits_value n))
   | _ \<Rightarrow> None)"

definition read_bool :: "json \<Rightarrow> bool option" where
  "read_bool v = (case v of JBool b \<Rightarrow> Some b | _ \<Rightarrow> None)"

definition read_field :: "(string \<times> json) list \<Rightarrow> string \<Rightarrow> (json \<Rightarrow> 'a option) \<Rightarrow> 'a option" where
  "read_field ms name f = Option.bind (map_of ms name) f"

definition read_summary :: "json \<Rightarrow> ObjectSummary option" where
  "read_summary v = (case v of
     JObj ms \<Rightarrow>
       Option.bind (read_field ms ''key'' read_string) (\<lambda>k.
       Option.bind (read_field ms ''size'' read_int) (\<lambda>n.
       Option.bind (read_field ms ''lastModified'' (\<lambda>t. Option.bind (read_string t) (Parse RFC3339Nano))) (\<lambda>t.
       Option.bind (read_field ms ''eTag'' read_string) (\<lambda>e.
       Option.bind (read_field ms ''contentType'' read_string) (\<lambda>c.
       Option.bind (read_field ms ''public'' read_bool) (\<lambda>p.
       Some \<lparr>Key = k, Size = n, LastModified = t, ETag = e, ContentType = c, Public = p\<rparr>))))))
   | _ \<Rightarrow> None)"

definition read_listing :: "string \<Rightarrow> ListObjectsResponse option" where
  "read_listing text = (case json_parse text of
     Some (JObj ms) \<Rightarrow>
       Option.bind (read_field ms ''objects'' (\<lambda>v. case v of JArr os \<Rightarrow> those (map read_summary os) | _ \<Rightarrow> None)) (\<lambda>os.
       Option.bind (read_field ms ''isTruncated'' read_bool) (\<lambda>tr.
       Option.bind (read_field ms ''nextCursor'' (\<lambda>v. if v = JNull then Some None else map_option Some (read_string v))) (\<lambda>c.
       Option.bind (read_field ms ''keyCount'' read_int) (\<lambda>n.
       Some \<lparr>lObjects = os, IsTruncated = tr, NextCursor = c, KeyCount = nat n\<rparr>))))
   | _ \<Rightarrow> None)"

text \<open>What the client has of a summary and of a page.\<close>

definition utf8_summary :: "ObjectSummary \<Rightarrow> ObjectSummary" where
  "utf8_summary o1 = o1\<lparr>Key := utf8_sanitize (Key o1), ETag := utf8_sanitize (ETag o1),
     ContentType := utf8_sanitize (ContentType o1)\<rparr>"

definition utf8_page :: "ListObjectsResponse \<Rightarrow> ListObjectsResponse" where
  "utf8_page l = l\<lparr>lObjects := map utf8_summary (lObjects l), NextCursor := map_option utf8_sanitize (NextCursor l)\<rparr>"

lemma read_int_json [simp]: "read_int (int_json i) = Some i"
proof -
  have "digits_value (nat_digits n) = n" for n by (rule digits_value_nat_digits)
  then show ?thesis by (auto simp: read_int_def int_json_def format_int_def nat_digits_nonempty)
qed

lemma utf8_leaf [simp]: "utf8_json (int_json i) = int_json i" "utf8_json (opt_json x) = opt_json (map_option utf8_sanitize x)"
  by (auto simp: int_json_def opt_json_def split: option.split)

lemma digits_ascii: "list_all is_digit s \<Longrightarrow> c \<in> set s \<Longrightarrow> byte_of c < 128"
  by (auto simp: list_all_iff is_digit_def)

lemma format_frac_ascii: "c \<in> set (format_frac n ns) \<Longrightarrow> byte_of c < 128"
proof -
  let ?p = "take n (pad_digits 9 (nat ns))"
  obtain k where "?p = TrimRightChar ?p CHR ''0'' @ replicate k CHR ''0''" using TrimRightChar_zeros by blast
  then have "set (TrimRightChar ?p CHR ''0'') \<subseteq> set (pad_digits 9 (nat ns))" by (metis Un_upper1 set_append set_take_subset subset_trans)
  then show "c \<in> set (format_frac n ns) \<Longrightarrow> byte_of c < 128"
    using digits_ascii [OF pad_digits_digits] by (auto simp: format_frac_def Let_def split: if_splits)
qed

lemma time_text_ascii [simp]: "utf8_sanitize (Format RFC3339Nano t) = Format RFC3339Nano t"
proof (rule utf8_sanitize_ascii)
  show "\<forall>c\<in>set (Format RFC3339Nano t). byte_of c < 128"
    by (auto simp: Format_def RFC3339Nano_def date_chunks_def clock_chunks_def digits_ascii [OF pad_digits_digits] format_frac_ascii
        split: if_splits)
qed

lemma time_read:
  assumes "time_json t = Some v"
  shows "utf8_json v = v" and "Option.bind (read_string v) (Parse RFC3339Nano) = Some t"
proof -
  have y: "0 \<le> fYear (fields_of t)" "fYear (fields_of t) \<le> 9999" "v = JStr (Format RFC3339Nano t)"
    using assms by (auto simp: time_json_def split: if_splits)
  show "utf8_json v = v" by (simp add: y(3))
  show "Option.bind (read_string v) (Parse RFC3339Nano) = Some t"
    using fields_of_date [of t] by (simp add: y(3) read_string_def Parse_def parse_printed(4) [OF y(1,2)] instant_of_fields)
qed

lemma read_summary_json:
  assumes "summary_json o1 = Some v"
  shows "read_summary (utf8_json v) = Some (utf8_summary o1)"
proof -
  obtain t where t: "time_json (LastModified o1) = Some t" and v: "v = JObj [(''key'', JStr (Key o1)), (''size'', int_json (Size o1)),
      (''lastModified'', t), (''eTag'', JStr (ETag o1)), (''contentType'', JStr (ContentType o1)), (''public'', JBool (Public o1))]"
    using assms by (auto simp: summary_json_def)
  have u: "utf8_sanitize ''key'' = ''key''" "utf8_sanitize ''size'' = ''size''" "utf8_sanitize ''lastModified'' = ''lastModified''"
    "utf8_sanitize ''eTag'' = ''eTag''" "utf8_sanitize ''contentType'' = ''contentType''" "utf8_sanitize ''public'' = ''public''"
    by (rule utf8_sanitize_ascii, simp)+
  have "read_string (JStr s) = Some s" "read_bool (JBool b) = Some b" for s b by (simp_all add: read_string_def read_bool_def)
  then show ?thesis
    by (simp add: v u time_read [OF t] read_summary_def read_field_def utf8_summary_def del: utf8_sanitize.simps)
qed

lemma read_summaries:
  "those (map summary_json os) = Some vs \<Longrightarrow> those (map (read_summary \<circ> utf8_json) vs) = Some (map utf8_summary os)"
  by (induction os arbitrary: vs) (auto simp: read_summary_json split: option.splits)

lemma read_wire_listing:
  assumes "\<forall>o1\<in>set (lObjects l). four_digit_years (LastModified o1)"
  shows "read_listing (wire_text (ListBody l)) = Some (utf8_page l)"
proof -
  have "\<exists>v. summary_json o1 = Some v" if "o1 \<in> set (lObjects l)" for o1
    using assms that by (auto simp: summary_json_def time_json_def four_digit_years_iff)
  then have "\<exists>vs. those (map summary_json os) = Some vs" if "set os \<subseteq> set (lObjects l)" for os
    using that by (induction os) (auto, metis option.case(2) option.map(2))
  then obtain vs where vs: "those (map summary_json (lObjects l)) = Some vs" by blast
  have u: "utf8_sanitize ''objects'' = ''objects''" "utf8_sanitize ''isTruncated'' = ''isTruncated''"
    "utf8_sanitize ''nextCursor'' = ''nextCursor''" "utf8_sanitize ''keyCount'' = ''keyCount''"
    by (rule utf8_sanitize_ascii, simp)+
  have c: "(if opt_json x = JNull then Some None else map_option Some (read_string (opt_json x))) = Some x" for x
    by (simp add: opt_json_def read_string_def split: option.split)
  have "json_parse (wire_text (ListBody l)) = Some (utf8_json (JObj [(''objects'', JArr vs), (''isTruncated'', JBool (IsTruncated l)),
      (''nextCursor'', opt_json (NextCursor l)), (''keyCount'', int_json (int (KeyCount l)))]))"
    by (rule wire_decodes) (simp add: vs)
  then show ?thesis
    using read_summaries [OF vs]
    by (simp add: u c read_listing_def read_field_def read_bool_def utf8_page_def o_def del: utf8_sanitize.simps)
qed

end
