(* ===== verification/HttpDate.thy ===== *)
theory HttpDate
  imports DbTime
begin

text \<open>
  The dates of HTTP headers: \<open>http.TimeFormat\<close>, in which \<open>ServeContent\<close> writes \<open>Last-Modified\<close>, and
  \<open>http.ParseTime\<close>, with which it reads the dates of conditions.  The two obsolete formats \<open>ParseTime\<close> falls
  back to are an argument.
\<close>

definition TimeFormat :: "chunk list" where
  "TimeFormat = [StdWeekDay, Lit CHR '','', Lit CHR '' '', StdDay, Lit CHR '' '', StdMonthName, Lit CHR '' '', StdYear, Lit CHR '' '',
     StdHour, Lit CHR '':'', StdMinute, Lit CHR '':'', StdSecond, StdFrac 0, Lit CHR '' '', Lit CHR ''G'', Lit CHR ''M'', Lit CHR ''T'']"

definition http_date :: "int \<Rightarrow> string" where
  "http_date t = Format TimeFormat t"

definition ParseTime :: "(string \<Rightarrow> int option) \<Rightarrow> string \<Rightarrow> int option" where
  "ParseTime old s = (case Parse TimeFormat s of Some t \<Rightarrow> Some t | None \<Rightarrow> old s)"

text \<open>A modification time cut to whole seconds.\<close>

definition whole_second :: "int \<Rightarrow> int" where
  "whole_second t = t div 1000000000 * 1000000000"

lemma weekday_less: "weekday f < 7"
  by (simp add: weekday_def nat_less_iff)

text \<open>In a table of names of one length that differ in more than case, every name is found.\<close>

definition name_table :: "nat \<Rightarrow> string list \<Rightarrow> bool" where
  "name_table k tab \<longleftrightarrow> list_all (\<lambda>n. length n = k \<and> CHR '' '' \<notin> set n) tab \<and> distinct (map (map ascii_lower) tab)"

lemma lookup_name_nth: "name_table k tab \<Longrightarrow> i < length tab \<Longrightarrow> lookup_name tab (tab ! i @ s) = Some (int i, s)"
proof (induction tab arbitrary: i)
  case (Cons n tab)
  then have k: "name_table k tab" "length n = k" by (simp_all add: name_table_def)
  show ?case
  proof (cases i)
    case (Suc j)
    then have j: "j < length tab" using Cons.prems by simp
    then have m: "tab ! j \<in> set tab" by simp
    then have "length (tab ! j) = k" using k(1) by (simp add: name_table_def list_all_iff)
    moreover have "map ascii_lower (tab ! j) \<noteq> map ascii_lower n" using Cons.prems(1) imageI [OF m, of "map ascii_lower"] by (auto simp: name_table_def)
    ultimately show ?thesis using Cons.IH [OF k(1) j] k(2) Suc by (simp add: EqualFold_def)
  qed simp
qed simp

lemma name_tables: "name_table 3 shortMonthNames" "name_table 3 shortDayNames" "length shortMonthNames = 12" "length shortDayNames = 7"
  by code_simp+

lemma lookup_day: "lookup_name shortDayNames (shortDayNames ! weekday f @ s) = Some (int (weekday f), s)"
  using lookup_name_nth [OF name_tables(2)] weekday_less [of f] by (simp add: name_tables(4))

lemma month_index: "1 \<le> m \<Longrightarrow> m \<le> 12 \<Longrightarrow> nat (m - 1) < length shortMonthNames"
  by (simp add: name_tables(3))

lemma lookup_month: "1 \<le> m \<Longrightarrow> m \<le> 12 \<Longrightarrow> lookup_name shortMonthNames (shortMonthNames ! nat (m - 1) @ s) = Some (m - 1, s)"
  using lookup_name_nth [OF name_tables(1) month_index] by simp

lemma skip_month:
  assumes "1 \<le> m" "m \<le> 12"
  shows "skip_char CHR '' '' (CHR '' '' # shortMonthNames ! nat (m - 1) @ s) = Some (shortMonthNames ! nat (m - 1) @ s)"
proof -
  have "shortMonthNames ! nat (m - 1) \<in> set shortMonthNames" using month_index [OF assms] by simp
  then have "length (shortMonthNames ! nat (m - 1)) = 3" "CHR '' '' \<notin> set (shortMonthNames ! nat (m - 1))"
    using name_tables(1) by (auto simp: name_table_def list_all_iff)
  then show ?thesis by (cases "shortMonthNames ! nat (m - 1)") (auto simp: skip_char_def)
qed

lemma gmt_reads: "parse_frac '' GMT'' = (0, '' GMT'')" "skip_char CHR '' '' '' GMT'' = Some ''GMT''"
  by code_simp+

lemma http_fields:
  assumes "0 \<le> fYear (fields_of t)" "fYear (fields_of t) \<le> 9999"
  shows "parse_chunks TimeFormat no_fields (http_date t) = Some (fields_of t\<lparr>fNanos := 0\<rparr>)"
proof -
  note r = fields_of_date [of t] fields_of_clock [of t] days_in_max [of "fYear (fields_of t)" "fMonth (fields_of t)"] assms
  have o: "fOffset (fields_of t) = 0" by (simp add: fields_of_sel)
  have f: "format_frac 0 n = []" for n by (simp add: format_frac_def TrimRightChar_def)
  show ?thesis using r
    by (simp add: http_date_def Format_def TimeFormat_def parse_printed_simps lookup_day lookup_month skip_month
        o f gmt_reads)
qed

lemma instant_of_second: "instant_of (fields_of t\<lparr>fNanos := 0\<rparr>) = whole_second t"
proof -
  have "instant_of (fields_of t\<lparr>fNanos := 0\<rparr>) = instant_of (fields_of t) - fNanos (fields_of t)"
    by (simp add: instant_of_def Let_def)
  also have "\<dots> = whole_second t"
    unfolding instant_of_fields fields_of_sel whole_second_def by (rule minus_mod_eq_div_mult)
  finally show ?thesis .
qed

lemma ParseTime_http_date: "four_digit_years t \<Longrightarrow> ParseTime old (http_date t) = Some (whole_second t)"
  using fields_of_date [of t] by (simp add: ParseTime_def Parse_def http_fields four_digit_years_iff instant_of_second)

end
