(* ===== verification/ContentServing.thy ===== *)
theory ContentServing
  imports Wire HttpDate Router
begin

text \<open>
  From a response to the bytes on the wire.  Bodies of values are their JSON text; the body of an object or an
  asset is what \<open>http.ServeContent\<close> makes of the request's conditions and ranges.  The type of an asset by its
  name and content, the random boundary of an answer in several parts, and the two obsolete date formats are
  arguments (\<open>net\<close>).
\<close>

record net =
  OldDates :: "string \<Rightarrow> int option"
  MimeType :: "string \<Rightarrow> string \<Rightarrow> string"
  Boundary :: string

record wire =
  wStatus :: nat
  wHeader :: "(string \<times> string) list"
  wBody :: string

section \<open>Entity tags\<close>

text \<open>\<open>textproto.TrimString\<close>.\<close>

definition ascii_space :: "char \<Rightarrow> bool" where
  "ascii_space c \<longleftrightarrow> byte_of c \<in> {9, 10, 13, 32}"

definition TrimString :: "string \<Rightarrow> string" where
  "TrimString s = rev (dropWhile ascii_space (rev (dropWhile ascii_space s)))"

definition etag_char :: "char \<Rightarrow> bool" where
  "etag_char c \<longleftrightarrow> byte_of c = 33 \<or> 35 \<le> byte_of c \<and> byte_of c \<le> 126 \<or> 128 \<le> byte_of c"

text \<open>\<open>scanETag\<close>: the first tag of a list and what follows it, or nothing.\<close>

definition scanETag :: "string \<Rightarrow> string \<times> string" where
  "scanETag s0 =
     (let s = TrimString s0; start = (if HasPrefix s ''W/'' then 2 else 0); q = drop start s in
      if length q < 2 \<or> hd q \<noteq> quote_char then ([], [])
      else case dropWhile etag_char (tl q) of
        c # r \<Rightarrow> if c = quote_char then (take start s @ quote_char # takeWhile etag_char (tl q) @ [quote_char], r) else ([], [])
      | [] \<Rightarrow> ([], []))"

definition etagStrongMatch :: "string \<Rightarrow> string \<Rightarrow> bool" where
  "etagStrongMatch a b \<longleftrightarrow> a = b \<and> a \<noteq> [] \<and> hd a = quote_char"

definition etagWeakMatch :: "string \<Rightarrow> string \<Rightarrow> bool" where
  "etagWeakMatch a b \<longleftrightarrow> TrimPrefix a ''W/'' = TrimPrefix b ''W/''"

lemma length_TrimString: "length (TrimString s) \<le> length s"
  unfolding TrimString_def by (metis length_dropWhile_le length_rev order_trans)

lemma scanETag_shrinks: "scanETag s = (e, r) \<Longrightarrow> e \<noteq> [] \<Longrightarrow> length r < length s"
proof -
  assume h: "scanETag s = (e, r)" "e \<noteq> []"
  define q where "q = drop (if HasPrefix (TrimString s) ''W/'' then 2 else 0) (TrimString s)"
  have "length q \<le> length s" using length_TrimString [of s] by (simp add: q_def)
  moreover have "2 \<le> length q \<and> (\<exists>c. dropWhile etag_char (tl q) = c # r)"
    using h unfolding scanETag_def Let_def q_def [symmetric] by (auto simp: not_less split: list.splits if_split_asm)
  then obtain c where "dropWhile etag_char (tl q) = c # r" "2 \<le> length q" by blast
  moreover have "length (dropWhile etag_char (tl q)) \<le> length (tl q)" by (rule length_dropWhile_le)
  ultimately show "length r < length s" by simp
qed

text \<open>The loops of \<open>checkIfMatch\<close> and \<open>checkIfNoneMatch\<close>: a star, or a tag that matches.\<close>

function any_etag :: "(string \<Rightarrow> bool) \<Rightarrow> string \<Rightarrow> bool" where
  "any_etag p s =
     (case TrimString s of
        [] \<Rightarrow> False
      | c # cs \<Rightarrow>
          if c = CHR '','' then any_etag p cs
          else if c = CHR ''*'' then True
          else if fst (scanETag (c # cs)) = [] then False
          else p (fst (scanETag (c # cs))) \<or> any_etag p (snd (scanETag (c # cs))))"
  by pat_completeness auto
termination
proof (relation "measure (\<lambda>(p, s). length s)", goal_cases)
  case (2 p s c cs)
  then show ?case using length_TrimString [of s] by simp
next
  case (3 p s c cs)
  then show ?case using length_TrimString [of s] scanETag_shrinks [of "c # cs" "fst (scanETag (c # cs))" "snd (scanETag (c # cs))"] by simp
qed simp

declare any_etag.simps [simp del]

section \<open>Conditions\<close>

datatype cond = CondNone | CondTrue | CondFalse

definition isZeroTime :: "int \<Rightarrow> bool" where
  "isZeroTime t \<longleftrightarrow> t = zero_time \<or> t = 0"

text \<open>\<open>checkIfMatch\<close> and \<open>checkIfNoneMatch\<close>, against the tag the handler has set.\<close>

definition checkIfMatch :: "request \<Rightarrow> string \<Rightarrow> cond" where
  "checkIfMatch r etag =
     (let v = HeaderGet r ''If-Match'' in
      if v = [] then CondNone else if any_etag (\<lambda>e. etagStrongMatch e etag) v then CondTrue else CondFalse)"

definition checkIfNoneMatch :: "request \<Rightarrow> string \<Rightarrow> cond" where
  "checkIfNoneMatch r etag =
     (let v = HeaderGet r ''If-None-Match'' in
      if v = [] then CondNone else if any_etag (\<lambda>e. etagWeakMatch e etag) v then CondFalse else CondTrue)"

text \<open>A date the header gives, to be compared with the modification time cut to whole seconds.\<close>

definition header_time :: "net \<Rightarrow> request \<Rightarrow> string \<Rightarrow> int \<Rightarrow> int option" where
  "header_time net r name t =
     (if HeaderGet r name = [] \<or> isZeroTime t then None else ParseTime (OldDates net) (HeaderGet r name))"

definition checkIfUnmodifiedSince :: "net \<Rightarrow> request \<Rightarrow> int \<Rightarrow> cond" where
  "checkIfUnmodifiedSince net r t = (case header_time net r ''If-Unmodified-Since'' t of
     None \<Rightarrow> CondNone | Some u \<Rightarrow> if whole_second t \<le> u then CondTrue else CondFalse)"

definition reading :: "request \<Rightarrow> bool" where
  "reading r \<longleftrightarrow> rMethod r = ''GET'' \<or> rMethod r = ''HEAD''"

definition checkIfModifiedSince :: "net \<Rightarrow> request \<Rightarrow> int \<Rightarrow> cond" where
  "checkIfModifiedSince net r t =
     (if \<not> reading r then CondNone
      else case header_time net r ''If-Modified-Since'' t of
        None \<Rightarrow> CondNone | Some u \<Rightarrow> if whole_second t \<le> u then CondFalse else CondTrue)"

definition checkIfRange :: "net \<Rightarrow> request \<Rightarrow> int \<Rightarrow> string \<Rightarrow> cond" where
  "checkIfRange net r t etag =
     (let v = HeaderGet r ''If-Range''; e = fst (scanETag v) in
      if \<not> reading r \<or> v = [] then CondNone
      else if e \<noteq> [] then if etagStrongMatch e etag then CondTrue else CondFalse
      else if t = zero_time then CondFalse
      else case ParseTime (OldDates net) v of
        None \<Rightarrow> CondFalse
      | Some u \<Rightarrow> if u div 1000000000 = t div 1000000000 then CondTrue else CondFalse)"

text \<open>
  \<open>checkPreconditions\<close>: a status that ends the answer, or the \<open>Range\<close> header that is still to be looked at.
\<close>

definition checkPreconditions :: "net \<Rightarrow> request \<Rightarrow> int \<Rightarrow> string \<Rightarrow> nat + string" where
  "checkPreconditions net r t etag =
     (let m = checkIfMatch r etag; c = (if m = CondNone then checkIfUnmodifiedSince net r t else m) in
      if c = CondFalse then Inl 412
      else case checkIfNoneMatch r etag of
        CondFalse \<Rightarrow> Inl (if reading r then 304 else 412)
      | n \<Rightarrow>
          if n = CondNone \<and> checkIfModifiedSince net r t = CondFalse then Inl 304
          else let rangeReq = HeaderGet r ''Range'' in
            Inr (if rangeReq \<noteq> [] \<and> checkIfRange net r t etag = CondFalse then [] else rangeReq))"

section \<open>Ranges\<close>

datatype range_spec = BadSpec | NoOverlapSpec | RangeSpec int int

text \<open>One specification between commas: first byte and length.\<close>

definition parse_spec :: "int \<Rightarrow> string \<Rightarrow> range_spec" where
  "parse_spec sz ra = (case cut_at CHR ''-'' ra of (a, b, ok) \<Rightarrow>
     let st = TrimString a; en = TrimString b in
     if \<not> ok then BadSpec
     else if st = [] then
       (if en = [] \<or> hd en = CHR ''-'' then BadSpec
        else case ParseInt en of
          None \<Rightarrow> BadSpec
        | Some i \<Rightarrow> if sint i < 0 then BadSpec else let n = min (sint i) sz in RangeSpec (sz - n) n)
     else case ParseInt st of
       None \<Rightarrow> BadSpec
     | Some i \<Rightarrow>
         if sint i < 0 then BadSpec
         else if sz \<le> sint i then NoOverlapSpec
         else if en = [] then RangeSpec (sint i) (sz - sint i)
         else case ParseInt en of
           None \<Rightarrow> BadSpec
         | Some j \<Rightarrow>
             if sint j < sint i then BadSpec else RangeSpec (sint i) (min (sint j) (sz - 1) - sint i + 1))"

text \<open>The specifications in order: whether one lies behind the end, and the others.\<close>

fun parse_specs :: "int \<Rightarrow> string list \<Rightarrow> (bool \<times> (int \<times> int) list) option" where
  "parse_specs sz [] = Some (False, [])"
| "parse_specs sz (ra # ras) =
     (if TrimString ra = [] then parse_specs sz ras
      else case parse_spec sz (TrimString ra) of
        BadSpec \<Rightarrow> None
      | NoOverlapSpec \<Rightarrow> map_option (\<lambda>(o1, rs). (True, rs)) (parse_specs sz ras)
      | RangeSpec a n \<Rightarrow> map_option (\<lambda>(o1, rs). (o1, (a, n) # rs)) (parse_specs sz ras))"

datatype range_set = Ranges "(int \<times> int) list" | NoOverlap | InvalidRange

definition parseRange :: "string \<Rightarrow> int \<Rightarrow> range_set" where
  "parseRange s sz =
     (if s = [] then Ranges []
      else if \<not> HasPrefix s ''bytes='' then InvalidRange
      else case parse_specs sz (split_on CHR '','' (drop 6 s)) of
        None \<Rightarrow> InvalidRange
      | Some (o1, rs) \<Rightarrow> if o1 \<and> rs = [] then NoOverlap else Ranges rs)"

section \<open>Answers\<close>

definition header_of :: "(string \<times> string) list \<Rightarrow> string \<Rightarrow> string" where
  "header_of h name = (case map_of h name of Some v \<Rightarrow> v | None \<Rightarrow> [])"

definition without :: "string list \<Rightarrow> (string \<times> string) list \<Rightarrow> (string \<times> string) list" where
  "without names h = filter (\<lambda>(k, v). k \<notin> set names) h"

text \<open>\<open>serveError\<close>, and \<open>writeNotModified\<close>.\<close>

definition serveError :: "string \<Rightarrow> nat \<Rightarrow> (string \<times> string) list \<Rightarrow> wire" where
  "serveError msg code h =
     \<lparr>wStatus = code,
      wHeader = AList.update ''X-Content-Type-Options'' ''nosniff'' (AList.update ''Content-Type'' ''text/plain; charset=utf-8''
        (without [''Cache-Control'', ''ETag'', ''Last-Modified'', ''Content-Length''] h)),
      wBody = msg @ [newline]\<rparr>"

definition writeNotModified :: "(string \<times> string) list \<Rightarrow> wire" where
  "writeNotModified h =
     \<lparr>wStatus = 304,
      wHeader = without ([''Content-Type'', ''Content-Length''] @ (if header_of h ''ETag'' \<noteq> [] then [''Last-Modified''] else [])) h,
      wBody = []\<rparr>"

definition slice :: "string \<Rightarrow> int \<times> int \<Rightarrow> string" where
  "slice d ra = take (nat (snd ra)) (drop (nat (fst ra)) d)"

definition contentRange :: "int \<Rightarrow> int \<times> int \<Rightarrow> string" where
  "contentRange sz ra =
     ''bytes '' @ format_int (fst ra) @ ''-'' @ format_int (fst ra + snd ra - 1) @ ''/'' @ format_int sz"

definition crlf :: string where
  "crlf = [CHR 0x0D, CHR 0x0A]"

text \<open>Several ranges, each with its own header, between boundary lines (\<open>mime/multipart\<close>).\<close>

definition body_part :: "string \<Rightarrow> string \<Rightarrow> string \<Rightarrow> int \<times> int \<Rightarrow> string" where
  "body_part bd ct d ra =
     ''--'' @ bd @ crlf @ ''Content-Range: '' @ contentRange (int (length d)) ra @ crlf @ ''Content-Type: '' @ ct @ crlf @ crlf @ slice d ra"

definition multipart_body :: "string \<Rightarrow> string \<Rightarrow> string \<Rightarrow> (int \<times> int) list \<Rightarrow> string" where
  "multipart_body bd ct d rs = concat (map (\<lambda>ra. body_part bd ct d ra @ crlf) rs) @ ''--'' @ bd @ ''--'' @ crlf"

text \<open>An empty file has no range to miss, and ranges that add up to more than the file are ignored.\<close>

definition wanted_ranges :: "string \<Rightarrow> int \<Rightarrow> range_set" where
  "wanted_ranges s sz = (case parseRange s sz of
     NoOverlap \<Rightarrow> if sz = 0 then Ranges [] else NoOverlap
   | InvalidRange \<Rightarrow> InvalidRange
   | Ranges rs \<Rightarrow> if sz < sum_list (map snd rs) then Ranges [] else Ranges rs)"

text \<open>The answer with the whole file, one range of it, or several.\<close>

definition partial_content :: "net \<Rightarrow> string \<Rightarrow> (string \<times> string) list \<Rightarrow> (int \<times> int) list \<Rightarrow> wire" where
  "partial_content net d h rs =
     (let sized = (\<lambda>h b. AList.update ''Content-Length'' (format_int (int (length b))) (AList.update ''Accept-Ranges'' ''bytes'' h)) in
      case rs of
        [] \<Rightarrow> \<lparr>wStatus = 200, wHeader = sized h d, wBody = d\<rparr>
      | [ra] \<Rightarrow>
          \<lparr>wStatus = 206, wHeader = sized (AList.update ''Content-Range'' (contentRange (int (length d)) ra) h) (slice d ra),
           wBody = slice d ra\<rparr>
      | _ \<Rightarrow>
          let b = multipart_body (Boundary net) (header_of h ''Content-Type'') d rs in
          \<lparr>wStatus = 206, wHeader = sized (AList.update ''Content-Type'' (''multipart/byteranges; boundary='' @ Boundary net) h) b,
           wBody = b\<rparr>)"

definition serve_content :: "net \<Rightarrow> request \<Rightarrow> string \<Rightarrow> int \<Rightarrow> string \<Rightarrow> (string \<times> string) list \<Rightarrow> wire" where
  "serve_content net r name t d h0 =
     (let h1 = (if isZeroTime t then h0 else AList.update ''Last-Modified'' (http_date t) h0) in
      case checkPreconditions net r t (header_of h1 ''ETag'') of
        Inl st \<Rightarrow> if st = 304 then writeNotModified h1 else \<lparr>wStatus = st, wHeader = h1, wBody = []\<rparr>
      | Inr rangeReq \<Rightarrow>
          let h = (if map_of h1 ''Content-Type'' = None then AList.update ''Content-Type'' (MimeType net name d) h1 else h1);
              sz = int (length d) in
          case wanted_ranges rangeReq sz of
            Ranges rs \<Rightarrow> partial_content net d h rs
          | NoOverlap \<Rightarrow> serveError ''invalid range: failed to overlap'' 416 (AList.update ''Content-Range'' (''bytes */'' @ format_int sz) h)
          | InvalidRange \<Rightarrow> serveError ''invalid range'' 416 h)"

text \<open>
  A response on the wire.  Only assets leave the type open, whose name is their path.  An answer to \<open>HEAD\<close> ends
  with the header.
\<close>

definition respond :: "net \<Rightarrow> request \<Rightarrow> response \<Rightarrow> wire" where
  "respond net r rsp =
     (let x = (case rsBody rsp of
        ServeContent t d \<Rightarrow>
          serve_content net r (if TrimPrefix (rPath r) ''/'' = [] then ''index.html'' else TrimPrefix (rPath r) ''/'') t d (rsHeader rsp)
      | p \<Rightarrow> \<lparr>wStatus = rsStatus rsp, wHeader = rsHeader rsp, wBody = wire_text p\<rparr>) in
      if rMethod r = ''HEAD'' then x\<lparr>wBody := []\<rparr> else x)"

text \<open>
  The whole server, from a request to what its client reads: the pipeline, and then \<open>http.ServeContent\<close> for the
  answers whose status the handlers leave to it.
\<close>

definition ServeHTTP :: "net \<Rightarrow> Server \<Rightarrow> int \<Rightarrow> bool \<Rightarrow> request \<Rightarrow> world \<Rightarrow> wire \<times> world" where
  "ServeHTTP net s startTime serveConsole r w =
     (case Handler s startTime serveConsole r w of (rsp, w') \<Rightarrow> (respond net r rsp, w'))"

section \<open>Ranges are parts of the file\<close>

definition range_in :: "int \<Rightarrow> int \<times> int \<Rightarrow> bool" where
  "range_in sz ra \<longleftrightarrow> 0 \<le> fst ra \<and> 0 \<le> snd ra \<and> fst ra + snd ra \<le> sz"

lemma parse_spec_in: "parse_spec sz s = RangeSpec a n \<Longrightarrow> 0 \<le> sz \<Longrightarrow> range_in sz (a, n)"
  by (auto simp: parse_spec_def range_in_def Let_def split: prod.splits if_splits option.splits)

lemma parse_specs_in: "parse_specs sz ras = Some (o1, rs) \<Longrightarrow> 0 \<le> sz \<Longrightarrow> \<forall>ra\<in>set rs. range_in sz ra"
  by (induction ras arbitrary: o1 rs)
    (auto split: if_splits range_spec.splits option.splits dest: parse_spec_in)

lemma wanted_ranges_in: "wanted_ranges s sz = Ranges rs \<Longrightarrow> 0 \<le> sz \<Longrightarrow> (\<forall>ra\<in>set rs. range_in sz ra) \<and> sum_list (map snd rs) \<le> sz"
  using parse_specs_in [of sz]
  by (auto simp: wanted_ranges_def parseRange_def split: if_splits option.splits range_set.splits)

lemma slice_length: "range_in (int (length d)) ra \<Longrightarrow> int (length (slice d ra)) = snd ra"
  by (auto simp: slice_def range_in_def)

end
