(* ===== verification/Responses.thy ===== *)
theory Responses
  imports Pipeline SignedRequests
begin

text \<open>
  The type of the answers: which payload and status a request can get, by method and path.  The rules for
  \<open>gives\<close> carry it, and the form of the errors that reach the dispatcher, from the primitive calls up.
\<close>

section \<open>Results of actions\<close>

text \<open>An error that the dispatcher can put on the wire: one without an \<open>APIError\<close> becomes a 500.\<close>

definition wire_error :: "go_error \<Rightarrow> bool" where
  "wire_error e \<longleftrightarrow> (case as_APIError e of None \<Rightarrow> True
     | Some a \<Rightarrow> Status a \<in> {400, 401, 404, 409, 413} \<and> Code a \<noteq> [])"

definition gives :: "('a \<Rightarrow> bool) \<Rightarrow> 'a action \<Rightarrow> bool" where
  "gives Q m \<longleftrightarrow> (\<forall>w. case fst (m w) of Inl e \<Rightarrow> wire_error e | Inr x \<Rightarrow> Q x)"

abbreviation returns :: "'a action \<Rightarrow> bool" where
  "returns \<equiv> gives (\<lambda>_. True)"

named_theorems gives_intros

lemma givesI:
  "(\<And>w e w'. m w = (Inl e, w') \<Longrightarrow> wire_error e) \<Longrightarrow> (\<And>w x w'. m w = (Inr x, w') \<Longrightarrow> Q x) \<Longrightarrow> gives Q m"
  unfolding gives_def by (intro allI, split sum.split) (metis prod.collapse)

lemma givesD:
  "gives Q m \<Longrightarrow> m w = (Inl e, w') \<Longrightarrow> wire_error e" "gives Q m \<Longrightarrow> m w = (Inr x, w') \<Longrightarrow> Q x"
  unfolding gives_def by (metis fst_conv sum.case)+

lemma wire_errors [simp]:
  "wire_error (OsErr n)" "wire_error DbErr" "wire_error (PlainErr t)"
  "wire_error (ApiErr a) \<longleftrightarrow> Status a \<in> {400, 401, 404, 409, 413} \<and> Code a \<noteq> []"
  "wire_error (badRequest c m) \<longleftrightarrow> c \<noteq> []" "wire_error (noSuchBucket b)" "wire_error (noSuchKey b k)"
  "wire_error (bucketAlreadyExists b)" "wire_error (conflict c m) \<longleftrightarrow> c \<noteq> []"
  by (simp_all add: wire_error_def api_error_defs status_defs)

lemma gives_ret [gives_intros]: "Q x \<Longrightarrow> gives Q (ret x)"
  by (simp add: gives_def ret_def)

lemma gives_fail [gives_intros]: "wire_error e \<Longrightarrow> gives Q (fail e)"
  by (simp add: gives_def fail_def)

lemma gives_lift [gives_intros]: "(case x of Inl e \<Rightarrow> wire_error e | Inr y \<Rightarrow> Q y) \<Longrightarrow> gives Q (lift_result x)"
  by (simp add: gives_def lift_result_def)

lemma gives_andThen [gives_intros]: "returns m \<Longrightarrow> (\<And>x. gives Q (k x)) \<Longrightarrow> gives Q (andThen m k)"
  by (rule givesI) (auto simp: andThen_def split: prod.splits sum.splits dest: givesD)

lemma gives_attempt [gives_intros]:
  "returns m \<Longrightarrow> (\<And>e. wire_error e \<Longrightarrow> gives Q (k (Inl e))) \<Longrightarrow> (\<And>x. gives Q (k (Inr x))) \<Longrightarrow> gives Q (attempt m k)"
proof -
  assume a: "returns m" "\<And>e. wire_error e \<Longrightarrow> gives Q (k (Inl e))" "\<And>x. gives Q (k (Inr x))"
  have "gives Q (k r)" if "m w = (r, w')" for r w w'
    using a givesD(1) [OF a(1)] that by (cases r) auto
  then show ?thesis by (intro givesI) (auto simp: attempt_def split: prod.splits dest: givesD)
qed

lemma gives_deferred [gives_intros]: "gives Q m \<Longrightarrow> gives Q (deferred d m)"
  by (rule givesI) (auto simp: deferred_def split: prod.splits dest: givesD)

lemma gives_if [gives_intros]: "gives Q m \<Longrightarrow> gives Q m' \<Longrightarrow> gives Q (if b then m else m')"
  by simp

lemma gives_option [gives_intros]:
  "gives Q m \<Longrightarrow> (\<And>x. gives Q (f x)) \<Longrightarrow> gives Q (case z of None \<Rightarrow> m | Some x \<Rightarrow> f x)"
  by (cases z) auto

lemma gives_node [gives_intros]:
  "(\<And>d t. gives Q (f d t)) \<Longrightarrow> gives Q m \<Longrightarrow> gives Q (case z of File d t \<Rightarrow> f d t | Directory \<Rightarrow> m)"
  by (cases z) auto

lemma gives_prod [gives_intros]: "(\<And>a b. gives Q (f a b)) \<Longrightarrow> gives Q (case p of (a, b) \<Rightarrow> f a b)"
  by (cases p) auto

lemma gives_for_each [gives_intros]: "(\<And>x. returns (f x)) \<Longrightarrow> returns (for_each f xs)"
proof (induction xs)
  case (Cons x xs)
  then have "returns (f x)" "returns (for_each f xs)" by simp_all
  then show ?case by (intro givesI) (auto split: prod.splits sum.splits dest: givesD)
qed (simp add: gives_def)

lemma returns_os [gives_intros]:
  "returns (os_call c)" "returns (os_query q)" "returns (os_update u)" "returns (os_WriteFile p d)"
  unfolding gives_def os_query_def os_update_def os_call_def os_WriteFile_def
  by (auto split: prod.splits fault.splits sum.splits)

lemma returns_db_call: "(\<And>d e. c d = Inl e \<Longrightarrow> wire_error e) \<Longrightarrow> returns (db_call c)"
  unfolding gives_def db_call_def by (auto split: prod.splits fault.splits sum.splits)

lemma returns_db_case [gives_intros]:
  "wire_error e \<Longrightarrow> returns (db_call (\<lambda>d. case g d of None \<Rightarrow> Inl e | Some x \<Rightarrow> Inr (h d x)))"
  "returns (db_call (\<lambda>d. Inr (h' d)))"
  by (rule returns_db_call, simp split: option.splits)+

lemma returns_db [gives_intros]: "returns (db_query q)" "returns (db_exec x)"
  unfolding db_query_def db_exec_def by (auto intro: returns_db_call)

lemma returns_in_tx [gives_intros]:
  assumes "returns body"
  shows "returns (in_tx body)"
proof -
  have "returns (andThen (db_query (\<lambda>d. ())) (\<lambda>_. andThen body (\<lambda>_. db_query (\<lambda>d. ()))))"
    by (intro gives_intros assms TrueI)
  then show ?thesis by (intro givesI) (auto simp: in_tx_def split: prod.splits sum.splits dest: givesD)
qed

section \<open>The store and the storage layer\<close>

lemma returns_store [gives_intros]:
  "returns (InsertBucket b)" "returns (GetBucket n)" "returns (BucketByAccessKey ak)" "returns ListBuckets"
  "returns (UpdateBucketKeys n ak es)" "returns (DeleteBucket n)" "returns (GetObject n k)" "returns (UpsertObject r)"
  "returns (SetObjectETag n k e)" "returns (DeleteObjectRow n k)" "returns (HasObjects n)"
  "returns (ListObjectRows n p c l)" "returns (Stats n p)" "returns (IndexedObjects n)"
  "returns (ApplyIndexChanges n us ds)" "returns (DeleteBucketObjects n)"
  unfolding InsertBucket_def GetBucket_def BucketByAccessKey_def ListBuckets_def UpdateBucketKeys_def DeleteBucket_def
    GetObject_def UpsertObject_def SetObjectETag_def DeleteObjectRow_def HasObjects_def ListObjectRows_def Stats_def
    IndexedObjects_def ApplyIndexChanges_def DeleteBucketObjects_def
  by (intro gives_intros TrueI wire_errors)+

lemma wire_Resolve: "ResolveObjectPath s b k = Inl e \<Longrightarrow> wire_error e"
  by (auto simp: ResolveObjectPath_def Let_def split: if_splits)

lemma returns_Resolve [gives_intros]: "returns (lift_result (ResolveObjectPath s b k))"
  by (rule gives_lift) (auto split: sum.splits dest: wire_Resolve)

lemma returns_calls [gives_intros]:
  "returns (os_Stat p)" "returns (os_ReadFile p)" "returns (os_MkdirAll p)" "returns (os_Remove p)" "returns (os_Rename p q)"
  "returns (os_CreateTemp d rs)" "returns (os_Readdirnames1 d)" "returns os_Close" "returns ctx_Err" "returns (walkObjectFiles d)"
  unfolding os_Stat_def os_ReadFile_def os_MkdirAll_def os_Remove_def os_Rename_def os_CreateTemp_def os_Readdirnames1_def
    os_Close_def ctx_Err_def walkObjectFiles_def by (rule gives_intros)+

lemma returns_removeIfExists [gives_intros]: "returns (removeIfExists p)"
  unfolding removeIfExists_def by (rule gives_attempt) (auto intro: gives_intros)

lemma returns_remove_parents [gives_intros]: "returns (remove_parents n d b)"
  by (induction n arbitrary: d) (auto intro!: gives_intros split: sum.splits)

lemma returns_helpers [gives_intros]:
  "returns (isFile p)" "returns (isDir p)" "returns (removeEmptyParents d b)" "returns (computeETag p)"
  "returns (writeMeta s b k ct pub e)" "returns (readMeta s b k)"
  unfolding isFile_def isDir_def removeEmptyParents_def computeETag_def writeMeta_def readMeta_def Let_def
  by (intro gives_intros TrueI)+

lemma returns_hasObjectFiles [gives_intros]: "returns (hasObjectFiles d)"
  unfolding hasObjectFiles_def by (intro gives_intros TrueI)

lemma returns_indexFromDisk [gives_intros]: "returns (indexFromDisk s b k p)"
  unfolding indexFromDisk_def by (intro gives_intros TrueI)

lemma returns_copy_body: "(\<And>e. bErr b = Some e \<Longrightarrow> wire_error e) \<Longrightarrow> returns (copy_body tmp b)"
  unfolding copy_body_def by (auto intro!: gives_intros split: option.split)

lemma returns_PutObject: "(\<And>e. bErr b = Some e \<Longrightarrow> wire_error e) \<Longrightarrow> returns (PutObject s rs n k b ct pub)"
  unfolding PutObject_def Let_def by (intro gives_intros returns_copy_body TrueI) auto

lemma returns_statIndexed [gives_intros]: "returns (statIndexed s b k p)"
  unfolding statIndexed_def by (intro gives_intros TrueI)

lemma returns_directories [gives_intros]:
  "returns (CreateBucketDirectory s b)" "returns (RemoveBucketDirectory s b)" "returns (IsBucketEmpty s b)"
  unfolding CreateBucketDirectory_def RemoveBucketDirectory_def IsBucketEmpty_def by (auto intro!: gives_intros)

lemma returns_OpenObject [gives_intros]: "returns (OpenObject s b k)"
  unfolding OpenObject_def
  by (intro gives_andThen gives_attempt gives_intros) (auto intro!: gives_intros split: fnode.split)

lemma returns_SetPublic [gives_intros]: "returns (SetPublic s b k pub)"
  unfolding SetPublic_def by (intro gives_intros TrueI wire_errors)

lemma returns_DeleteObject [gives_intros]: "returns (DeleteObject s b k)"
  unfolding DeleteObject_def Let_def by (intro gives_intros TrueI)

lemma returns_reindex_file [gives_intros]: "returns (reindex_file s b force ex f)"
  unfolding reindex_file_def Let_def by (intro gives_intros TrueI)

lemma returns_ReindexBucket [gives_intros]: "returns (ReindexBucket s b force)"
  unfolding ReindexBucket_def Let_def by (intro gives_intros TrueI)

lemma returns_ListObjects [gives_intros]: "returns (ListObjects s b pfx l c)"
  unfolding ListObjects_def Let_def by (intro gives_intros TrueI)

section \<open>Handlers\<close>

text \<open>Which payload may answer which request, and with which status.\<close>

fun fits :: "string \<Rightarrow> string \<Rightarrow> nat \<Rightarrow> payload \<Rightarrow> bool" where
  "fits mth path st Empty \<longleftrightarrow> mth = ''PUT'' \<and> st = 200 \<or> mth = ''DELETE'' \<and> st = 204"
| "fits mth path st (ErrorBody c m t) \<longleftrightarrow> st \<in> {400, 401, 403, 404, 405, 409, 413, 500} \<and> c \<noteq> []"
| "fits mth path st (HealthBody m) \<longleftrightarrow> mth = ''GET'' \<and> path = ''/healthz'' \<and> st = 200"
| "fits mth path st (CredentialsBody n ak sk t d) \<longleftrightarrow> mth = ''POST'' \<and> admin_path path \<and> st \<in> {200, 201}"
| "fits mth path st (BucketsBody bs) \<longleftrightarrow> mth = ''GET'' \<and> path = ''/admin/buckets'' \<and> st = 200"
| "fits mth path st (IndexedBody n i) \<longleftrightarrow> mth = ''POST'' \<and> admin_path path \<and> st = 200"
| "fits mth path st (ListBody l) \<longleftrightarrow> mth = ''GET'' \<and> HasPrefix path ''/buckets/'' \<and> st = 200"
| "fits mth path st (StatsBody b) \<longleftrightarrow> mth = ''GET'' \<and> HasPrefix path ''/buckets/'' \<and> st = 200"
| "fits mth path st (PresignBody u m e) \<longleftrightarrow> mth = ''POST'' \<and> HasPrefix path ''/buckets/'' \<and> st = 200"
| "fits mth path st (ServeContent t d) \<longleftrightarrow> mth \<in> {''GET'', ''HEAD''} \<and> st = 200"

fun json_payload :: "payload \<Rightarrow> bool" where
  "json_payload Empty \<longleftrightarrow> False"
| "json_payload (ServeContent t d) \<longleftrightarrow> False"
| "json_payload _ \<longleftrightarrow> True"

definition well_typed :: "request \<Rightarrow> response \<Rightarrow> bool" where
  "well_typed r rsp \<longleftrightarrow> fits (rMethod r) (rPath r) (rsStatus rsp) (rsBody rsp) \<and>
     (json_payload (rsBody rsp) \<longrightarrow> map_of (rsHeader rsp) ''Content-Type'' = Some ''application/json; charset=utf-8'')"

lemma typed_json [simp]: "json_payload v \<Longrightarrow> well_typed r (writeJSON st v) \<longleftrightarrow> fits (rMethod r) (rPath r) st v"
  by (simp add: well_typed_def writeJSON_def)

lemma typed_header [simp]: "well_typed r (writeHeader st) \<longleftrightarrow> fits (rMethod r) (rPath r) st Empty"
  by (simp add: well_typed_def writeHeader_def)

lemma typed_set [simp]: "k \<noteq> ''Content-Type'' \<Longrightarrow> well_typed r (setHeader k v rsp) \<longleftrightarrow> well_typed r rsp"
  by (simp add: well_typed_def setHeader_def update_conv')

lemma typed_error: "writeError st c m w = (rsp, w') \<Longrightarrow> st \<in> {400, 401, 403, 404, 405, 409, 413, 500} \<Longrightarrow> c \<noteq> [] \<Longrightarrow> well_typed r rsp"
  by (auto simp: writeError_def)

lemma gives_ret_now [gives_intros]: "(\<And>w. Q (f w)) \<Longrightarrow> gives Q (\<lambda>w. ret (f w) w)"
  by (simp add: gives_def ret_def)

lemma gives_andThen_now:
  "(\<And>w. gives Q (andThen (m w) (k w))) \<Longrightarrow> gives Q (\<lambda>w. andThen (m w) (k w) w)"
  by (simp add: gives_def)

text \<open>An error of reading the body is one of the connection.\<close>

definition wire_body :: "request \<Rightarrow> bool" where
  "wire_body r \<longleftrightarrow> (\<forall>e. bErr (rBody r) = Some e \<longrightarrow> as_APIError e = None)"

lemma wire_bodyD: "wire_body r \<Longrightarrow> bErr (rBody r) = Some e \<Longrightarrow> wire_error e"
  by (simp add: wire_body_def wire_error_def)

lemma returns_decodeJSON: "wire_body r \<Longrightarrow> returns (lift_result (decodeJSON sch r))"
  by (rule gives_lift)
    (auto simp: decodeJSON_def Let_def status_defs split: sum.splits option.splits if_splits json_error.splits dest: wire_bodyD)

lemma returns_authedBucket: "returns (lift_result (authedBucket r))"
  by (rule gives_lift) (auto simp: authedBucket_def status_defs split: sum.splits option.splits if_splits)

lemma returns_requireBucket [gives_intros]: "returns (requireBucket n)"
  unfolding requireBucket_def by (intro gives_intros TrueI wire_errors)

lemmas handler_returns = returns_authedBucket returns_decodeJSON returns_PutObject

lemma typed_admin_handlers:
  "rMethod r = ''GET'' \<Longrightarrow> rPath r = ''/healthz'' \<Longrightarrow> gives (well_typed r) (health r)"
  "rMethod r = ''GET'' \<Longrightarrow> rPath r = ''/admin/buckets'' \<Longrightarrow> gives (well_typed r) (listBuckets r)"
  "rMethod r = ''DELETE'' \<Longrightarrow> gives (well_typed r) (deleteBucket s r)"
  "rMethod r = ''POST'' \<Longrightarrow> admin_path (rPath r) \<Longrightarrow> gives (well_typed r) (rotateBucketKey s r)"
  "rMethod r = ''POST'' \<Longrightarrow> admin_path (rPath r) \<Longrightarrow> gives (well_typed r) (reindexBucket s r)"
  unfolding health_def listBuckets_def deleteBucket_def rotateBucketKey_def reindexBucket_def Let_def
  by (intro gives_intros TrueI; simp add: status_defs)+

lemma typed_createBucket:
  assumes "rMethod r = ''POST''" "admin_path (rPath r)" "wire_body r"
  shows "gives (well_typed r) (createBucket s r)"
  unfolding createBucket_def Let_def
  by (rule gives_andThen [OF returns_decodeJSON [OF assms(3)]],
      (rule gives_if gives_fail gives_ret gives_andThen [OF returns_store(2)] gives_andThen [OF returns_store(1)]
        gives_andThen_now gives_attempt returns_directories returns_store(6) | simp add: assms status_defs)+)

lemma typed_getObject: "rMethod r \<in> {''GET'', ''HEAD''} \<Longrightarrow> gives (well_typed r) (getObject s r)"
  unfolding getObject_def by (intro handler_returns gives_intros; auto simp: status_defs well_typed_def)

lemma typed_object_handlers:
  "rMethod r = ''PUT'' \<Longrightarrow> wire_body r \<Longrightarrow> gives (well_typed r) (putObject s r)"
  "rMethod r = ''DELETE'' \<Longrightarrow> gives (well_typed r) (deleteObject s r)"
  "rMethod r = ''PUT'' \<Longrightarrow> wire_body r \<Longrightarrow> gives (well_typed r) (setACL s r)"
  "rMethod r = ''GET'' \<Longrightarrow> HasPrefix (rPath r) ''/buckets/'' \<Longrightarrow> gives (well_typed r) (listObjects s r)"
  "rMethod r = ''GET'' \<Longrightarrow> HasPrefix (rPath r) ''/buckets/'' \<Longrightarrow> gives (well_typed r) (bucketStats r)"
  unfolding putObject_def deleteObject_def setACL_def listObjects_def bucketStats_def Let_def
  by (intro handler_returns gives_intros TrueI; simp add: status_defs wire_bodyD)+

lemma wire_Decrypt: "DecryptSecret c t = Inl e \<Longrightarrow> wire_error e"
  by (auto simp: DecryptSecret_def Let_def split: option.splits if_splits)

lemma typed_presign:
  assumes "rMethod r = ''POST''" "HasPrefix (rPath r) ''/buckets/''" "wire_body r"
  shows "gives (well_typed r) (presign s r)"
  unfolding presign_def Let_def
  by (intro handler_returns gives_intros TrueI; simp add: status_defs assms wire_Decrypt split: sum.split)

section \<open>The pipeline\<close>

definition typed_routes :: "request \<Rightarrow> (string \<times> handler) list \<Rightarrow> bool" where
  "typed_routes r routes \<longleftrightarrow> (\<forall>(m, h)\<in>set routes. m = rMethod r \<longrightarrow> gives (well_typed r) (h r))"

lemma dispatch_typed:
  assumes ty: "typed_routes r routes" and "dispatch routes r w = (rsp, w')"
  shows "well_typed r rsp"
proof (cases "map_of routes (rMethod r)")
  case None
  with assms(2) show ?thesis by (auto simp: dispatch_def writeError_def status_defs split: prod.splits)
next
  case (Some h)
  then have h: "gives (well_typed r) (h r)" using ty by (auto simp: typed_routes_def dest: map_of_SomeD)
  show ?thesis
  proof (cases "h r w")
    case (Pair res w1)
    show ?thesis
    proof (cases res)
      case (Inl e)
      with Pair givesD(1) [OF h, of w e w1] have "wire_error e" by simp
      with assms(2) Some Pair Inl show ?thesis
        by (auto simp: dispatch_def wire_error_def writeError_def internalError_def status_defs split: option.splits)
    next
      case (Inr x)
      with Pair givesD(2) [OF h, of w x w1] assms(2) Some show ?thesis by (simp add: dispatch_def)
    qed
  qed
qed

lemma typed_pv: "well_typed (r\<lparr>pvName := n\<rparr>) = well_typed r" "well_typed (r\<lparr>pvBucket := b\<rparr>) = well_typed r"
  "well_typed (r\<lparr>pvKey := k\<rparr>) = well_typed r" "well_typed (r\<lparr>rAuth := a\<rparr>) = well_typed r"
  by (simp_all add: well_typed_def fun_eq_iff)

lemma wire_body_pv [simp]: "wire_body (r\<lparr>pvName := n\<rparr>) = wire_body r" "wire_body (r\<lparr>pvBucket := b\<rparr>) = wire_body r"
  "wire_body (r\<lparr>pvKey := k\<rparr>) = wire_body r" "wire_body (r\<lparr>rAuth := a\<rparr>) = wire_body r"
  by (simp_all add: wire_body_def)

lemma typed_not_found: "routeNotFound w = (rsp, w') \<Longrightarrow> well_typed r rsp"
  unfolding routeNotFound_def by (erule typed_error) (simp_all add: status_defs)

lemma serveStatic_typed: "serveStatic s t0 fe r w = (rsp, w') \<Longrightarrow> well_typed r rsp"
  by (auto simp: serveStatic_def Let_def writeError_def status_defs well_typed_def [of r "\<lparr>rsStatus = _, rsHeader = _, rsBody = _\<rparr>"]
      dest: typed_not_found split: option.splits if_splits prod.splits)

lemma dispatch_typed_as:
  assumes "dispatch routes r' w = (rsp, w')" "well_typed r' = well_typed r" "typed_routes r' routes"
  shows "well_typed r rsp"
  using dispatch_typed [OF assms(3,1)] assms(2) by simp

lemma typed_admin_routes:
  assumes "admin_path (rPath r)" "wire_body r"
  shows "typed_routes r [(''DELETE'', deleteBucket s)]" "typed_routes r [(''POST'', rotateBucketKey s)]"
    "typed_routes r [(''POST'', reindexBucket s)]"
    "rPath r = ''/admin/buckets'' \<Longrightarrow> typed_routes r [(''GET'', listBuckets), (''POST'', createBucket s)]"
  using assms by (auto simp: typed_routes_def intro!: typed_admin_handlers typed_createBucket)

lemma typed_bucket_routes:
  assumes "HasPrefix (rPath r) ''/buckets/''" "wire_body r"
  shows "typed_routes r [(''GET'', listObjects s)]" "typed_routes r [(''GET'', bucketStats)]"
    "typed_routes r [(''POST'', presign s)]" "typed_routes r [(''PUT'', setACL s)]"
    "typed_routes r [(''GET'', getObject s), (''HEAD'', getObject s), (''PUT'', putObject s), (''DELETE'', deleteObject s)]"
  using assms by (auto simp: typed_routes_def intro!: typed_object_handlers typed_getObject typed_presign)

lemma route_admin_typed:
  assumes "wire_body r" "HasPrefix (rPath r) ''/admin/buckets/''" "route_admin s r w = (rsp, w')"
  shows "well_typed r rsp"
proof -
  have "admin_path (rPath r)" using assms(2) by (auto simp: admin_path_def prefix_def)
  then have "admin_path (rPath (r\<lparr>pvName := n\<rparr>))" "wire_body (r\<lparr>pvName := n\<rparr>)" for n using assms(1) by simp_all
  note ty = typed_admin_routes(1-3) [OF this]
  show ?thesis using assms(3)
    by (auto simp: route_admin_def Let_def split: if_splits prod.splits
        dest: typed_not_found dispatch_typed_as [OF _ typed_pv(1) ty(1)] dispatch_typed_as [OF _ typed_pv(1) ty(2)]
          dispatch_typed_as [OF _ typed_pv(1) ty(3)])
qed

lemma typed_pv_key: "well_typed (r\<lparr>pvBucket := b, pvKey := k\<rparr>) = well_typed r"
  by (simp add: typed_pv)

lemma route_bucket_typed:
  assumes "wire_body r" "HasPrefix (rPath r) ''/buckets/''" "route_bucket s r w = (rsp, w')"
  shows "well_typed r rsp"
proof -
  have "HasPrefix (rPath (r\<lparr>pvBucket := b\<rparr>)) ''/buckets/''" "wire_body (r\<lparr>pvBucket := b\<rparr>)"
    "HasPrefix (rPath (r\<lparr>pvBucket := b, pvKey := k\<rparr>)) ''/buckets/''" "wire_body (r\<lparr>pvBucket := b, pvKey := k\<rparr>)" for b k
    using assms(1,2) by simp_all
  note ty = typed_bucket_routes(1-3) [OF this(1,2)] typed_bucket_routes(4,5) [OF this(3,4)]
  show ?thesis using assms(3)
    by (auto simp: route_bucket_def Let_def split: if_splits prod.splits
        dest: typed_not_found dispatch_typed_as [OF _ typed_pv(2) ty(1)] dispatch_typed_as [OF _ typed_pv(2) ty(2)]
          dispatch_typed_as [OF _ typed_pv(2) ty(3)] dispatch_typed_as [OF _ typed_pv_key ty(4)]
          dispatch_typed_as [OF _ typed_pv_key ty(5)])
qed

lemma router_typed:
  assumes "wire_body r" "router s t0 fe r w = (rsp, w')"
  shows "well_typed r rsp"
proof -
  have h: "rPath r = ''/healthz'' \<Longrightarrow> typed_routes r [(''GET'', health)]"
    by (simp add: typed_routes_def typed_admin_handlers)
  have a: "rPath r = ''/admin/buckets'' \<Longrightarrow> typed_routes r [(''GET'', listBuckets), (''POST'', createBucket s)]"
    using typed_admin_routes(4) [OF _ assms(1)] by (simp add: admin_path_def)
  show ?thesis
    using assms(2) dispatch_typed [OF h, of w rsp w'] dispatch_typed [OF a, of w rsp w'] route_admin_typed [OF assms(1), of s w rsp w']
      route_bucket_typed [OF assms(1), of s w rsp w'] serveStatic_typed [of s t0 fe r w rsp w']
    by (simp add: router_def Let_def split: if_splits)
qed

lemma bucketAuth_typed:
  assumes nxt: "\<And>a w rsp w'. nxt (r\<lparr>rAuth := a\<rparr>) w = (rsp, w') \<Longrightarrow> well_typed r rsp"
    and run: "bucketAuth s nxt (r\<lparr>rAuth := None\<rparr>) w = (rsp, w')"
  shows "well_typed r rsp"
  using run nxt [of _ _ rsp w']
  by (auto simp: bucketAuth_def check_credentials_def deny_key_def internalError_def writeError_def status_defs Let_def
      split: option.splits prod.splits sum.splits if_splits)

lemma Handler_typed:
  assumes "wire_body r" "Handler s t0 fe r w = (rsp, w')"
  shows "well_typed r rsp"
proof -
  have "well_typed r rsp'" if "router s t0 fe (r\<lparr>rAuth := a\<rparr>) w1 = (rsp', w2)" for a w1 rsp' w2
    using router_typed [OF _ that] assms(1) by (simp add: typed_pv)
  with bucketAuth_typed [of "router s t0 fe" r s w rsp w'] show ?thesis
    using assms(2)
    by (auto simp: Handler_def adminAuth_def writeError_def status_defs split: if_splits option.splits list.splits)
qed

section \<open>Uploads\<close>

text \<open>What an answer to a signed upload says when it is a success.\<close>

lemma put_succeeded:
  assumes st: "storage_at rs (storage s)" and b: "live_bucket w b" and k: "key_ok k" "newline \<notin> set k"
    and p: "rMethod p = ''PUT''" "rPath p = object_route (Name b) k" "temps_ok k (rndTemps (rEntropy p))" "signed_request s b w p"
    and run: "Handler s t0 fe p w = (rsp, w1)" and ok: "rsStatus rsp = 200" and wb: "wire_body p"
  shows "rsp = setHeader ''ETag'' (dquote (etag_of (bData (rBody p)))) (writeHeader StatusOK) \<and> bErr (rBody p) = None \<and>
    put_done rs (Name b) k (bData (rBody p)) (HeaderGet p ''Content-Type'')
      (EqualFold (HeaderGet p ''X-S3bender-Public'') ''true'') (wnow w) w1"
proof -
  note b' = live_bucketD [OF b]
  have kn: "k \<noteq> []" using k(1) by (auto simp: key_ok_def)
  obtain w0 where same: "same_state w w0" and h: "Handler s t0 fe p w = internalError w0 \<or> Handler s t0 fe p w =
      dispatch [(''GET'', getObject s), (''HEAD'', getObject s), (''PUT'', putObject s), (''DELETE'', deleteObject s)]
        (object_request p b k False) w0"
    using signed_put_runs [OF b p(1,2) kn k(2) p(4)] by blast
  let ?put = "PutObject (storage s) (rndTemps (rEntropy p)) (Name b) k (rBody p) (HeaderGet p ''Content-Type'')
      (EqualFold (HeaderGet p ''X-S3bender-Public'') ''true'')"
  obtain q v where q: "?put w0 = (q, v)" by force
  have put: "putObject s (object_request p b k False) w0 =
      (case q of Inl e \<Rightarrow> (Inl e, v) | Inr etag \<Rightarrow> (Inr (setHeader ''ETag'' (dquote etag) (writeHeader StatusOK)), v))"
    using q by (simp add: putObject_def authedBucket_def andThen_lift andThen_def ret_def Let_def HeaderGet_def split: sum.split)
  have not500: "internalError y \<noteq> (rsp, w1)" for y
    using ok by (auto simp: internalError_def writeError_def writeJSON_def status_defs)
  have ret: "returns ?put" by (rule returns_PutObject) (use wb in \<open>auto dest: wire_bodyD\<close>)
  show ?thesis
  proof (cases q)
    case (Inl e)
    then have "wire_error e" using givesD(1) [OF ret] q by blast
    then have "rsStatus rsp \<noteq> 200"
      using h run put Inl p(1) not500 not500 [symmetric]
      by (auto simp: dispatch_def wire_error_def writeError_def writeJSON_def split: option.splits)
    with ok show ?thesis by simp
  next
    case (Inr etag)
    have "Handler s t0 fe p w \<noteq> internalError w0" using run not500 [of w0] by simp
    then have "rsp = setHeader ''ETag'' (dquote etag) (writeHeader StatusOK)" "w1 = v"
      using h run put Inr p(1) by (auto simp: dispatch_def)
    moreover have "etag = etag_of (bData (rBody p)) \<and> bErr (rBody p) = None \<and> put_done rs (Name b) k (bData (rBody p))
        (HeaderGet p ''Content-Type'') (EqualFold (HeaderGet p ''X-S3bender-Public'') ''true'') (wnow w) v"
      using triple_case [OF PutObject_atomic [OF st b'(3) k(1) p(3)] _ q] Inr same by (simp add: at_file_def)
    ultimately show ?thesis by simp
  qed
qed

end
