(* ===== verification/ServingLaws.thy ===== *)
theory ServingLaws
  imports ContentServing Responses
begin

text \<open>
  What a client gets from \<open>http.ServeContent\<close>: a range it names, \<open>304\<close> when what it has is current, and the
  whole file in pieces of any length.
\<close>

section \<open>One range\<close>

text \<open>The header a client sends for the bytes from \<open>a\<close> to \<open>b\<close>.\<close>

definition byte_range :: "nat \<Rightarrow> nat \<Rightarrow> string" where
  "byte_range a b = ''bytes='' @ nat_digits a @ CHR ''-'' # nat_digits b"

lemma digit_not_space: "is_digit c \<Longrightarrow> \<not> ascii_space c"
  by (auto simp: is_digit_def ascii_space_def)

lemma TrimString_id: "s \<noteq> [] \<Longrightarrow> \<not> ascii_space (hd s) \<Longrightarrow> \<not> ascii_space (last s) \<Longrightarrow> TrimString s = s"
proof -
  assume "s \<noteq> []" "\<not> ascii_space (hd s)" "\<not> ascii_space (last s)"
  moreover from this have "dropWhile ascii_space s = s" "dropWhile ascii_space (rev s) = rev s"
    by (cases s; simp; fail) (cases "rev s"; use \<open>\<not> ascii_space (last s)\<close> in \<open>auto simp: last_rev [symmetric] hd_rev\<close>)
  ultimately show ?thesis by (simp add: TrimString_def)
qed

lemma nat_digits_ends: "is_digit (hd (nat_digits n))" "is_digit (last (nat_digits n))"
  using nat_digits_digits nat_digits_nonempty by (meson hd_in_set last_in_set)+

lemma Trim_digits: "TrimString (nat_digits n) = nat_digits n"
  by (rule TrimString_id) (simp_all add: digit_not_space nat_digits_ends)

lemma Trim_pair: "TrimString (nat_digits a @ CHR ''-'' # nat_digits b) = nat_digits a @ CHR ''-'' # nat_digits b"
  by (rule TrimString_id) (simp_all add: digit_not_space nat_digits_ends)

lemma ParseInt_digits: "n < 2 ^ 63 \<Longrightarrow> ParseInt (nat_digits n) = Some (word_of_int (int n))"
  by (simp add: ParseInt_def)

lemma sint_nat: "n < 2 ^ 63 \<Longrightarrow> sint (word_of_nat n :: int64) = int n"
  by (simp add: signed_of_nat signed_take_bit_int_eq_self)

lemma parse_spec_pair:
  assumes "a \<le> b" "b < 2 ^ 63"
  shows "parse_spec sz (nat_digits a @ CHR ''-'' # nat_digits b) =
    (if sz \<le> int a then NoOverlapSpec else RangeSpec (int a) (min (int b) (sz - 1) - int a + 1))"
proof -
  have "CHR ''-'' \<notin> set (nat_digits a)" using nat_digits_digits by fastforce
  moreover have "a < 2 ^ 63" using assms by simp
  ultimately show ?thesis using assms
    by (simp add: parse_spec_def cut_at_append Trim_digits ParseInt_digits sint_nat Let_def)
qed

lemma split_pair: "split_on CHR '','' (nat_digits a @ CHR ''-'' # nat_digits b) = [nat_digits a @ CHR ''-'' # nat_digits b]"
proof (rule split_on_no_sep)
  have "\<not> is_digit CHR '',''" by (simp add: is_digit_def)
  then show "CHR '','' \<notin> set (nat_digits a @ CHR ''-'' # nat_digits b)" using nat_digits_digits by auto
qed

lemma wanted_byte_range:
  assumes "a \<le> b" "b < 2 ^ 63"
  shows "wanted_ranges (byte_range a b) (int n) =
    (if n = 0 then Ranges [] else if n \<le> a then NoOverlap else Ranges [(int a, int (min b (n - 1)) - int a + 1)])"
proof -
  let ?p = "nat_digits a @ CHR ''-'' # nat_digits b"
  have "parse_specs (int n) [?p] = (if n \<le> a then Some (True, []) else Some (False, [(int a, min (int b) (int n - 1) - int a + 1)]))"
    using parse_spec_pair [OF assms, of "int n"] by (simp add: Trim_pair)
  moreover have "parseRange (byte_range a b) (int n) = (case parse_specs (int n) [?p] of
      None \<Rightarrow> InvalidRange | Some (o1, rs) \<Rightarrow> if o1 \<and> rs = [] then NoOverlap else Ranges rs)"
    by (simp add: parseRange_def byte_range_def split_pair)
  ultimately show ?thesis using assms by (auto simp: wanted_ranges_def of_nat_diff)
qed

section \<open>Conditions\<close>

definition no_dates :: "request \<Rightarrow> bool" where
  "no_dates r \<longleftrightarrow> HeaderGet r ''If-Match'' = [] \<and> HeaderGet r ''If-Unmodified-Since'' = [] \<and> HeaderGet r ''If-Range'' = []"

lemma no_datesD:
  assumes "no_dates r"
  shows "checkIfMatch r e = CondNone" "checkIfUnmodifiedSince net r t = CondNone" "checkIfRange net r t e = CondNone"
  using assms by (simp_all add: no_dates_def checkIfMatch_def checkIfUnmodifiedSince_def checkIfRange_def header_time_def)

lemmas precondition_simps = checkPreconditions_def no_datesD Let_def

lemma preconditions_none:
  assumes "no_dates r" "HeaderGet r ''If-None-Match'' = []" "HeaderGet r ''If-Modified-Since'' = []"
  shows "checkPreconditions net r t e = Inr (HeaderGet r ''Range'')"
  using assms by (simp add: precondition_simps checkIfNoneMatch_def checkIfModifiedSince_def header_time_def)

lemma scan_dquote: "list_all etag_char e \<Longrightarrow> scanETag (dquote e) = (dquote e, [])"
proof -
  assume e: "list_all etag_char e"
  have q: "\<not> etag_char quote_char" by (simp add: etag_char_def quote_char_def)
  have "TrimString (dquote e) = dquote e" by (rule TrimString_id) (simp_all add: dquote_def ascii_space_def)
  moreover have "dropWhile etag_char (e @ [quote_char]) = [quote_char]" "takeWhile etag_char (e @ [quote_char]) = e"
    using e q by (simp_all add: list_all_iff dropWhile_append takeWhile_append)
  ultimately show ?thesis by (simp add: scanETag_def Let_def dquote_def quote_char_def)
qed

lemma any_dquote: "list_all etag_char e \<Longrightarrow> any_etag p (dquote e) \<longleftrightarrow> p (dquote e)"
proof -
  assume e: "list_all etag_char e"
  have "TrimString (dquote e) = dquote e" by (rule TrimString_id) (simp_all add: dquote_def ascii_space_def)
  moreover have "any_etag p [] = False" by (subst any_etag.simps) (simp add: TrimString_def)
  ultimately show ?thesis using scan_dquote [OF e] by (subst any_etag.simps) (simp add: dquote_def)
qed

lemma etag_of_chars: "list_all etag_char (etag_of d)"
  by (auto simp: list_all_iff etag_of_def etag_char_def is_lower_hex_def is_digit_def dest!: hex_encode_lower)

lemma weak_dquote: "etagWeakMatch (dquote a) (dquote b) \<longleftrightarrow> a = b"
  by (simp add: etagWeakMatch_def TrimPrefix_def dquote_def)

lemma none_match_tag:
  assumes "HeaderGet r ''If-None-Match'' = dquote e" "list_all etag_char e"
  shows "checkIfNoneMatch r (dquote tag) = (if e = tag then CondFalse else CondTrue)"
proof -
  have "dquote e \<noteq> []" by (simp add: dquote_def)
  then show ?thesis by (simp only: checkIfNoneMatch_def assms(1) Let_def any_dquote [OF assms(2)] weak_dquote if_False if_cancel split: if_split)
qed

lemma preconditions_tag:
  assumes "no_dates r" "HeaderGet r ''If-None-Match'' = dquote e" "list_all etag_char e" "reading r"
  shows "checkPreconditions net r t (dquote tag) = (if e = tag then Inl 304 else Inr (HeaderGet r ''Range''))"
  using assms none_match_tag [OF assms(2,3)] by (simp add: precondition_simps)

lemma http_date_nonempty: "http_date t \<noteq> []"
  using name_tables(2) weekday_less [of "fields_of t"] nth_mem [of "weekday (fields_of t)" shortDayNames]
  by (auto simp: http_date_def Format_def TimeFormat_def name_table_def list_all_iff name_tables(4))

lemma preconditions_date:
  assumes "no_dates r" "HeaderGet r ''If-None-Match'' = []" "HeaderGet r ''If-Modified-Since'' = http_date u"
    and "four_digit_years u" "\<not> isZeroTime t" "reading r"
  shows "checkPreconditions net r t e = (if whole_second t \<le> whole_second u then Inl 304 else Inr (HeaderGet r ''Range''))"
  using assms ParseTime_http_date [OF assms(4)]
  by (simp add: precondition_simps checkIfNoneMatch_def checkIfModifiedSince_def header_time_def http_date_nonempty)

section \<open>Answers\<close>

definition plain_get :: "request \<Rightarrow> bool" where
  "plain_get r \<longleftrightarrow> rMethod r = ''GET'' \<and> no_dates r \<and> HeaderGet r ''If-None-Match'' = [] \<and> HeaderGet r ''If-Modified-Since'' = []"

lemma etag_header: "map_of h ''ETag'' = Some e \<Longrightarrow>
    header_of (if b then h else AList.update ''Last-Modified'' v h) ''ETag'' = e"
  by (simp add: header_of_def update_conv)

lemma partial_one:
  "wStatus (partial_content net d h []) = 200" "wBody (partial_content net d h []) = d"
  "wStatus (partial_content net d h [ra]) = 206" "wBody (partial_content net d h [ra]) = slice d ra"
  by (simp_all add: partial_content_def)

lemma range_answer:
  assumes "plain_get r" "HeaderGet r ''Range'' = byte_range a b" "a \<le> b" "b < 2 ^ 63" and "rsBody rsp = ServeContent t d"
  shows "wStatus (respond net r rsp) = (if d = [] then 200 else if length d \<le> a then 416 else 206)"
    and "d = [] \<or> a < length d \<Longrightarrow> wBody (respond net r rsp) = take (b + 1 - a) (drop a d)"
proof -
  have m: "rMethod r = ''GET''" using assms(1) by (simp add: plain_get_def)
  have c: "checkPreconditions net r t e = Inr (byte_range a b)" for e
    using preconditions_none [of r net t e] assms(1,2) by (simp add: plain_get_def)
  have s: "slice d (int a, int (min b (length d - 1)) - int a + 1) = take (b + 1 - a) (drop a d)" if "a < length d"
  proof -
    have "nat (int (min b (length d - 1)) - int a + 1) = min (b + 1 - a) (length d - a)" using that assms(3) by auto
    then show ?thesis by (simp add: slice_def min_def)
  qed
  note w = wanted_byte_range [OF assms(3,4), of "length d"]
  show "wStatus (respond net r rsp) = (if d = [] then 200 else if length d \<le> a then 416 else 206)"
    by (simp add: respond_def assms(5) m serve_content_def c w partial_one serveError_def Let_def)
  show "d = [] \<or> a < length d \<Longrightarrow> wBody (respond net r rsp) = take (b + 1 - a) (drop a d)"
    using s by (auto simp: respond_def assms(5) m serve_content_def c w partial_one Let_def)
qed

text \<open>The whole file without a range, and the answer that says it has not changed.\<close>

definition whole_or_unchanged :: "bool \<Rightarrow> string \<Rightarrow> wire \<Rightarrow> bool" where
  "whole_or_unchanged same d x \<longleftrightarrow> (if same then wStatus x = 304 \<and> wBody x = [] else wStatus x = 200 \<and> wBody x = d)"

lemma wanted_none: "wanted_ranges [] (int n) = Ranges []"
  by (simp add: wanted_ranges_def parseRange_def)

lemma conditional_answer:
  assumes "rMethod r = ''GET''" "rsBody rsp = ServeContent t d" "map_of (rsHeader rsp) ''ETag'' = Some e"
    and "checkPreconditions net r t e = (if same then Inl 304 else Inr [])"
  shows "whole_or_unchanged same d (respond net r rsp)"
  using assms by (auto simp: whole_or_unchanged_def respond_def serve_content_def etag_header writeNotModified_def wanted_none partial_one Let_def)

lemma serve_whole:
  assumes "\<forall>h\<in>{''If-Match'', ''If-Unmodified-Since'', ''If-None-Match'', ''If-Modified-Since'', ''Range''}. HeaderGet r h = []"
    and "map_of h0 ''Content-Type'' \<noteq> None" "map_of h0 ''Last-Modified'' = None" "map_of h0 ''Accept-Ranges'' = None"
      "map_of h0 ''Content-Length'' = None"
  shows "serve_content net r name t d h0 = \<lparr>wStatus = 200,
    wHeader = h0 @ (if isZeroTime t then [] else [(''Last-Modified'', http_date t)]) @
      [(''Accept-Ranges'', ''bytes''), (''Content-Length'', format_int (int (length d)))],
    wBody = d\<rparr>"
proof -
  have c: "checkPreconditions net r t e = Inr []" for e
    using assms(1) by (simp add: checkPreconditions_def checkIfMatch_def checkIfUnmodifiedSince_def checkIfNoneMatch_def
        checkIfModifiedSince_def header_time_def Let_def)
  have new: "AList.update x v h = h @ [(x, v)]" if "map_of h x = None" for x v :: string and h
    using that by (induction h) (auto split: if_splits)
  show ?thesis using assms(2-5)
    by (auto simp: serve_content_def c wanted_none partial_content_def new update_conv' map_add_def Let_def)
qed

section \<open>What can be answered\<close>

lemma partial_answer:
  assumes "wStatus (serve_content net r name t d h) = 206"
  shows "\<exists>ct rs. rs \<noteq> [] \<and> (\<forall>ra\<in>set rs. range_in (int (length d)) ra) \<and> sum_list (map snd rs) \<le> int (length d) \<and>
    wBody (serve_content net r name t d h) = (if length rs = 1 then slice d (hd rs) else multipart_body (Boundary net) ct d rs)"
proof -
  let ?h1 = "if isZeroTime t then h else AList.update ''Last-Modified'' (http_date t) h"
  let ?h = "if map_of ?h1 ''Content-Type'' = None then AList.update ''Content-Type'' (MimeType net name d) ?h1 else ?h1"
  have no: "checkPreconditions net r t e \<noteq> Inl 206" for e by (auto simp: checkPreconditions_def Let_def split: cond.splits)
  then obtain v rs where "checkPreconditions net r t (header_of ?h1 ''ETag'') = Inr v" "wanted_ranges v (int (length d)) = Ranges rs"
    using assms by (auto simp: serve_content_def writeNotModified_def serveError_def Let_def split: sum.splits range_set.splits if_splits)
  moreover from this have x: "serve_content net r name t d h = partial_content net d ?h rs" by (simp add: serve_content_def Let_def)
  moreover have "rs \<noteq> []" using assms x by (auto simp: partial_content_def Let_def)
  moreover have "wBody (partial_content net d ?h rs) =
      (if length rs = 1 then slice d (hd rs) else multipart_body (Boundary net) (header_of ?h ''Content-Type'') d rs)"
    using \<open>rs \<noteq> []\<close> by (cases rs; cases "tl rs") (auto simp: partial_content_def Let_def)
  ultimately show ?thesis using wanted_ranges_in [of v "int (length d)" rs] by auto
qed


text \<open>What \<open>http.ServeContent\<close> can answer at all, and what the request must have asked for.\<close>

lemma serve_content_cases:
  fixes r name t d h net
  defines "x \<equiv> serve_content net r name t d h"
  assumes "reading r"
  shows "wStatus x = 200 \<and> wBody x = d \<or>
    wStatus x = 206 \<and> HeaderGet r ''Range'' \<noteq> [] \<or>
    wStatus x = 304 \<and> wBody x = [] \<and> (HeaderGet r ''If-None-Match'' \<noteq> [] \<or> HeaderGet r ''If-Modified-Since'' \<noteq> []) \<or>
    wStatus x = 412 \<and> wBody x = [] \<and> (HeaderGet r ''If-Match'' \<noteq> [] \<or> HeaderGet r ''If-Unmodified-Since'' \<noteq> []) \<or>
    wStatus x = 416 \<and> HeaderGet r ''Range'' \<noteq> [] \<and> HasPrefix (wBody x) ''invalid range'' \<and>
      map_of (wHeader x) ''Content-Type'' = Some ''text/plain; charset=utf-8''"
proof -
  let ?h1 = "if isZeroTime t then h else AList.update ''Last-Modified'' (http_date t) h"
  let ?h = "if map_of ?h1 ''Content-Type'' = None then AList.update ''Content-Type'' (MimeType net name d) ?h1 else ?h1"
  let ?c = "checkPreconditions net r t (header_of ?h1 ''ETag'')"
  have pre: "(case ?c of
      Inl st \<Rightarrow> st = 304 \<and> (HeaderGet r ''If-None-Match'' \<noteq> [] \<or> HeaderGet r ''If-Modified-Since'' \<noteq> []) \<or>
        st = 412 \<and> (HeaderGet r ''If-Match'' \<noteq> [] \<or> HeaderGet r ''If-Unmodified-Since'' \<noteq> [])
    | Inr v \<Rightarrow> v = [] \<or> v = HeaderGet r ''Range'')"
    using assms(2) by (auto simp: checkPreconditions_def checkIfMatch_def checkIfUnmodifiedSince_def checkIfNoneMatch_def
        checkIfModifiedSince_def header_time_def Let_def split: cond.splits if_splits)
  show ?thesis
  proof (cases ?c)
    case (Inl st)
    then have "x = (if st = 304 then writeNotModified ?h1 else \<lparr>wStatus = st, wHeader = ?h1, wBody = []\<rparr>)"
      by (simp add: x_def serve_content_def Let_def)
    with pre Inl show ?thesis by (auto simp: writeNotModified_def)
  next
    case (Inr v)
    show ?thesis
    proof (cases "wanted_ranges v (int (length d))")
      case (Ranges rs)
      then have x: "x = partial_content net d ?h rs" using Inr by (simp add: x_def serve_content_def Let_def)
      show ?thesis
      proof (cases rs)
        case Nil
        then show ?thesis by (simp add: x partial_content_def Let_def)
      next
        case (Cons ra ras)
        then have "v \<noteq> []" using Ranges wanted_none [of "length d"] by auto
        moreover have "wStatus x = 206" using Cons by (cases ras) (simp_all add: x partial_content_def Let_def)
        ultimately show ?thesis using pre Inr by auto
      qed
    next
      case NoOverlap
      then have "v \<noteq> []" using wanted_none [of "length d"] by auto
      with NoOverlap pre Inr show ?thesis by (auto simp: x_def serve_content_def serveError_def update_conv' Let_def)
    next
      case InvalidRange
      then have "v \<noteq> []" using wanted_none [of "length d"] by auto
      with InvalidRange pre Inr show ?thesis by (auto simp: x_def serve_content_def serveError_def update_conv' Let_def)
    qed
  qed
qed

text \<open>
  What a client may read, by the payload the handler chose: \<open>http.ServeContent\<close> decides on the status of an object
  or an asset, and every other answer keeps the status of its handler and is JSON, unless it is empty.
\<close>

definition wire_typed :: "net \<Rightarrow> request \<Rightarrow> payload \<Rightarrow> wire \<Rightarrow> bool" where
  "wire_typed net r v x \<longleftrightarrow>
    (case v of
       ServeContent t d \<Rightarrow> rMethod r \<in> {''GET'', ''HEAD''} \<and>
         (wStatus x = 200 \<and> wBody x = (if rMethod r = ''HEAD'' then [] else d) \<or>
          wStatus x = 206 \<and> HeaderGet r ''Range'' \<noteq> [] \<and>
            (\<exists>ct rs. rs \<noteq> [] \<and> (\<forall>ra\<in>set rs. range_in (int (length d)) ra) \<and> sum_list (map snd rs) \<le> int (length d) \<and>
               wBody x = (if rMethod r = ''HEAD'' then [] else if length rs = 1 then slice d (hd rs)
                          else multipart_body (Boundary net) ct d rs)) \<or>
          wStatus x = 304 \<and> wBody x = [] \<and> (HeaderGet r ''If-None-Match'' \<noteq> [] \<or> HeaderGet r ''If-Modified-Since'' \<noteq> []) \<or>
          wStatus x = 412 \<and> wBody x = [] \<and> (HeaderGet r ''If-Match'' \<noteq> [] \<or> HeaderGet r ''If-Unmodified-Since'' \<noteq> []) \<or>
          wStatus x = 416 \<and> HeaderGet r ''Range'' \<noteq> [] \<and> (rMethod r = ''GET'' \<longrightarrow> HasPrefix (wBody x) ''invalid range'') \<and>
            map_of (wHeader x) ''Content-Type'' = Some ''text/plain; charset=utf-8'')
     | Empty \<Rightarrow> wBody x = [] \<and> (rMethod r = ''PUT'' \<and> wStatus x = 200 \<or> rMethod r = ''DELETE'' \<and> wStatus x = 204)
     | _ \<Rightarrow> fits (rMethod r) (rPath r) (wStatus x) v \<and> wBody x = (if rMethod r = ''HEAD'' then [] else wire_text v) \<and>
         map_of (wHeader x) ''Content-Type'' = Some ''application/json; charset=utf-8'')"

lemma respond_typed:
  assumes ty: "well_typed r rsp"
  shows "wire_typed net r (rsBody rsp) (respond net r rsp)"
proof (cases "rsBody rsp")
  case (ServeContent t d)
  let ?name = "if TrimPrefix (rPath r) ''/'' = [] then ''index.html'' else TrimPrefix (rPath r) ''/''"
  let ?y = "serve_content net r ?name t d (rsHeader rsp)"
  have m: "rMethod r \<in> {''GET'', ''HEAD''}" using ty ServeContent by (simp add: well_typed_def)
  let ?x = "respond net r rsp"
  have xy: "wStatus ?x = wStatus ?y" "wHeader ?x = wHeader ?y" "wBody ?x = (if rMethod r = ''HEAD'' then [] else wBody ?y)"
    by (simp_all add: respond_def ServeContent Let_def)
  have "reading r" using m by (auto simp: reading_def)
  from serve_content_cases [OF this, of net ?name t d "rsHeader rsp"] partial_answer [of net r ?name t d "rsHeader rsp"] m
  show ?thesis unfolding wire_typed_def ServeContent payload.case xy by (elim disjE conjE) (simp_all add: xy, blast+)
qed (use ty in \<open>auto simp: wire_typed_def respond_def well_typed_def wire_text_def\<close>)

section \<open>A download in pieces\<close>

text \<open>
  A client that asks for \<open>k\<close> bytes after the other until there are none left, with \<open>get\<close> sending one request.
\<close>

fun fetch :: "(string \<Rightarrow> wire) \<Rightarrow> nat \<Rightarrow> nat \<Rightarrow> string \<Rightarrow> string option" where
  "fetch get k 0 acc = None"
| "fetch get k (Suc n) acc =
     (let x = get (byte_range (length acc) (length acc + k - 1)) in
      if wStatus x = 206 then fetch get k n (acc @ wBody x)
      else if wStatus x = 416 then Some acc
      else if wStatus x = 200 then Some (wBody x)
      else None)"

definition range_server :: "string \<Rightarrow> (string \<Rightarrow> wire) \<Rightarrow> bool" where
  "range_server d get \<longleftrightarrow> (\<forall>a b. a \<le> b \<longrightarrow> b < 2 ^ 63 \<longrightarrow>
     wStatus (get (byte_range a b)) = (if d = [] then 200 else if length d \<le> a then 416 else 206) \<and>
     (d = [] \<or> a < length d \<longrightarrow> wBody (get (byte_range a b)) = take (b + 1 - a) (drop a d)))"

lemma fetch_pieces:
  assumes "range_server d get" "0 < k" "length d + k < 2 ^ 63"
  shows "length d \<le> i * k + m * k \<Longrightarrow> fetch get k (Suc m) (take (i * k) d) = Some d"
proof (induction m arbitrary: i)
  case 0
  let ?a = "length (take (i * k) d)"
  have "?a \<le> ?a + k - 1" "?a + k - 1 < 2 ^ 63" using assms(2,3) by auto
  then show ?case using assms(1) 0 by (simp add: range_server_def Let_def)
next
  case (Suc m)
  let ?a = "length (take (i * k) d)"
  let ?x = "get (byte_range ?a (?a + k - 1))"
  have ab: "?a \<le> ?a + k - 1" "?a + k - 1 < 2 ^ 63" using assms(2,3) by auto
  show ?case
  proof (cases "?a < length d")
    case True
    then have a: "?a = i * k" by simp
    have "wStatus ?x = 206" "wBody ?x = take k (drop ?a d)" using assms(1,2) ab True by (auto simp: range_server_def)
    moreover have "take (i * k) d @ take k (drop ?a d) = take (Suc i * k) d" by (metis a take_add mult_Suc add.commute)
    ultimately have "fetch get k (Suc (Suc m)) (take (i * k) d) = fetch get k (Suc m) (take (Suc i * k) d)"
      by (simp only: fetch.simps(2) [of get k "Suc m"] Let_def refl if_True)
    then show ?thesis using Suc.IH [of "Suc i"] Suc.prems by (simp add: add.assoc add.commute)
  next
    case False
    then have "take (i * k) d = d" by simp
    then show ?thesis using assms(1) ab False by (simp add: range_server_def Let_def)
  qed
qed

lemma fetch_all:
  assumes "range_server d get" "0 < k" "length d + k < 2 ^ 63"
  shows "fetch get k (length d div k + 2) [] = Some d"
proof -
  have "length d \<le> (length d div k + 1) * k" using assms(2) by (metis Suc_eq_plus1 dividend_less_div_times less_imp_le mult.commute mult_Suc)
  then show ?thesis using fetch_pieces [OF assms, of 0 "length d div k + 1"] by simp
qed

end
