(* ===== verification/RequestProperties.thy ===== *)
theory RequestProperties
  imports ServingLaws ServerExamples
begin

text \<open>Properties of whole requests and their answers.\<close>

section \<open>Objects over HTTP\<close>


definition ex_signed :: "string \<Rightarrow> string \<Rightarrow> request" where
  "ex_signed m p = (ex_request m p)\<lparr>rHeader := [(''Authorization'',
     [client_header ''AK1'' 1 (Sign ''s3cr3t'' (StringToSign m p 1))])], rBody := \<lparr>bData = ''hey'', bErr = None\<rparr>\<rparr>"

lemma ex_signed_simps [simp]:
  "rMethod (ex_signed m p) = m" "rPath (ex_signed m p) = p" "rBody (ex_signed m p) = \<lparr>bData = ''hey'', bErr = None\<rparr>"
  "rndTemps (rEntropy (ex_signed m p)) = [''1'']"
  by (simp_all add: ex_signed_def ex_request_def)

lemma ex_signed_request: "signed_request ex_server ex_bucket (ex_world\<lparr>wnow := 1700000000\<rparr>) (ex_signed m p)"
proof -
  have "\<not> QueryHas (req_query (ex_signed m p)) ''AccessKey''"
    by (simp add: ex_signed_def ParseQuery_def parse_pair_def List.map_filter_def QueryHas_def)
  moreover have "HeaderGet (ex_signed m p) ''Authorization'' = client_header ''AK1'' 1 (Sign ''s3cr3t'' (StringToSign m p 1))"
    by (simp add: ex_signed_def HeaderGet_def)
  moreover have "sint (clock_skew 1 1) \<le> 300" by (simp add: clock_skew_def)
  ultimately show ?thesis unfolding signed_request_def
    by (intro exI [of _ "1 :: int64"] exI [of _ "''s3cr3t''"]) (simp add: now_unix_def)
qed

lemma ex_route: "''/buckets/photos/objects/b.txt'' = object_route ''photos'' ''b.txt''"
  "''/buckets/photos/objects/a/x.txt'' = object_route ''photos'' ''a/x.txt''"
  by (simp_all add: object_route_def)

definition ex_net :: net where
  "ex_net = \<lparr>OldDates = (\<lambda>_. None), MimeType = (\<lambda>_ _. ''text/plain''), Boundary = ''b0''\<rparr>"


text \<open>
  C7.  Deletion over HTTP.  After a signed \<open>DELETE\<close> of a stored object is answered without an error, a signed
  \<open>GET\<close> or \<open>HEAD\<close> of its path is answered 404 \<open>NoSuchKey\<close>.
\<close>

theorem signed_deletion_final:
  assumes "storage_at rs (storage s)" and "wfaults w = []" "server_inv w" and "live_bucket w b"
    and "key_ok k" "newline \<notin> set k" and "fs_node (wfs w) (obj_path rs (Name b) k) = Some (File d m)"
    and "rMethod x = ''DELETE''" "rPath x = object_route (Name b) k" "signed_request s b w x"
      "Handler s t0 fe x w = (rsp, w1)" "rsBody rsp = Empty"
    and "rMethod g \<in> {''GET'', ''HEAD''}" "rPath g = object_route (Name b) k" "signed_request s b (w\<lparr>wnow := t\<rparr>) g"
  shows "rsp = \<lparr>rsStatus = 204, rsHeader = [], rsBody = Empty\<rparr> \<and>
    (\<exists>msg. Handler s t0 fe' g (w1\<lparr>wnow := t, wfaults := []\<rparr>) =
      (writeJSON 404 (ErrorBody ''NoSuchKey'' msg t), w1\<lparr>wnow := t, wfaults := []\<rparr>))"
  using delete_then_get [OF assms] by (simp add: status_defs writeHeader_def)

lemma ex_delete:
  "case fst (DeleteObject ex_storage ''photos'' ''a/x.txt'' \<lparr>wfs = ex_fs, wdb = d, wnow = 1700000000, wfaults = []\<rparr>) of
     Inr u \<Rightarrow> True | Inl e \<Rightarrow> False"
  by code_simp

theorem signed_deletion_final_witness:
  "\<exists>w1 msg. Handler ex_server 0 False (ex_signed ''DELETE'' ''/buckets/photos/objects/a/x.txt'') ex_world =
      (\<lparr>rsStatus = 204, rsHeader = [], rsBody = Empty\<rparr>, w1) \<and>
    fst (Handler ex_server 0 False (ex_signed ''GET'' ''/buckets/photos/objects/a/x.txt'') (w1\<lparr>wnow := 1700000000, wfaults := []\<rparr>)) =
      writeJSON 404 (ErrorBody ''NoSuchKey'' msg 1700000000)"
proof -
  have sg: "signed_request ex_server ex_bucket ex_world (ex_signed m p)" for m p
    using ex_signed_request [of m p] by (simp add: signed_request_def now_unix_def)
  have nl: "newline \<notin> set ''a/x.txt''" by (simp add: newline_def)
  obtain rsp w1 where run: "Handler ex_server 0 False (ex_signed ''DELETE'' ''/buckets/photos/objects/a/x.txt'') ex_world = (rsp, w1)" by force
  have "case fst (DeleteObject ex_storage ''photos'' ''a/x.txt'' ex_world) of Inr u \<Rightarrow> True | Inl e \<Rightarrow> False"
    using ex_delete [of ex_db] by (simp add: ex_world_def)
  then have ok: "rsBody rsp = Empty" using run
      Handler_signed [OF _ ex_live_bucket _ _ _ _ sg, of "[''data'']" "''DELETE''" "''/buckets/photos/objects/a/x.txt''" "''a/x.txt''" 0 False] nl
      deleteObject_run [where s = ex_server and r = "ex_signed ''DELETE'' ''/buckets/photos/objects/a/x.txt''" and b = ex_bucket
        and k = "''a/x.txt''" and pub = False and w = ex_world]
    by (auto simp: ex_storage_at ex_route dispatch_def writeHeader_def split: sum.splits prod.splits)
  have "fs_node (wfs ex_world) (obj_path [''data''] ''photos'' ''a/x.txt'') = Some (File ''hi'' 0)"
    by (simp add: ex_fs_def fs_node_def)
  with signed_deletion_final [where rs = "[''data'']" and fe' = False, OF _ _ ex_inv ex_live_bucket ex_key_ok(1) nl _ _ _ sg run ok _ _
      ex_signed_request [of "''GET''" "''/buckets/photos/objects/a/x.txt''"]]
  show ?thesis using run by (auto simp: ex_storage_at ex_route)
qed

section \<open>The type of the answers\<close>



end
