(* ===== verification/WireList.thy ===== *)
theory WireList
  imports Wire StorageList
begin

text \<open>
  Listing a bucket over HTTP: a client that decodes each page from its JSON text and asks for the next one with
  the cursor it has decoded.
\<close>

fun follow_pages :: "Storage \<Rightarrow> string \<Rightarrow> string \<Rightarrow> int \<Rightarrow> nat \<Rightarrow> string \<Rightarrow> ObjectSummary list action" where
  "follow_pages s b pfx limit 0 cursor = fail (PlainErr ''too many pages'')"
| "follow_pages s b pfx limit (Suc n) cursor =
     andThen (ListObjects s b pfx limit cursor) (\<lambda>resp.
     case read_listing (wire_text (ListBody resp)) of
       None \<Rightarrow> fail (PlainErr ''not a listing'')
     | Some page \<Rightarrow>
         (case NextCursor page of
            None \<Rightarrow> ret (lObjects page)
          | Some next \<Rightarrow> andThen (follow_pages s b pfx limit n next) (\<lambda>rest. ret (lObjects page @ rest))))"

text \<open>Rows whose texts JSON can carry.\<close>

definition text_row :: "ObjectRow \<Rightarrow> bool" where
  "text_row r \<longleftrightarrow> four_digit_years (oLastModified r) \<and> valid_utf8 (oKey r) \<and>
     (\<forall>e. oETag r = Some e \<longrightarrow> valid_utf8 e) \<and> (\<forall>c. oContentType r = Some c \<longrightarrow> valid_utf8 c)"

lemma utf8_Nil [simp]: "utf8_sanitize [] = []"
  by (simp add: utf8_sanitize.simps [of "[]"] del: utf8_sanitize.simps)

lemma default_type_text: "utf8_sanitize defaultContentType = defaultContentType"
  by (rule utf8_sanitize_ascii) (simp add: defaultContentType_def)

lemma text_row_summary: "text_row r \<Longrightarrow> utf8_summary (summaryOf r) = summaryOf r"
  by (simp add: text_row_def utf8_summary_def summaryOf_def valid_utf8_def default_type_text del: utf8_sanitize.simps split: option.split)

lemma page_rows: "set (sel_page b pfx c n d) \<subseteq> set (bucket_rows b d)"
  using set_take_subset by (fastforce simp: sel_page_def)

lemma page_text:
  assumes "\<forall>r\<in>set rows. text_row r"
  shows "read_listing (wire_text (ListBody (page_response lim rows))) = Some (page_response lim rows)"
proof -
  have t: "text_row r" if "r \<in> set (take lim rows)" for r using assms in_set_takeD [OF that] by simp
  have "\<forall>o1\<in>set (lObjects (page_response lim rows)). four_digit_years (LastModified o1)"
    using t by (auto simp: page_response_parts text_row_def summaryOf_def)
  note rd = read_wire_listing [OF this]
  have "map utf8_summary (map summaryOf (take lim rows)) = map summaryOf (take lim rows)" using t text_row_summary by simp
  moreover have "utf8_sanitize (oKey (rows ! (lim - 1))) = oKey (rows ! (lim - 1))" if "lim < length rows"
  proof -
    have "rows ! (lim - 1) \<in> set rows" using that by (intro nth_mem) simp
    then show ?thesis using assms by (auto simp: text_row_def valid_utf8_def simp del: utf8_sanitize.simps)
  qed
  ultimately have "utf8_page (page_response lim rows) = page_response lim rows"
    by (simp add: utf8_page_def page_response_def Let_def del: utf8_sanitize.simps)
  with rd show ?thesis by simp
qed

lemma follow_is_list:
  assumes "wfaults w = []" "bucket_rows b (wdb w) \<noteq> []" "\<forall>r\<in>set (bucket_rows b (wdb w)). text_row r"
  shows "follow_pages s b pfx limit n cursor w = list_all_pages s b pfx limit n cursor w"
proof (induction n arbitrary: cursor)
  case (Suc n)
  define p where "p = page_response (list_limit limit) (sel_page b pfx cursor (list_limit limit + 1) (wdb w))"
  have page: "ListObjects s b pfx limit cursor w = (Inr p, w)" unfolding p_def using ListObjects_page assms(1,2) by blast
  have decoded: "read_listing (wire_text (ListBody p)) = Some p" unfolding p_def using page_text page_rows assms(3) by blast
  show ?case by (simp add: andThen_def page decoded Suc split: option.split)
qed simp

text \<open>
  A key that is not valid UTF-8 comes back as another cursor, and when that cursor sorts before the page it came
  with, the client gets the same page again.
\<close>

lemma follow_stuck:
  assumes q: "wfaults w = []" and times: "\<forall>r\<in>set (matching_rows b pfx (wdb w)). four_digit_years (oLastModified r)"
    and more: "list_limit limit < length (matching_rows b pfx (wdb w))"
  defines "k \<equiv> oKey (matching_rows b pfx (wdb w) ! (list_limit limit - 1))"
  assumes before: "\<forall>r\<in>set (matching_rows b pfx (wdb w)). utf8_sanitize k < oKey r" and c: "cursor = [] \<or> cursor = utf8_sanitize k"
  shows "follow_pages s b pfx limit n cursor w = (Inl (PlainErr ''too many pages''), w)"
  using c
proof (induction n arbitrary: cursor)
  case (Suc n)
  let ?l = "list_limit limit" and ?m = "matching_rows b pfx (wdb w)"
  have ne: "bucket_rows b (wdb w) \<noteq> []" using more by (auto simp: matching_rows_def)
  have "cursor < oKey r" if "r \<in> set ?m" for r
    using Suc.prems before that by (cases "oKey r") (auto simp del: utf8_sanitize.simps)
  then have rows: "sel_page b pfx cursor (?l + 1) (wdb w) = take (?l + 1) ?m"
    by (simp add: listing.page_take)
  define p where "p = page_response ?l (take (?l + 1) ?m)"
  have page: "ListObjects s b pfx limit cursor w = (Inr p, w)" using ListObjects_page [OF q] ne unfolding p_def rows [symmetric] by blast
  have next_c: "NextCursor p = Some k" using more list_limit_bounds(1) [of limit] by (simp add: p_def page_response_parts k_def nth_take)
  have "\<forall>o1\<in>set (lObjects p). four_digit_years (LastModified o1)"
    using times by (auto simp: p_def page_response_parts summaryOf_def dest: in_set_takeD)
  note rd = read_wire_listing [OF this]
  then show ?case using page next_c Suc.IH [of "utf8_sanitize k"]
    by (simp add: andThen_def utf8_page_def del: utf8_sanitize.simps)
qed (simp add: fail_def)

end
