(* ===== verification/IssuedKeys.thy ===== *)
theory IssuedKeys
  imports WireList SignedRequests
begin

text \<open>
  The keys of a bucket on their way to the client: the rows that creating a bucket and rotating its key leave, and
  what a client reads from the JSON text of the answer.
\<close>

text \<open>A client's view of the answer with the keys of a bucket, by the tags of \<open>bucketCredentials\<close>.\<close>

record credentials =
  cName :: string
  cAccessKey :: string
  cSecretKey :: string
  cCreatedAt :: int
  cDescription :: "string option"

definition read_credentials :: "string \<Rightarrow> credentials option" where
  "read_credentials text = (case json_parse text of
     Some (JObj ms) \<Rightarrow>
       Option.bind (read_field ms ''name'' read_string) (\<lambda>n.
       Option.bind (read_field ms ''accessKey'' read_string) (\<lambda>ak.
       Option.bind (read_field ms ''secretKey'' read_string) (\<lambda>sk.
       Option.bind (read_field ms ''createdAt'' (\<lambda>t. Option.bind (read_string t) (Parse RFC3339Nano))) (\<lambda>t.
       Option.bind (read_field ms ''description'' (\<lambda>v. if v = JNull then Some None else map_option Some (read_string v))) (\<lambda>d.
       Some \<lparr>cName = n, cAccessKey = ak, cSecretKey = sk, cCreatedAt = t, cDescription = d\<rparr>)))))
   | _ \<Rightarrow> None)"

lemma read_wire_credentials:
  assumes "four_digit_years t"
  shows "read_credentials (wire_text (CredentialsBody n ak sk t d)) =
    Some \<lparr>cName = utf8_sanitize n, cAccessKey = utf8_sanitize ak, cSecretKey = utf8_sanitize sk, cCreatedAt = t,
      cDescription = map_option utf8_sanitize d\<rparr>"
proof -
  obtain ts where ts: "time_json t = Some ts" using assms by (auto simp: time_json_def four_digit_years_iff)
  have u: "utf8_sanitize ''name'' = ''name''" "utf8_sanitize ''accessKey'' = ''accessKey''" "utf8_sanitize ''secretKey'' = ''secretKey''"
    "utf8_sanitize ''createdAt'' = ''createdAt''" "utf8_sanitize ''description'' = ''description''"
    by (rule utf8_sanitize_ascii, simp)+
  have c: "(if opt_json x = JNull then Some None else map_option Some (read_string (opt_json x))) = Some x" for x
    by (simp add: opt_json_def read_string_def split: option.split)
  have s: "read_string (JStr x) = Some x" for x by (simp add: read_string_def)
  have "json_parse (wire_text (CredentialsBody n ak sk t d)) = Some (utf8_json (JObj [(''name'', JStr n), (''accessKey'', JStr ak),
      (''secretKey'', JStr sk), (''createdAt'', ts), (''description'', opt_json d)]))"
    by (rule wire_decodes) (simp add: ts)
  then show ?thesis by (simp add: u c s time_read [OF ts] read_credentials_def read_field_def del: utf8_sanitize.simps)
qed

lemma unreserved_text:
  assumes "\<forall>c\<in>set s. unreserved c"
  shows "utf8_sanitize s = s" and "CHR '','' \<notin> set s"
proof -
  have "byte_of c < 128" if "unreserved c" for c using that by (auto simp: unreserved_def Let_def)
  then show "utf8_sanitize s = s" using assms by (auto intro!: utf8_sanitize_ascii simp del: utf8_sanitize.simps)
  have "\<not> unreserved CHR '',''" by (simp add: unreserved_def)
  then show "CHR '','' \<notin> set s" using assms by blast
qed

lemma generated_text:
  "\<forall>c\<in>set (GenerateAccessKey x). unreserved c" "\<forall>c\<in>set (GenerateSecretKey x). unreserved c" "GenerateAccessKey x \<noteq> []"
proof -
  have "\<forall>c\<in>set (randomBase64URL n x). unreserved c" for n by (auto simp: randomBase64URL_def intro: url64.enc_alphabet)
  then show "\<forall>c\<in>set (GenerateAccessKey x). unreserved c" "\<forall>c\<in>set (GenerateSecretKey x). unreserved c" "GenerateAccessKey x \<noteq> []"
    by (auto simp: GenerateAccessKey_def GenerateSecretKey_def unreserved_def Let_def)
qed

text \<open>What creating a bucket and rotating its key have in common: the row of the bucket holds the keys of the answer.\<close>

lemma keys_issued:
  assumes "storage_at rs (storage s)" "server_inv w" and "h \<in> {createBucket s, rotateBucketKey s}" "h r w = (Inr rsp, w')"
  shows "\<exists>b t. sel_bucket (Name b) (wdb w') = Some b \<and> AccessKey b = GenerateAccessKey (rndAccess (rEntropy r)) \<and>
    DecryptSecret (crypto s) (EncryptedSecretKey b) = Inr (GenerateSecretKey (rndSecret (rEntropy r))) \<and>
    CreatedAt b \<in> {t, db_time t} \<and> (t = wnow w \<or> t \<in> CreatedAt ` set (tblBuckets (wdb w))) \<and>
    rsBody rsp = CredentialsBody (Name b) (AccessKey b) (GenerateSecretKey (rndSecret (rEntropy r))) t (Description b)"
proof -
  have w: "fs_ok w" "db_ok w" using assms(2) by (simp_all add: server_inv_def)
  consider "createBucket s r w = (Inr rsp, w')" | "rotateBucketKey s r w = (Inr rsp, w')" using assms(3,4) by blast
  then show ?thesis
  proof cases
    case 1
    from createBucket_finish [OF 1] obtain name desc w1 where n: "bucketNameRe name" and w1: "same_state w w1"
      and fin: "finish_create s r (created_bucket s r name desc (wnow w)) w1 = (Inr rsp, w')" by auto
    define b where "b = created_bucket s r name desc (wnow w)"
    have b: "Name b = name" "AccessKey b = GenerateAccessKey (rndAccess (rEntropy r))" "CreatedAt b = wnow w"
      "DecryptSecret (crypto s) (EncryptedSecretKey b) = Inr (GenerateSecretKey (rndSecret (rEntropy r)))"
      by (simp_all add: b_def created_bucket_def decrypt_encrypt)
    from finish_create_created [of s r b w1 rsp w' rs] fin assms(1) w w1 bucketNameRe_ok [OF n] b
    have c: "ins_bucket b (wdb w) = Some (wdb w')"
      "rsp = writeJSON StatusCreated (CredentialsBody name (AccessKey b) (GenerateSecretKey (rndSecret (rEntropy r))) (CreatedAt b) (Description b))"
      by (auto simp: b_def)
    have "stored_bucket b \<in> set (tblBuckets (wdb w'))" using c(1) by (auto simp: ins_bucket_Some)
    then have "sel_bucket (Name (stored_bucket b)) (wdb w') = Some (stored_bucket b)"
      using ins_bucket_wf [OF w(2) c(1)] by (simp add: sel_bucket_Some)
    then show ?thesis using b c(2)
      by (intro exI [of _ "stored_bucket b"] exI [of _ "wnow w"]) (auto simp: stored_bucket_def writeJSON_def)
  next
    case 2
    from rotate_outcome(3) [OF 2 w(2) refl] obtain b ak es where h: "sel_bucket (pvName r) (wdb w) = Some b"
      "rsp = writeJSON StatusOK (CredentialsBody (Name b) ak (GenerateSecretKey (rndSecret (rEntropy r))) (CreatedAt b) (Description b))"
      "ak = GenerateAccessKey (rndAccess (rEntropy r))" "DecryptSecret (crypto s) es = Inr (GenerateSecretKey (rndSecret (rEntropy r)))"
      "upd_bucket_keys (pvName r) ak es (wdb w) = Some (wdb w')" by blast
    let ?b = "b\<lparr>AccessKey := ak, EncryptedSecretKey := es\<rparr>"
    have bn: "Name b = pvName r" "b \<in> set (tblBuckets (wdb w))" using h(1) sel_bucket_NameD by auto
    have "?b \<in> set (tblBuckets (wdb w'))"
      using bn upd_bucket_keys_row [OF w(2) h(1,5)] by (auto intro!: image_eqI [of _ _ b])
    then have "sel_bucket (Name ?b) (wdb w') = Some ?b"
      using upd_bucket_keys_wf [OF w(2) h(5)] sel_bucket_Some [of "wdb w'" "Name ?b" ?b] by simp
    then show ?thesis using h bn(2) by (intro exI [of _ ?b] exI [of _ "CreatedAt b"]) (auto simp: writeJSON_def)
  qed
qed

end
