(* ===== verification/WireProperties.thy ===== *)
theory WireProperties
  imports IssuedKeys ServerExamples
begin

text \<open>Properties of the text of the answers and of listing through it.\<close>

text \<open>
  What \<open>writeJSON\<close> writes is JSON, and a decoder gets from it the very value the handler passed, except
  that bytes of strings that are not valid UTF-8 have become U+FFFD; a value that cannot be encoded, with a time
  outside the years 0 to 9999, leaves no text at all.
\<close>

theorem answers_read_back:
  "json_parse (wire_text p) = map_option utf8_json (payload_json p)"
proof (cases "payload_json p")
  case None
  then show ?thesis by (simp add: wire_text_def json_parse_def skip_ws_def)
next
  case (Some v)
  then show ?thesis using wire_decodes by simp
qed

text \<open>
  C35.  Issued keys work.  What a client reads by name in the JSON text of the answer to creating a bucket or to
  rotating its key are the name, the description, the access key and the time of the bucket's row, with invalid
  UTF-8 replaced, and a secret such that every request to an object of that bucket which the client signs with
  the two keys it has read, within the clock window, is let through by the whole pipeline to its route.
\<close>

theorem issued_keys_work:
  assumes "storage_at rs (storage s)" "server_inv w" "four_digit_years (wnow w)"
      "\<forall>b\<in>set (tblBuckets (wdb w)). four_digit_years (CreatedAt b)"
    and "h \<in> {createBucket s, rotateBucketKey s}" "h r w = (Inr rsp, w')"
  shows "\<exists>c b. read_credentials (wire_text (rsBody rsp)) = Some c \<and> sel_bucket (Name b) (wdb w') = Some b \<and>
    cName c = utf8_sanitize (Name b) \<and> cDescription c = map_option utf8_sanitize (Description b) \<and>
    cAccessKey c = AccessKey b \<and> CreatedAt b \<in> {cCreatedAt c, db_time (cCreatedAt c)} \<and>
    (\<forall>v q k ts fe. wfs v = wfs w' \<and> wdb v = wdb w' \<and> wfaults v = [] \<and> rPath q = object_route (Name b) k \<and> k \<noteq> [] \<and> newline \<notin> set k \<and>
       HeaderGet q ''Authorization'' =
         client_header (cAccessKey c) ts (Sign (cSecretKey c) (StringToSign (rMethod q) (rPath q) ts)) \<and>
       \<not> QueryHas (ParseQuery (rRawQuery q)) ''AccessKey'' \<and> sint (clock_skew (now_unix v) ts) \<le> sint (ClockSkewSeconds (cfg s)) \<longrightarrow>
       Handler s t0 fe q v =
         dispatch [(''GET'', getObject s), (''HEAD'', getObject s), (''PUT'', putObject s), (''DELETE'', deleteObject s)]
           (object_request q b k (rMethod q \<in> {''GET'', ''HEAD''} \<and> object_public rs (Name b) k v)) v)"
proof -
  let ?sk = "GenerateSecretKey (rndSecret (rEntropy r))"
  obtain b t where b: "sel_bucket (Name b) (wdb w') = Some b" "AccessKey b = GenerateAccessKey (rndAccess (rEntropy r))"
    "DecryptSecret (crypto s) (EncryptedSecretKey b) = Inr ?sk" "CreatedAt b \<in> {t, db_time t}"
    "t = wnow w \<or> t \<in> CreatedAt ` set (tblBuckets (wdb w))"
    "rsBody rsp = CredentialsBody (Name b) (AccessKey b) ?sk t (Description b)"
    using keys_issued [OF assms(1,2,5,6)] by blast
  have "keeps server_inv (h r)" using assms(5) keeps_inv_createBucket keeps_inv_admin_handlers(4) by auto
  then have inv: "server_inv w'" using keepsD assms(2,6) by fastforce
  have bm: "b \<in> set (tblBuckets (wdb w'))" using b(1) sel_bucket_NameD by auto
  then have live: "live_bucket v b" if "wdb v = wdb w'" for v
    using inv that unreserved_text(2) [OF generated_text(1)] generated_text(3)
    by (auto simp: live_bucket_def server_inv_def names_ok_def b(2))
  have y: "four_digit_years t" using b(5) assms(3,4) by auto
  have sk: "utf8_sanitize (AccessKey b) = AccessKey b" "utf8_sanitize ?sk = ?sk"
    unfolding b(2) by (rule unreserved_text(1) [OF generated_text(1)], rule unreserved_text(1) [OF generated_text(2)])
  let ?c = "\<lparr>cName = utf8_sanitize (Name b), cAccessKey = AccessKey b, cSecretKey = ?sk, cCreatedAt = t,
      cDescription = map_option utf8_sanitize (Description b)\<rparr>"
  have c: "read_credentials (wire_text (rsBody rsp)) = Some ?c"
    unfolding b(6) read_wire_credentials [OF y] sk ..
  have "Handler s t0 fe q v =
      dispatch [(''GET'', getObject s), (''HEAD'', getObject s), (''PUT'', putObject s), (''DELETE'', deleteObject s)]
        (object_request q b k (rMethod q \<in> {''GET'', ''HEAD''} \<and> object_public rs (Name b) k v)) v"
    if "wdb v = wdb w'" "wfaults v = []" "rPath q = object_route (Name b) k" "k \<noteq> []" "newline \<notin> set k"
      "HeaderGet q ''Authorization'' = client_header (AccessKey b) ts (Sign ?sk (StringToSign (rMethod q) (rPath q) ts))"
      "\<not> QueryHas (ParseQuery (rRawQuery q)) ''AccessKey''" "sint (clock_skew (now_unix v) ts) \<le> sint (ClockSkewSeconds (cfg s))"
    for v q k ts fe
  proof (rule Handler_signed [OF assms(1) live [OF that(1)] that(2-5)])
    show "signed_request s b v q" using that(6-8) b(3) unfolding signed_request_def by blast
  qed
  then show ?thesis using c b(1,4) by (intro exI [of _ ?c] exI [of _ b]) simp
qed

theorem issued_keys_work_witness:
  "\<exists>rsp w' c b. createBucket ex_server ex_create_request ex_world = (Inr rsp, w') \<and>
     read_credentials (wire_text (rsBody rsp)) = Some c \<and> sel_bucket (Name b) (wdb w') = Some b \<and> cAccessKey c = AccessKey b"
proof -
  obtain rsp w' where run: "createBucket ex_server ex_create_request ex_world = (Inr rsp, w')" using ex_create_run by blast
  have st: "storage_at [''data''] (storage ex_server)" by (simp add: ex_storage_at)
  have y: "four_digit_years (wnow ex_world)" "\<forall>b\<in>set (tblBuckets (wdb ex_world)). four_digit_years (CreatedAt b)"
    by (simp_all add: four_digit_years_def ex_db_def ex_bucket_def)
  from issued_keys_work [where s = ex_server and h = "createBucket ex_server", OF st ex_inv y _ run, of 0] run show ?thesis by blast
qed

text \<open>
  C20.  Listing over HTTP terminates and is complete.  Whatever the page limit, a client that decodes each page from its
  JSON text and follows the cursor it finds there gets every object of the bucket that matches the prefix, once,
  in key order, with all its fields, and stops after at most as many pages as there are rows, plus one, when keys,
  ETags and content types are valid UTF-8.
\<close>

theorem listing_over_http:
  assumes "wfaults w = []" "db_ok w" and "bucket_rows b (wdb w) \<noteq> []"
    and "\<forall>r\<in>set (bucket_rows b (wdb w)). oKey r \<noteq> [] \<and> text_row r"
  shows "follow_pages s b pfx limit (Suc (length (bucket_rows b (wdb w)))) [] w =
    (Inr (map summaryOf (matching_rows b pfx (wdb w))), w)"
  using follow_is_list [OF assms(1,3)] list_all_complete [OF assms(1-3)] assms(4)
  by (simp del: follow_pages.simps list_all_pages.simps)

lemma ex_text_row: "text_row ex_row"
proof -
  have "utf8_sanitize (oKey ex_row) = oKey ex_row" by (rule utf8_sanitize_ascii) (simp add: ex_row_def)
  moreover have "oETag ex_row = Some e \<longrightarrow> utf8_sanitize e = e" "oContentType ex_row = Some e \<longrightarrow> utf8_sanitize e = e" for e
    by (auto simp: ex_row_def ex_etag_def simp del: utf8_sanitize.simps intro!: utf8_sanitize_ascii)
  ultimately show ?thesis by (simp add: text_row_def valid_utf8_def four_digit_years_def ex_row_def del: utf8_sanitize.simps)
qed

theorem listing_over_http_witness:
  "follow_pages ex_storage ''photos'' [] 1 2 [] ex_world = (Inr [summaryOf ex_row], ex_world)"
proof -
  have r: "bucket_rows ''photos'' ex_db = [ex_row]" by (simp add: bucket_rows_def ex_db_def ex_row_def)
  have m: "matching_rows ''photos'' [] ex_db = [ex_row]" by (simp add: matching_rows_def r prefix_filter_def)
  have "oKey ex_row \<noteq> []" by (simp add: ex_row_def)
  then show ?thesis using listing_over_http [of ex_world "''photos''" ex_storage "[]" 1] r m ex_text_row ex_db_wf
    by (simp add: numeral_2_eq_2)
qed

text \<open>
  C36.  Keys are bytes, cursors are text.  When the last key of the first page is not valid UTF-8 and the text it
  becomes in JSON sorts before the keys of the bucket, a client that follows the cursors gets the first page again
  and again, and never the rest.
\<close>

theorem broken_cursor_repeats:
  assumes "wfaults w = []" and "\<forall>r\<in>set (matching_rows b pfx (wdb w)). four_digit_years (oLastModified r)"
    and "list_limit limit < length (matching_rows b pfx (wdb w))"
    and "\<forall>r\<in>set (matching_rows b pfx (wdb w)).
      utf8_sanitize (oKey (matching_rows b pfx (wdb w) ! (list_limit limit - 1))) < oKey r"
  shows "follow_pages s b pfx limit n [] w = (Inl (PlainErr ''too many pages''), w)"
  by (rule follow_stuck [OF assms]) simp

definition ex_raw_row :: "string \<Rightarrow> ObjectRow" where
  "ex_raw_row k = ex_row\<lparr>oKey := k\<rparr>"

definition ex_raw_world :: world where
  "ex_raw_world = ex_world\<lparr>wdb := \<lparr>tblBuckets = [], tblObjects = [ex_raw_row [CHR 0xFF], ex_raw_row [CHR 0xFF, CHR ''a'']]\<rparr>\<rparr>"

theorem broken_cursor_repeats_witness:
  "\<forall>n. fst (follow_pages ex_storage ''photos'' [] 1 n [] ex_raw_world) = Inl (PlainErr ''too many pages'')"
proof -
  let ?k = "[CHR 0xFF]"
  have m: "matching_rows ''photos'' [] (wdb ex_raw_world) = [ex_raw_row ?k, ex_raw_row [CHR 0xFF, CHR ''a'']]"
    by (simp add: matching_rows_def bucket_rows_def ex_raw_world_def ex_raw_row_def ex_row_def prefix_filter_def)
  have row: "oKey (ex_raw_row k) = k" "oLastModified (ex_raw_row k) = 0" "wfaults ex_raw_world = []" for k
    by (simp_all add: ex_raw_row_def ex_row_def ex_raw_world_def)
  have l: "list_limit 1 = 1" by (simp add: list_limit_def MaxListLimit_def)
  have "decode_rune ?k = (rune_error, 1)" by (simp add: decode_rune_def)
  then have "utf8_sanitize ?k = replacement_utf8" by (subst utf8_sanitize.simps) (simp del: utf8_sanitize.simps)
  then show ?thesis
    using broken_cursor_repeats [of ex_raw_world "''photos''" "[]" 1 ex_storage]
    by (simp add: m l row four_digit_years_def replacement_utf8_def del: utf8_sanitize.simps)
qed

end
