(* ===== verification/ServingProperties.thy ===== *)
theory ServingProperties
  imports RequestProperties
begin

text \<open>Properties of downloads on the wire: ranges, cached copies, and what a partial answer holds.\<close>

text \<open>What a signed \<open>GET\<close> is answered after an upload.\<close>

lemma after_upload:
  assumes "storage_at rs (storage s)" and "wfaults w = []" "fs_ok w" and "live_bucket w b"
    and "key_ok k" "newline \<notin> set k"
    and "rMethod p = ''PUT''" "rPath p = object_route (Name b) k" "rBody p = \<lparr>bData = d, bErr = None\<rparr>"
      "put_ready rs (wfs w) (Name b) k (rndTemps (rEntropy p))" "signed_request s b w p"
    and "rMethod g = ''GET''" "rPath g = object_route (Name b) k" "signed_request s b (w\<lparr>wnow := t\<rparr>) g"
  shows "\<exists>w1 ct pub. Handler s t0 fe p w = (setHeader ''ETag'' (dquote (etag_of d)) (writeHeader StatusOK), w1) \<and>
    fst (Handler s t0 fe' g (w1\<lparr>wnow := t\<rparr>)) = served d ct pub (wnow w)"
proof -
  have "rMethod g \<in> {''GET'', ''HEAD''}" using assms(12) by simp
  from put_then_get [OF assms(1-11) this assms(13,14), of t0 fe fe'] show ?thesis by (metis fst_conv)
qed

lemma served_sel:
  "rsBody (served d ct pub t) = ServeContent (db_time t) d"
  "map_of (rsHeader (served d ct pub t)) ''ETag'' = Some (dquote (etag_of d))"
  by (simp_all add: served_def)

lemma put_status: "rsStatus (setHeader k v (writeHeader StatusOK)) = 200"
  by (simp add: setHeader_def writeHeader_def StatusOK_def)

section \<open>Examples\<close>

text \<open>A signed \<open>GET\<close> of the object that the example uploads, with more headers.\<close>

definition ex_get :: "(string \<times> string) list \<Rightarrow> request" where
  "ex_get h = (let r = ex_signed ''GET'' ''/buckets/photos/objects/b.txt'' in r\<lparr>rHeader := rHeader r @ map (\<lambda>(k, v). (k, [v])) h\<rparr>)"

lemma ex_get_simps [simp]: "rMethod (ex_get h) = ''GET''" "rPath (ex_get h) = ''/buckets/photos/objects/b.txt''"
  "rBody (ex_get h) = \<lparr>bData = ''hey'', bErr = None\<rparr>"
  by (simp_all add: ex_get_def Let_def)

lemma ex_get_header: "k \<noteq> ''Authorization'' \<Longrightarrow> HeaderGet (ex_get h) k = header_of h k"
  by (auto simp: HeaderGet_def ex_get_def header_of_def ex_signed_def Let_def map_of_map comp_def map_prod_def split: option.splits)

lemma ex_get_signed: "signed_request ex_server ex_bucket (ex_world\<lparr>wnow := 1700000000\<rparr>) (ex_get h)"
proof -
  have "HeaderGet (ex_get h) ''Authorization'' = HeaderGet (ex_signed ''GET'' ''/buckets/photos/objects/b.txt'') ''Authorization''"
    by (simp add: HeaderGet_def ex_get_def ex_signed_def Let_def)
  moreover have "req_query (ex_get h) = req_query (ex_signed ''GET'' ''/buckets/photos/objects/b.txt'')"
    by (simp add: ex_get_def Let_def)
  ultimately show ?thesis using ex_signed_request [of "''GET''" "''/buckets/photos/objects/b.txt''"] by (simp add: signed_request_def)
qed

lemma ex_put_signed: "signed_request ex_server ex_bucket ex_world (ex_signed m p)"
  using ex_signed_request [of m p] by (simp add: signed_request_def now_unix_def)

lemma ex_no_newline: "newline \<notin> set ''b.txt''"
  by (simp add: newline_def)

lemmas ex_upload = ex_storage_at ex_fs_wf ex_live_bucket ex_key_ok(2) ex_no_newline ex_put_ready ex_put_signed ex_get_signed ex_route

abbreviation ex_answer :: "bool \<Rightarrow> (string \<times> string) list \<Rightarrow> world \<Rightarrow> wire" where
  "ex_answer fe h w \<equiv> respond ex_net (ex_get h) (fst (Handler ex_server 0 fe (ex_get h) (w\<lparr>wnow := 1700000000\<rparr>)))"

abbreviation ex_put :: "response \<times> world" where
  "ex_put \<equiv> Handler ex_server 0 False (ex_signed ''PUT'' ''/buckets/photos/objects/b.txt'') ex_world"

section \<open>Downloads\<close>

text \<open>
  C9.  A download in pieces.  A client that asks for an uploaded object \<open>n\<close> bytes at a time, each time with a
  signed \<open>GET\<close> and a \<open>Range\<close>, gets pieces that put together are the bytes of the upload, after at most one
  request more than there are pieces, whatever the length of the object.
\<close>

theorem download_in_pieces:
  assumes "storage_at rs (storage s)" and "wfaults w = []" "fs_ok w" and "live_bucket w b"
    and "key_ok k" "newline \<notin> set k"
    and "rMethod p = ''PUT''" "rPath p = object_route (Name b) k" "rBody p = \<lparr>bData = d, bErr = None\<rparr>"
      "put_ready rs (wfs w) (Name b) k (rndTemps (rEntropy p))" "signed_request s b w p"
    and "\<forall>rg. rPath (g rg) = object_route (Name b) k \<and> plain_get (g rg) \<and> HeaderGet (g rg) ''Range'' = rg \<and>
      signed_request s b (w\<lparr>wnow := t\<rparr>) (g rg)"
    and "0 < n" "length d + n < 2 ^ 63"
  shows "\<exists>rsp w1. Handler s t0 fe p w = (rsp, w1) \<and> rsStatus rsp = 200 \<and>
    fetch (\<lambda>rg. respond net (g rg) (fst (Handler s t0 fe' (g rg) (w1\<lparr>wnow := t\<rparr>)))) n (length d div n + 2) [] = Some d"
proof (intro exI conjI)
  let ?w1 = "snd (Handler s t0 fe p w)"
  have g: "rMethod (g rg) = ''GET''" "rPath (g rg) = object_route (Name b) k" "signed_request s b (w\<lparr>wnow := t\<rparr>) (g rg)" for rg
    using assms(12) by (simp_all add: plain_get_def)
  note up = after_upload [OF assms(1-11) g, of t0 fe fe']
  have get: "\<exists>ct pub. fst (Handler s t0 fe' (g rg) (?w1\<lparr>wnow := t\<rparr>)) = served d ct pub (wnow w)" for rg
    using up [of rg] by (metis snd_conv)
  show "Handler s t0 fe p w = (fst (Handler s t0 fe p w), ?w1)" by simp
  show "rsStatus (fst (Handler s t0 fe p w)) = 200" using up [of "[]"] by (auto simp: put_status)
  have "range_server d (\<lambda>rg. respond net (g rg) (fst (Handler s t0 fe' (g rg) (?w1\<lparr>wnow := t\<rparr>))))"
    unfolding range_server_def
  proof (intro allI impI)
    fix a c :: nat
    assume ac: "a \<le> c" "c < 2 ^ 63"
    obtain ct pub where "fst (Handler s t0 fe' (g (byte_range a c)) (?w1\<lparr>wnow := t\<rparr>)) = served d ct pub (wnow w)" using get by blast
    then show "wStatus (respond net (g (byte_range a c)) (fst (Handler s t0 fe' (g (byte_range a c)) (?w1\<lparr>wnow := t\<rparr>)))) =
        (if d = [] then 200 else if length d \<le> a then 416 else 206) \<and>
      (d = [] \<or> a < length d \<longrightarrow>
       wBody (respond net (g (byte_range a c)) (fst (Handler s t0 fe' (g (byte_range a c)) (?w1\<lparr>wnow := t\<rparr>)))) = take (c + 1 - a) (drop a d))"
      using range_answer [where r = "g (byte_range a c)", OF _ _ ac served_sel(1)] assms(12) by simp
  qed
  then show "fetch (\<lambda>rg. respond net (g rg) (fst (Handler s t0 fe' (g rg) (?w1\<lparr>wnow := t\<rparr>)))) n (length d div n + 2) [] = Some d"
    using assms(13,14) by (rule fetch_all)
qed

theorem download_in_pieces_witness:
  "\<exists>rsp w1. ex_put = (rsp, w1) \<and> fetch (\<lambda>rg. ex_answer True [(''Range'', rg)] w1) 2 (length ''hey'' div 2 + 2) [] = Some ''hey''"
proof -
  have "plain_get (ex_get [(''Range'', rg)])" "HeaderGet (ex_get [(''Range'', rg)]) ''Range'' = rg" for rg
    by (simp_all add: plain_get_def no_dates_def ex_get_header header_of_def)
  then show ?thesis
    using download_in_pieces [where rs = "[''data'']" and s = ex_server and w = ex_world and b = ex_bucket and k = "''b.txt''"
        and p = "ex_signed ''PUT'' ''/buckets/photos/objects/b.txt''" and d = "''hey''" and g = "\<lambda>rg. ex_get [(''Range'', rg)]"
        and t = 1700000000 and n = 2 and net = ex_net and fe = False and fe' = True and ?t0.0 = 0]
    by (auto simp: ex_upload newline_def simp del: fetch.simps)
qed

section \<open>Cached copies\<close>

text \<open>
  C8.  Revalidation by tag.  A signed \<open>GET\<close> after an upload that names in \<open>If-None-Match\<close> the tag of the copy
  it has is answered 304 without a body when that is the tag of the bytes uploaded, and 200 with these bytes when
  it is any other: no client is told that an older version is current.
\<close>

theorem tag_revalidated:
  assumes "storage_at rs (storage s)" and "wfaults w = []" "fs_ok w" and "live_bucket w b"
    and "key_ok k" "newline \<notin> set k"
    and "rMethod p = ''PUT''" "rPath p = object_route (Name b) k" "rBody p = \<lparr>bData = d, bErr = None\<rparr>"
      "put_ready rs (wfs w) (Name b) k (rndTemps (rEntropy p))" "signed_request s b w p"
    and "rMethod g = ''GET''" "rPath g = object_route (Name b) k" "signed_request s b (w\<lparr>wnow := t\<rparr>) g"
    and "no_dates g" "HeaderGet g ''Range'' = []" "HeaderGet g ''If-None-Match'' = dquote e" "list_all etag_char e"
  shows "\<exists>rsp w1. Handler s t0 fe p w = (rsp, w1) \<and> rsStatus rsp = 200 \<and>
    whole_or_unchanged (e = etag_of d) d (respond net g (fst (Handler s t0 fe' g (w1\<lparr>wnow := t\<rparr>))))"
proof -
  have "reading g" using assms(12) by (simp add: reading_def)
  note c = preconditions_tag [OF assms(15,17,18) this, where tag = "etag_of d", unfolded assms(16)]
  from after_upload [OF assms(1-14), of t0 fe fe'] obtain w1 ct pub where
    "Handler s t0 fe p w = (setHeader ''ETag'' (dquote (etag_of d)) (writeHeader StatusOK), w1)"
    "fst (Handler s t0 fe' g (w1\<lparr>wnow := t\<rparr>)) = served d ct pub (wnow w)" by blast
  then show ?thesis using conditional_answer [OF assms(12) served_sel c] by (auto simp: put_status)
qed

theorem tag_revalidated_witness:
  "\<exists>rsp w1. ex_put = (rsp, w1) \<and> wStatus (ex_answer True [(''If-None-Match'', dquote (etag_of ''hey''))] w1) = 304"
proof -
  have "no_dates (ex_get [(''If-None-Match'', e)])" "HeaderGet (ex_get [(''If-None-Match'', e)]) ''If-None-Match'' = e"
    "HeaderGet (ex_get [(''If-None-Match'', e)]) ''Range'' = []" for e
    by (simp_all add: no_dates_def ex_get_header header_of_def)
  then show ?thesis
    using tag_revalidated [where rs = "[''data'']" and s = ex_server and w = ex_world and b = ex_bucket and k = "''b.txt''"
        and p = "ex_signed ''PUT'' ''/buckets/photos/objects/b.txt''" and d = "''hey''" and e = "etag_of ''hey''"
        and g = "ex_get [(''If-None-Match'', dquote (etag_of ''hey''))]" and t = 1700000000 and net = ex_net and fe = False
        and fe' = True and ?t0.0 = 0]
    by (auto simp: ex_upload newline_def etag_of_chars whole_or_unchanged_def)
qed

text \<open>
  C10.  Revalidation by date.  A signed \<open>GET\<close> after an upload that sends the date of its copy in
  \<open>If-Modified-Since\<close> is answered 304 without a body when the upload is not of a later second than that date, so
  that a copy of the upload itself is current, and 200 with the bytes otherwise.
\<close>

theorem date_revalidated:
  assumes "storage_at rs (storage s)" and "wfaults w = []" "fs_ok w" and "live_bucket w b"
    and "key_ok k" "newline \<notin> set k"
    and "rMethod p = ''PUT''" "rPath p = object_route (Name b) k" "rBody p = \<lparr>bData = d, bErr = None\<rparr>"
      "put_ready rs (wfs w) (Name b) k (rndTemps (rEntropy p))" "signed_request s b w p"
    and "rMethod g = ''GET''" "rPath g = object_route (Name b) k" "signed_request s b (w\<lparr>wnow := t\<rparr>) g"
    and "no_dates g" "HeaderGet g ''Range'' = []" "HeaderGet g ''If-None-Match'' = []"
      "HeaderGet g ''If-Modified-Since'' = http_date u" "four_digit_years u" "\<not> isZeroTime (db_time (wnow w))"
  shows "\<exists>rsp w1. Handler s t0 fe p w = (rsp, w1) \<and> rsStatus rsp = 200 \<and>
    whole_or_unchanged (whole_second (db_time (wnow w)) \<le> whole_second u) d
      (respond net g (fst (Handler s t0 fe' g (w1\<lparr>wnow := t\<rparr>))))"
proof -
  have "reading g" using assms(12) by (simp add: reading_def)
  note c = preconditions_date [OF assms(15,17-20) this, unfolded assms(16)]
  from after_upload [OF assms(1-14), of t0 fe fe'] obtain w1 ct pub where
    "Handler s t0 fe p w = (setHeader ''ETag'' (dquote (etag_of d)) (writeHeader StatusOK), w1)"
    "fst (Handler s t0 fe' g (w1\<lparr>wnow := t\<rparr>)) = served d ct pub (wnow w)" by blast
  then show ?thesis using conditional_answer [OF assms(12) served_sel c] by (auto simp: put_status)
qed

theorem date_revalidated_witness:
  "\<exists>rsp w1. ex_put = (rsp, w1) \<and> wBody (ex_answer True [(''If-Modified-Since'', http_date 0)] w1) = ''hey''"
proof -
  have "no_dates (ex_get [(''If-Modified-Since'', e)])" "HeaderGet (ex_get [(''If-Modified-Since'', e)]) ''If-Modified-Since'' = e"
    "HeaderGet (ex_get [(''If-Modified-Since'', e)]) ''Range'' = []" "HeaderGet (ex_get [(''If-Modified-Since'', e)]) ''If-None-Match'' = []" for e
    by (simp_all add: no_dates_def ex_get_header header_of_def)
  moreover have "four_digit_years 0" "\<not> isZeroTime (db_time (wnow ex_world))" "\<not> whole_second (db_time (wnow ex_world)) \<le> whole_second 0"
    by (simp_all add: four_digit_years_def isZeroTime_def zero_time_def db_time_eq whole_second_def ex_world_def)
  ultimately show ?thesis
    using date_revalidated [where rs = "[''data'']" and s = ex_server and w = ex_world and b = ex_bucket and k = "''b.txt''"
        and p = "ex_signed ''PUT'' ''/buckets/photos/objects/b.txt''" and d = "''hey''" and u = 0
        and g = "ex_get [(''If-Modified-Since'', http_date 0)]" and t = 1700000000 and net = ex_net and fe = False
        and fe' = True and ?t0.0 = 0]
    by (auto simp: ex_upload newline_def whole_or_unchanged_def)
qed

section \<open>Partial answers\<close>

text \<open>
  C11.  Whatever the server is asked with \<open>GET\<close>, and whatever ranges, only an object or an asset is answered in
  part, with ranges inside it whose bytes together are no more than it has: one range as it is, or several as the
  parts of a multipart body.
\<close>

theorem partial_answers:
  assumes "wire_body r" and "rMethod r = ''GET''" and "Handler s t0 fe r w = (rsp, w')" and "wStatus (respond net r rsp) = 206"
  shows "\<exists>t d ct rs. rsBody rsp = ServeContent t d \<and> rs \<noteq> [] \<and> (\<forall>ra\<in>set rs. range_in (int (length d)) ra) \<and>
    sum_list (map snd rs) \<le> int (length d) \<and>
    wBody (respond net r rsp) = (if length rs = 1 then slice d (hd rs) else multipart_body (Boundary net) ct d rs)"
proof -
  have ty: "fits ''GET'' (rPath r) (rsStatus rsp) (rsBody rsp)" using Handler_typed [OF assms(1,3)] assms(2) by (simp add: well_typed_def)
  show ?thesis
  proof (cases "rsBody rsp")
    case (ServeContent t d)
    then show ?thesis using partial_answer [of net r _ t d "rsHeader rsp"] assms(2,4) by (simp add: respond_def Let_def)
  qed (use ty assms(2,4) in \<open>auto simp: respond_def\<close>)
qed

theorem partial_answers_witness:
  "\<exists>w1 t d ct rs. rsBody (fst (Handler ex_server 0 True (ex_get [(''Range'', byte_range 1 1)]) w1)) = ServeContent t d \<and> rs \<noteq> [] \<and>
    (\<forall>ra\<in>set rs. range_in (int (length d)) ra) \<and> wStatus (ex_answer True [(''Range'', byte_range 1 1)] w1) = 206"
proof -
  let ?r = "ex_get [(''Range'', byte_range 1 1)]"
  have r: "plain_get ?r" "HeaderGet ?r ''Range'' = byte_range 1 1" "wire_body ?r"
    by (simp_all add: plain_get_def no_dates_def ex_get_header header_of_def wire_body_def)
  from after_upload [where rs = "[''data'']" and s = ex_server and w = ex_world and b = ex_bucket and k = "''b.txt''"
      and p = "ex_signed ''PUT'' ''/buckets/photos/objects/b.txt''" and d = "''hey''" and g = ?r and t = 1700000000
      and fe = False and fe' = True and ?t0.0 = 0]
  obtain w1 ct pub where h: "fst (Handler ex_server 0 True ?r (w1\<lparr>wnow := 1700000000\<rparr>)) = served ''hey'' ct pub (wnow ex_world)"
    by (auto simp: ex_upload newline_def)
  have st: "wStatus (ex_answer True [(''Range'', byte_range 1 1)] w1) = 206"
    unfolding h using range_answer(1) [OF r(1,2) _ _ served_sel(1)] by simp
  from partial_answers [OF r(3) ex_get_simps(1) prod.collapse [symmetric] st] st show ?thesis
    by (intro exI [of _ "w1\<lparr>wnow := 1700000000\<rparr>"]) auto
qed

end
