(* ===== verification/Schema.thy ===== *)
theory Schema
  imports Store Http
begin

text \<open>
  What is below the tables of the model: the database file of \<open>store.go\<close> as SQLite keeps it.  Tables with columns
  and cells, the statements of \<open>schema\<close> and the \<open>ADD COLUMN\<close> migration, the columns the code selects and how
  \<open>scanBucket\<close> and \<open>scanObject\<close> read them, and the data source name \<open>OpenStore\<close> builds.  SQLite compares
  identifiers without regard to case; the codes of its constraint errors are the documented ones, and the text it
  reports a failure with is an argument.
\<close>

unbundle bit_operations_syntax

section \<open>Cells and rows\<close>

datatype sql_value = SqlNull | SqlText string | SqlInt int

type_synonym sql_row = "(string \<times> sql_value) list"

definition cell :: "sql_row \<Rightarrow> string \<Rightarrow> sql_value" where
  "cell r n = (case List.find (\<lambda>c. EqualFold (fst c) n) r of Some c \<Rightarrow> snd c | None \<Rightarrow> SqlNull)"

text \<open>\<open>rows.Scan\<close> into a string, a pointer to a string, an integer and a boolean.\<close>

definition scan_text :: "sql_value \<Rightarrow> string option" where
  "scan_text v = (case v of SqlText s \<Rightarrow> Some s | SqlInt i \<Rightarrow> Some (format_int i) | SqlNull \<Rightarrow> None)"

definition scan_opt :: "sql_value \<Rightarrow> string option option" where
  "scan_opt v = (if v = SqlNull then Some None else map_option Some (scan_text v))"

definition scan_int :: "sql_value \<Rightarrow> int option" where
  "scan_int v = (case v of SqlInt i \<Rightarrow> Some i | SqlText s \<Rightarrow> map_option sint (ParseInt s) | SqlNull \<Rightarrow> None)"

text \<open>\<open>driver.Bool\<close>: the integers 0 and 1, or what \<open>strconv.ParseBool\<close> accepts.\<close>

definition scan_bool :: "sql_value \<Rightarrow> bool option" where
  "scan_bool v = (case v of
     SqlInt i \<Rightarrow> if i = 1 then Some True else if i = 0 then Some False else None
   | SqlText s \<Rightarrow>
       if s \<in> {''1'', ''t'', ''T'', ''true'', ''TRUE'', ''True''} then Some True
       else if s \<in> {''0'', ''f'', ''F'', ''false'', ''FALSE'', ''False''} then Some False else None
   | SqlNull \<Rightarrow> None)"

definition sql_opt :: "string option \<Rightarrow> sql_value" where
  "sql_opt x = (case x of None \<Rightarrow> SqlNull | Some s \<Rightarrow> SqlText s)"

definition sql_bool :: "bool \<Rightarrow> sql_value" where
  "sql_bool b = SqlInt (if b then 1 else 0)"

text \<open>The columns the statements name, the values they bind, and the rows they scan.\<close>

definition bucketCols :: "string list" where
  "bucketCols = [''Name'', ''Description'', ''AccessKey'', ''EncryptedSecretKey'', ''CreatedAt'']"

definition objectCols :: "string list" where
  "objectCols = [''Bucket'', ''Key'', ''Size'', ''LastModified'', ''ETag'', ''ContentType'', ''Public'']"

definition bucket_values :: "Bucket \<Rightarrow> sql_value list" where
  "bucket_values b = [SqlText (Name b), sql_opt (Description b), SqlText (AccessKey b), SqlText (EncryptedSecretKey b),
     SqlText (formatDBTime (CreatedAt b))]"

definition object_values :: "ObjectRow \<Rightarrow> sql_value list" where
  "object_values r = [SqlText (oBucket r), SqlText (oKey r), SqlInt (oSize r), SqlText (formatDBTime (oLastModified r)),
     sql_opt (oETag r), sql_opt (oContentType r), sql_bool (oPublic r)]"

definition scanBucket :: "sql_value list \<Rightarrow> Bucket option" where
  "scanBucket vs = (case vs of
     [n, d, ak, es, t] \<Rightarrow>
       Option.bind (scan_text n) (\<lambda>n. Option.bind (scan_opt d) (\<lambda>d. Option.bind (scan_text ak) (\<lambda>ak.
       Option.bind (scan_text es) (\<lambda>es. Option.bind (scan_text t) (\<lambda>created.
       Some \<lparr>Name = n, Description = d, AccessKey = ak, EncryptedSecretKey = es, CreatedAt = parseDBTime created\<rparr>)))))
   | _ \<Rightarrow> None)"

definition scanObject :: "sql_value list \<Rightarrow> ObjectRow option" where
  "scanObject vs = (case vs of
     [b, k, n, t, e, ct, p] \<Rightarrow>
       Option.bind (scan_text b) (\<lambda>b. Option.bind (scan_text k) (\<lambda>k. Option.bind (scan_int n) (\<lambda>n.
       Option.bind (scan_text t) (\<lambda>modified. Option.bind (scan_opt e) (\<lambda>e. Option.bind (scan_opt ct) (\<lambda>ct.
       Option.bind (scan_bool p) (\<lambda>p.
       Some \<lparr>oBucket = b, oKey = k, oSize = n, oLastModified = parseDBTime modified, oETag = e, oContentType = ct,
         oPublic = p\<rparr>)))))))
   | _ \<Rightarrow> None)"

lemma scan_simps [simp]:
  "scan_text (SqlText s) = Some s" "scan_opt (sql_opt x) = Some x" "scan_int (SqlInt i) = Some i" "scan_bool (sql_bool b) = Some b"
  by (simp_all add: scan_text_def scan_opt_def sql_opt_def scan_int_def scan_bool_def sql_bool_def split: option.split)

text \<open>A row that was written is read back as the tables of the model keep it.\<close>

lemma scan_written: "scanBucket (bucket_values b) = Some (stored_bucket b)" "scanObject (object_values r) = Some (stored_row r)"
  by (simp_all add: scanBucket_def bucket_values_def scanObject_def object_values_def stored_bucket_def stored_row_def db_time_def)

section \<open>Tables and indexes\<close>

datatype sql_type = TextCol | IntegerCol

record column =
  cName :: string
  cType :: sql_type
  cNotNull :: bool

record sql_table =
  tCols :: "column list"
  tKey :: "string list"
  tRows :: "sql_row list"

record sql_db =
  sTables :: "(string \<times> sql_table) list"
  sIndexes :: "(string \<times> string \<times> string list) list"

definition find_table :: "sql_db \<Rightarrow> string \<Rightarrow> sql_table option" where
  "find_table db n = map_option snd (List.find (\<lambda>t. EqualFold (fst t) n) (sTables db))"

definition put_table :: "string \<Rightarrow> sql_table \<Rightarrow> sql_db \<Rightarrow> sql_db" where
  "put_table n t db = db\<lparr>sTables := map (\<lambda>(m, u). if EqualFold m n then (m, t) else (m, u)) (sTables db)\<rparr>"

definition has_col :: "sql_table \<Rightarrow> string \<Rightarrow> bool" where
  "has_col t n \<longleftrightarrow> list_ex (\<lambda>c. EqualFold (cName c) n) (tCols t)"

definition has_index :: "sql_db \<Rightarrow> string \<Rightarrow> bool" where
  "has_index db i \<longleftrightarrow> list_ex (\<lambda>x. EqualFold (fst x) i) (sIndexes db)"

text \<open>The cells a unique constraint compares; a null is never equal to another.\<close>

definition key_cells :: "string list \<Rightarrow> sql_row \<Rightarrow> sql_value list" where
  "key_cells cols r = map (cell r) cols"

definition clashes :: "string list \<Rightarrow> sql_row \<Rightarrow> sql_row \<Rightarrow> bool" where
  "clashes cols r q \<longleftrightarrow> key_cells cols r = key_cells cols q \<and> SqlNull \<notin> set (key_cells cols r)"

section \<open>Statements\<close>

datatype sql_failure = DuplicateColumn string | NoSuchTable string | NoSuchColumn string | Constraint int | OtherFailure

text \<open>Result codes: a generic error, an I/O error, and the extended codes of violated constraints.\<close>

primrec sql_code :: "sql_failure \<Rightarrow> int" where
  "sql_code (DuplicateColumn c) = 1"
| "sql_code (NoSuchTable t) = 1"
| "sql_code (NoSuchColumn c) = 1"
| "sql_code (Constraint n) = n"
| "sql_code OtherFailure = 10"

definition not_null_code :: int where "not_null_code = 1299"
definition primary_key_code :: int where "primary_key_code = 1555"
definition unique_code :: int where "unique_code = 2067"

datatype ddl =
    CreateTable string "column list" "string list"
  | CreateUniqueIndex string string "string list"
  | AddColumn string column

text \<open>\<open>CREATE ... IF NOT EXISTS\<close> leaves what it finds as it is.\<close>

fun exec_ddl :: "ddl \<Rightarrow> sql_db \<Rightarrow> sql_failure + sql_db" where
  "exec_ddl (CreateTable n cols pk) db =
     (if find_table db n \<noteq> None then Inr db
      else Inr (db\<lparr>sTables := sTables db @ [(n, \<lparr>tCols = cols, tKey = pk, tRows = []\<rparr>)]\<rparr>))"
| "exec_ddl (CreateUniqueIndex i n cols) db =
     (if has_index db i then Inr db
      else case find_table db n of
        None \<Rightarrow> Inl (NoSuchTable n)
      | Some t \<Rightarrow>
          (case List.find (\<lambda>c. \<not> has_col t c) cols of
             Some c \<Rightarrow> Inl (NoSuchColumn c)
           | None \<Rightarrow>
               if distinct (filter (\<lambda>k. SqlNull \<notin> set k) (map (key_cells cols) (tRows t)))
               then Inr (db\<lparr>sIndexes := sIndexes db @ [(i, n, cols)]\<rparr>)
               else Inl (Constraint unique_code)))"
| "exec_ddl (AddColumn n c) db =
     (case find_table db n of
        None \<Rightarrow> Inl (NoSuchTable n)
      | Some t \<Rightarrow>
          if has_col t (cName c) then Inl (DuplicateColumn (cName c))
          else if cNotNull c \<and> tRows t \<noteq> [] then Inl OtherFailure
          else Inr (put_table n (t\<lparr>tCols := tCols t @ [c]\<rparr>) db))"

text \<open>\<open>schema\<close> and the migration of databases that were created before descriptions existed.\<close>

abbreviation text_col :: "string \<Rightarrow> bool \<Rightarrow> column" where
  "text_col n nn \<equiv> \<lparr>cName = n, cType = TextCol, cNotNull = nn\<rparr>"

definition schema_ddl :: "ddl list" where
  "schema_ddl = [
     CreateTable ''Buckets''
       [text_col ''Name'' True, text_col ''Description'' False, text_col ''AccessKey'' True,
        text_col ''EncryptedSecretKey'' True, text_col ''CreatedAt'' True]
       [''Name''],
     CreateUniqueIndex ''IX_Buckets_AccessKey'' ''Buckets'' [''AccessKey''],
     CreateTable ''Objects''
       [text_col ''Bucket'' True, text_col ''Key'' True, \<lparr>cName = ''Size'', cType = IntegerCol, cNotNull = True\<rparr>,
        text_col ''LastModified'' True, text_col ''ETag'' False, text_col ''ContentType'' False,
        \<lparr>cName = ''Public'', cType = IntegerCol, cNotNull = True\<rparr>]
       [''Bucket'', ''Key'']]"

definition add_description :: ddl where
  "add_description = AddColumn ''Buckets'' (text_col ''Description'' False)"

definition isDuplicateColumn :: "string \<Rightarrow> bool" where
  "isDuplicateColumn err \<longleftrightarrow> Contains err ''duplicate column name''"

definition isConstraintViolation :: "sql_failure \<Rightarrow> bool" where
  "isConstraintViolation f \<longleftrightarrow> sql_code f AND 255 = 19"

section \<open>Opening a database\<close>

text \<open>A database file, and the faults of the statements to come; a statement that fails changes nothing.\<close>

type_synonym db_file = "sql_db \<times> fault list"

fun run_ddl :: "(sql_failure \<Rightarrow> string) \<Rightarrow> ddl \<Rightarrow> db_file \<Rightarrow> (string + unit) \<times> db_file" where
  "run_ddl report x (db, fs) =
     (case fs of
        f # fs' \<Rightarrow> if f = NoFault then (case exec_ddl x db of
            Inl e \<Rightarrow> (Inl (report e), db, fs') | Inr db' \<Rightarrow> (Inr (), db', fs'))
          else (Inl (report OtherFailure), db, fs')
      | [] \<Rightarrow> (case exec_ddl x db of Inl e \<Rightarrow> (Inl (report e), db, []) | Inr db' \<Rightarrow> (Inr (), db', [])))"

primrec run_all :: "(sql_failure \<Rightarrow> string) \<Rightarrow> ddl list \<Rightarrow> db_file \<Rightarrow> (string + unit) \<times> db_file" where
  "run_all report [] s = (Inr (), s)"
| "run_all report (x # xs) s = (case run_ddl report x s of
     (Inl e, s') \<Rightarrow> (Inl (''init schema: '' @ e), s')
   | (Inr _, s') \<Rightarrow> run_all report xs s')"

text \<open>The statements of \<open>OpenStore\<close>.\<close>

definition open_schema :: "(sql_failure \<Rightarrow> string) \<Rightarrow> db_file \<Rightarrow> (string + unit) \<times> db_file" where
  "open_schema report s = (case run_all report schema_ddl s of
     (Inl e, s') \<Rightarrow> (Inl e, s')
   | (Inr _, s') \<Rightarrow> (case run_ddl report add_description s' of
       (Inl e, s'') \<Rightarrow> if \<not> isDuplicateColumn e then (Inl (''migrate Buckets.Description: '' @ e), s'') else (Inr (), s'')
     | (Inr _, s'') \<Rightarrow> (Inr (), s'')))"

text \<open>
  The name of the data source: \<open>URL.EscapedPath\<close> of the absolute path, and the parameters.  The escaper leaves
  the characters alone that a path may hold.
\<close>

definition path_char :: "char \<Rightarrow> bool" where
  "path_char c \<longleftrightarrow> unreserved c \<or> c \<in> set ''$&+,/:;=@''"

definition EscapedPath :: "string \<Rightarrow> string" where
  "EscapedPath p = concat (map (\<lambda>c. if path_char c then [c]
     else [CHR 0x25, upper_hex (byte_of c div 16), upper_hex (byte_of c mod 16)]) p)"

definition dsn_params :: string where
  "dsn_params = ''_pragma=busy_timeout(30000)&_pragma=synchronous(NORMAL)&_txlock=immediate''"

definition dsn :: "string \<Rightarrow> string" where
  "dsn full = ''file:'' @ EscapedPath full @ CHR ''?'' # dsn_params"

section \<open>Reading and inserting rows\<close>

text \<open>\<open>SELECT\<close> of named columns: an error when one of them does not exist.\<close>

definition select_cols :: "string list \<Rightarrow> sql_table \<Rightarrow> sql_value list list option" where
  "select_cols cols t = (if list_all (has_col t) cols then Some (map (key_cells cols) (tRows t)) else None)"

definition read_table :: "sql_db \<Rightarrow> string \<Rightarrow> string list \<Rightarrow> (sql_value list \<Rightarrow> 'a option) \<Rightarrow> 'a list option" where
  "read_table db n cols scan = Option.bind (find_table db n) (\<lambda>t. Option.bind (select_cols cols t) (\<lambda>vs. those (map scan vs)))"

definition read_tables :: "sql_db \<Rightarrow> database option" where
  "read_tables db = Option.bind (read_table db ''Buckets'' bucketCols scanBucket) (\<lambda>bs.
     map_option (\<lambda>os. \<lparr>tblBuckets = bs, tblObjects = os\<rparr>) (read_table db ''Objects'' objectCols scanObject))"

text \<open>\<open>INSERT\<close>: constraints of the columns, of the primary key and of the unique indexes.\<close>

definition exec_insert :: "string \<Rightarrow> string list \<Rightarrow> sql_value list \<Rightarrow> sql_db \<Rightarrow> sql_failure + sql_db" where
  "exec_insert n cols vals db = (let r = zip cols vals in
     case find_table db n of
       None \<Rightarrow> Inl (NoSuchTable n)
     | Some t \<Rightarrow>
         (case List.find (\<lambda>c. \<not> has_col t c) cols of
            Some c \<Rightarrow> Inl (NoSuchColumn c)
          | None \<Rightarrow>
              if list_ex (\<lambda>c. cNotNull c \<and> cell r (cName c) = SqlNull) (tCols t) then Inl (Constraint not_null_code)
              else if list_ex (\<lambda>q. clashes (tKey t) r q) (tRows t) then Inl (Constraint primary_key_code)
              else if list_ex (\<lambda>(i, m, cs). EqualFold m n \<and> list_ex (\<lambda>q. clashes cs r q) (tRows t)) (sIndexes db)
                then Inl (Constraint unique_code)
              else Inr (put_table n (t\<lparr>tRows := tRows t @ [r]\<rparr>) db)))"

text \<open>\<open>InsertBucket\<close> down to the cells.\<close>

definition insert_bucket :: "Bucket \<Rightarrow> sql_db \<Rightarrow> go_error + sql_db" where
  "insert_bucket b db = (case exec_insert ''Buckets'' bucketCols (bucket_values b) db of
     Inl f \<Rightarrow> if isConstraintViolation f then Inl (bucketAlreadyExists (Name b)) else Inl DbErr
   | Inr db' \<Rightarrow> Inr db')"

end
