(* ===== verification/SchemaLaws.thy ===== *)
theory SchemaLaws
  imports Schema Router PresignLaws
begin

text \<open>
  What opening a database does to it: whatever earlier version a file is of, and whichever statement fails, the
  rows stay and the file is a version that can be opened; after a success every column and constraint the code
  relies on is there.  The tables of the model are what the code reads from such a file.
\<close>

section \<open>Names\<close>

lemma EqualFold_sym: "EqualFold a b \<longleftrightarrow> EqualFold b a"
  by (auto simp: EqualFold_def)

lemma EqualFold_trans: "EqualFold a b \<Longrightarrow> EqualFold b c \<Longrightarrow> EqualFold a c"
  by (simp add: EqualFold_def)

lemma EqualFold_cong: "EqualFold a b \<Longrightarrow> EqualFold a c \<longleftrightarrow> EqualFold b c" "EqualFold a b \<Longrightarrow> EqualFold c a \<longleftrightarrow> EqualFold c b"
  by (simp_all add: EqualFold_def)

lemma table_names [simp]: "\<not> EqualFold ''Buckets'' ''Objects''" "\<not> EqualFold ''Objects'' ''Buckets''"
  by (simp_all add: EqualFold_def ascii_lower_def)

lemma find_table_new:
  "find_table (db\<lparr>sTables := sTables db @ [(n, t)]\<rparr>) m =
    (case find_table db m of Some u \<Rightarrow> Some u | None \<Rightarrow> if EqualFold n m then Some t else None)"
  by (simp add: find_table_def find_append split: option.split)

lemma find_table_put:
  "find_table (put_table n t db) m = (if EqualFold n m \<and> find_table db n \<noteq> None then Some t else find_table db m)"
proof -
  have "map_option snd (List.find (\<lambda>u. EqualFold (fst u) m) (map (\<lambda>(k, u). if EqualFold k n then (k, t) else (k, u)) ts)) =
    (if EqualFold n m \<and> List.find (\<lambda>u. EqualFold (fst u) n) ts \<noteq> None then Some t
     else map_option snd (List.find (\<lambda>u. EqualFold (fst u) m) ts))" for ts
    by (induction ts) (auto simp: EqualFold_def)
  from this [of "sTables db"] show ?thesis by (simp add: find_table_def put_table_def del: not_None_eq)
qed

lemma find_table_index: "find_table (db\<lparr>sIndexes := x\<rparr>) m = find_table db m"
  by (simp add: find_table_def)

lemma find_col: "List.find (\<lambda>c. \<not> has_col t c) cols = None \<longleftrightarrow> list_all (has_col t) cols"
  by (auto simp: find_None_iff list_all_iff)

section \<open>Versions\<close>

text \<open>The columns every version of \<open>Buckets\<close> has had.\<close>

definition old_bucket_cols :: "string list" where
  "old_bucket_cols = [''Name'', ''AccessKey'', ''EncryptedSecretKey'', ''CreatedAt'']"

definition bucket_table :: "sql_table \<Rightarrow> bool" where
  "bucket_table t \<longleftrightarrow> list_all (has_col t) old_bucket_cols \<and> tKey t = [''Name''] \<and>
     (\<forall>c\<in>set (tCols t). cNotNull c \<longrightarrow> cName c \<in> set old_bucket_cols) \<and>
     (\<forall>r\<in>set (tRows t). (\<exists>s. cell r ''Name'' = SqlText s) \<and> (\<exists>s. cell r ''AccessKey'' = SqlText s))"

definition bucket_index :: "string \<times> string \<times> string list \<Rightarrow> bool" where
  "bucket_index x \<longleftrightarrow> (EqualFold (fst x) ''IX_Buckets_AccessKey'' \<or> EqualFold (fst (snd x)) ''Buckets'' \<longrightarrow>
     EqualFold (fst (snd x)) ''Buckets'' \<and> snd (snd x) = [''AccessKey''])"

text \<open>
  A file of this or an earlier version, or one whose creation stopped half way: each of the two tables may be
  missing, \<open>Buckets\<close> may lack its description, and its index may be missing.
\<close>

definition earlier_version :: "sql_db \<Rightarrow> bool" where
  "earlier_version db \<longleftrightarrow>
     (\<forall>t. find_table db ''Buckets'' = Some t \<longrightarrow> bucket_table t) \<and>
     (\<forall>t. find_table db ''Objects'' = Some t \<longrightarrow> list_all (has_col t) objectCols) \<and>
     list_all bucket_index (sIndexes db)"

definition current_version :: "sql_db \<Rightarrow> bool" where
  "current_version db \<longleftrightarrow> earlier_version db \<and> has_index db ''IX_Buckets_AccessKey'' \<and> find_table db ''Objects'' \<noteq> None \<and>
     (\<exists>t. find_table db ''Buckets'' = Some t \<and> has_col t ''Description'')"

text \<open>What such a file says, a missing table having no rows and a missing cell being null.\<close>

definition rows_of :: "sql_db \<Rightarrow> string \<Rightarrow> sql_row list" where
  "rows_of db n = (case find_table db n of None \<Rightarrow> [] | Some t \<Rightarrow> tRows t)"

definition tables_of :: "sql_db \<Rightarrow> database option" where
  "tables_of db = Option.bind (those (map (\<lambda>r. scanBucket (key_cells bucketCols r)) (rows_of db ''Buckets''))) (\<lambda>bs.
     map_option (\<lambda>os. \<lparr>tblBuckets = bs, tblObjects = os\<rparr>)
       (those (map (\<lambda>r. scanObject (key_cells objectCols r)) (rows_of db ''Objects''))))"

text \<open>The code reads all of it when the columns it selects are there.\<close>

lemma read_current: "current_version db \<Longrightarrow> read_tables db = tables_of db"
  by (auto simp: current_version_def earlier_version_def bucket_table_def read_tables_def tables_of_def read_table_def rows_of_def
      select_cols_def bucketCols_def old_bucket_cols_def comp_def)

section \<open>The statements of opening\<close>

definition holds :: "database \<Rightarrow> sql_db \<Rightarrow> bool" where
  "holds d db \<longleftrightarrow> earlier_version db \<and> tables_of db = Some d \<and> distinct (map AccessKey (tblBuckets d))"

lemma same_rows: "rows_of db' ''Buckets'' = rows_of db ''Buckets'' \<Longrightarrow> rows_of db' ''Objects'' = rows_of db ''Objects'' \<Longrightarrow>
    tables_of db' = tables_of db"
  by (simp add: tables_of_def)

lemma create_rows: "exec_ddl (CreateTable n cols pk) db = Inr db' \<Longrightarrow> rows_of db' m = rows_of db m"
  by (auto simp: rows_of_def find_table_new split: if_splits option.splits)

lemma create_runs: "\<exists>db'. exec_ddl (CreateTable n cols pk) db = Inr db'"
  by simp

lemma new_bucket_table: "exec_ddl (schema_ddl ! 0) db = Inr db' \<Longrightarrow> holds d db \<Longrightarrow> holds d db' \<and> find_table db' ''Buckets'' \<noteq> None"
proof -
  assume run: "exec_ddl (schema_ddl ! 0) db = Inr db'" and h: "holds d db"
  have rows: "tables_of db' = tables_of db" using run by (intro same_rows create_rows) (auto simp: schema_ddl_def)
  have "earlier_version db'" using run h
    by (auto simp: schema_ddl_def holds_def earlier_version_def find_table_new bucket_table_def has_col_def old_bucket_cols_def
        split: if_splits option.splits)
  then show ?thesis using rows run h by (auto simp: holds_def schema_ddl_def find_table_new split: if_splits)
qed

lemma new_object_table: "exec_ddl (schema_ddl ! 2) db = Inr db' \<Longrightarrow> holds d db \<Longrightarrow> holds d db' \<and> find_table db' ''Objects'' \<noteq> None"
proof -
  assume run: "exec_ddl (schema_ddl ! 2) db = Inr db'" and h: "holds d db"
  have rows: "tables_of db' = tables_of db" using run by (intro same_rows create_rows) (auto simp: schema_ddl_def)
  have "earlier_version db'" using run h
    by (auto simp: schema_ddl_def holds_def earlier_version_def find_table_new has_col_def objectCols_def
        split: if_splits option.splits)
  then show ?thesis using rows run h by (auto simp: holds_def schema_ddl_def find_table_new split: if_splits)
qed

lemma create_keeps:
  assumes "exec_ddl (CreateTable n cols pk) db = Inr db'"
  shows "find_table db m \<noteq> None \<Longrightarrow> find_table db' m = find_table db m" "has_index db' i = has_index db i"
  using assms by (auto simp: find_table_new has_index_def split: if_splits)

text \<open>Rows with different access keys have different cells, so the unique index can be built.\<close>

lemma distinct_cells:
  assumes "those (map (\<lambda>r. scanBucket (key_cells bucketCols r)) rs) = Some bs" "distinct (map AccessKey bs)"
  shows "distinct (map (key_cells [''AccessKey'']) rs)"
  using assms
proof (induction rs arbitrary: bs)
  case (Cons r rs)
  then obtain x xs where bs: "bs = x # xs" "scanBucket (key_cells bucketCols r) = Some x"
    "those (map (\<lambda>r. scanBucket (key_cells bucketCols r)) rs) = Some xs" by (auto split: option.splits)
  have key: "scan_text (cell q ''AccessKey'') = Some (AccessKey y)" if "scanBucket (key_cells bucketCols q) = Some y" for q y
    using that by (auto simp: scanBucket_def key_cells_def bucketCols_def split: Option.bind_splits)
  have mem: "\<exists>y\<in>set xs. scanBucket (key_cells bucketCols q) = Some y" if "q \<in> set rs" for q
    using bs(3) that by (induction rs arbitrary: xs) (auto split: option.splits)
  have "cell r ''AccessKey'' \<noteq> cell q ''AccessKey''" if q: "q \<in> set rs" for q
  proof
    assume e: "cell r ''AccessKey'' = cell q ''AccessKey''"
    obtain y where y: "y \<in> set xs" "scanBucket (key_cells bucketCols q) = Some y" using mem [OF q] by blast
    from key [OF bs(2)] key [OF y(2)] e have "AccessKey x = AccessKey y" by simp
    then show False using Cons.prems(2) bs(1) y(1) by auto
  qed
  then show ?case using Cons.IH [OF bs(3)] Cons.prems(2) bs(1) by (auto simp: key_cells_def)
qed simp

lemma new_bucket_index:
  assumes "holds d db" "find_table db ''Buckets'' = Some t"
  shows "\<exists>db'. exec_ddl (schema_ddl ! 1) db = Inr db' \<and> holds d db' \<and> (\<forall>m. find_table db' m = find_table db m) \<and>
    has_index db' ''IX_Buckets_AccessKey''"
proof (cases "has_index db ''IX_Buckets_AccessKey''")
  case True
  then show ?thesis using assms(1) by (simp add: schema_ddl_def)
next
  case False
  let ?x = "(''IX_Buckets_AccessKey'', ''Buckets'', [''AccessKey''])"
  have "has_col t ''AccessKey''" using assms by (auto simp: holds_def earlier_version_def bucket_table_def old_bucket_cols_def)
  moreover have "distinct (map (key_cells [''AccessKey'']) (tRows t))"
    using assms by (auto simp: holds_def tables_of_def rows_of_def intro: distinct_cells split: Option.bind_splits)
  ultimately have "exec_ddl (schema_ddl ! 1) db = Inr (db\<lparr>sIndexes := sIndexes db @ [?x]\<rparr>)"
    using False assms(2) by (simp add: schema_ddl_def distinct_filter)
  moreover have "holds d (db\<lparr>sIndexes := sIndexes db @ [?x]\<rparr>)" using assms(1)
    by (auto simp: holds_def earlier_version_def find_table_index bucket_index_def tables_of_def rows_of_def)
  ultimately show ?thesis by (auto simp: find_table_index has_index_def)
qed

lemma description_added:
  assumes "holds d db" "find_table db ''Buckets'' = Some t"
  shows "has_col t ''Description'' \<Longrightarrow> exec_ddl add_description db = Inl (DuplicateColumn ''Description'')"
    and "\<not> has_col t ''Description'' \<Longrightarrow> \<exists>db'. exec_ddl add_description db = Inr db' \<and> holds d db' \<and>
      find_table db' ''Objects'' = find_table db ''Objects'' \<and> (\<exists>t'. find_table db' ''Buckets'' = Some t' \<and> has_col t' ''Description'') \<and>
      sIndexes db' = sIndexes db"
proof -
  show "has_col t ''Description'' \<Longrightarrow> exec_ddl add_description db = Inl (DuplicateColumn ''Description'')"
    using assms(2) by (simp add: add_description_def)
  assume no: "\<not> has_col t ''Description''"
  let ?t = "t\<lparr>tCols := tCols t @ [text_col ''Description'' False]\<rparr>"
  have run: "exec_ddl add_description db = Inr (put_table ''Buckets'' ?t db)" using assms(2) no by (simp add: add_description_def)
  have found: "find_table (put_table ''Buckets'' ?t db) ''Buckets'' = Some ?t"
    "find_table (put_table ''Buckets'' ?t db) ''Objects'' = find_table db ''Objects''"
    using assms(2) by (simp_all add: find_table_put)
  have "bucket_table ?t" using assms by (auto simp: holds_def earlier_version_def bucket_table_def has_col_def list_all_iff)
  then have "holds d (put_table ''Buckets'' ?t db)" using assms found
    by (auto simp: holds_def earlier_version_def tables_of_def rows_of_def) (simp_all add: put_table_def)
  moreover have "has_col ?t ''Description''" by (simp add: has_col_def)
  ultimately show "\<exists>db'. exec_ddl add_description db = Inr db' \<and> holds d db' \<and>
      find_table db' ''Objects'' = find_table db ''Objects'' \<and> (\<exists>t'. find_table db' ''Buckets'' = Some t' \<and> has_col t' ''Description'') \<and>
      sIndexes db' = sIndexes db"
    using run found by (auto simp: put_table_def)
qed

section \<open>Opening\<close>

text \<open>The documented text of the one failure the code looks for.\<close>

definition names_duplicates :: "(sql_failure \<Rightarrow> string) \<Rightarrow> bool" where
  "names_duplicates report \<longleftrightarrow> (\<forall>f. isDuplicateColumn (report f) \<longleftrightarrow> (\<exists>c. f = DuplicateColumn c))"

text \<open>One statement of the model, which changes no table, in the same run of faults.\<close>

abbreviation db_pass :: "unit action" where
  "db_pass \<equiv> db_exec (\<lambda>d. d)"

lemma db_pass_run:
  "wfaults w = [] \<Longrightarrow> db_pass w = (Inr (), w)"
  "wfaults w = f # fs \<Longrightarrow> db_pass w = (if f = NoFault then Inr () else Inl DbErr, w\<lparr>wfaults := fs\<rparr>)"
  by (auto simp: db_exec_def db_call_def next_fault_def split: fault.split)

lemma run_ddl_ok:
  assumes "exec_ddl x db = Inr db1" "run_ddl report x (db, wfaults w) = (res, db', fs')"
  shows "res = Inr () \<and> db' = db1 \<and> db_pass w = (Inr (), w\<lparr>wfaults := fs'\<rparr>) \<or>
    isl res \<and> res = Inl (report OtherFailure) \<and> db' = db \<and> wfaults w \<noteq> [] \<and> db_pass w = (Inl DbErr, w\<lparr>wfaults := fs'\<rparr>)"
    and "wfaults w = [] \<Longrightarrow> res = Inr () \<and> fs' = []"
  using assms by (cases "wfaults w"; auto simp: db_pass_run split: if_splits)+

lemma run_all_refines:
  assumes "\<And>k db. k < length xs \<Longrightarrow> P k db \<Longrightarrow> \<exists>db'. exec_ddl (xs ! k) db = Inr db' \<and> P (Suc k) db'"
    and "\<And>k db. P k db \<Longrightarrow> Q db"
    and "P 0 db" "run_all report xs (db, wfaults w) = (res, db', fs')" "length ys = length xs"
  shows "Q db' \<and> (res = Inr () \<longrightarrow> P (length xs) db') \<and> (wfaults w = [] \<longrightarrow> res = Inr () \<and> fs' = []) \<and>
    (\<exists>r. for_each (\<lambda>_. db_pass) ys w = (r, w\<lparr>wfaults := fs'\<rparr>) \<and> isl r = isl res)"
  using assms
proof (induction xs arbitrary: P db ys w)
  case Nil
  then show ?case by auto
next
  case (Cons x xs)
  obtain y ys' where ys: "ys = y # ys'" "length ys' = length xs" using Cons.prems(5) by (cases ys) auto
  obtain db1 where x: "exec_ddl x db = Inr db1" "P 1 db1" using Cons.prems(1) [of 0 db] Cons.prems(3) by auto
  obtain r1 db2 fs1 where run: "run_ddl report x (db, wfaults w) = (r1, db2, fs1)" by (cases "run_ddl report x (db, wfaults w)") auto
  from run_ddl_ok(1) [OF x(1) run]
  show ?case
  proof (elim disjE conjE)
    assume r: "r1 = Inr ()" "db2 = db1" "db_pass w = (Inr (), w\<lparr>wfaults := fs1\<rparr>)"
    have tail: "run_all report xs (db1, wfaults (w\<lparr>wfaults := fs1\<rparr>)) = (res, db', fs')" using Cons.prems(4) run r by simp
    have shift: "\<exists>db'. exec_ddl (xs ! k) db = Inr db' \<and> P (Suc (Suc k)) db'" if "k < length xs" "P (Suc k) db" for k db
      using Cons.prems(1) [of "Suc k" db] that by simp
    have x2: "P (Suc 0) db1" using x(2) by simp
    from Cons.IH [of "\<lambda>k. P (Suc k)", OF shift Cons.prems(2) x2 tail ys(2)]
    have ih: "Q db' \<and> (res = Inr () \<longrightarrow> P (Suc (length xs)) db') \<and> (fs1 = [] \<longrightarrow> res = Inr () \<and> fs' = []) \<and>
      (\<exists>r. for_each (\<lambda>_. db_pass) ys' (w\<lparr>wfaults := fs1\<rparr>) = (r, w\<lparr>wfaults := fs'\<rparr>) \<and> isl r = isl res)" by simp
    then obtain r' where "for_each (\<lambda>_. db_pass) ys' (w\<lparr>wfaults := fs1\<rparr>) = (r', w\<lparr>wfaults := fs'\<rparr>)" "isl r' = isl res" by blast
    then have "\<exists>r. for_each (\<lambda>_. db_pass) ys w = (r, w\<lparr>wfaults := fs'\<rparr>) \<and> isl r = isl res"
      using r(3) ys(1) by (cases r') auto
    then show ?case using ih run_ddl_ok(2) [OF x(1) run] by simp
  next
    assume r: "r1 = Inl (report OtherFailure)" "db2 = db" "wfaults w \<noteq> []" "db_pass w = (Inl DbErr, w\<lparr>wfaults := fs1\<rparr>)"
    then have "res = Inl (''init schema: '' @ report OtherFailure)" "db' = db" "fs' = fs1" using Cons.prems(4) run by auto
    then show ?case using r ys(1) Cons.prems(2,3) by auto
  qed
qed

text \<open>How far the statements of \<open>schema\<close> have come.\<close>

definition ready :: "database \<Rightarrow> nat \<Rightarrow> sql_db \<Rightarrow> bool" where
  "ready d k db \<longleftrightarrow> holds d db \<and> (1 \<le> k \<longrightarrow> find_table db ''Buckets'' \<noteq> None) \<and>
     (2 \<le> k \<longrightarrow> has_index db ''IX_Buckets_AccessKey'') \<and> (3 \<le> k \<longrightarrow> find_table db ''Objects'' \<noteq> None)"

lemma schema_creates: "\<exists>db'. exec_ddl (schema_ddl ! 0) db = Inr db'" "\<exists>db'. exec_ddl (schema_ddl ! 2) db = Inr db'"
  using create_runs by (simp_all add: schema_ddl_def del: exec_ddl.simps)

lemma schema_step:
  assumes "k < length schema_ddl" "ready d k db"
  shows "\<exists>db'. exec_ddl (schema_ddl ! k) db = Inr db' \<and> ready d (Suc k) db'"
proof -
  have "k = 0 \<or> k = 1 \<or> k = 2" using assms(1) by (auto simp: schema_ddl_def)
  then show ?thesis
  proof (elim disjE)
    assume k: "k = 0"
    obtain db' where "exec_ddl (schema_ddl ! 0) db = Inr db'"
      using schema_creates by blast
    then show ?thesis using new_bucket_table [of db db' d] assms(2) k by (auto simp: ready_def)
  next
    assume k: "k = 1"
    then obtain t where "find_table db ''Buckets'' = Some t" using assms(2) by (auto simp: ready_def)
    then show ?thesis using new_bucket_index [of d db t] assms(2) k by (auto simp: ready_def)
  next
    assume k: "k = 2"
    obtain db' where run: "exec_ddl (schema_ddl ! 2) db = Inr db'"
      using schema_creates by blast
    then have "find_table db' ''Buckets'' = find_table db ''Buckets''" "has_index db' ''IX_Buckets_AccessKey''"
      using assms(2) k by (auto simp: schema_ddl_def ready_def find_table_new has_index_def split: if_splits)
    then show ?thesis using new_object_table [OF run] run assms(2) k by (auto simp: ready_def)
  qed
qed

lemma open_schema_refines:
  assumes "names_duplicates report" "holds d db" "open_schema report (db, wfaults w) = (res, db', fs')"
  shows "holds d db' \<and> (res = Inr () \<longrightarrow> current_version db') \<and> (wfaults w = [] \<longrightarrow> res = Inr () \<and> fs' = []) \<and>
    (\<exists>r. andThen (for_each (\<lambda>_. db_pass) [0, 1, 2 :: nat]) (\<lambda>_. db_pass) w = (r, w\<lparr>wfaults := fs'\<rparr>) \<and> isl r = isl res)"
proof -
  obtain r1 db1 fs1 where run: "run_all report schema_ddl (db, wfaults w) = (r1, db1, fs1)"
    by (cases "run_all report schema_ddl (db, wfaults w)") auto
  have "ready d 0 db" using assms(2) by (simp add: ready_def)
  from run_all_refines [of schema_ddl "ready d" "holds d", OF schema_step _ this run, of "[0, 1, 2 :: nat]"]
  have "holds d db1 \<and> (r1 = Inr () \<longrightarrow> ready d 3 db1) \<and> (wfaults w = [] \<longrightarrow> r1 = Inr () \<and> fs1 = []) \<and>
    (\<exists>r. for_each (\<lambda>_. db_pass) [0, 1, 2 :: nat] w = (r, w\<lparr>wfaults := fs1\<rparr>) \<and> isl r = isl r1)"
    by (simp add: ready_def schema_ddl_def numeral_3_eq_3)
  then obtain r where s: "holds d db1" "r1 = Inr () \<longrightarrow> ready d 3 db1" "wfaults w = [] \<longrightarrow> r1 = Inr () \<and> fs1 = []"
    "for_each (\<lambda>_. db_pass) [0, 1, 2 :: nat] w = (r, w\<lparr>wfaults := fs1\<rparr>)" "isl r = isl r1" by blast
  show ?thesis
  proof (cases r1)
    case (Inl e)
    then show ?thesis using s assms(3) run by (cases r) (auto simp: open_schema_def andThen_def)
  next
    case (Inr u)
    have rd: "ready d 3 db1" using s(2) Inr by simp
    then obtain t where t: "find_table db1 ''Buckets'' = Some t" by (auto simp: ready_def)
    let ?w = "w\<lparr>wfaults := fs1\<rparr>"
    obtain r2 where run2: "run_ddl report add_description (db1, wfaults ?w) = (r2, db', fs')" "isl res \<longleftrightarrow> isl r2 \<and> \<not> isDuplicateColumn (projl r2)"
      "\<not> isl res \<longrightarrow> res = Inr ()"
      using assms(3) run Inr by (auto simp: open_schema_def split: prod.splits sum.splits if_splits)
    have last: "holds d db' \<and> (\<not> isl res \<longrightarrow> current_version db') \<and> (fs1 = [] \<longrightarrow> \<not> isl res \<and> fs' = []) \<and>
      (\<exists>r. db_pass ?w = (r, ?w\<lparr>wfaults := fs'\<rparr>) \<and> isl r = isl res)"
    proof (cases "has_col t ''Description''")
      case True
      have x: "exec_ddl add_description db1 = Inl (DuplicateColumn ''Description'')" using description_added(1) [OF s(1) t True] .
      have "isDuplicateColumn (report (DuplicateColumn ''Description''))" "\<not> isDuplicateColumn (report OtherFailure)"
        using assms(1) by (simp_all add: names_duplicates_def)
      moreover have "current_version db1" using rd t True by (auto simp: current_version_def ready_def holds_def)
      ultimately show ?thesis using run2(1,2) s(1) x
        by (cases fs1) (auto simp: db_pass_run split: if_splits)
    next
      case False
      obtain db3 t' where x: "exec_ddl add_description db1 = Inr db3" "holds d db3" "find_table db3 ''Objects'' = find_table db1 ''Objects''"
        "find_table db3 ''Buckets'' = Some t'" "has_col t' ''Description''" "sIndexes db3 = sIndexes db1"
        using description_added(2) [OF s(1) t False] by blast
      have "\<not> isDuplicateColumn (report OtherFailure)" using assms(1) by (simp add: names_duplicates_def)
      moreover have "current_version db3" using rd x by (auto simp: current_version_def ready_def holds_def has_index_def)
      ultimately show ?thesis using run_ddl_ok [OF x(1) run2(1)] run2(2) s(1) x(2) by auto
    qed
    have "\<not> isl r" using s(5) Inr by simp
    then have "andThen (for_each (\<lambda>_. db_pass) [0, 1, 2 :: nat]) (\<lambda>_. db_pass) w = db_pass ?w"
      using s(4) by (cases r) (simp_all add: andThen_def)
    moreover have "w\<lparr>wfaults := fs1, wfaults := fs'\<rparr> = w\<lparr>wfaults := fs'\<rparr>" by simp
    moreover have "wfaults w = [] \<longrightarrow> fs1 = []" using s(3) by blast
    moreover have "res = Inr () \<longrightarrow> \<not> isl res" by auto
    ultimately show ?thesis using last run2(3) by metis
  qed
qed

section \<open>Inserting a bucket\<close>

lemma violations [simp]:
  "isConstraintViolation (Constraint not_null_code)" "isConstraintViolation (Constraint primary_key_code)"
  "isConstraintViolation (Constraint unique_code)"
  by (simp_all add: isConstraintViolation_def not_null_code_def primary_key_code_def unique_code_def)

abbreviation new_row :: "Bucket \<Rightarrow> sql_row" where
  "new_row b \<equiv> zip bucketCols (bucket_values b)"

lemma new_row_cells:
  "cell (new_row b) ''Name'' = SqlText (Name b)" "cell (new_row b) ''AccessKey'' = SqlText (AccessKey b)"
  "cell (new_row b) ''EncryptedSecretKey'' = SqlText (EncryptedSecretKey b)"
  "cell (new_row b) ''CreatedAt'' = SqlText (formatDBTime (CreatedAt b))"
  "key_cells bucketCols (new_row b) = bucket_values b"
  by (simp_all add: cell_def bucketCols_def bucket_values_def EqualFold_def ascii_lower_def key_cells_def)

lemma those_list_all2: "those (map f xs) = Some ys \<longleftrightarrow> list_all2 (\<lambda>x y. f x = Some y) xs ys"
proof (induction xs arbitrary: ys)
  case (Cons x xs)
  then show ?case by (cases ys) (auto split: option.splits)
qed auto

lemma list_ex_rel: "list_all2 R xs ys \<Longrightarrow> (\<And>x y. x \<in> set xs \<Longrightarrow> R x y \<Longrightarrow> P x \<longleftrightarrow> Q y) \<Longrightarrow> list_ex P xs \<longleftrightarrow> list_ex Q ys"
  by (induction rule: list_all2_induct) auto

lemma scanned:
  assumes "scanBucket (key_cells bucketCols q) = Some y"
  shows "cell q ''Name'' = SqlText s \<Longrightarrow> Name y = s" "cell q ''AccessKey'' = SqlText s \<Longrightarrow> AccessKey y = s"
  using assms by (auto simp: scanBucket_def key_cells_def bucketCols_def split: Option.bind_splits)

lemma insert_refines:
  assumes "holds d db" "current_version db"
  shows "case insert_bucket b db of
      Inl e \<Rightarrow> ins_bucket b d = None \<and> e = bucketAlreadyExists (Name b)
    | Inr db' \<Rightarrow> \<exists>d'. ins_bucket b d = Some d' \<and> holds d' db' \<and> current_version db'"
proof -
  obtain t where t: "find_table db ''Buckets'' = Some t" "has_col t ''Description''" "bucket_table t"
    using assms(2) by (auto simp: current_version_def earlier_version_def)
  obtain bs os where d: "those (map (\<lambda>r. scanBucket (key_cells bucketCols r)) (tRows t)) = Some bs"
    "those (map (\<lambda>r. scanObject (key_cells objectCols r)) (rows_of db ''Objects'')) = Some os" "d = \<lparr>tblBuckets = bs, tblObjects = os\<rparr>"
    using assms(1) t(1) by (auto simp: holds_def tables_of_def rows_of_def split: Option.bind_splits)
  have texts: "\<exists>s. cell q ''Name'' = SqlText s" "\<exists>s. cell q ''AccessKey'' = SqlText s" if "q \<in> set (tRows t)" for q
    using t(3) that by (auto simp: bucket_table_def)
  note rel = d(1) [unfolded those_list_all2]
  have name: "list_ex (clashes [''Name''] (new_row b)) (tRows t) \<longleftrightarrow> list_ex (\<lambda>x. Name x = Name b) bs"
    using texts(1) scanned(1) by (intro list_ex_rel [OF rel]) (fastforce simp: clashes_def key_cells_def new_row_cells)
  have key: "list_ex (clashes [''AccessKey''] (new_row b)) (tRows t) \<longleftrightarrow> list_ex (\<lambda>x. AccessKey x = AccessKey b) bs"
    using texts(2) scanned(2) by (intro list_ex_rel [OF rel]) (fastforce simp: clashes_def key_cells_def new_row_cells)
  have cols: "List.find (\<lambda>c. \<not> has_col t c) bucketCols = None"
    unfolding find_col using t(2,3) by (simp add: bucket_table_def bucketCols_def old_bucket_cols_def)
  have nulls: "\<not> list_ex (\<lambda>c. cNotNull c \<and> cell (new_row b) (cName c) = SqlNull) (tCols t)"
    using t(3) by (auto simp: bucket_table_def old_bucket_cols_def list_ex_iff new_row_cells)
  have ix: "list_ex (\<lambda>(i, m, cs). EqualFold m ''Buckets'' \<and> list_ex (clashes cs (new_row b)) (tRows t)) (sIndexes db) \<longleftrightarrow>
      list_ex (clashes [''AccessKey''] (new_row b)) (tRows t)"
    using assms(2) by (fastforce simp: current_version_def earlier_version_def has_index_def bucket_index_def list_all_iff list_ex_iff)
  have pk: "tKey t = [''Name'']" using t(3) by (simp add: bucket_table_def)
  show ?thesis
  proof (cases "list_ex (\<lambda>x. Name x = Name b) bs \<or> list_ex (\<lambda>x. AccessKey x = AccessKey b) bs")
    case True
    then have "ins_bucket b d = None" by (auto simp: ins_bucket_def d(3) list_ex_iff)
    moreover have "insert_bucket b db = Inl (bucketAlreadyExists (Name b))"
      using True unfolding insert_bucket_def exec_insert_def Let_def t(1) option.case cols pk
      by (auto simp: nulls name key ix)
    ultimately show ?thesis by simp
  next
    case False
    let ?t = "t\<lparr>tRows := tRows t @ [new_row b]\<rparr>" and ?db = "put_table ''Buckets'' (t\<lparr>tRows := tRows t @ [new_row b]\<rparr>) db"
    let ?d = "d\<lparr>tblBuckets := bs @ [stored_bucket b]\<rparr>"
    have "insert_bucket b db = Inr ?db"
      using False unfolding insert_bucket_def exec_insert_def Let_def t(1) option.case cols pk
      by (auto simp: nulls name key ix)
    moreover have "ins_bucket b d = Some ?d" using False by (auto simp: ins_bucket_def d(3) list_ex_iff)
    moreover have found: "find_table ?db ''Buckets'' = Some ?t" "find_table ?db ''Objects'' = find_table db ''Objects''" "sIndexes ?db = sIndexes db"
      using t(1) by (simp_all add: find_table_put) (simp add: put_table_def)
    moreover have "bucket_table ?t" using t(3) by (auto simp: bucket_table_def has_col_def list_all_iff new_row_cells)
    moreover have "those (map (\<lambda>r. scanBucket (key_cells bucketCols r)) (tRows ?t)) = Some (bs @ [stored_bucket b])"
      unfolding those_list_all2 using rel by (simp add: list_all2_appendI new_row_cells scan_written)
    moreover have "distinct (map AccessKey (bs @ [stored_bucket b]))"
      using assms(1) False by (auto simp: holds_def d(3) list_ex_iff)
    ultimately have "holds ?d ?db" using assms(1) d(2,3)
      by (simp add: holds_def earlier_version_def tables_of_def rows_of_def del: map_append)
    moreover have "current_version ?db" using assms(2) found t(2) \<open>holds ?d ?db\<close>
      by (simp add: current_version_def holds_def has_index_def has_col_def)
    ultimately show ?thesis using \<open>insert_bucket b db = Inr ?db\<close> \<open>ins_bucket b d = Some ?d\<close> by simp
  qed
qed

section \<open>The data source name\<close>

lemma path_char_not: "\<not> path_char CHR 0x25" "\<not> path_char CHR ''?''" "\<not> path_char CHR ''#''"
  by (simp_all add: path_char_def unreserved_def)

lemma EscapedPath_chars: "c \<in> set (EscapedPath p) \<Longrightarrow> path_char c \<or> c = CHR 0x25"
proof -
  have "path_char (upper_hex (byte_of x div 16))" "path_char (upper_hex (byte_of x mod 16))" for x
    using byte_of_less [of x] by (simp_all add: path_char_def less_mult_imp_div_less)
  then show "c \<in> set (EscapedPath p) \<Longrightarrow> path_char c \<or> c = CHR 0x25" by (auto simp: EscapedPath_def split: if_splits)
qed

lemma EscapedPath_clean: "CHR ''?'' \<notin> set (EscapedPath p)" "CHR ''#'' \<notin> set (EscapedPath p)"
  using EscapedPath_chars [of "CHR ''?''" p] EscapedPath_chars [of "CHR ''#''" p] path_char_not by auto

lemma PathUnescape_EscapedPath: "PathUnescape (EscapedPath p) = Some p"
proof (induction p)
  case (Cons c p)
  have "byte_of c div 16 < 16" using byte_of_less [of c] by (simp add: less_mult_imp_div_less)
  then show ?case using Cons path_char_not(1) by (cases "path_char c") (auto simp: EscapedPath_def)
qed (simp add: EscapedPath_def)

end
