(* ===== verification/SchemaProperties.thy ===== *)
theory SchemaProperties
  imports SchemaLaws ServerExamples
begin

text \<open>Properties of the database file: opening it, what its rows say, and its name.\<close>

section \<open>Opening a database\<close>

text \<open>
  C17.  Opening a database.  The statements \<open>OpenStore\<close> runs on a database file, which may be new, of any earlier
  version or left half created, do to it what the model's \<open>OpenStore\<close> does, whichever of them fails: no row
  changes, and what is left can be opened again.  When opening succeeds, as it does when no statement fails, the
  file has every table, column and unique index, and the rows the code reads are the ones that were there, those
  written before descriptions existed with none.
\<close>

theorem schema_opening:
  assumes "names_duplicates report" and "earlier_version db" "tables_of db = Some (wdb w1)" "db_wf (wdb w1)"
    and "os_MkdirAll (Dir_of (Abs cwd path)) w = (Inr (), w1)"
    and "open_schema report (db, wfaults w1) = (res, db', fs')"
  shows "\<exists>r. OpenStore cwd path w = (r, w1\<lparr>wfaults := fs'\<rparr>) \<and> isl r = isl res \<and>
    earlier_version db' \<and> tables_of db' = Some (wdb w1) \<and>
    (res = Inr () \<longrightarrow> current_version db' \<and> read_tables db' = Some (wdb w1)) \<and> (wfaults w1 = [] \<longrightarrow> res = Inr () \<and> fs' = [])"
proof -
  have "holds (wdb w1) db" using assms(2-4) by (simp add: holds_def db_wf_def)
  from open_schema_refines [OF assms(1) this assms(6)] obtain r where
    "holds (wdb w1) db'" "res = Inr () \<longrightarrow> current_version db'" "wfaults w1 = [] \<longrightarrow> res = Inr () \<and> fs' = []" "isl r = isl res"
    "andThen (for_each (\<lambda>_. db_pass) [0, 1, 2 :: nat]) (\<lambda>_. db_pass) w1 = (r, w1\<lparr>wfaults := fs'\<rparr>)" by blast
  then show ?thesis using read_current [of db'] assms(5) by (auto simp: OpenStore_def andThen_def [of "os_MkdirAll _"] holds_def)
qed

text \<open>A database written before buckets had descriptions.\<close>

definition ex_old_db :: sql_db where
  "ex_old_db = \<lparr>sTables = [(''Buckets'',
      \<lparr>tCols = map (\<lambda>n. text_col n True) old_bucket_cols, tKey = [''Name''],
       tRows = [[(''Name'', SqlText ''photos''), (''AccessKey'', SqlText ''AK1''), (''EncryptedSecretKey'', SqlText ''x''),
         (''CreatedAt'', SqlText ''2024-05-01 10:00:00+00:00'')]]\<rparr>)],
     sIndexes = []\<rparr>"

definition ex_old_tables :: database where
  "ex_old_tables = \<lparr>tblBuckets = [\<lparr>Name = ''photos'', Description = None, AccessKey = ''AK1'', EncryptedSecretKey = ''x'',
     CreatedAt = parseDBTime ''2024-05-01 10:00:00+00:00''\<rparr>], tblObjects = []\<rparr>"

definition ex_report :: "sql_failure \<Rightarrow> string" where
  "ex_report f = (case f of DuplicateColumn c \<Rightarrow> ''SQL logic error: duplicate column name: '' @ c @ '' (1)'' | _ \<Rightarrow> ''disk I/O error'')"

lemma ex_report_names: "names_duplicates ex_report"
proof -
  have "\<not> Contains ''disk I/O error'' ''duplicate column name''" by (auto dest: sublist_length_le)
  moreover have "Contains (''SQL logic error: '' @ ''duplicate column name'' @ '': '' @ c @ '' (1)'') ''duplicate column name''" for c
    by (rule sublist_appendI)
  ultimately show ?thesis by (auto simp: names_duplicates_def isDuplicateColumn_def ex_report_def split: sql_failure.split)
qed

lemma ex_old: "earlier_version ex_old_db" "tables_of ex_old_db = Some ex_old_tables"
  by (auto simp: earlier_version_def ex_old_db_def find_table_def bucket_table_def has_col_def old_bucket_cols_def cell_def
      tables_of_def rows_of_def ex_old_tables_def scanBucket_def key_cells_def bucketCols_def scan_text_def scan_opt_def
      EqualFold_def ascii_lower_def)

lemma ex_mkdir: "\<exists>g. os_MkdirAll (Dir_of (Abs ''/'' ''/data/s3bender.db'')) \<lparr>wfs = ex_fs, wdb = d, wnow = 0, wfaults = []\<rparr> =
  (Inr (), \<lparr>wfs = g, wdb = d, wnow = 0, wfaults = []\<rparr>)"
proof -
  have "\<not> isl (fs_mkdir_all ex_fs (path_comps (Dir_of (Abs ''/'' ''/data/s3bender.db''))))" by code_simp
  then obtain g where "fs_mkdir_all ex_fs (path_comps (Dir_of (Abs ''/'' ''/data/s3bender.db''))) = Inr g"
    by (cases "fs_mkdir_all ex_fs (path_comps (Dir_of (Abs ''/'' ''/data/s3bender.db'')))") auto
  then show ?thesis by (intro exI [of _ g]) (simp add: os_MkdirAll_def os_update_def os_call_def next_fault_def)
qed

theorem schema_opening_witness:
  "\<exists>db'. open_schema ex_report (ex_old_db, []) = (Inr (), db', []) \<and>
    read_tables db' = Some ex_old_tables"
proof -
  let ?w = "\<lambda>g. \<lparr>wfs = g, wdb = ex_old_tables, wnow = 0, wfaults = []\<rparr> :: world"
  obtain g where mk: "os_MkdirAll (Dir_of (Abs ''/'' ''/data/s3bender.db'')) (?w ex_fs) = (Inr (), ?w g)"
    using ex_mkdir by blast
  obtain res db' fs' where run: "open_schema ex_report (ex_old_db, wfaults (?w g)) = (res, db', fs')"
    by (cases "open_schema ex_report (ex_old_db, [])") auto
  have d: "tables_of ex_old_db = Some (wdb (?w g))" "db_wf (wdb (?w g))" by (simp_all add: ex_old db_wf_def ex_old_tables_def)
  from schema_opening [OF ex_report_names ex_old(1) d mk run]
  have "res = Inr ()" "fs' = []" "read_tables db' = Some ex_old_tables" by auto
  then show ?thesis using run by simp
qed

section \<open>Inserting a bucket\<close>

text \<open>
  C18.  Inserting a bucket.  On a database file that opening has left, \<open>InsertBucket\<close> down to its cells, columns
  and constraints does what the model's statement does: a row whose name or access key is taken is refused by a
  primary key or a unique index, whose error code the code recognises and answers with \<open>BucketAlreadyExists\<close>,
  and any other is added and read back as the model keeps it.
\<close>

theorem insertion_exact:
  assumes "current_version db" "tables_of db = Some d" "db_wf d"
  shows "case insert_bucket b db of
      Inl e \<Rightarrow> ins_bucket b d = None \<and> e = bucketAlreadyExists (Name b)
    | Inr db' \<Rightarrow> \<exists>d'. ins_bucket b d = Some d' \<and> tables_of db' = Some d' \<and> current_version db' \<and> read_tables db' = Some d'"
proof -
  have "holds d db" using assms by (simp add: holds_def current_version_def db_wf_def)
  from insert_refines [OF this assms(1), of b] show ?thesis using read_current by (fastforce simp: holds_def split: sum.splits)
qed

definition ex_new_db :: sql_db where
  "ex_new_db = \<lparr>sTables = [(''Buckets'',
      \<lparr>tCols = map (\<lambda>n. text_col n True) old_bucket_cols @ [text_col ''Description'' False], tKey = [''Name''], tRows = []\<rparr>),
     (''Objects'', \<lparr>tCols = map (\<lambda>n. text_col n False) objectCols, tKey = [''Bucket'', ''Key''], tRows = []\<rparr>)],
     sIndexes = [(''IX_Buckets_AccessKey'', ''Buckets'', [''AccessKey''])]\<rparr>"

lemma ex_new: "current_version ex_new_db" "tables_of ex_new_db = Some \<lparr>tblBuckets = [], tblObjects = []\<rparr>"
  by (auto simp: current_version_def earlier_version_def ex_new_db_def find_table_def bucket_table_def has_col_def old_bucket_cols_def
      objectCols_def tables_of_def rows_of_def has_index_def bucket_index_def EqualFold_def ascii_lower_def)

theorem insertion_exact_witness:
  "\<exists>db'. insert_bucket ex_bucket ex_new_db = Inr db' \<and> tables_of db' = Some \<lparr>tblBuckets = [stored_bucket ex_bucket], tblObjects = []\<rparr>"
  using insertion_exact [OF ex_new, of ex_bucket] by (auto simp: db_wf_def ins_bucket_def split: sum.splits)

section \<open>The data source name\<close>

text \<open>
  C38.  The data source name.  Whatever bytes the absolute path of the database holds, the name ends where the
  parameters begin, at its only question mark, names no fragment, and its escaped path stands for exactly that
  path: a path can neither change a pragma nor name another file.
\<close>

theorem data_source_exact:
  "cut_at CHR ''?'' (dsn p) = (''file:'' @ EscapedPath p, dsn_params, True) \<and> CHR ''?'' \<notin> set dsn_params \<and>
   CHR ''#'' \<notin> set (dsn p) \<and> PathUnescape (EscapedPath p) = Some p"
proof -
  have "CHR ''?'' \<notin> set (''file:'' @ EscapedPath p)" using EscapedPath_clean(1) by simp
  from cut_at_append [OF this, of dsn_params] have "cut_at CHR ''?'' (dsn p) = (''file:'' @ EscapedPath p, dsn_params, True)"
    by (simp add: dsn_def)
  moreover have "CHR ''?'' \<notin> set dsn_params" "CHR ''#'' \<notin> set dsn_params" by (simp_all add: dsn_params_def)
  ultimately show ?thesis using EscapedPath_clean(2) [of p] PathUnescape_EscapedPath [of p] by (simp add: dsn_def)
qed

end
