(* ===== verification/Ownership.thy ===== *)
theory Ownership
  imports Invariants
begin

text \<open>
  No row of the object index is without its bucket, in every state the server reaches: a row is written only
  for the bucket a request was let in for, and deleting a bucket deletes its rows in the same transaction.
\<close>

section \<open>Object operations\<close>

text \<open>With the bucket table fixed, every row belongs to one of its buckets.\<close>

definition owned :: "Bucket list \<Rightarrow> database \<Rightarrow> bool" where
  "owned bs d \<longleftrightarrow> tblBuckets d = bs \<and> (\<forall>r\<in>set (tblObjects d). oBucket r \<in> Name ` set bs)"

lemma no_orphans_owned: "no_orphans d \<longleftrightarrow> owned (tblBuckets d) d"
  by (simp add: no_orphans_def owned_def)

lemma owned_no_orphans: "owned bs d \<Longrightarrow> no_orphans d"
  by (auto simp: no_orphans_def owned_def)

lemma keeps_owned_upsert:
  "oBucket r \<in> Name ` set bs \<Longrightarrow> keeps (\<lambda>w. owned bs (wdb w)) (db_exec (ups_object r))"
  by (rule keeps_db_exec) (auto simp: owned_def ups_object_def)

lemma keeps_owned_exec [keeps_intros]:
  "keeps (\<lambda>w. owned bs (wdb w)) (db_exec (upd_etag b k e))"
  "keeps (\<lambda>w. owned bs (wdb w)) (db_exec (del_object b k))"
  "keeps (\<lambda>w. owned bs (wdb w)) (DeleteBucketObjects b)"
  unfolding DeleteBucketObjects_def
  by (rule keeps_db_exec keeps_db_call; force simp: owned_def upd_etag_def del_object_def del_bucket_objects_def)+

lemma keeps_owned_UpsertObject:
  "oBucket r \<in> Name ` set bs \<Longrightarrow> keeps (\<lambda>w. owned bs (wdb w)) (UpsertObject r)"
  unfolding UpsertObject_def by (rule keeps_owned_upsert)

lemma keeps_owned_writes [keeps_intros]:
  "keeps (\<lambda>w. owned bs (wdb w)) (SetObjectETag b k e)" "keeps (\<lambda>w. owned bs (wdb w)) (DeleteObjectRow b k)"
  unfolding SetObjectETag_def DeleteObjectRow_def by (intro keeps_intros)+

lemma keeps_owned_Apply:
  "\<forall>r\<in>set us. oBucket r \<in> Name ` set bs \<Longrightarrow> keeps (\<lambda>w. owned bs (wdb w)) (ApplyIndexChanges b us ds)"
proof -
  assume us: "\<forall>r\<in>set us. oBucket r \<in> Name ` set bs"
  have "keeps (\<lambda>w. owned bs (wdb w)) (for_each (\<lambda>r. db_exec (ups_object r)) us)"
    by (rule keeps_for_each_in) (use us in \<open>auto intro: keeps_owned_upsert\<close>)
  then show ?thesis unfolding ApplyIndexChanges_def
    by (intro keeps_if keeps_ret keeps_in_tx_db keeps_andThen keeps_for_each [of _ _ ds] keeps_owned_exec; assumption)
qed

lemma indexFromDisk_bucket: "indexFromDisk s b k p w = (Inr r, w') \<Longrightarrow> b \<in> S \<Longrightarrow> oBucket r \<in> S"
  using indexFromDisk_id by fastforce

lemma for_each_results:
  "for_each f xs w = (Inr ys, w') \<Longrightarrow> y \<in> set ys \<Longrightarrow> \<exists>x v v'. f x v = (Inr y, v')"
proof (induction xs arbitrary: w ys)
  case (Cons x xs)
  then obtain z zs v where "f x w = (Inr z, v)" "for_each f xs v = (Inr zs, w')" "ys = z # zs"
    by (auto split: prod.splits sum.splits)
  with Cons show ?case by (cases "y = z") (blast, simp)
qed simp

lemma reindex_file_bucket:
  assumes "reindex_file s b force ex f w = (Inr (k, Some r), w')" and "b \<in> S"
  shows "oBucket r \<in> S"
proof -
  from assms(1) obtain k p v where "indexFromDisk s b k p v = (Inr r, w')"
    by (auto simp: reindex_file_def Let_def ret_def elim!: andThen_InrE split: if_splits)
  then show ?thesis using assms(2) by (rule indexFromDisk_bucket)
qed

lemma keeps_owned_storage:
  assumes b: "b \<in> Name ` set bs"
  shows "keeps (\<lambda>w. owned bs (wdb w)) (PutObject s rnds b k body ct pub)"
    and "keeps (\<lambda>w. owned bs (wdb w)) (OpenObject s b k)" and "keeps (\<lambda>w. owned bs (wdb w)) (SetPublic s b k pub)"
    and "keeps (\<lambda>w. owned bs (wdb w)) (DeleteObject s b k)" and "keeps (\<lambda>w. owned bs (wdb w)) (ReindexBucket s b force)"
    and "keeps (\<lambda>w. owned bs (wdb w)) (ListObjects s b pfx l cursor)"
proof -
  show "keeps (\<lambda>w. owned bs (wdb w)) (PutObject s rnds b k body ct pub)"
    unfolding PutObject_def storage_helpers Let_def by (intro keeps_intros keeps_owned_UpsertObject) (simp add: b)
  have index: "keeps (\<lambda>w. owned bs (wdb w)) (indexFromDisk s b k p)" for k p
    unfolding storage_helpers Let_def by (intro keeps_intros)
  have none: "keeps (\<lambda>w. owned bs (wdb w))
      (andThen (indexFromDisk s b k p) (\<lambda>row. andThen (UpsertObject row) (\<lambda>_. ret (summaryOf row))))" for p
    by (rule keeps_andThen_from [OF index])
      (intro keeps_intros keeps_owned_UpsertObject, erule indexFromDisk_bucket [OF _ b])
  have "keeps (\<lambda>w. owned bs (wdb w)) (statIndexed s b k p)" for p
    unfolding statIndexed_def computeETag_def
    by (intro keeps_intros none)
  then show "keeps (\<lambda>w. owned bs (wdb w)) (OpenObject s b k)"
    unfolding OpenObject_def by (intro keeps_intros)
  show "keeps (\<lambda>w. owned bs (wdb w)) (DeleteObject s b k)"
    unfolding DeleteObject_def storage_helpers Let_def by (intro keeps_intros)
  have row: "keeps (\<lambda>w. owned bs (wdb w)) (case z of Some row \<Rightarrow> ret row | None \<Rightarrow> indexFromDisk s b k p)" for z p
    by (intro keeps_intros index)
  have acl: "keeps (\<lambda>w. owned bs (wdb w)) (andThen (GetObject b k) (\<lambda>found.
      andThen (case found of Some row \<Rightarrow> ret row | None \<Rightarrow> indexFromDisk s b k p) (\<lambda>row. UpsertObject (row\<lparr>oPublic := pub\<rparr>))))" for p
    by (rule keeps_andThen_from, unfold GetObject_def, intro keeps_intros,
        rule keeps_andThen_from [OF row], rule keeps_owned_UpsertObject)
      (auto simp: b ret_def owned_def split: option.splits dest!: db_query_Inr sel_object_rowD [OF sym] dest: indexFromDisk_bucket [OF _ b])
  show "keeps (\<lambda>w. owned bs (wdb w)) (SetPublic s b k pub)"
    unfolding SetPublic_def isFile_def readMeta_def writeMeta_def removeIfExists_def Let_def by (intro keeps_intros acl)
  have "keeps (\<lambda>w. owned bs (wdb w)) (andThen (walkObjectFiles d) (for_each (reindex_file s b force ex)))" for d ex force
    unfolding reindex_file_def Let_def walkObjectFiles_def ctx_Err_def by (intro keeps_intros index)
  then have pass: "keeps (\<lambda>w. owned bs (wdb w))
      (andThen (andThen (walkObjectFiles d) (for_each (reindex_file s b force ex))) (\<lambda>visited.
       andThen (ApplyIndexChanges b (List.map_filter snd visited)
           (filter (\<lambda>k. k \<notin> set (map fst visited)) (map oKey ex))) (\<lambda>_.
       ret (length (List.map_filter snd visited) + length (filter (\<lambda>k. k \<notin> set (map fst visited)) (map oKey ex))))))"
    for d ex force
    by (rule keeps_andThen_from, intro keeps_andThen keeps_ret keeps_owned_Apply)
      (auto simp: List.map_filter_def elim!: andThen_InrE dest!: for_each_results dest: reindex_file_bucket [OF _ b])
  have reindex: "keeps (\<lambda>w. owned bs (wdb w)) (ReindexBucket s b force)" for force
    unfolding ReindexBucket_def Let_def isDir_def IndexedObjects_def by (intro keeps_intros pass)
  then show "keeps (\<lambda>w. owned bs (wdb w)) (ReindexBucket s b force)" .
  show "keeps (\<lambda>w. owned bs (wdb w)) (ListObjects s b pfx l cursor)"
    unfolding ListObjects_def HasObjects_def ListObjectRows_def hasObjectFiles_def isDir_def walkObjectFiles_def Let_def
    by (intro keeps_intros reindex)
qed

section \<open>Handlers\<close>

text \<open>An identity on the request belongs to a bucket of the table.\<close>

lemma authedBucket_Inr: "lift_result (authedBucket r) w = (Inr a, w') \<Longrightarrow> rAuth r = Some a"
  by (auto simp: lift_result_def authedBucket_def split: option.splits if_splits)

lemma keeps_owned_authed:
  assumes "identified r bs" and "\<And>a. Name (aBucket a) \<in> Name ` set bs \<Longrightarrow> keeps (\<lambda>w. owned bs (wdb w)) (k a)"
  shows "keeps (\<lambda>w. owned bs (wdb w)) (andThen (lift_result (authedBucket r)) k)"
  by (rule keeps_andThen_from [OF keeps_lift])
    (use assms in \<open>auto simp: identified_def dest!: authedBucket_Inr\<close>)

lemma keeps_owned_object_handlers:
  assumes "identified r bs"
  shows "keeps (\<lambda>w. owned bs (wdb w)) (putObject s r)" "keeps (\<lambda>w. owned bs (wdb w)) (getObject s r)"
    "keeps (\<lambda>w. owned bs (wdb w)) (deleteObject s r)" "keeps (\<lambda>w. owned bs (wdb w)) (listObjects s r)"
    "keeps (\<lambda>w. owned bs (wdb w)) (bucketStats r)" "keeps (\<lambda>w. owned bs (wdb w)) (setACL s r)"
    "keeps (\<lambda>w. owned bs (wdb w)) (presign s r)"
proof -
  have stats: "keeps (\<lambda>w. owned bs (wdb w)) (Stats b p)" for b p
    unfolding Stats_def by (rule keeps_db_call) (auto split: option.splits)
  note h = keeps_owned_storage stats
  show "keeps (\<lambda>w. owned bs (wdb w)) (putObject s r)" "keeps (\<lambda>w. owned bs (wdb w)) (getObject s r)"
    "keeps (\<lambda>w. owned bs (wdb w)) (deleteObject s r)" "keeps (\<lambda>w. owned bs (wdb w)) (listObjects s r)"
    "keeps (\<lambda>w. owned bs (wdb w)) (bucketStats r)" "keeps (\<lambda>w. owned bs (wdb w)) (setACL s r)"
    "keeps (\<lambda>w. owned bs (wdb w)) (presign s r)"
    unfolding object_handlers Let_def
    by (rule keeps_owned_authed [OF assms], intro keeps_intros h keeps_ret_now keeps_case_prod; assumption)+
qed

text \<open>The admin handlers, by what they do to the tables.\<close>

lemma requireBucket_owner:
  "requireBucket n w = (Inr b, w') \<Longrightarrow> Name b \<in> Name ` set (tblBuckets (wdb w)) \<and> wdb w' = wdb w"
  using requireBucket_Inr [of n w b w'] by (auto dest: sel_bucket_NameD)

lemma no_orphans_tables:
  "tblObjects d' = tblObjects d \<Longrightarrow> map Name (tblBuckets d') = map Name (tblBuckets d) \<Longrightarrow> no_orphans d \<Longrightarrow> no_orphans d'"
  unfolding no_orphans_def by (metis list.set_map)

lemma no_orphans_ins: "ins_bucket b d = Some d' \<Longrightarrow> no_orphans d \<Longrightarrow> no_orphans d'"
  by (auto simp: ins_bucket_Some no_orphans_def)

lemma no_orphans_del: "no_orphans d \<Longrightarrow> no_orphans (del_bucket n (del_bucket_objects n d))"
  by (force simp: no_orphans_def del_bucket_def del_bucket_objects_def)

lemma admin_no_orphans:
  assumes "storage_at rs (storage s)" "server_inv w" "no_orphans (wdb w)"
  shows "no_orphans (wdb (snd (createBucket s r w)))" "no_orphans (wdb (snd (rotateBucketKey s r w)))"
    "no_orphans (wdb (snd (reindexBucket s r w)))" "no_orphans (wdb (snd (deleteBucket s r w)))"
proof -
  have ok: "fs_ok w" "db_ok w" using assms(2) by (simp_all add: server_inv_def)
  show "no_orphans (wdb (snd (rotateBucketKey s r w)))"
  proof -
    obtain res w' where run: "rotateBucketKey s r w = (res, w')" by force
    show ?thesis
    proof (cases res)
      case (Inl e)
      with rotate_outcome(2) [OF run ok(2)] assms(3) run show ?thesis by simp
    next
      case (Inr rsp)
      from rotate_outcome(3) [OF run ok(2) Inr] obtain n ak es where "upd_bucket_keys n ak es (wdb w) = Some (wdb w')" by auto
      with no_orphans_tables assms(3) run show ?thesis
        using upd_bucket_keys_objects upd_bucket_keys_names by (metis snd_conv)
    qed
  qed
  show "no_orphans (wdb (snd (createBucket s r w)))"
  proof -
    obtain res w' where run: "createBucket s r w = (res, w')" by force
    from createBucket_finish [OF run] show ?thesis
    proof (elim disjE exE conjE)
      fix e
      assume "wdb w' = wdb w"
      with assms(3) run show ?thesis by simp
    next
      fix name desc w1
      define b where "b = created_bucket s r name desc (wnow w)"
      assume n: "bucketNameRe name" "sel_bucket name (wdb w) = None" and w1: "wfs w1 = wfs w" "wdb w1 = wdb w"
        and "finish_create s r (created_bucket s r name desc (wnow w)) w1 = (res, w')"
      then have fin: "finish_create s r b w1 = (res, w')" by (simp add: b_def)
      have b: "Name b = name" by (simp add: b_def created_bucket_def)
      have "wdb w' = wdb w \<or> ins_bucket b (wdb w) = Some (wdb w')"
      proof (cases res)
        case (Inl e)
        with finish_create_failed [of s r b w1 e w'] fin n w1 assms(3) b show ?thesis by auto
      next
        case (Inr rsp)
        with finish_create_created [of s r b w1 rsp w' rs] fin assms(1) ok(1) bucketNameRe_ok [OF n(1)] b w1
        show ?thesis by simp
      qed
      then show ?thesis using no_orphans_ins assms(3) run by auto
    qed
  qed
  have own: "owned (tblBuckets (wdb w)) (wdb w)" using assms(3) by (simp add: no_orphans_owned)
  have "keeps (\<lambda>v. owned (tblBuckets (wdb w)) (wdb v)) (reindexBucket s r)"
    unfolding reindexBucket_def
  proof (rule keeps_andThen_from)
    show "keeps (\<lambda>v. owned (tblBuckets (wdb w)) (wdb v)) (requireBucket (pvName r))"
      unfolding requireBucket_def GetBucket_def by (intro keeps_intros)
    fix v b v'
    assume "owned (tblBuckets (wdb w)) (wdb v)" "requireBucket (pvName r) v = (Inr b, v')"
    then have "Name b \<in> Name ` set (tblBuckets (wdb w))" unfolding owned_def using requireBucket_owner by metis
    then show "keeps (\<lambda>v. owned (tblBuckets (wdb w)) (wdb v))
        (andThen (ReindexBucket (storage s) (Name b) True) (\<lambda>n. ret (writeJSON StatusOK (IndexedBody (Name b) n))))"
      by (intro keeps_intros keeps_owned_storage)
  qed
  from keepsD [OF this own] show "no_orphans (wdb (snd (reindexBucket s r w)))" by (rule owned_no_orphans)
  have del: "keeps (\<lambda>w. no_orphans (wdb w)) (DeleteBucket n)" for n
    unfolding keeps_def using DeleteBucket_atomic [OF prod.collapse [symmetric], of n] no_orphans_del
    by (metis (no_types, lifting) sum.case_eq_if)
  have "keeps (\<lambda>w. no_orphans (wdb w)) (deleteBucket s r)"
    unfolding deleteBucket_def Let_def requireBucket_def GetBucket_def IsBucketEmpty_def RemoveBucketDirectory_def removeIfExists_def
    by (intro keeps_intros del)
  then show "no_orphans (wdb (snd (deleteBucket s r w)))" using assms(3) by (rule keepsD)
qed

section \<open>The invariant\<close>

definition owned_inv :: "world \<Rightarrow> bool" where
  "owned_inv w \<longleftrightarrow> server_inv w \<and> no_orphans (wdb w)"

lemma object_no_orphans:
  assumes "no_orphans (wdb w)" and "identified r (tblBuckets (wdb w))"
    and "\<And>bs. identified r bs \<Longrightarrow> keeps (\<lambda>w. owned bs (wdb w)) (h r)"
  shows "no_orphans (wdb (snd (h r w)))"
proof -
  have "owned (tblBuckets (wdb w)) (wdb w)" using assms(1) by (simp add: no_orphans_owned)
  from keepsD [OF assms(3) [OF assms(2)] this] show ?thesis by (rule owned_no_orphans)
qed

lemma handlers_no_orphans:
  assumes "storage_at rs (storage s)" "identified r (tblBuckets (wdb w))" "h \<in> set (handlers s)" "owned_inv w"
  shows "no_orphans (wdb (snd (h r w)))"
proof -
  have w: "server_inv w" "no_orphans (wdb w)" using assms(4) by (simp_all add: owned_inv_def)
  have "keeps (\<lambda>w. no_orphans (wdb w)) (health r)" "keeps (\<lambda>w. no_orphans (wdb w)) (listBuckets r)"
    unfolding health_def listBuckets_def ListBuckets_def by (intro keeps_intros)+
  then have reads: "no_orphans (wdb (snd (health r w)))" "no_orphans (wdb (snd (listBuckets r w)))" using w(2) keepsD by blast+
  have "no_orphans (wdb (snd (h r w)))"
    if "h \<in> {putObject s, getObject s, deleteObject s, listObjects s, bucketStats, setACL s, presign s}"
    using object_no_orphans [OF w(2) assms(2)] keeps_owned_object_handlers that by auto
  then show ?thesis
    using assms(3) reads admin_no_orphans [OF assms(1) w] by (auto simp: handlers_def)
qed

lemma ReindexAll_no_orphans: "no_orphans (wdb w) \<Longrightarrow> no_orphans (wdb (snd (ReindexAll s w)))"
proof -
  assume w: "no_orphans (wdb w)"
  let ?P = "\<lambda>v. owned (tblBuckets (wdb w)) (wdb v)"
  obtain res v where list: "ListBuckets w = (res, v)" by force
  have v: "wdb v = wdb w" using db_query_same list by (auto simp: ListBuckets_def)
  show ?thesis
  proof (cases res)
    case (Inr bs)
    have "set bs = set (tblBuckets (wdb w))"
      using list Inr by (auto simp: ListBuckets_def sel_buckets_def dest!: db_query_Inr)
    then have "keeps ?P (for_each (\<lambda>b. attempt (ReindexBucket (storage s) (Name b) False) (\<lambda>_. ret ())) bs)"
      by (intro keeps_for_each_in keeps_attempt keeps_ret keeps_owned_storage) simp
    then have "keeps ?P (andThen (for_each (\<lambda>b. attempt (ReindexBucket (storage s) (Name b) False) (\<lambda>_. ret ())) bs) (\<lambda>_. ret ()))"
      by (rule keeps_andThen) (rule keeps_ret)
    from keepsD [OF this, of v] have "?P (snd (ReindexAll s w))"
      using v w by (simp add: ReindexAll_def attempt_def list Inr no_orphans_owned)
    then show ?thesis by (rule owned_no_orphans)
  qed (use w v in \<open>simp add: ReindexAll_def attempt_def list ret_def\<close>)
qed

interpretation rows: request_invariant owned_inv
proof
  show "owned_inv w \<Longrightarrow> wfs w' = wfs w \<Longrightarrow> wdb w' = wdb w \<Longrightarrow> owned_inv w'" for w w'
    by (simp add: owned_inv_def server_inv_def)
  show "owned_inv w \<Longrightarrow> names_ok (wdb w)" for w by (simp add: owned_inv_def server_inv_def)
  show "owned_inv (snd (h r w))"
    if "storage_at rs (storage s)" "identified r (tblBuckets (wdb w))" "h \<in> set (handlers s)" "owned_inv w" for rs s r w h
    using keepsD [OF keeps_inv_handlers [OF that(3)]] handlers_no_orphans [OF that] that(4) by (simp add: owned_inv_def)
  show "owned_inv (snd (ReindexAll s w))" if "owned_inv w" for s w
    using keepsD [OF keeps_inv_ReindexAll(1)] ReindexAll_no_orphans that by (simp add: owned_inv_def)
qed

end
