(* ===== verification/Concurrency.thy ===== *)
theory Concurrency
  imports Ownership StorageRefine StorageTidy
begin

text \<open>
  Reindexing next to other requests.  \<open>ReindexBucket\<close> of \<open>storage.go\<close> holds the lock of its bucket
  (\<open>reindexLocks\<close>), which keeps a second pass over the bucket out and nothing else: uploads, deletions and
  visibility changes run between any two of its calls.  Here a pass is a thread that goes through phases,
  one call or one visited file at a time; the phases run in a row are the action \<open>ReindexBucket\<close>, and a
  step relation interleaves any number of passes with requests.
\<close>

section \<open>A pass in phases\<close>

datatype phase =
    Locked
  | Absent
  | Opened
  | Listed "ObjectRow list"
  | Visiting "ObjectRow list" "(string \<times> int) list" "(string \<times> ObjectRow option) list"
  | Returned "nat go_result"

text \<open>The next call of a pass, from the moment it has the lock.\<close>

fun reindex_phase :: "Storage \<Rightarrow> string \<Rightarrow> bool \<Rightarrow> phase \<Rightarrow> phase action" where
  "reindex_phase s b force Locked = andThen (isDir (bucketDir s b)) (\<lambda>d. ret (if d then Opened else Absent))"
| "reindex_phase s b force Absent = andThen (DeleteBucketObjects b) (\<lambda>n. ret (Returned (Inr n)))"
| "reindex_phase s b force Opened = andThen (IndexedObjects b) (\<lambda>existing. ret (Listed existing))"
| "reindex_phase s b force (Listed existing) =
     andThen (walkObjectFiles (bucketDir s b)) (\<lambda>files. ret (Visiting existing files []))"
| "reindex_phase s b force (Visiting existing (file # files) visited) =
     andThen (reindex_file s b force existing file) (\<lambda>v. ret (Visiting existing files (visited @ [v])))"
| "reindex_phase s b force (Visiting existing [] visited) =
     (let upserts = List.map_filter snd visited;
          deletes = filter (\<lambda>k. k \<notin> set (map fst visited)) (map oKey existing) in
      andThen (ApplyIndexChanges b upserts deletes) (\<lambda>_. ret (Returned (Inr (length upserts + length deletes)))))"
| "reindex_phase s b force (Returned r) = ret (Returned r)"

definition reindex_step :: "Storage \<Rightarrow> string \<Rightarrow> bool \<Rightarrow> phase \<times> world \<Rightarrow> phase \<times> world" where
  "reindex_step s b force = (\<lambda>(p, w). case reindex_phase s b force p w of
     (Inl e, w') \<Rightarrow> (Returned (Inl e), w') | (Inr p', w') \<Rightarrow> (p', w'))"

text \<open>Without interruption the phases are \<open>ReindexBucket\<close>.\<close>

abbreviation runs_to :: "Storage \<Rightarrow> string \<Rightarrow> bool \<Rightarrow> phase \<times> world \<Rightarrow> phase \<times> world \<Rightarrow> bool" where
  "runs_to s b force x y \<equiv> \<exists>n. (reindex_step s b force ^^ n) x = y"

lemma runs_to_step: "runs_to s b force (reindex_step s b force x) y \<Longrightarrow> runs_to s b force x y"
proof -
  assume "runs_to s b force (reindex_step s b force x) y"
  then obtain n where "(reindex_step s b force ^^ n) (reindex_step s b force x) = y" by blast
  then have "(reindex_step s b force ^^ Suc n) x = y" by (simp only: funpow_Suc_right comp_apply)
  then show ?thesis by blast
qed

lemma runs_to_refl: "runs_to s b force x x"
  by (rule exI [of _ 0]) simp

text \<open>What the rest of \<open>ReindexBucket\<close> does once some files are visited.\<close>

definition visit_rest ::
  "Storage \<Rightarrow> string \<Rightarrow> bool \<Rightarrow> ObjectRow list \<Rightarrow> (string \<times> int) list \<Rightarrow> (string \<times> ObjectRow option) list \<Rightarrow> nat action" where
  "visit_rest s b force existing files visited =
     andThen (for_each (reindex_file s b force existing) files) (\<lambda>vs.
     let visited = visited @ vs; upserts = List.map_filter snd visited;
         deletes = filter (\<lambda>k. k \<notin> set (map fst visited)) (map oKey existing) in
     andThen (ApplyIndexChanges b upserts deletes) (\<lambda>_. ret (length upserts + length deletes)))"

abbreviation ended :: "nat go_result \<times> world \<Rightarrow> phase \<times> world" where
  "ended x \<equiv> (Returned (fst x), snd x)"

lemma runs_bind:
  assumes p: "reindex_phase s b force p = andThen m (\<lambda>x. ret (f x))"
    and k: "\<And>x w'. m w = (Inr x, w') \<Longrightarrow> runs_to s b force (f x, w') (ended (k x w'))"
  shows "runs_to s b force (p, w) (ended (andThen m k w))"
proof (cases "m w")
  case (Pair r w')
  show ?thesis
  proof (cases r)
    case (Inl e)
    have "reindex_step s b force (p, w) = ended (andThen m k w)"
      by (simp add: reindex_step_def p andThen_def ret_def Pair Inl)
    then show ?thesis by (rule runs_to_step [OF exI [of _ 0], unfolded funpow_0 id_apply])
  next
    case (Inr x)
    have "reindex_step s b force (p, w) = (f x, w')" "andThen m k w = k x w'"
      by (simp_all add: reindex_step_def p andThen_def ret_def Pair Inr)
    then show ?thesis using k [of x w'] Pair Inr by (simp add: runs_to_step)
  qed
qed

lemma andThen_ret: "andThen m ret = m"
proof
  fix w show "andThen m ret w = m w" by (cases "m w"; cases "fst (m w)") (auto simp: andThen_def ret_def)
qed

lemma runs_ret: "runs_to s b force (Returned (Inr x), w) (ended (ret x w))"
  using runs_to_refl by (simp add: ret_def)

lemma visits_run: "runs_to s b force (Visiting existing files visited, w) (ended (visit_rest s b force existing files visited w))"
proof (induction files arbitrary: visited w)
  case Nil
  have e: "visit_rest s b force existing [] visited =
      (let upserts = List.map_filter snd visited; deletes = filter (\<lambda>k. k \<notin> set (map fst visited)) (map oKey existing) in
       andThen (ApplyIndexChanges b upserts deletes) (\<lambda>_. ret (length upserts + length deletes)))"
    by (rule ext) (simp add: visit_rest_def andThen_def Let_def)
  show ?case unfolding e Let_def by (rule runs_bind [OF _ runs_ret]) (simp add: Let_def)
next
  case (Cons f fs)
  have e: "visit_rest s b force existing (f # fs) visited =
      andThen (reindex_file s b force existing f) (\<lambda>v. visit_rest s b force existing fs (visited @ [v]))"
    by (rule ext) (simp add: visit_rest_def andThen_def Let_def split: prod.split sum.split)
  show ?case unfolding e by (rule runs_bind [OF _ Cons]) simp
qed

lemma pass_runs: "runs_to s b force (Locked, w) (ended (ReindexBucket s b force w))"
proof -
  have v: "andThen (andThen (walkObjectFiles d) (for_each (reindex_file s b force existing))) (\<lambda>visited.
        let upserts = List.map_filter snd visited; deletes = filter (\<lambda>k. k \<notin> set (map fst visited)) (map oKey existing) in
        andThen (ApplyIndexChanges b upserts deletes) (\<lambda>_. ret (length upserts + length deletes))) =
      andThen (walkObjectFiles d) (\<lambda>files. visit_rest s b force existing files [])" for d existing
    by (rule ext) (simp add: visit_rest_def andThen_def Let_def split: prod.split sum.split)
  have opened: "runs_to s b force (Opened, w') (ended (andThen (IndexedObjects b)
      (\<lambda>existing. andThen (walkObjectFiles (bucketDir s b)) (\<lambda>files. visit_rest s b force existing files [])) w'))" for w'
    by (rule runs_bind [OF reindex_phase.simps(3)], rule runs_bind [OF reindex_phase.simps(4) visits_run])
  have absent: "runs_to s b force (Absent, w') (ended (DeleteBucketObjects b w'))" for w'
    using runs_bind [of s b force Absent "DeleteBucketObjects b" "\<lambda>n. Returned (Inr n)" w' ret, OF _ runs_ret]
    by (simp add: andThen_ret)
  show ?thesis
    unfolding ReindexBucket_def Let_def v [unfolded Let_def]
    by (rule runs_bind [where f = "\<lambda>d. if d then Opened else Absent"]) (use opened absent in \<open>simp_all add: Let_def\<close>)
qed

section \<open>What one call of a pass can change\<close>

text \<open>The files a pass still has to visit are below its bucket, the rows it has built are its bucket's.\<close>

fun phase_ok :: "fpath \<Rightarrow> string \<Rightarrow> phase \<Rightarrow> bool" where
  "phase_ok rs b (Visiting existing files visited) \<longleftrightarrow>
     (\<forall>file\<in>set files. \<exists>cs. proper cs \<and> fst file = abs_path (rs @ b # cs)) \<and>
     (\<forall>v\<in>set visited. \<forall>r. snd v = Some r \<longrightarrow> row_id r = (b, fst v))"
| "phase_ok rs b _ \<longleftrightarrow> True"

lemma keeps_phase:
  assumes "\<And>d. keeps P (isDir d)" "keeps P (DeleteBucketObjects b)" "keeps P (IndexedObjects b)"
    "\<And>d. keeps P (walkObjectFiles d)" "\<And>ex fl. fl \<in> set (case ph of Visiting _ files _ \<Rightarrow> files | _ \<Rightarrow> []) \<Longrightarrow> keeps P (reindex_file s b force ex fl)"
    "\<And>ex vs. ph = Visiting ex [] vs \<Longrightarrow> keeps P (ApplyIndexChanges b (List.map_filter snd vs)
      (filter (\<lambda>k. k \<notin> set (map fst vs)) (map oKey ex)))"
  shows "keeps P (reindex_phase s b force ph)"
  using assms by (cases "(s, b, force, ph)" rule: reindex_phase.cases) (auto simp: Let_def intro!: keeps_intros)

lemma keeps_reindex_step:
  assumes "keeps P (reindex_phase s b force ph)" "reindex_step s b force (ph, w) = (ph', w')" "P w"
  shows "P w'"
  using keepsD [OF assms(1,3)] assms(2) by (auto simp: reindex_step_def split: prod.splits sum.splits)

lemma reindex_step_tree:
  assumes "storage_at rs s" "reindex_step s b force (ph, w) = (ph', w')" "tree_inv w"
  shows "tree_inv w'"
proof -
  have names: "keeps tree_ok (reindex_phase s b force ph)"
    by (rule keeps_phase)
      (unfold isDir_def walkObjectFiles_def, (intro keeps_intros keeps_names_storage [OF assms(1)])+)
  have "keeps fs_ok (reindex_phase s b force ph)" "keeps db_ok (reindex_phase s b force ph)"
    by (rule keeps_phase; (unfold storage_helpers Let_def)?; intro keeps_intros)+
  moreover have "keeps (\<lambda>w. names_ok (wdb w)) (reindex_phase s b force ph)"
    by (rule keeps_names, rule keeps_phase; (unfold storage_helpers Let_def)?; intro keeps_intros)
  ultimately show ?thesis
    using keeps_reindex_step [OF keeps_server_inv assms(2)] keeps_reindex_step [OF names assms(2)] assms(3)
    by (simp add: tree_inv_def)
qed

lemma side_comps_any:
  assumes "storage_at rs s" "bucket_ok b" "dotdot \<notin> set (split_on slash k)"
  shows "path_comps (metaPath s b k) = rs @ ''.meta'' # b # key_comps k"
proof -
  have "metaPath s b k = abs_path ((rs @ [''.meta'']) @ b # key_comps k)"
    using Join_three [of "rs @ [''.meta'']" b k] assms by (simp add: metaPath_def storage_at_def bucket_ok_def)
  moreover have "proper ((rs @ [''.meta'']) @ b # key_comps k)"
    using assms proper_key_comps [OF assms(3)] by (simp add: storage_at_def bucket_ok_def proper_comp_def dotdot_def slash_def)
  ultimately show ?thesis by simp
qed

lemma visited_key:
  assumes st: "storage_at rs s" "bucket_ok b" and "proper cs"
  shows "dotdot \<notin> set (split_on slash (Rel (bucketDir s b) (abs_path (rs @ b # cs))))"
proof -
  have p: "proper (rs @ [b])" using st by (simp add: storage_at_def bucket_ok_def)
  have "Rel (bucketDir s b) (abs_path (rs @ b # cs)) = comp_key cs"
    using Rel_below [of "rs @ [b]" cs] p assms(3) by (simp add: bucketDir_at [OF st])
  moreover have "dotdot \<notin> set (split_on slash (comp_key cs))"
    using split_comp_key [OF assms(3)] assms(3)
    by (cases "cs = []") (auto simp: comp_key_def dotdot_def proper_def proper_comp_def)
  ultimately show ?thesis by simp
qed

lemma stored_objects_reindex_step:
  assumes st: "storage_at rs s" "bucket_ok b" and ok: "phase_ok rs b ph" and run: "reindex_step s b force (ph, w) = (ph', w')"
  shows "stored_objects rs (wfs w') = stored_objects rs (wfs w)"
proof -
  have "keeps (\<lambda>w. file_at (wfs w) (rs @ b' # cs) = x) (reindex_phase s b force ph)" if v: "visible b' cs" for b' cs x
  proof (rule keeps_phase)
    fix ex fl
    assume "fl \<in> set (case ph of Visiting _ files _ \<Rightarrow> files | _ \<Rightarrow> [])"
    then obtain ds where ds: "proper ds" "fst fl = abs_path (rs @ b # ds)"
      using ok by (cases ph) fastforce+
    let ?k = "Rel (bucketDir s b) (fst fl)"
    have "path_comps (metaPath s b ?k) \<noteq> rs @ b' # cs"
      using side_comps_any [OF st visited_key [OF st ds(1)]] v ds(2) by (auto simp: visible_def bucket_ok_def)
    then show "keeps (\<lambda>w. file_at (wfs w) (rs @ b' # cs) = x) (reindex_file s b force ex fl)"
      unfolding reindex_file_def ctx_Err_def indexFromDisk_def computeETag_def readMeta_def writeMeta_def removeIfExists_def Let_def
      by (intro keeps_intros keeps_file_remove keeps_file_write)
  qed (unfold isDir_def walkObjectFiles_def, (intro keeps_intros)+)
  from keeps_reindex_step [OF this run] show ?thesis by (intro stored_objects_cong) blast
qed

text \<open>Only rows of the pass's own bucket change.\<close>

lemma rows_reindex_step:
  assumes ok: "phase_ok rs b ph" and run: "reindex_step s b force (ph, w) = (ph', w')"
  shows "tblBuckets (wdb w') = tblBuckets (wdb w)" and "b' \<noteq> b \<Longrightarrow> sel_object b' k (wdb w') = sel_object b' k (wdb w)"
proof -
  have "keeps (\<lambda>w. buckets_are bs (wdb w)) (reindex_phase s b force ph)" for bs
    by (rule keeps_phase; (unfold storage_helpers Let_def)?; intro keeps_intros)
  from keeps_reindex_step [OF this run] show "tblBuckets (wdb w') = tblBuckets (wdb w)" by (simp add: buckets_are_def)
  assume b': "b' \<noteq> b"
  have "keeps (\<lambda>w. sel_object b' k (wdb w) = x) (reindex_phase s b force ph)" for x
  proof (rule keeps_phase)
    show "keeps (\<lambda>w. sel_object b' k (wdb w) = x) (DeleteBucketObjects b)"
      unfolding DeleteBucketObjects_def by (rule keeps_db_call) (use b' in \<open>auto simp: sel_object_del_bucket_objects\<close>)
    fix ex vs
    assume ph: "ph = Visiting ex [] vs"
    have none: "find (\<lambda>r. row_id r = (b', k)) (rev (List.map_filter snd vs)) = None"
      using ok b' by (fastforce simp: ph find_None_iff mem_map_filter)
    show "keeps (\<lambda>w. sel_object b' k (wdb w) = x) (ApplyIndexChanges b (List.map_filter snd vs)
      (filter (\<lambda>k. k \<notin> set (map fst vs)) (map oKey ex)))"
      unfolding keeps_def
    proof (intro allI impI)
      fix v :: world
      let ?m = "ApplyIndexChanges b (List.map_filter snd vs) (filter (\<lambda>k. k \<notin> set (map fst vs)) (map oKey ex))"
      assume "sel_object b' k (wdb v) = x"
      then show "sel_object b' k (wdb (snd (?m v))) = x"
        using ApplyIndexChanges_atomic [OF prod.collapse [symmetric], of b "List.map_filter snd vs" _ v] b' none
        by (auto simp: idx.lookup_batch split: sum.splits)
    qed
  qed (unfold storage_helpers Let_def, (intro keeps_intros)+)
  from keeps_reindex_step [OF this run] show "sel_object b' k (wdb w') = sel_object b' k (wdb w)" by blast
qed

lemma walk_entries:
  assumes "walkObjectFiles d w = (Inr files, w')" "fl \<in> set files" "fs_names (wfs w)"
  shows "\<exists>cs. proper cs \<and> fst fl = abs_path (path_comps d @ cs)"
proof -
  obtain p where p: "p \<in> set (object_files (wfs w) (path_comps d))" "fst fl = abs_path p"
    using assms(1,2)
    by (auto simp: walkObjectFiles_def os_query_def os_call_def split: prod.splits fault.splits sum.splits dest!: next_fault_state)
  then have "prefix (path_comps d) p" "fs_node (wfs w) p \<noteq> None"
    by (auto simp: object_files_def fs_files_below_def is_File_iff)
  then obtain cs where "p = path_comps d @ cs" "proper (path_comps d @ cs)"
    using fs_names_node [OF assms(3)] unfolding prefix_def by blast
  then show ?thesis using p(2) by auto
qed

lemma reindex_step_phase:
  assumes st: "storage_at rs s" "bucket_ok b" and ok: "phase_ok rs b ph" and run: "reindex_step s b force (ph, w) = (ph', w')"
    and names: "fs_names (wfs w)"
  shows "phase_ok rs b ph'"
proof -
  have p: "path_comps (bucketDir s b) = rs @ [b]"
    using st by (rule bucketDir_comps)
  have id: "snd v = Some r \<Longrightarrow> row_id r = (b, fst v)"
    if "reindex_file s b force ex fl v0 = (Inr v, v')" for ex fl v0 v v' r
    using that by (auto simp: reindex_file_def Let_def ret_def elim!: andThen_InrE split: if_splits dest!: indexFromDisk_id)
  show ?thesis
    using ok run walk_entries [OF _ _ names, of "bucketDir s b"] p
    by (cases "(s, b, force, ph)" rule: reindex_phase.cases)
      (fastforce simp: reindex_step_def andThen_def ret_def Let_def dest: id split: prod.splits sum.splits if_splits)+
qed

section \<open>Passes and requests side by side\<close>

text \<open>
  The state of a server with passes in flight.  Each pass is in the list from the moment it has its lock until
  it gives it back, so the buckets in the list are the locks that are held.
\<close>

record shared =
  shWorld :: world
  shPasses :: "(string \<times> bool \<times> phase) list"

text \<open>
  A pass can start on a bucket that exists and whose lock is free, and makes its calls one by one; requests,
  time and faults come in between.  A request that itself reindexes does so in one step, whoever holds the
  lock: the relation has more runs than the program, never fewer.
\<close>

inductive pass_step :: "Server \<Rightarrow> shared \<Rightarrow> shared \<Rightarrow> bool" for s :: Server where
  lock: "b \<in> Name ` set (tblBuckets (wdb (shWorld c))) \<Longrightarrow> b \<notin> fst ` set (shPasses c) \<Longrightarrow>
    pass_step s c (c\<lparr>shPasses := shPasses c @ [(b, force, Locked)]\<rparr>)"
| call: "shPasses c = xs @ (b, force, ph) # ys \<Longrightarrow>
    reindex_step (storage s) b force (ph, shWorld c) = (ph', w') \<Longrightarrow>
    pass_step s c (c\<lparr>shWorld := w', shPasses := xs @ (b, force, ph') # ys\<rparr>)"
| unlock: "shPasses c = xs @ (b, force, Returned r) # ys \<Longrightarrow> pass_step s c (c\<lparr>shPasses := xs @ ys\<rparr>)"

inductive shared_step :: "Server \<Rightarrow> shared \<Rightarrow> shared \<Rightarrow> bool" for s :: Server where
  serve: "server_step s (shWorld c) w' \<Longrightarrow> shared_step s c (c\<lparr>shWorld := w'\<rparr>)"
| pass: "pass_step s c c' \<Longrightarrow> shared_step s c c'"

inductive shared_reaches :: "Server \<Rightarrow> shared \<Rightarrow> shared \<Rightarrow> bool" for s :: Server where
  here: "shared_reaches s c c"
| further: "shared_reaches s c c1 \<Longrightarrow> shared_step s c1 c2 \<Longrightarrow> shared_reaches s c c2"

definition shared_inv :: "fpath \<Rightarrow> shared \<Rightarrow> bool" where
  "shared_inv rs c \<longleftrightarrow> tree_inv (shWorld c) \<and> distinct (map fst (shPasses c)) \<and>
     (\<forall>(b, force, ph)\<in>set (shPasses c). bucket_ok b \<and> phase_ok rs b ph)"

lemma pass_step_inv:
  assumes st: "storage_at rs (storage s)" and "pass_step s c c'" and inv: "shared_inv rs c"
  shows "shared_inv rs c'"
  using assms(2)
proof cases
  case (lock b force)
  then have "bucket_ok b" using inv by (auto simp: shared_inv_def tree_inv_def server_inv_def names_ok_def)
  then show ?thesis using inv lock by (auto simp: shared_inv_def)
next
  case (call xs b force ph ys ph' w')
  have b: "bucket_ok b" "phase_ok rs b ph" "tree_inv (shWorld c)" using inv call(2) by (auto simp: shared_inv_def)
  then have "fs_names (wfs (shWorld c))" by (simp add: tree_inv_def)
  note p = reindex_step_phase [OF st b(1,2) call(3) this] reindex_step_tree [OF st call(3) b(3)]
  show ?thesis using inv call(1,2) p by (auto simp: shared_inv_def)
next
  case (unlock xs b force r ys)
  then show ?thesis using inv by (auto simp: shared_inv_def)
qed

lemma shared_inv_world: "shared_inv rs c \<Longrightarrow> tree_inv w \<Longrightarrow> shared_inv rs (c\<lparr>shWorld := w\<rparr>)"
  by (simp add: shared_inv_def)

lemma shared_step_inv:
  assumes st: "storage_at rs (storage s)" and "shared_step s c c'" and inv: "shared_inv rs c"
  shows "shared_inv rs c'"
  using assms(2)
proof cases
  case (serve w')
  have "tree_inv (shWorld c)" using inv by (simp add: shared_inv_def)
  with serve show ?thesis using shared_inv_world [OF inv] inv.step_inv [OF st serve(2)] by simp
qed (use pass_step_inv [OF st _ inv] in simp)

lemma shared_reaches_inv:
  "shared_reaches s c c' \<Longrightarrow> storage_at rs (storage s) \<Longrightarrow> shared_inv rs c \<Longrightarrow> shared_inv rs c'"
  by (induction rule: shared_reaches.induct) (auto intro: shared_step_inv)

section \<open>The last word of a pass\<close>

text \<open>
  A pass over a bucket whose sidecars have their ETags writes nothing before its last call: it gets there with
  what it read when it visited the files.
\<close>

lemma runs_to_trans: "runs_to s b force x y \<Longrightarrow> runs_to s b force y z \<Longrightarrow> runs_to s b force x z"
proof -
  assume "runs_to s b force x y" "runs_to s b force y z"
  then obtain m n where "(reindex_step s b force ^^ m) x = y" "(reindex_step s b force ^^ n) y = z" by blast
  then have "(reindex_step s b force ^^ (n + m)) x = z" by (simp only: funpow_add comp_apply)
  then show ?thesis by blast
qed

lemma visits_cached:
  assumes st: "storage_at rs s" "bucket_ok b" and q: "wfaults w = []"
    and cs: "\<forall>cs\<in>set css. proper cs \<and> object_file rs (wfs w) b cs \<and> mETag (meta_on_disk (wfs w) (side_of rs b cs)) \<noteq> None"
  shows "runs_to s b force (Visiting existing (map (file_entry rs (wfs w) b) css) visited, w)
    (Visiting existing [] (visited @ map (visit_result rs (wfs w) b force existing) css), w)"
  using cs
proof (induction css arbitrary: visited)
  case Nil
  then show ?case by (simp add: runs_to_refl)
next
  case (Cons cs css)
  then obtain d t where n: "fs_node (wfs w) (rs @ b # cs) = Some (File d t)" and "cs \<noteq> []"
    by (auto simp: object_file_def is_File_iff)
  with Cons.prems have "reindex_file s b force existing (file_entry rs (wfs w) b cs) w =
      (Inr (visit_result rs (wfs w) b force existing cs), w)"
    using reindex_file_cached [OF st q, of cs d t force existing] by (simp add: file_entry_def)
  then have "reindex_step s b force (Visiting existing (map (file_entry rs (wfs w) b) (cs # css)) visited, w) =
      (Visiting existing (map (file_entry rs (wfs w) b) css) (visited @ [visit_result rs (wfs w) b force existing cs]), w)"
    by (simp add: reindex_step_def andThen_def ret_def)
  then show ?case using Cons.IH [of "visited @ [visit_result rs (wfs w) b force existing cs]"] Cons.prems
    by (intro runs_to_step [of s b force "(Visiting existing (map (file_entry rs (wfs w) b) (cs # css)) visited, w)"]) simp
qed

lemma pass_until_last_call:
  assumes st: "storage_at rs s" "bucket_ok b" and q: "wfaults w = []" and names: "fs_names (wfs w)"
    and dir: "fs_node (wfs w) (rs @ [b]) = Some Directory"
    and tags: "\<And>cs. object_file rs (wfs w) b cs \<Longrightarrow> mETag (meta_on_disk (wfs w) (side_of rs b cs)) \<noteq> None"
  shows "runs_to s b force (Locked, w) (Visiting (bucket_rows b (wdb w)) []
    (map (visit_result rs (wfs w) b force (bucket_rows b (wdb w))) (bucket_files rs (wfs w) b)), w)"
proof -
  let ?ex = "bucket_rows b (wdb w)" and ?files = "map (file_entry rs (wfs w) b) (bucket_files rs (wfs w) b)"
  have "reindex_step s b force (Locked, w) = (Opened, w)" "reindex_step s b force (Opened, w) = (Listed ?ex, w)"
    "reindex_step s b force (Listed ?ex, w) = (Visiting ?ex ?files [], w)"
    using dir walk_quiet [OF st q dir]
    by (simp_all add: reindex_step_def andThen_def ret_def helpers_quiet [OF q] bucketDir_comps [OF st] store_quiet [OF q])
  moreover have "runs_to s b force (Visiting ?ex ?files [], w)
      (Visiting ?ex [] ([] @ map (visit_result rs (wfs w) b force ?ex) (bucket_files rs (wfs w) b)), w)"
    by (rule visits_cached [OF st q]) (use bucket_files_set [OF dir] bucket_files_proper [OF names] tags in blast)
  ultimately show ?thesis using runs_to_step by (metis append_Nil)
qed

text \<open>
  What a pass writes at its end is what it read when it visited the file: a row changed in between gets its old
  values back.
\<close>

lemma last_word:
  assumes run: "reindex_step s b force (Visiting existing [] visited, w) = (Returned (Inr n), w')"
    and ok: "phase_ok rs b (Visiting existing [] visited)" and d: "distinct (map fst visited)" and v: "(k, Some r) \<in> set visited"
  shows "sel_object b k (wdb w') = Some (stored_row r)"
proof -
  let ?ups = "List.map_filter snd visited" and ?dels = "filter (\<lambda>k. k \<notin> set (map fst visited)) (map oKey existing)"
  have a: "ApplyIndexChanges b ?ups ?dels w = (Inr (), w')"
    using run by (auto simp: reindex_step_def andThen_def ret_def Let_def split: prod.splits sum.splits)
  have id: "(k', Some r') \<in> set visited \<Longrightarrow> row_id r' = (b, k')" for k' r' using ok by fastforce
  note r = id [OF v]
  have mem: "r \<in> set ?ups" using v unfolding mem_map_filter by force
  have u: "r' = r" if r': "r' \<in> set ?ups" "row_id r' = (b, k)" for r'
  proof -
    from r'(1) obtain k' where k': "(k', Some r') \<in> set visited" unfolding mem_map_filter by force
    have "k' = k" using id [OF k'] r'(2) by simp
    then have "Some r' = Some r" using eq_key_imp_eq_value [OF d v] k' by metis
    then show ?thesis by simp
  qed
  have "find (\<lambda>r. row_id r = (b, k)) (rev ?ups) = Some r"
    by (rule find_unique) (simp_all only: set_rev mem r u)
  moreover have "k \<notin> set ?dels" using v by force
  ultimately show ?thesis
    using ApplyIndexChanges_atomic [OF a] by (simp add: idx.lookup_batch)
qed

lemma visited_ok:
  fixes force :: bool
  fixes existing
  assumes "fs_wf f" "fs_node f (rs @ [b]) = Some Directory" "fs_names f"
  defines "vs \<equiv> map (visit_result rs f b force existing) (bucket_files rs f b)"
  shows "phase_ok rs b (Visiting existing [] vs)" and "distinct (map fst vs)"
proof -
  have c: "object_file rs f b cs" "proper cs" if "cs \<in> set (bucket_files rs f b)" for cs
    using that bucket_files_set [OF assms(2)] bucket_files_proper [OF assms(3)] by blast+
  show "phase_ok rs b (Visiting existing [] vs)"
    using c fresh_row_id by (auto simp: vs_def visit_result_def split: option.splits fnode.splits if_splits)
  have ne: "cs \<noteq> []" if "cs \<in> set (bucket_files rs f b)" for cs
    using c(1) [OF that] by (simp add: object_file_def)
  have "map fst vs = map comp_key (bucket_files rs f b)" by (simp add: vs_def visit_result_def)
  moreover have "inj_on comp_key (set (bucket_files rs f b))"
    by (rule inj_onI) (use comp_key_inject c(2) ne in blast)
  ultimately show "distinct (map fst vs)"
    using distinct_bucket_files [OF assms(1,2)] by (simp add: distinct_map)
qed

text \<open>
  The schedule in which a change is lost: a pass has visited the files, then the object is made private, then
  the pass finishes.
\<close>

lemma change_lost:
  assumes st: "storage_at rs s" "bucket_ok b" and q: "wfaults w = []" "fs_ok w" and names: "fs_names (wfs w)"
    and dir: "fs_node (wfs w) (rs @ [b]) = Some Directory"
    and tags: "\<And>cs. object_file rs (wfs w) b cs \<Longrightarrow> mETag (meta_on_disk (wfs w) (side_of rs b cs)) \<noteq> None"
    and k: "key_ok (comp_key cs)" and f: "object_file rs (wfs w) b cs"
    and pub: "mPublic (meta_on_disk (wfs w) (side_of rs b cs))" and wr: "writable (wfs w) (side_of rs b cs)"
    and row: "sel_object b (comp_key cs) (wdb w) = Some r"
  shows "\<exists>existing visited w1 n w2.
    runs_to s b True (Locked, w) (Visiting existing [] visited, w) \<and>
    SetPublic s b (comp_key cs) False w = (Inr (), w1) \<and> IsPublic s b (comp_key cs) w1 = (Inr False, w1) \<and>
    reindex_step s b True (Visiting existing [] visited, w1) = (Returned (Inr n), w2) \<and>
    IsPublic s b (comp_key cs) w2 = (Inr True, w2)"
proof -
  let ?k = "comp_key cs" and ?ex = "bucket_rows b (wdb w)"
  define vs where "vs = map (visit_result rs (wfs w) b True ?ex) (bucket_files rs (wfs w) b)"
  obtain d t where n: "fs_node (wfs w) (rs @ b # cs) = Some (File d t)" and ne: "cs \<noteq> []"
    using f by (auto simp: object_file_def is_File_iff)
  have cs: "proper cs" "key_comps ?k = cs" using bucket_files_proper [OF names f] ne by simp_all
  then have paths: "obj_path rs b ?k = rs @ b # cs" "side_path rs b ?k = side_of rs b cs" by (simp_all add: side_of_def)
  obtain e where e: "mETag (meta_on_disk (wfs w) (side_of rs b cs)) = Some e" using tags [OF f] by auto
  have run: "runs_to s b True (Locked, w) (Visiting ?ex [] vs, w)"
    unfolding vs_def by (rule pass_until_last_call [OF st q(1) names dir tags])
  obtain g where acl: "SetPublic s b ?k False w = (Inr (), w\<lparr>wfs := g, wdb := ups_object (r\<lparr>oPublic := False\<rparr>) (wdb w)\<rparr>)"
    using SetPublic_ok [OF st k q, of d t e r False] n e wr row paths by metis
  define w1 where "w1 = w\<lparr>wfs := g, wdb := ups_object (r\<lparr>oPublic := False\<rparr>) (wdb w)\<rparr>"
  have q1: "wfaults w1 = []" by (simp add: w1_def q)
  have "row_id r = (b, ?k)" using row sel_object_rowD by blast
  then have priv: "sel_object b ?k (wdb w1) = Some (stored_row (r\<lparr>oPublic := False\<rparr>))"
    by (simp add: w1_def sel_object_ups)
  define w2 where "w2 = snd (reindex_step s b True (Visiting ?ex [] vs, w1))"
  have step: "reindex_step s b True (Visiting ?ex [] vs, w1) =
      (Returned (Inr (length (List.map_filter snd vs) + length (filter (\<lambda>k. k \<notin> set (map fst vs)) (map oKey ?ex)))), w2)"
    by (simp add: w2_def reindex_step_def andThen_def ret_def Let_def ApplyIndexChanges_quiet [OF q1])
  have q2: "wfaults w2 = []"
    using q1 by (simp add: w2_def reindex_step_def andThen_def ret_def Let_def ApplyIndexChanges_quiet [OF q1])
  have mem: "(?k, Some (fresh_row rs (wfs w) b cs)) \<in> set vs"
    unfolding vs_def using bucket_files_set [OF dir, of cs] f n
    by (force simp: visit_result_def keeps_row_def image_iff)
  note vo = visited_ok [OF q(2) dir names, where force = True and existing = ?ex, folded vs_def]
  from last_word [OF step vo mem]
  have "sel_object b ?k (wdb w2) = Some (stored_row (fresh_row rs (wfs w) b cs))" .
  moreover have "oPublic (fresh_row rs (wfs w) b cs)" using n pub by (simp add: fresh_row_def disk_row_def)
  ultimately have "IsPublic s b ?k w2 = (Inr True, w2)"
    using q2 k by (simp add: IsPublic_def resolve_ok [OF st k] attempt_def store_quiet ret_def)
  moreover have "IsPublic s b ?k w1 = (Inr False, w1)"
    using priv q1 by (simp add: IsPublic_def resolve_ok [OF st k] attempt_def store_quiet ret_def)
  ultimately show ?thesis using run acl step unfolding w1_def [symmetric] by blast
qed

end
