(* ===== verification/ConcurrencyProperties.thy ===== *)
theory ConcurrencyProperties
  imports Concurrency ServerExamples
begin

text \<open>Properties of reindexing passes that run next to requests.\<close>

text \<open>
  A reindexing pass that nothing interrupts, taken call by call, returns what \<open>ReindexBucket\<close> returns
  and leaves the state it leaves, whatever fails.
\<close>

theorem pass_call_by_call:
  "\<exists>n. (reindex_step s b force ^^ n) (Locked, w) =
     (Returned (fst (ReindexBucket s b force w)), snd (ReindexBucket s b force w))"
  by (rule pass_runs)

text \<open>
  C13.  Passes next to requests.  However requests, faults and the calls of any number of passes are
  interleaved, the tree and the tables stay well-formed and no bucket has two passes; and a call of a pass
  changes no stored object, no bucket and no row of another bucket.
\<close>

theorem interleaved_passes_safe:
  assumes "storage_at rs (storage srv)" "server_inv w" "fs_names (wfs w)"
    and "shared_reaches srv \<lparr>shWorld = w, shPasses = []\<rparr> c"
  shows "server_inv (shWorld c) \<and> distinct (map fst (shPasses c)) \<and>
    (\<forall>(b, force, ph)\<in>set (shPasses c). \<forall>ph' w'. reindex_step (storage srv) b force (ph, shWorld c) = (ph', w') \<longrightarrow>
       stored_objects rs (wfs w') = stored_objects rs (wfs (shWorld c)) \<and> tblBuckets (wdb w') = tblBuckets (wdb (shWorld c)) \<and>
       (\<forall>b' k. b' \<noteq> b \<longrightarrow> sel_object b' k (wdb w') = sel_object b' k (wdb (shWorld c))))"
proof -
  have "shared_inv rs \<lparr>shWorld = w, shPasses = []\<rparr>" using assms(2,3) by (simp add: shared_inv_def tree_inv_def)
  from shared_reaches_inv [OF assms(4,1) this] have inv: "shared_inv rs c" .
  have "stored_objects rs (wfs w') = stored_objects rs (wfs (shWorld c)) \<and> tblBuckets (wdb w') = tblBuckets (wdb (shWorld c)) \<and>
       (\<forall>b' k. b' \<noteq> b \<longrightarrow> sel_object b' k (wdb w') = sel_object b' k (wdb (shWorld c)))"
    if "(b, force, ph) \<in> set (shPasses c)" "reindex_step (storage srv) b force (ph, shWorld c) = (ph', w')" for b force ph ph' w'
  proof -
    have "bucket_ok b" "phase_ok rs b ph" using inv that(1) by (auto simp: shared_inv_def)
    then show ?thesis using stored_objects_reindex_step [OF assms(1) _ _ that(2)] rows_reindex_step [OF _ that(2)] by blast
  qed
  then show ?thesis using inv by (auto simp: shared_inv_def tree_inv_def)
qed

text \<open>Two passes over the bucket of the example cannot run at once; here one has just begun.\<close>

definition ex_shared :: shared where
  "ex_shared = \<lparr>shWorld = ex_world, shPasses = [(''photos'', True, Locked)]\<rparr>"

theorem interleaved_passes_safe_witness:
  "stored_objects [''data''] (wfs (snd (reindex_step ex_storage ''photos'' True (Locked, ex_world)))) = stored_objects [''data''] ex_fs"
proof -
  have "shared_step ex_server \<lparr>shWorld = ex_world, shPasses = []\<rparr> ex_shared"
    using shared_step.pass [OF pass_step.lock [of "''photos''" "\<lparr>shWorld = ex_world, shPasses = []\<rparr>" ex_server True]]
    by (simp add: ex_shared_def ex_db_def)
  then have "shared_reaches ex_server \<lparr>shWorld = ex_world, shPasses = []\<rparr> ex_shared"
    by (rule shared_reaches.further [OF shared_reaches.here])
  from interleaved_passes_safe [OF _ ex_inv _ this, of "[''data'']"] ex_storage_at ex_fs_names show ?thesis
    by (cases "reindex_step ex_storage ''photos'' True (Locked, ex_world)") (simp add: ex_shared_def)
qed

text \<open>
  C14.  The lock does not cover visibility changes.  When an object is made private after a running pass has
  visited its file, the change reports success and holds until the pass ends, which makes the object public
  again.
\<close>

theorem visibility_change_lost:
  assumes "storage_at rs s" "bucket_ok b" "wfaults w = []" "fs_ok w" "fs_names (wfs w)"
    and "fs_node (wfs w) (rs @ [b]) = Some Directory"
    and "\<And>cs. object_file rs (wfs w) b cs \<Longrightarrow> mETag (meta_on_disk (wfs w) (side_of rs b cs)) \<noteq> None"
    and "key_ok (comp_key cs)" "object_file rs (wfs w) b cs" "sel_object b (comp_key cs) (wdb w) = Some r"
    and "mPublic (meta_on_disk (wfs w) (side_of rs b cs))" "writable (wfs w) (side_of rs b cs)"
  shows "\<exists>i existing visited w1 n w2.
    (reindex_step s b True ^^ i) (Locked, w) = (Visiting existing [] visited, w) \<and>
    SetPublic s b (comp_key cs) False w = (Inr (), w1) \<and> IsPublic s b (comp_key cs) w1 = (Inr False, w1) \<and>
    reindex_step s b True (Visiting existing [] visited, w1) = (Returned (Inr n), w2) \<and>
    IsPublic s b (comp_key cs) w2 = (Inr True, w2)"
  using change_lost [OF assms(1-9) assms(11,12,10)] by blast

definition ex_public_side :: string where
  "ex_public_side = marshalMeta \<lparr>mContentType = None, mPublic = True, mETag = Some ex_etag\<rparr>"

definition ex_public_fs :: fsys where
  "ex_public_fs = AList.update [''data'', ''.meta'', ''photos'', ''a'', ''x.txt''] (File ex_public_side 0) ex_fs"

lemma ex_public_fs_ok:
  "fs_wf ex_public_fs" "fs_names ex_public_fs" "fs_node ex_public_fs [''data'', ''photos''] = Some Directory"
  "bucket_files [''data''] ex_public_fs ''photos'' = [[''a'', ''x.txt'']]"
  "writable ex_public_fs [''data'', ''.meta'', ''photos'', ''a'', ''x.txt'']"
  by code_simp+

lemma ex_public_meta:
  "mPublic (meta_on_disk ex_public_fs [''data'', ''.meta'', ''photos'', ''a'', ''x.txt''])"
  "mETag (meta_on_disk ex_public_fs [''data'', ''.meta'', ''photos'', ''a'', ''x.txt'']) \<noteq> None"
proof -
  have "fs_node ex_public_fs [''data'', ''.meta'', ''photos'', ''a'', ''x.txt''] = Some (File ex_public_side 0)"
    by (simp add: ex_public_fs_def fs_node_update)
  then show "mPublic (meta_on_disk ex_public_fs [''data'', ''.meta'', ''photos'', ''a'', ''x.txt''])"
    "mETag (meta_on_disk ex_public_fs [''data'', ''.meta'', ''photos'', ''a'', ''x.txt'']) \<noteq> None"
    by (simp_all add: meta_on_disk_def ex_public_side_def parse_marshal)
qed

theorem visibility_change_lost_witness:
  "\<exists>i existing visited w1 n w2.
    (reindex_step ex_storage ''photos'' True ^^ i) (Locked, ex_world\<lparr>wfs := ex_public_fs\<rparr>) =
      (Visiting existing [] visited, ex_world\<lparr>wfs := ex_public_fs\<rparr>) \<and>
    SetPublic ex_storage ''photos'' ''a/x.txt'' False (ex_world\<lparr>wfs := ex_public_fs\<rparr>) = (Inr (), w1) \<and>
    IsPublic ex_storage ''photos'' ''a/x.txt'' w1 = (Inr False, w1) \<and>
    reindex_step ex_storage ''photos'' True (Visiting existing [] visited, w1) = (Returned (Inr n), w2) \<and>
    IsPublic ex_storage ''photos'' ''a/x.txt'' w2 = (Inr True, w2)"
proof -
  have k: "comp_key [''a'', ''x.txt''] = ''a/x.txt''" by code_simp
  have f: "object_file [''data''] ex_public_fs ''photos'' cs \<longleftrightarrow> cs = [''a'', ''x.txt'']" for cs
    using bucket_files_set [of ex_public_fs "[''data'']" "''photos''" cs] by (auto simp: ex_public_fs_ok)
  show ?thesis
    by (rule visibility_change_lost [of "[''data'']" ex_storage "''photos''" "ex_world\<lparr>wfs := ex_public_fs\<rparr>" "[''a'', ''x.txt'']" ex_row,
          unfolded k])
      (simp_all add: ex_storage_at ex_bucket_ok ex_public_fs_ok f ex_public_meta side_of_def ex_key_ok)
qed

end
