(* ===== verification/Process.thy ===== *)
theory Process
  imports Concurrency AccessLaws
begin

text \<open>
  \<open>main.go\<close>: the life of the process.  \<open>run\<close> builds the server, starts the background pass and two HTTP
  servers that share one pipeline, waits for a signal or for a listener to fail, shuts both servers down and
  returns when no accepted request is unanswered or thirty seconds have passed; \<open>main\<close> turns the result into the
  exit status.  The goroutines are the steps of a labelled
  transition relation over the state they share.
\<close>

section \<open>The parts of run\<close>

text \<open>The fields of \<open>http.Server\<close> the program sets, durations in nanoseconds.\<close>

record http_server =
  hsAddr :: string
  hsHandler :: http
  ReadHeaderTimeout :: int
  IdleTimeout :: int

definition newHTTPServer :: "int64 \<Rightarrow> http \<Rightarrow> http_server" where
  "newHTTPServer port h =
     \<lparr>hsAddr = ''0.0.0.0:'' @ FormatInt port, hsHandler = h,
      ReadHeaderTimeout = 15 * 1000000000, IdleTimeout = 2 * 60 * 1000000000\<rparr>"

definition http_servers :: "int \<Rightarrow> Server \<Rightarrow> http_server list" where
  "http_servers startTime s =
     [newHTTPServer (APIPort (cfg s)) (Handler s startTime False),
      newHTTPServer (FrontendPort (cfg s)) (Handler s startTime True)]"

text \<open>
  Where \<open>run\<close> is: before \<open>server.New\<close>, in the \<open>select\<close>, after it with the value of \<open>err\<close>, or returned.
\<close>

datatype run_phase = Boot | Up Server | Stopping Server "go_error option" int "nat list" | Exited "go_error option"

text \<open>
  A process that stops also has the deadline of \<open>shutdownCtx\<close> and the calls of \<open>Shutdown\<close> the \<open>WaitGroup\<close> still
  waits for, by the number of their server.  The flag of a server says that its listener is open; \<open>prActive\<close> are
  the requests its connections have read and not answered yet, and \<open>prErrs\<close> is the channel \<open>errs\<close>.
\<close>

record process =
  prShared :: shared
  prPhase :: run_phase
  prServers :: "(http_server \<times> bool) list"
  prActive :: "(nat \<times> request) list"
  prErrs :: "go_error list"

definition main_status :: "go_error option \<Rightarrow> nat" where
  "main_status err = (case err of None \<Rightarrow> 0 | Some e \<Rightarrow> 1)"

fun running :: "run_phase \<Rightarrow> Server option" where
  "running (Up s) = Some s"
| "running (Stopping s err deadline calls) = Some s"
| "running _ = None"

datatype event = Started | StartFailed go_error | Accepted nat request | Served request response | Reindexed
  | ListenFailed go_error | Signalled | ErrReceived | ShutDown | Drained nat | TimedOut nat | Left | Environment

text \<open>The time \<open>run\<close> gives the servers to shut down, in nanoseconds.\<close>

definition shutdownTimeout :: int where
  "shutdownTimeout = 30 * 1000000000"

section \<open>The goroutines\<close>

text \<open>
  A listener that is open accepts requests, each answered in one step at some later time.  \<open>Shutdown\<close> of a server
  closes its listener and returns when none of its requests is unanswered, or when the deadline has passed;
  \<open>run\<close> returns when both calls have.
\<close>

inductive process_step ::
  "string \<Rightarrow> (string \<Rightarrow> string) \<Rightarrow> (string \<Rightarrow> string option) \<Rightarrow> int \<Rightarrow> event \<Rightarrow> process \<Rightarrow> process \<Rightarrow> bool"
  for cwd :: string and env :: "string \<Rightarrow> string" and assets :: "string \<Rightarrow> string option" and t0 :: int where
  start: "prPhase p = Boot \<Longrightarrow> New cwd (ConfigFromEnv env) assets (shWorld (prShared p)) = (Inr s, w') \<Longrightarrow>
    process_step cwd env assets t0 Started p
      (p\<lparr>prShared := (prShared p)\<lparr>shWorld := w'\<rparr>, prPhase := Up s, prServers := map (\<lambda>h. (h, True)) (http_servers t0 s)\<rparr>)"
| start_fails: "prPhase p = Boot \<Longrightarrow> New cwd (ConfigFromEnv env) assets (shWorld (prShared p)) = (Inl e, w') \<Longrightarrow>
    process_step cwd env assets t0 (StartFailed e) p
      (p\<lparr>prShared := (prShared p)\<lparr>shWorld := w'\<rparr>, prPhase := Exited (Some e)\<rparr>)"
| accept: "running (prPhase p) = Some s \<Longrightarrow> i < length (prServers p) \<Longrightarrow> snd (prServers p ! i) \<Longrightarrow> entropy_ok r \<Longrightarrow>
    process_step cwd env assets t0 (Accepted i r) p (p\<lparr>prActive := prActive p @ [(i, r)]\<rparr>)"
| serve: "running (prPhase p) = Some s \<Longrightarrow> prActive p = xs @ (i, r) # ys \<Longrightarrow>
    hsHandler (fst (prServers p ! i)) r (shWorld (prShared p)) = (rsp, w') \<Longrightarrow>
    process_step cwd env assets t0 (Served r rsp) p
      (p\<lparr>prShared := (prShared p)\<lparr>shWorld := w'\<rparr>, prActive := xs @ ys\<rparr>)"
| background: "running (prPhase p) = Some s \<Longrightarrow> pass_step s (prShared p) c' \<Longrightarrow>
    process_step cwd env assets t0 Reindexed p (p\<lparr>prShared := c'\<rparr>)"
| listen_fails: "running (prPhase p) = Some s \<Longrightarrow> prServers p = xs @ (h, True) # ys \<Longrightarrow>
    process_step cwd env assets t0 (ListenFailed e) p (p\<lparr>prServers := xs @ (h, False) # ys, prErrs := prErrs p @ [e]\<rparr>)"
| signal: "prPhase p = Up s \<Longrightarrow>
    process_step cwd env assets t0 Signalled p
      (p\<lparr>prPhase := Stopping s None (wnow (shWorld (prShared p)) + shutdownTimeout) [0..<length (prServers p)]\<rparr>)"
| receive: "prPhase p = Up s \<Longrightarrow> prErrs p = e # es \<Longrightarrow>
    process_step cwd env assets t0 ErrReceived p
      (p\<lparr>prPhase := Stopping s (Some e) (wnow (shWorld (prShared p)) + shutdownTimeout) [0..<length (prServers p)],
         prErrs := es\<rparr>)"
| shutdown: "prPhase p = Stopping s err deadline calls \<Longrightarrow> prServers p = xs @ (h, True) # ys \<Longrightarrow>
    process_step cwd env assets t0 ShutDown p (p\<lparr>prServers := xs @ (h, False) # ys\<rparr>)"
| drained: "prPhase p = Stopping s err deadline (xs @ i # ys) \<Longrightarrow> \<not> snd (prServers p ! i) \<Longrightarrow> \<forall>r. (i, r) \<notin> set (prActive p) \<Longrightarrow>
    process_step cwd env assets t0 (Drained i) p (p\<lparr>prPhase := Stopping s err deadline (xs @ ys)\<rparr>)"
| timed_out: "prPhase p = Stopping s err deadline (xs @ i # ys) \<Longrightarrow> \<not> snd (prServers p ! i) \<Longrightarrow>
    deadline \<le> wnow (shWorld (prShared p)) \<Longrightarrow>
    process_step cwd env assets t0 (TimedOut i) p (p\<lparr>prPhase := Stopping s err deadline (xs @ ys)\<rparr>)"
| exit: "prPhase p = Stopping s err deadline [] \<Longrightarrow>
    process_step cwd env assets t0 Left p (p\<lparr>prPhase := Exited err\<rparr>)"
| environment: "t \<ge> wnow (shWorld (prShared p)) \<Longrightarrow>
    process_step cwd env assets t0 Environment p
      (p\<lparr>prShared := (prShared p)\<lparr>shWorld := (shWorld (prShared p))\<lparr>wnow := t, wfaults := fs\<rparr>\<rparr>\<rparr>)"

inductive process_run ::
  "string \<Rightarrow> (string \<Rightarrow> string) \<Rightarrow> (string \<Rightarrow> string option) \<Rightarrow> int \<Rightarrow> event list \<Rightarrow> process \<Rightarrow> process \<Rightarrow> bool"
  for cwd :: string and env :: "string \<Rightarrow> string" and assets :: "string \<Rightarrow> string option" and t0 :: int where
  nothing: "process_run cwd env assets t0 [] p p"
| more_steps: "process_run cwd env assets t0 evs p p1 \<Longrightarrow> process_step cwd env assets t0 ev p1 p2 \<Longrightarrow>
    process_run cwd env assets t0 (evs @ [ev]) p p2"

text \<open>A process that has just been started on a state of the disk and the database.\<close>

definition launched :: "world \<Rightarrow> process" where
  "launched w = \<lparr>prShared = \<lparr>shWorld = w, shPasses = []\<rparr>, prPhase = Boot, prServers = [], prActive = [], prErrs = []\<rparr>"

section \<open>Start\<close>

lemma clean_Abs: "HasPrefix cwd [slash] \<Longrightarrow> clean_path (Abs cwd p)"
  using Clean_path_rooted [of p] Join_rooted [of cwd "[p]"]
  by (auto simp: Abs_def clean_path_def prefix_def)

lemma New_effects:
  assumes "New cwd c fsys w = (res, w')"
  shows "wdb w' = wdb w" and "fs_ok w \<Longrightarrow> fs_ok w'"
proof -
  have "keeps (\<lambda>w. P (wdb w)) (New cwd c fsys)" for P
    unfolding New_def OpenStore_def NewStorage_def Let_def by (intro keeps_intros keeps_db_exec)
  from keepsD [OF this [of "\<lambda>d. d = wdb w"], of w] show "wdb w' = wdb w" by (simp add: assms)
  have "keeps fs_ok (New cwd c fsys)"
    unfolding New_def OpenStore_def NewStorage_def Let_def by (intro keeps_intros)
  from keepsD [OF this, of w] show "fs_ok w \<Longrightarrow> fs_ok w'" by (simp add: assms)
qed

lemma New_tree:
  assumes "HasPrefix cwd [slash]" "New cwd c fsys w = (res, w')" "tree_inv w"
  shows "tree_inv w'"
proof -
  have "keeps tree_ok (New cwd c fsys)"
    unfolding New_def OpenStore_def NewStorage_def Let_def
    by (intro keeps_intros names_intros clean_path_comps clean_Dir_of clean_Abs assms(1))
  then show ?thesis
    using keepsD [of tree_ok _ w] New_effects [OF assms(2)] assms(2,3) unfolding tree_inv_def server_inv_def by fastforce
qed

lemma New_server:
  assumes "HasPrefix cwd [slash]" "New cwd c fsys w = (Inr s, w')"
  shows "cfg s = c \<and> console s = fsys \<and> (\<exists>rs. storage_at rs (storage s)) \<and>
    (\<exists>key. StdDecode (MasterKey c) = Some key \<and> length key = 32 \<and> crypto s = \<lparr>aead_key = key\<rparr>)"
  using assms(2) NewStorage_at [OF assms(1)]
  by (fastforce simp: New_def andThen_lift NewCrypto_def fail_def lift_result_def andThen_def ret_def
      split: if_splits option.splits sum.splits prod.splits)

lemma New_bad_key:
  assumes "\<And>key. StdDecode (MasterKey c) = Some key \<Longrightarrow> length key \<noteq> 32" "New cwd c fsys w = (res, w')"
  shows "w' = w"
  using assms by (auto simp: New_def andThen_lift NewCrypto_def fail_def split: if_splits option.splits)

section \<open>The state of the process\<close>

text \<open>
  What holds in every state of a process, by phase.  A listener has put an error in \<open>errs\<close> only if it is
  closed, so the channel, with room for one error per server, never blocks a sender.
\<close>

definition open_listeners :: "process \<Rightarrow> nat" where
  "open_listeners p = length (filter snd (prServers p))"

definition ready :: "(string \<Rightarrow> string) \<Rightarrow> int \<Rightarrow> process \<Rightarrow> Server \<Rightarrow> bool" where
  "ready env t0 p s \<longleftrightarrow> cfg s = ConfigFromEnv env \<and>
     (\<exists>key. StdDecode (MasterKey (cfg s)) = Some key \<and> length key = 32) \<and>
     map fst (prServers p) = http_servers t0 s \<and>
     (\<forall>(i, r)\<in>set (prActive p). i < length (prServers p) \<and> entropy_ok r) \<and> length (prErrs p) + open_listeners p \<le> length (prServers p) \<and>
     (\<exists>rs. storage_at rs (storage s) \<and> shared_inv rs (prShared p))"

text \<open>The calls of \<open>Shutdown\<close> are for servers of the process, and one that has returned has closed its listener.\<close>

fun closing :: "process \<Rightarrow> run_phase \<Rightarrow> bool" where
  "closing p (Stopping s err deadline calls) \<longleftrightarrow> (\<forall>i\<in>set calls. i < length (prServers p)) \<and>
     (\<forall>i<length (prServers p). snd (prServers p ! i) \<longrightarrow> i \<in> set calls)"
| "closing p _ \<longleftrightarrow> True"

fun process_ok :: "(string \<Rightarrow> string) \<Rightarrow> int \<Rightarrow> process \<Rightarrow> run_phase \<Rightarrow> bool" where
  "process_ok env t0 p Boot \<longleftrightarrow> prServers p = [] \<and> prActive p = [] \<and> prErrs p = [] \<and> shPasses (prShared p) = []"
| "process_ok env t0 p (Up s) \<longleftrightarrow> ready env t0 p s"
| "process_ok env t0 p (Stopping s err deadline calls) \<longleftrightarrow>
     ready env t0 p s \<and> closing p (Stopping s err deadline calls)"
| "process_ok env t0 p (Exited err) \<longleftrightarrow> open_listeners p = 0"

definition process_inv :: "(string \<Rightarrow> string) \<Rightarrow> int \<Rightarrow> process \<Rightarrow> bool" where
  "process_inv env t0 p \<longleftrightarrow> tree_inv (shWorld (prShared p)) \<and> process_ok env t0 p (prPhase p)"

lemma running_ok: "running ph = Some s \<Longrightarrow> process_ok env t0 p ph \<longleftrightarrow> ready env t0 p s \<and> closing p ph"
  by (cases ph) simp_all

lemma closing_other [simp]:
  "closing (p\<lparr>prShared := c\<rparr>) ph = closing p ph" "closing (p\<lparr>prActive := a\<rparr>) ph = closing p ph"
  "closing (p\<lparr>prPhase := x\<rparr>) ph = closing p ph" "closing (p\<lparr>prErrs := es\<rparr>) ph = closing p ph"
  by (cases ph; simp)+

lemma closing_close: "closing p ph \<Longrightarrow> prServers p = xs @ (h, True) # ys \<Longrightarrow> closing (p\<lparr>prServers := xs @ (h, False) # ys\<rparr>) ph"
  by (cases ph) (auto simp: nth_append nth_Cons' split: if_splits)

lemma closing_returned:
  "closing p (Stopping s err deadline (xs @ i # ys)) \<Longrightarrow> \<not> snd (prServers p ! i) \<Longrightarrow> closing p (Stopping s err deadline (xs @ ys))"
  by auto

lemma ready_shared:
  assumes "ready env t0 p s" and "\<And>rs. storage_at rs (storage s) \<Longrightarrow> shared_inv rs (prShared p) \<Longrightarrow> shared_inv rs c"
  shows "ready env t0 (p\<lparr>prShared := c\<rparr>) s" and "tree_inv (shWorld c)"
proof -
  obtain rs where rs: "storage_at rs (storage s)" "shared_inv rs (prShared p)" using assms(1) by (auto simp: ready_def)
  note c = assms(2) [OF rs]
  then show "tree_inv (shWorld c)" by (simp add: shared_inv_def)
  show "ready env t0 (p\<lparr>prShared := c\<rparr>) s"
    using assms(1) rs(1) c by (auto simp: ready_def open_listeners_def)
qed

lemma tree_inv_environment: "tree_inv w \<Longrightarrow> tree_inv (w\<lparr>wnow := t, wfaults := fs\<rparr>)"
  by (rule inv.stored) simp_all

lemma ready_servers:
  assumes "ready env t0 p s" "map fst ss = map fst (prServers p)" "length es + length (filter snd ss) \<le> length ss"
  shows "ready env t0 (p\<lparr>prServers := ss, prErrs := es\<rparr>) s"
proof -
  have "length ss = length (prServers p)" using assms(2) by (metis length_map)
  then show ?thesis using assms by (auto simp: ready_def open_listeners_def)
qed

lemma ready_active:
  "ready env t0 p s \<Longrightarrow> \<forall>(i, r)\<in>set as. i < length (prServers p) \<and> entropy_ok r \<Longrightarrow> ready env t0 (p\<lparr>prActive := as\<rparr>) s"
  by (auto simp: ready_def open_listeners_def)

lemma ready_phase: "ready env t0 p s \<Longrightarrow> ready env t0 (p\<lparr>prPhase := ph\<rparr>) s"
  by (auto simp: ready_def open_listeners_def)

lemma ready_serve:
  assumes "ready env t0 p s" "(i, r) \<in> set (prActive p)" "hsHandler (fst (prServers p ! i)) r (shWorld (prShared p)) = (rsp, w')"
  shows "ready env t0 (p\<lparr>prShared := (prShared p)\<lparr>shWorld := w'\<rparr>\<rparr>) s" and "tree_inv w'"
proof -
  have i: "i < length (prServers p)" "entropy_ok r" using assms(1,2) by (auto simp: ready_def)
  then have "fst (prServers p ! i) \<in> set (map fst (prServers p))" by simp
  moreover have "map fst (prServers p) = http_servers t0 s" using assms(1) by (simp add: ready_def)
  ultimately have "fst (prServers p ! i) \<in> set (http_servers t0 s)" by (simp only:)
  then obtain fe where "hsHandler (fst (prServers p ! i)) = Handler s t0 fe" by (auto simp: http_servers_def newHTTPServer_def)
  then have "shared_step s (prShared p) ((prShared p)\<lparr>shWorld := w'\<rparr>)"
    using assms(3) i(2) by (auto intro!: shared_step.serve server_step.request)
  from ready_shared [OF assms(1) shared_step_inv [OF _ this]]
  show "ready env t0 (p\<lparr>prShared := (prShared p)\<lparr>shWorld := w'\<rparr>\<rparr>) s" and "tree_inv w'" by simp_all
qed

lemma ready_new:
  assumes cwd: "HasPrefix cwd [slash]" and new: "New cwd (ConfigFromEnv env) assets (shWorld (prShared p)) = (Inr s, w')"
    and inv: "process_inv env t0 p" and ph: "prPhase p = Boot"
  shows "ready env t0 (p\<lparr>prShared := (prShared p)\<lparr>shWorld := w'\<rparr>, prPhase := Up s,
    prServers := map (\<lambda>h. (h, True)) (http_servers t0 s)\<rparr>) s"
proof -
  have "tree_inv w'" by (rule New_tree [OF cwd new]) (use inv in \<open>simp add: process_inv_def\<close>)
  moreover obtain rs key where "storage_at rs (storage s)" "cfg s = ConfigFromEnv env"
    "StdDecode (MasterKey (ConfigFromEnv env)) = Some key" "length key = 32"
    using New_server [OF cwd new] by auto
  ultimately show ?thesis
    using inv ph by (auto simp: ready_def process_inv_def open_listeners_def shared_inv_def o_def filter_map)
qed

lemma process_step_inv:
  assumes "process_step cwd env assets t0 ev p p'" "HasPrefix cwd [slash]" "process_inv env t0 p"
  shows "process_inv env t0 p'"
  using assms(1)
proof cases
  case (start s w')
  with ready_new [OF assms(2) start(4) assms(3) start(3)] New_tree [OF assms(2) start(4)] assms(3)
  show ?thesis by (simp add: process_inv_def)
next
  case (start_fails e w')
  with New_tree [OF assms(2) start_fails(4)] assms(3) show ?thesis by (simp add: process_inv_def open_listeners_def)
next
  case (accept s i r)
  then have "ready env t0 p s" using assms(3) by (simp add: process_inv_def running_ok)
  then have "ready env t0 (p\<lparr>prActive := prActive p @ [(i, r)]\<rparr>) s"
    by (rule ready_active) (use accept \<open>ready env t0 p s\<close> in \<open>auto simp: ready_def\<close>)
  with accept assms(3) show ?thesis by (simp add: process_inv_def running_ok)
next
  case (serve s xs i r ys rsp w')
  then have rd: "ready env t0 p s" using assms(3) by (simp add: process_inv_def running_ok)
  have "(i, r) \<in> set (prActive p)" using serve by simp
  note n = ready_serve [OF rd this serve(5)]
  have "ready env t0 (p\<lparr>prShared := (prShared p)\<lparr>shWorld := w'\<rparr>, prActive := xs @ ys\<rparr>) s"
    using ready_active [OF n(1), of "xs @ ys"] rd serve(4) by (simp add: ready_def)
  with n(2) serve(2,3) assms(3) show ?thesis by (simp add: process_inv_def running_ok)
next
  case (background s c')
  then have "ready env t0 p s" using assms(3) by (simp add: process_inv_def running_ok)
  from ready_shared [OF this pass_step_inv [OF _ background(4)]] background(2,3) assms(3) show ?thesis
    by (simp add: process_inv_def running_ok)
next
  case (listen_fails s xs h ys e)
  then have rd: "ready env t0 p s" and cl: "closing p (prPhase p)" using assms(3) by (simp_all add: process_inv_def running_ok)
  have "ready env t0 (p\<lparr>prServers := xs @ (h, False) # ys, prErrs := prErrs p @ [e]\<rparr>) s"
    by (rule ready_servers [OF rd]) (use rd listen_fails(4) in \<open>simp_all add: ready_def open_listeners_def\<close>)
  moreover have "closing (p\<lparr>prServers := xs @ (h, False) # ys, prErrs := prErrs p @ [e]\<rparr>) (prPhase p)"
    using closing_close [OF cl listen_fails(4)] by (subst closing_other(4))
  ultimately show ?thesis using listen_fails(2,3) assms(3)
    by (simp add: process_inv_def running_ok del: closing.simps closing_other(4))
next
  case (signal s)
  with assms(3) ready_phase show ?thesis by (simp add: process_inv_def)
next
  case (receive s e es)
  then have rd: "ready env t0 p s" using assms(3) by (simp add: process_inv_def)
  have "ready env t0 (p\<lparr>prPhase := ph, prServers := prServers p, prErrs := es\<rparr>) s" for ph
    by (rule ready_servers [OF ready_phase [OF rd]]) (use rd receive(4) in \<open>simp_all add: ready_def open_listeners_def\<close>)
  then have "ready env t0 (p\<lparr>prPhase := ph, prErrs := es\<rparr>) s" for ph by simp
  with receive(2,3) assms(3) show ?thesis by (simp add: process_inv_def)
next
  case (shutdown s err deadline calls xs h ys)
  then have rd: "ready env t0 p s" and cl: "closing p (prPhase p)" using assms(3) by (simp_all add: process_inv_def)
  have "ready env t0 (p\<lparr>prServers := xs @ (h, False) # ys, prErrs := prErrs p\<rparr>) s"
    by (rule ready_servers [OF rd]) (use rd shutdown(4) in \<open>simp_all add: ready_def open_listeners_def\<close>)
  then have "ready env t0 (p\<lparr>prServers := xs @ (h, False) # ys\<rparr>) s" by simp
  with shutdown(2,3) closing_close [OF cl shutdown(4)] assms(3) show ?thesis by (simp add: process_inv_def del: closing.simps)
next
  case (drained s err deadline xs i ys)
  with assms(3) ready_phase closing_returned [of p s err deadline xs i ys] show ?thesis
    by (simp add: process_inv_def del: closing.simps)
next
  case (timed_out s err deadline xs i ys)
  with assms(3) ready_phase closing_returned [of p s err deadline xs i ys] show ?thesis
    by (simp add: process_inv_def del: closing.simps)
next
  case (exit s err deadline)
  then have "\<forall>i<length (prServers p). \<not> snd (prServers p ! i)" using assms(3) by (simp add: process_inv_def)
  then have "\<forall>x\<in>set (prServers p). \<not> snd x" by (simp only: all_set_conv_all_nth)
  with exit assms(3) show ?thesis by (simp add: process_inv_def open_listeners_def filter_empty_conv)
next
  case (environment t fs)
  let ?w = "(shWorld (prShared p))\<lparr>wnow := t, wfaults := fs\<rparr>"
  have tree: "tree_inv ?w" using assms(3) by (simp add: process_inv_def tree_inv_environment)
  have "process_ok env t0 (p\<lparr>prShared := (prShared p)\<lparr>shWorld := ?w\<rparr>\<rparr>) (prPhase p)"
    using assms(3) ready_shared(1) [OF _ shared_inv_world [OF _ tree]]
    by (cases "prPhase p") (auto simp: process_inv_def open_listeners_def)
  with tree environment show ?thesis by (simp add: process_inv_def)
qed

lemma process_run_inv:
  "process_run cwd env assets t0 evs p p' \<Longrightarrow> HasPrefix cwd [slash] \<Longrightarrow> process_inv env t0 p \<Longrightarrow> process_inv env t0 p'"
  by (induction rule: process_run.induct) (auto intro: process_step_inv)

lemma launched_inv: "tree_inv w \<Longrightarrow> process_inv env t0 (launched w)"
  by (simp add: process_inv_def launched_def)

section \<open>What the process has done\<close>

text \<open>
  What a phase says about the events before it: the process serves only after it has started, stops for a signal
  or for an error some listener has sent, and exits with the value it started to stop with.
\<close>

definition failed_before :: "event list \<Rightarrow> go_error list \<Rightarrow> bool" where
  "failed_before evs es \<longleftrightarrow> (\<forall>e\<in>set es. ListenFailed e \<in> set evs)"

fun history :: "event list \<Rightarrow> run_phase \<Rightarrow> bool" where
  "history evs Boot \<longleftrightarrow> set evs \<subseteq> {Environment}"
| "history evs (Up s) \<longleftrightarrow> Started \<in> set evs \<and> Signalled \<notin> set evs \<and> ErrReceived \<notin> set evs"
| "history evs (Stopping s err deadline calls) \<longleftrightarrow> Started \<in> set evs \<and> (case err of
     None \<Rightarrow> Signalled \<in> set evs | Some e \<Rightarrow> ListenFailed e \<in> set evs \<and> Signalled \<notin> set evs)"
| "history evs (Exited err) \<longleftrightarrow> (case err of
     None \<Rightarrow> Started \<in> set evs \<and> Signalled \<in> set evs
   | Some e \<Rightarrow> Signalled \<notin> set evs \<and> (ListenFailed e \<in> set evs \<or> StartFailed e \<in> set evs \<and> set evs \<subseteq> {Environment, StartFailed e}))"

lemma history_step:
  assumes "process_step cwd env assets t0 ev p p'" "history evs (prPhase p)" "failed_before evs (prErrs p)"
  shows "history (evs @ [ev]) (prPhase p')" and "failed_before (evs @ [ev]) (prErrs p')"
proof -
  have quiet: "history (evs @ [ev]) (prPhase p)" if "ev \<notin> {Started, Signalled, ErrReceived}" "running (prPhase p) \<noteq> None \<or> ev = Environment"
    using that assms(2) by (cases "prPhase p") (auto split: option.splits)
  show "history (evs @ [ev]) (prPhase p')"
    using assms quiet by cases (auto simp: failed_before_def split: option.splits)
  show "failed_before (evs @ [ev]) (prErrs p')"
    using assms(1,3) by cases (auto simp: failed_before_def)
qed

lemma history_run:
  assumes "process_run cwd env assets t0 evs p p'" "p = launched w"
  shows "history evs (prPhase p')" and "failed_before evs (prErrs p')"
proof -
  have "history evs (prPhase p') \<and> failed_before evs (prErrs p')"
    using assms by (induction rule: process_run.induct) (simp add: launched_def failed_before_def, blast intro: history_step)
  then show "history evs (prPhase p')" and "failed_before evs (prErrs p')" by simp_all
qed

section \<open>Shutdown\<close>

text \<open>What the goroutines of the shutdown do, and how much of it is left.\<close>

definition shutdown_event :: "event \<Rightarrow> bool" where
  "shutdown_event ev \<longleftrightarrow> ev = ShutDown \<or> ev = Left \<or> (\<exists>i. ev = Drained i \<or> ev = TimedOut i)"

lemma shutdown_events:
  "shutdown_event ShutDown" "shutdown_event Left" "shutdown_event (Drained i)" "shutdown_event (TimedOut i)"
  by (simp_all add: shutdown_event_def)

fun remaining :: "process \<Rightarrow> run_phase \<Rightarrow> nat" where
  "remaining p (Stopping s err deadline calls) = open_listeners p + length calls + 1"
| "remaining p _ = 0"

text \<open>A process that stops or has stopped, with the value it exits with and its deadline.\<close>

fun stopped :: "Server \<Rightarrow> go_error option \<Rightarrow> int \<Rightarrow> run_phase \<Rightarrow> bool" where
  "stopped s err deadline (Stopping s' err' deadline' calls) \<longleftrightarrow> s' = s \<and> err' = err \<and> deadline' = deadline"
| "stopped s err deadline (Exited err') \<longleftrightarrow> err' = err"
| "stopped s err deadline _ \<longleftrightarrow> False"

lemma stopping_starts:
  assumes "process_step cwd env assets t0 ev p p'" "prPhase p = Up s" "ev = Signalled \<or> ev = ErrReceived"
  shows "\<exists>err. main_status err = (if ev = Signalled then 0 else 1) \<and> prServers p' = prServers p \<and>
    prPhase p' = Stopping s err (wnow (shWorld (prShared p)) + shutdownTimeout) [0..<length (prServers p')]"
  using assms by cases (auto simp: main_status_def)

lemma stopped_step:
  assumes "process_step cwd env assets t0 ev p p'" "stopped s err deadline (prPhase p)"
  shows "stopped s err deadline (prPhase p')"
    and "remaining p' (prPhase p') + (if shutdown_event ev then 1 else 0) \<le> remaining p (prPhase p)"
proof -
  have "stopped s err deadline (prPhase p') \<and>
    remaining p' (prPhase p') + (if shutdown_event ev then 1 else 0) \<le> remaining p (prPhase p)"
    using assms
  proof cases
    case environment
    with assms(2) show ?thesis by (cases "prPhase p") (auto simp: shutdown_event_def open_listeners_def)
  next
    case accept
    with assms(2) show ?thesis by (cases "prPhase p") (auto simp: shutdown_event_def open_listeners_def)
  next
    case serve
    with assms(2) show ?thesis by (cases "prPhase p") (auto simp: shutdown_event_def open_listeners_def)
  next
    case background
    with assms(2) show ?thesis by (cases "prPhase p") (auto simp: shutdown_event_def open_listeners_def)
  next
    case listen_fails
    with assms(2) show ?thesis by (cases "prPhase p") (auto simp: shutdown_event_def open_listeners_def)
  qed (auto simp: shutdown_event_def open_listeners_def)
  then show "stopped s err deadline (prPhase p')"
    and "remaining p' (prPhase p') + (if shutdown_event ev then 1 else 0) \<le> remaining p (prPhase p)" by blast+
qed

lemma stopped_run:
  "process_run cwd env assets t0 evs p p' \<Longrightarrow> stopped s err deadline (prPhase p) \<Longrightarrow>
   stopped s err deadline (prPhase p') \<and>
   remaining p' (prPhase p') + length (filter shutdown_event evs) \<le> remaining p (prPhase p)"
proof (induction rule: process_run.induct)
  case (more_steps evs p p1 ev p2)
  from stopped_step [OF more_steps(2)] more_steps(3,4) show ?case by fastforce
qed simp

text \<open>A call times out only in a state in which the deadline has passed.\<close>

lemma timed_out_run:
  assumes "process_run cwd env assets t0 evs p p'" "stopped s err deadline (prPhase p)" "evs = xs @ TimedOut i # ys"
  shows "\<exists>v. process_run cwd env assets t0 xs p v \<and> deadline \<le> wnow (shWorld (prShared v))"
  using assms
proof (induction arbitrary: ys rule: process_run.induct)
  case (more_steps evs p p1 ev p2)
  show ?case
  proof (cases ys rule: rev_cases)
    case Nil
    then have "stopped s err deadline (prPhase p1)" and ev: "ev = TimedOut i" and xs: "evs = xs"
      using stopped_run [OF more_steps(1,4)] more_steps(5) by auto
    with more_steps(2) have "deadline \<le> wnow (shWorld (prShared p1))" by cases auto
    with more_steps(1) xs show ?thesis by blast
  next
    case (snoc zs e)
    with more_steps show ?thesis by auto
  qed
qed simp

text \<open>A request that is not answered keeps \<open>Shutdown\<close> waiting until it times out.\<close>

fun answered :: "event list \<Rightarrow> process \<Rightarrow> run_phase \<Rightarrow> bool" where
  "answered evs p (Stopping s err deadline calls) \<longleftrightarrow> (\<forall>(i, r)\<in>set (prActive p). i \<in> set calls \<or> TimedOut i \<in> set evs)"
| "answered evs p (Exited err) \<longleftrightarrow> (\<forall>(i, r)\<in>set (prActive p). TimedOut i \<in> set evs)"
| "answered evs p _ \<longleftrightarrow> True"

lemma answered_step:
  assumes "process_step cwd env assets t0 ev p p'" "stopped s err deadline (prPhase p)" "process_inv env t0 p"
    and "answered evs p (prPhase p)"
  shows "answered (evs @ [ev]) p' (prPhase p')"
  using assms(1)
proof cases
  case (accept s' i r)
  then show ?thesis using assms by (cases "prPhase p") (auto simp: process_inv_def)
next
  case (serve s' xs i r ys rsp w')
  then show ?thesis using assms(2,4) by (cases "prPhase p") auto
next
  case (background s' c')
  then show ?thesis using assms(2,4) by (cases "prPhase p") auto
next
  case (listen_fails s' xs h ys e)
  then show ?thesis using assms(2,4) by (cases "prPhase p") auto
next
  case (environment t fs)
  then show ?thesis using assms(2,4) by (cases "prPhase p") auto
qed (use assms(2,4) in auto)

lemma answered_run:
  "process_run cwd env assets t0 evs p p' \<Longrightarrow> HasPrefix cwd [slash] \<Longrightarrow> stopped s err deadline (prPhase p) \<Longrightarrow>
   process_inv env t0 p \<Longrightarrow> answered [] p (prPhase p) \<Longrightarrow> answered evs p' (prPhase p')"
proof (induction rule: process_run.induct)
  case (more_steps evs p p1 ev p2)
  have "stopped s err deadline (prPhase p1)" using stopped_run [OF more_steps(1,5)] by simp
  from answered_step [OF more_steps(2) this process_run_inv [OF more_steps(1,4,6)]] more_steps show ?case by blast
qed simp

text \<open>Nothing blocks the shutdown for good: until the deadline only a request that can be answered, and then nothing.\<close>

lemma shutdown_progress:
  assumes inv: "process_inv env t0 p" and ph: "prPhase p = Stopping s err deadline calls"
  shows "(\<exists>e q. shutdown_event e \<and> process_step cwd env assets t0 e p q) \<or>
    wnow (shWorld (prShared p)) < deadline \<and> (\<exists>r rsp q. process_step cwd env assets t0 (Served r rsp) p q)"
proof (cases calls)
  case Nil
  then have "process_step cwd env assets t0 Left p (p\<lparr>prPhase := Exited err\<rparr>)" using ph by (intro process_step.exit) simp
  with shutdown_events(2) show ?thesis by blast
next
  case (Cons i ys)
  have i: "i < length (prServers p)" using inv ph Cons by (simp add: process_inv_def)
  show ?thesis
  proof (cases "snd (prServers p ! i)")
    case True
    then have "(fst (prServers p ! i), True) \<in> set (prServers p)" using i by (metis nth_mem prod.collapse)
    then obtain xs zs where "prServers p = xs @ (fst (prServers p ! i), True) # zs" by (meson split_list)
    from process_step.shutdown [OF ph this] shutdown_events(1) show ?thesis by blast
  next
    case closed: False
    have ph': "prPhase p = Stopping s err deadline ([] @ i # ys)" using ph Cons by simp
    consider "\<forall>r. (i, r) \<notin> set (prActive p)" | "deadline \<le> wnow (shWorld (prShared p))"
      | r where "(i, r) \<in> set (prActive p)" "wnow (shWorld (prShared p)) < deadline" by force
    then show ?thesis
    proof cases
      case 1
      from process_step.drained [OF ph' closed this] shutdown_events(3) show ?thesis by blast
    next
      case 2
      from process_step.timed_out [OF ph' closed this] shutdown_events(4) show ?thesis by blast
    next
      case 3
      then obtain xs zs where "prActive p = xs @ (i, r) # zs" by (meson split_list)
      moreover obtain rsp w' where "hsHandler (fst (prServers p ! i)) r (shWorld (prShared p)) = (rsp, w')" by force
      moreover have "running (prPhase p) = Some s" by (simp add: ph)
      ultimately have "\<exists>q. process_step cwd env assets t0 (Served r rsp) p q" using process_step.serve by blast
      with 3(2) show ?thesis by blast
    qed
  qed
qed

end
