(* ===== verification/ProcessProperties.thy ===== *)
theory ProcessProperties
  imports Process ServerExamples
begin

text \<open>Properties of \<open>main.go\<close>: start, failure and shutdown of the process.\<close>

text \<open>
  C15.  The life of the process.  However its goroutines interleave, the tree and the tables stay well-formed;
  the process listens only with a server built from the environment with a usable master key; \<open>errs\<close> has room
  for every failure; and it exits 0 only after a signal, with every listener closed, and 1 only for an error of
  \<open>server.New\<close>, in which case it has served nothing, or of a listener.
\<close>

theorem process_lifecycle:
  assumes "HasPrefix cwd [slash]" "server_inv w" "fs_names (wfs w)"
    and "process_run cwd env assets t0 evs (launched w) p"
  shows "server_inv (shWorld (prShared p)) \<and> (case prPhase p of
      Boot \<Rightarrow> prServers p = []
    | Exited err \<Rightarrow> (\<forall>h\<in>set (prServers p). \<not> snd h) \<and> main_status err \<in> {0, 1} \<and>
        (main_status err = 0 \<longrightarrow> Started \<in> set evs \<and> Signalled \<in> set evs) \<and>
        (main_status err = 1 \<longrightarrow> Signalled \<notin> set evs \<and>
           (\<exists>e. ListenFailed e \<in> set evs \<or> StartFailed e \<in> set evs \<and> (\<forall>r rsp. Served r rsp \<notin> set evs)))
    | _ \<Rightarrow> \<exists>s. running (prPhase p) = Some s \<and> cfg s = ConfigFromEnv env \<and>
        (\<exists>key. StdDecode (env ''S3BENDER_MASTER_KEY'') = Some key \<and> length key = 32) \<and>
        map fst (prServers p) = http_servers t0 s \<and> length (prErrs p) \<le> length (http_servers t0 s))"
proof -
  have inv: "process_inv env t0 p"
    using process_run_inv [OF assms(4,1) launched_inv] assms(2,3) by (simp add: tree_inv_def)
  have h: "history evs (prPhase p)" by (rule history_run(1) [OF assms(4) refl])
  have up: "cfg s = ConfigFromEnv env \<and>
      (\<exists>key. StdDecode (env ''S3BENDER_MASTER_KEY'') = Some key \<and> length key = 32) \<and>
      map fst (prServers p) = http_servers t0 s \<and> length (prErrs p) \<le> length (http_servers t0 s)"
    if "running (prPhase p) = Some s" for s
  proof -
    have r: "ready env t0 p s" using inv that by (simp add: process_inv_def running_ok)
    then have "length (prServers p) = length (http_servers t0 s)" unfolding ready_def by (metis length_map)
    then show ?thesis using r by (auto simp: ready_def ConfigFromEnv_def)
  qed
  show ?thesis
    using inv h up by (cases "prPhase p")
      (auto simp: process_inv_def tree_inv_def main_status_def open_listeners_def filter_empty_conv split: option.splits)
qed

lemma ex_empty_inv: "server_inv ex_empty_world" "fs_names (wfs ex_empty_world)"
proof -
  have "fs_wf (wfs ex_empty_world)" by code_simp
  then show "server_inv ex_empty_world"
    using ex_bucket_ok by (simp add: server_inv_def db_wf_def names_ok_def ex_empty_world_def)
  show "fs_names (wfs ex_empty_world)" by code_simp
qed

lemma ex_started:
  "\<exists>s w'. process_run ''/srv'' (env_of ex_start_config) (\<lambda>_. None) 0 [Started] (launched ex_empty_world)
     (launched ex_empty_world\<lparr>prShared := \<lparr>shWorld = w', shPasses = []\<rparr>, prPhase := Up s,
        prServers := map (\<lambda>h. (h, True)) (http_servers 0 s)\<rparr>)"
proof -
  obtain s w' where "New ''/srv'' ex_start_config (\<lambda>_. None) ex_empty_world = (Inr s, w')"
    using ex_start_run by (cases "New ''/srv'' ex_start_config (\<lambda>_. None) ex_empty_world") (auto split: sum.splits)
  moreover have "ConfigFromEnv (env_of ex_start_config) = ex_start_config"
    by (rule config_env_roundtrip) (simp_all add: ex_start_config_def ex_config_def)
  ultimately have "process_step ''/srv'' (env_of ex_start_config) (\<lambda>_. None) 0 Started (launched ex_empty_world)
     (launched ex_empty_world\<lparr>prShared := \<lparr>shWorld = w', shPasses = []\<rparr>, prPhase := Up s,
        prServers := map (\<lambda>h. (h, True)) (http_servers 0 s)\<rparr>)"
    using process_step.start [of "launched ex_empty_world" "''/srv''" "env_of ex_start_config" "\<lambda>_. None" s w' 0]
    by (simp add: launched_def)
  from process_run.more_steps [OF process_run.nothing this] show ?thesis by auto
qed

theorem process_lifecycle_witness:
  "\<exists>s p. process_run ''/srv'' (env_of ex_start_config) (\<lambda>_. None) 0 [Started] (launched ex_empty_world) p \<and>
     prPhase p = Up s \<and> cfg s = ConfigFromEnv (env_of ex_start_config) \<and> map fst (prServers p) = http_servers 0 s"
proof -
  obtain s w' where run: "process_run ''/srv'' (env_of ex_start_config) (\<lambda>_. None) 0 [Started] (launched ex_empty_world)
     (launched ex_empty_world\<lparr>prShared := \<lparr>shWorld = w', shPasses = []\<rparr>, prPhase := Up s,
        prServers := map (\<lambda>h. (h, True)) (http_servers 0 s)\<rparr>)" (is "process_run _ _ _ _ _ _ ?p")
    using ex_started by auto
  have "cfg s = ConfigFromEnv (env_of ex_start_config)"
    using process_lifecycle [OF _ ex_empty_inv run] by (simp add: slash_def)
  with run show ?thesis by (intro exI [of _ s] exI [of _ ?p]) (simp add: o_def)
qed

text \<open>
  C32.  Shutdown.  From the state in which a signal or the error of a listener reaches \<open>run\<close>, however requests,
  passes and failing listeners come in between: the exit status is settled, 0 for a signal and 1 for an error,
  and so is the deadline, thirty seconds later.  As long as the process has not exited it can go on, with a
  step of the shutdown or, and only before the deadline, by answering a request that \<open>Shutdown\<close> waits for.  The
  shutdown takes at most one step per listener, one per call of \<open>Shutdown\<close> and the return of \<open>run\<close>.  No call
  times out before the deadline, and if none does no request is dropped: at exit every one is answered.
\<close>

theorem shutdown_completes:
  assumes "HasPrefix cwd [slash]" "server_inv w" "fs_names (wfs w)"
    and "process_run cwd env assets t0 evs0 (launched w) p0" "prPhase p0 = Up s"
    and "process_step cwd env assets t0 ev p0 p1" "ev = Signalled \<or> ev = ErrReceived"
    and "process_run cwd env assets t0 evs p1 p"
  defines "deadline \<equiv> wnow (shWorld (prShared p0)) + 30 * 1000000000"
  shows "(\<exists>err. main_status err = (if ev = Signalled then 0 else 1) \<and>
      (prPhase p = Exited err \<and> ((\<forall>i. TimedOut i \<notin> set evs) \<longrightarrow> prActive p = []) \<or>
       (\<exists>calls. prPhase p = Stopping s err deadline calls) \<and>
       ((\<exists>e q. shutdown_event e \<and> process_step cwd env assets t0 e p q) \<or>
        wnow (shWorld (prShared p)) < deadline \<and> (\<exists>r rsp q. process_step cwd env assets t0 (Served r rsp) p q)))) \<and>
    length (filter shutdown_event evs) \<le> 2 * length (prServers p0) + 1 \<and>
    (\<forall>xs i ys. evs = xs @ TimedOut i # ys \<longrightarrow>
       (\<exists>v. process_run cwd env assets t0 xs p1 v \<and> deadline \<le> wnow (shWorld (prShared v))))"
proof -
  have "process_inv env t0 p0" using process_run_inv [OF assms(4,1) launched_inv] assms(2,3) by (simp add: tree_inv_def)
  then have inv1: "process_inv env t0 p1" using process_step_inv [OF assms(6,1)] by simp
  obtain err where err: "main_status err = (if ev = Signalled then 0 else 1)" "prServers p1 = prServers p0"
    "prPhase p1 = Stopping s err deadline [0..<length (prServers p1)]"
    using stopping_starts [OF assms(6,5,7)] unfolding deadline_def shutdownTimeout_def by blast
  have st: "stopped s err deadline (prPhase p1)" by (simp add: err(3))
  have "answered [] p1 (prPhase p1)" using inv1 err(3) by (auto simp: process_inv_def ready_def)
  then have ans: "answered evs p (prPhase p)" by (rule answered_run [OF assms(8,1) st inv1])
  have "remaining p1 (prPhase p1) \<le> 2 * length (prServers p0) + 1"
    by (simp add: err(2,3) open_listeners_def)
  with stopped_run [OF assms(8) st] have run: "stopped s err deadline (prPhase p)"
    "length (filter shutdown_event evs) \<le> 2 * length (prServers p0) + 1" by linarith+
  have inv: "process_inv env t0 p" by (rule process_run_inv [OF assms(8,1) inv1])
  have "\<forall>xs i ys. evs = xs @ TimedOut i # ys \<longrightarrow>
      (\<exists>v. process_run cwd env assets t0 xs p1 v \<and> deadline \<le> wnow (shWorld (prShared v)))"
    using timed_out_run [OF assms(8) st] by blast
  moreover have "prPhase p = Exited err \<and> ((\<forall>i. TimedOut i \<notin> set evs) \<longrightarrow> prActive p = []) \<or>
    (\<exists>calls. prPhase p = Stopping s err deadline calls)"
    using run(1) ans by (cases "prPhase p"; cases "prActive p") auto
  ultimately show ?thesis using run(2) err(1) shutdown_progress [OF inv, of s err deadline _ cwd assets] by blast
qed

text \<open>A server that has started and is told to stop can take a step of the shutdown at once.\<close>

theorem shutdown_completes_witness:
  "\<exists>p0 p1 s calls e q. process_run ''/srv'' (env_of ex_start_config) (\<lambda>_. None) 0 [Started] (launched ex_empty_world) p0 \<and>
     process_step ''/srv'' (env_of ex_start_config) (\<lambda>_. None) 0 Signalled p0 p1 \<and>
     prPhase p1 = Stopping s None (wnow (shWorld (prShared p0)) + 30 * 1000000000) calls \<and>
     shutdown_event e \<and> process_step ''/srv'' (env_of ex_start_config) (\<lambda>_. None) 0 e p1 q"
proof -
  obtain s p where run: "process_run ''/srv'' (env_of ex_start_config) (\<lambda>_. None) 0 [Started] (launched ex_empty_world) p"
    and up: "prPhase p = Up s" and idle: "prActive p = []" using ex_started by (fastforce simp: launched_def)
  note stop = process_step.signal [OF up, of "''/srv''" "env_of ex_start_config" "\<lambda>_. None" 0]
  have abs: "HasPrefix ''/srv'' [slash]" by (simp add: slash_def)
  from shutdown_completes [OF abs ex_empty_inv run up stop _ process_run.nothing] stop
  have "\<exists>e q. shutdown_event e \<and> process_step ''/srv'' (env_of ex_start_config) (\<lambda>_. None) 0 e
      (p\<lparr>prPhase := Stopping s None (wnow (shWorld (prShared p)) + shutdownTimeout) [0..<length (prServers p)]\<rparr>) q"
    using idle by (auto elim: process_step.cases)
  with run stop show ?thesis by (fastforce simp: shutdownTimeout_def)
qed

end
