(* ===== verification/Spec2Isabelle.thy ===== *)
theory Spec2Isabelle
  imports FormatProperties StorageProperties ServerProperties RequestProperties WireProperties ServingProperties SchemaProperties
    ConcurrencyProperties ProcessProperties
begin

text \<open>
  s3bender, an S3-like object server written in Go: a model of \<open>engine/internal/server\<close> and of
  \<open>engine/main.go\<close>, with the theorems that make it correct.

  \<^bold>\<open>The program.\<close>  Buckets are directories below one storage root, objects are files in them, and what a
  file cannot say (content type, visibility, ETag) is in a JSON sidecar under \<open>.meta\<close>.  A SQLite database
  holds the buckets with their sealed secrets and an index of the objects, which is rebuilt from the disk when
  it is missing.  Requests are authenticated per bucket by an HMAC-SHA256 signature in a header or in a
  presigned URL, or let in because the object is public; the routes below \<open>/admin\<close> ask for a fixed key.

  \<^bold>\<open>The model.\<close>  One state, \<open>world\<close> of theory World, holds the file system, the tables, the clock and the
  list of faults the environment will inject.  Everything that touches it is an \<open>action\<close>, a function from
  the state to a result or an error and the new state, and every system call and every SQL statement may fail,
  a write also half way.  An error is a \<open>go_error\<close>: an \<open>APIError\<close>, an error number, a database error or a
  plain error.  A handler takes a \<open>request\<close> and is an action that returns a \<open>response\<close>; the middleware and
  the router are functions from a request and a state to a response and a state.  Random bytes come with the
  request (\<open>rEntropy\<close>), so that statements about what is drawn hold for all of them.

  \<^bold>\<open>Theories, in the order of the imports.\<close>
  \<^item> Prelude, GoStrings, Encodings, Base64, Hashes, Aead: Go strings as byte lists and the parts of the
    standard library the code calls: \<open>strings\<close>, \<open>unicode/utf8\<close>, \<open>strconv\<close>, \<open>encoding/hex\<close>,
    \<open>encoding/base64\<close>, MD5, SHA-256, HMAC, AES-256 and GCM.  The locales \<open>codec\<close>, \<open>token_codec\<close> and
    \<open>aead\<close> say what the code relies on; each is interpreted on these definitions.
  \<^item> ApiErrors (\<open>errors.go\<close>), Config (\<open>config.go\<close>), Crypto (\<open>crypto.go\<close>, with the locale
    \<open>signature_scheme\<close>).
  \<^item> Paths, FileSystem, World: \<open>path/filepath\<close>, the directory tree and its system calls, the state, the
    actions with their invariant rules (\<open>keeps\<close>) and outcome rules (\<open>triple\<close>).
  \<^item> DbTime, Tables, Store: \<open>store.go\<close>.  DbTime holds the calendar and the text format of time columns,
    Tables the rows and one function per SQL statement (the locale \<open>object_index\<close> states what the index
    promises), Store the methods with their transactions.  Schema goes below the tables to the database file:
    the columns, keys and indexes of \<open>schema\<close>, its statements and the migration in \<open>OpenStore\<close>, cells and how
    rows are bound and scanned, the data source name; SchemaLaws shows that opening and inserting implement what
    the tables do.
  \<^item> Json, JsonFuel, Sidecar: \<open>encoding/json\<close> as far as the code decodes with it, why its fuel is enough,
    and the sidecar functions of \<open>storage.go\<close>.
  \<^item> Storage: the object operations of \<open>storage.go\<close>.  StorageSafety shows that they stay below their
    bucket, StorageOps what they do when nothing fails, StorageFaults what is true whatever fails,
    StorageIndex the reindexing pass, StorageList the pagination (the locale \<open>key_pages\<close>), StorageTidy that
    no empty directories stay behind, TreeNames that the tree holds proper names only, StorageRefine that they
    implement a map from buckets and keys to bytes.
  \<^item> Http, Auth, Handlers, Router: \<open>net/http\<close> and \<open>net/url\<close> values, \<open>auth.go\<close>, \<open>handlers.go\<close>,
    \<open>server.go\<close>.  AuthLaws characterises who is let in by the relation \<open>grants\<close>; ServerLaws,
    PresignLaws, AdminLaws and AccessLaws the requests without an identity, presigned URLs, the admin routes
    and what an identity allows.  Pipeline lifts an invariant from the handlers to the whole server (the
    locale \<open>request_invariant\<close>) and defines the reachable states; Invariants and Ownership interpret it for
    the well-formed state and for index rows that belong to a bucket.  SignedRequests follows a signed request
    for one object through the whole pipeline; Responses types the answers (\<open>gives\<close>, \<open>well_typed\<close>).
    \<open>Handler\<close> is the pipeline up to the response; the status of a response that serves a file is the 200 that
    \<open>http.ServeContent\<close> starts from.
  \<^item> Wire, WireList, IssuedKeys: the JSON text of the answers (\<open>writeJSON\<close> and the struct tags of
    \<open>handlers.go\<close>, \<open>errors.go\<close> and \<open>storage.go\<close>), the decoder of a client, listing a bucket through both, and
    the keys a client reads from the answer to creating a bucket.
  \<^item> HttpDate, ContentServing, ServingLaws: \<open>http.ServeContent\<close>, to which \<open>getObject\<close> and \<open>serveStatic\<close> leave the
    request's conditions and ranges: dates of headers, entity tags, preconditions, ranges, and the status, headers
    and bytes of the answer on the wire (\<open>respond\<close>).  \<open>ServeHTTP\<close> is \<open>Handler\<close> followed by it, the whole server
    as its client sees it.
  \<^item> Concurrency: a reindexing pass of \<open>storage.go\<close> as a sequence of phases, one call each, and the steps of
    passes under the lock of their bucket between requests.
  \<^item> Process: \<open>main.go\<close>, the goroutines of \<open>run\<close> as a labelled transition relation over that shared state,
    with the requests the listeners have accepted, the calls of \<open>Shutdown\<close> and their deadline.
  \<^item> Examples, ServerExamples: a small concrete server for the instances of the theorems.
  \<^item> FormatProperties, StorageProperties, ServerProperties, RequestProperties, WireProperties,
    ServingProperties, SchemaProperties, ConcurrencyProperties, ProcessProperties and this theory: the numbered properties.

  \<^bold>\<open>Bounds and fuel.\<close>  \<open>int64\<close> values that the code computes with (timestamps, expiries, configured limits)
  are \<open>64 word\<close>; sizes and counts, which only memory bounds, are \<open>int\<close> and \<open>nat\<close>.  The loop of
  \<open>removeEmptyParents\<close> runs on fuel: the length of the path, since each turn shortens it.  The JSON decoder
  runs on \<open>2 * length s + 2\<close> units, two calls for each byte, and keeps the decoder's nesting limit of 10000.
  \<open>list_all_pages\<close> and \<open>follow_pages\<close>, the clients that follow cursors, have one page per row and one more;
  \<open>fetch\<close>, the client that downloads \<open>k\<close> bytes at a time, has two requests more than \<open>length d div k\<close>.

  \<^bold>\<open>Not modelled.\<close>  \<open>wwwroot/embed.go\<close> compiles the console's assets into the
  binary; they are an argument (\<open>console\<close>). SQLite is its documented behaviour: the meaning of the
  statements is written out, the text of its errors is an argument, pragmas have no effect, and \<open>Close\<close>
  only releases handles. Of \<open>http.ServeContent\<close> the type of an asset by name and content, the two
  obsolete date formats and the random boundary of several parts are arguments (\<open>net\<close>); the headers
  \<open>net/http\<close> adds to every answer are left out. Logging has no state. No definition of the model
  panics, so \<open>recoverPanics\<close> changes no answer of \<open>Handler\<close>. Requests are handled one
  after the other, and within one request every call can fail; what interleaves with them call by call are the
  reindexing passes; a request that has been accepted may be answered at any later time. The time limits of connections are
  values without effect, and an idle connection does not hold the shutdown up. A request that reindexes runs as
  one action and does not ask for the lock of its bucket, so the model allows more than the code does.
\<close>

section \<open>The server as a whole\<close>

text \<open>
  C12.  The invariant of all requests.  From a state with a well-formed directory tree of proper names,
  well-formed tables (no two buckets with one name or one access key, no two rows with one bucket and key, no
  row without its bucket) and bucket names that are single path components, every sequence of requests,
  reindexing passes, clock ticks and faults leads to such a state.
\<close>

theorem reachable_states_are_sound:
  assumes "storage_at rs (storage s)" "server_inv w" "fs_names (wfs w)" "no_orphans (wdb w)" and "server_reaches s w w'"
  shows "fs_wf (wfs w') \<and> fs_names (wfs w') \<and> db_wf (wdb w') \<and> no_orphans (wdb w') \<and>
    (\<forall>b\<in>set (tblBuckets (wdb w')). bucket_ok (Name b))"
  using inv.reaches_inv [OF assms(5,1)] rows.reaches_inv [OF assms(5,1)] assms(2-4)
  by (simp add: tree_inv_def owned_inv_def server_inv_def names_ok_def)

theorem reachable_states_are_sound_witness:
  "no_orphans (wdb (snd (Handler ex_server 0 False ex_follow ex_world)))"
proof -
  have "entropy_ok ex_follow" by (simp add: entropy_ok_def ex_follow_def ex_request_def slash_def)
  then have "server_reaches ex_server ex_world (snd (Handler ex_server 0 False ex_follow ex_world))"
    by (rule server_reaches.next_step [OF server_reaches.start server_step.request [OF _ prod.collapse [symmetric]]])
  from reachable_states_are_sound [OF _ ex_inv _ _ this, of "[''data'']"] ex_storage_at show ?thesis
    by (simp add: no_orphans_def ex_db_def ex_row_def ex_fs_names)
qed

text \<open>
  C40.  Construction.  A server that comes up has a storage root that is an absolute clean path and a 32-byte
  master key that its configuration spells in base64; coming up changes no table.  Without a usable master key
  nothing is touched.
\<close>

theorem new_server_ready:
  assumes "HasPrefix cwd [slash]" and "New cwd c fsys w = (res, w')"
  shows "wdb w' = wdb w \<and> (fs_ok w \<longrightarrow> fs_ok w') \<and>
    (case res of
      Inr s \<Rightarrow> cfg s = c \<and> console s = fsys \<and> (\<exists>rs. storage_at rs (storage s)) \<and>
        (\<exists>key. StdDecode (MasterKey c) = Some key \<and> length key = 32 \<and> crypto s = \<lparr>aead_key = key\<rparr>)
    | Inl e \<Rightarrow> (\<forall>key. StdDecode (MasterKey c) = Some key \<longrightarrow> length key \<noteq> 32) \<longrightarrow> w' = w)"
  using New_effects [OF assms(2)] New_server [OF assms(1), of c fsys w] New_bad_key [OF _ assms(2)] assms(2)
  by (cases res) auto

theorem new_server_ready_witness:
  "\<exists>s w'. New ''/srv'' ex_start_config (\<lambda>_. None) ex_empty_world = (Inr s, w') \<and> length (aead_key (crypto s)) = 32"
proof -
  obtain s w' where run: "New ''/srv'' ex_start_config (\<lambda>_. None) ex_empty_world = (Inr s, w')"
    using ex_start_run by (cases "New ''/srv'' ex_start_config (\<lambda>_. None) ex_empty_world") (auto split: sum.splits)
  from new_server_ready [OF _ this] show ?thesis by (auto simp: run slash_def)
qed

end
